(* ===== verification/Prelude.thy ===== *)
theory Prelude
  imports Main "HOL-Library.Word" "HOL-Library.Multiset" "HOL-Library.Sublist"
    "HOL-Library.List_Lexorder" "HOL-Library.Char_ord"
begin

text \<open>
  Shared material of the development: C++ exceptions as values of a sum type, the fragment of
  \<^verbatim>\<open>std::string\<close> and of the unsigned \<^verbatim>\<open>std::size_t\<close> arithmetic the sources use,
  \<^verbatim>\<open>std::sort\<close> with a user-supplied comparator, and the interface (a locale) such a
  comparator has to meet. The collections \<open>res_simps\<close> and \<open>sort_simps\<close> gather the rules the
  component theories hand to \<open>simp\<close> and \<open>auto\<close>.
\<close>

named_theorems res_simps "rules for computations that may throw"
named_theorems sort_simps "facts about sorting with a comparator"

section \<open>Exceptions as values\<close>

text \<open>
  One constructor per exception class that is thrown or caught by name in the sources; the
  argument is the message. \<open>Json_exception\<close> stands for the exceptions of nlohmann::json and
  \<open>Other_exception\<close> for everything a library may throw besides.
\<close>

datatype exn =
    Invalid_argument string
  | Runtime_error string
  | Logic_error string
  | Overflow_error string
  | System_error string
  | Json_exception string
  | Other_exception string

type_synonym 'a res = "exn + 'a"

definition res_bind :: "'a res \<Rightarrow> ('a \<Rightarrow> 'b res) \<Rightarrow> 'b res" where
  "res_bind m f = (case m of Inl e \<Rightarrow> Inl e | Inr x \<Rightarrow> f x)"

lemma res_bind_Inl [simp, res_simps]: "res_bind (Inl e) f = Inl e"
  and res_bind_Inr [simp, res_simps]: "res_bind (Inr x) f = f x"
  by (simp_all add: res_bind_def)

lemma res_bind_eq_Inr_iff [res_simps]:
  "res_bind m f = Inr y \<longleftrightarrow> (\<exists>x. m = Inr x \<and> f x = Inr y)"
  by (cases m) simp_all

lemma res_bind_eq_Inl_iff [res_simps]:
  "res_bind m f = Inl e \<longleftrightarrow> m = Inl e \<or> (\<exists>x. m = Inr x \<and> f x = Inl e)"
  by (cases m) simp_all

lemma res_bind_cong [fundef_cong]:
  "m = m' \<Longrightarrow> (\<And>x. m' = Inr x \<Longrightarrow> f x = g x) \<Longrightarrow> res_bind m f = res_bind m' g"
  by (cases m') simp_all

text \<open>A loop that applies a throwing function to every element, in order.\<close>

fun res_map :: "('a \<Rightarrow> 'b res) \<Rightarrow> 'a list \<Rightarrow> 'b list res" where
  "res_map f [] = Inr []"
| "res_map f (x # xs) = res_bind (f x) (\<lambda>y. res_bind (res_map f xs) (\<lambda>ys. Inr (y # ys)))"

lemma res_map_Inr_length: "res_map f xs = Inr ys \<Longrightarrow> length ys = length xs"
  by (induction xs arbitrary: ys) (auto simp: res_simps)

lemma res_map_Inr_nth:
  "res_map f xs = Inr ys \<Longrightarrow> i < length xs \<Longrightarrow> f (xs ! i) = Inr (ys ! i)"
proof (induction xs arbitrary: ys i)
  case (Cons x xs)
  then show ?case by (cases i) (auto simp: res_simps)
qed simp

lemma res_map_eq_map: "(\<And>x. x \<in> set xs \<Longrightarrow> f x = Inr (g x)) \<Longrightarrow> res_map f xs = Inr (map g xs)"
  by (induction xs) simp_all

section \<open>Unsigned 64-bit arithmetic on \<open>nat\<close>\<close>

text \<open>
  \<^verbatim>\<open>std::size_t\<close> is 64 bits wide on the supported platforms. Sizes of containers and indices
  into them are plain \<open>nat\<close>; sums and differences of caller-supplied values, which can wrap
  around, are written with the two operations below.
\<close>

abbreviation size_max :: nat where
  "size_max \<equiv> 18446744073709551615"

definition sz_add :: "nat \<Rightarrow> nat \<Rightarrow> nat" where
  "sz_add a b = (a + b) mod (size_max + 1)"

definition sz_sub :: "nat \<Rightarrow> nat \<Rightarrow> nat" where
  "sz_sub a b = nat ((int a - int b) mod (int size_max + 1))"

lemma sz_add_small [simp]: "a + b \<le> size_max \<Longrightarrow> sz_add a b = a + b"
  by (simp add: sz_add_def)

lemma sz_sub_small [simp]: "b \<le> a \<Longrightarrow> a \<le> size_max \<Longrightarrow> sz_sub a b = a - b"
  by (simp add: sz_sub_def mod_pos_pos_trivial nat_diff_distrib)

section \<open>Strings\<close>

text \<open>\<open>std::to_string\<close> of an unsigned integer: its decimal digits, no leading zero.\<close>

definition digit_char :: "nat \<Rightarrow> char" where
  "digit_char d = char_of (48 + d)"

fun string_of_nat :: "nat \<Rightarrow> string" where
  "string_of_nat n = (if n < 10 then [digit_char n]
     else string_of_nat (n div 10) @ [digit_char (n mod 10)])"

declare string_of_nat.simps [simp del]

definition string_of_int :: "int \<Rightarrow> string" where
  "string_of_int z = (if z < 0 then ''-'' @ string_of_nat (nat (- z)) else string_of_nat (nat z))"

text \<open>A string passed or returned as a C string is cut at its first zero byte.\<close>

definition c_str :: "string \<Rightarrow> string" where
  "c_str s = takeWhile (\<lambda>c. c \<noteq> CHR 0x00) s"

lemma c_str_id [simp]: "CHR 0x00 \<notin> set s \<Longrightarrow> c_str s = s"
  unfolding c_str_def by (induction s) auto

text \<open>\<open>std::isdigit\<close>, \<open>std::isalnum\<close> and \<open>std::isspace\<close> in the C locale.\<close>

definition is_digit :: "char \<Rightarrow> bool" where
  "is_digit c = (48 \<le> (of_char c :: nat) \<and> (of_char c :: nat) \<le> 57)"

definition is_alnum :: "char \<Rightarrow> bool" where
  "is_alnum c = (let b = (of_char c :: nat) in
     (48 \<le> b \<and> b \<le> 57) \<or> (65 \<le> b \<and> b \<le> 90) \<or> (97 \<le> b \<and> b \<le> 122))"

definition is_space :: "char \<Rightarrow> bool" where
  "is_space c = (let b = (of_char c :: nat) in b = 32 \<or> (9 \<le> b \<and> b \<le> 13))"

definition digit_value :: "char \<Rightarrow> nat" where
  "digit_value c = of_char c - 48"

fun digits_value :: "nat \<Rightarrow> string \<Rightarrow> nat" where
  "digits_value acc [] = acc"
| "digits_value acc (c # cs) = digits_value (10 * acc + digit_value c) cs"

text \<open>\<open>haystack.find(needle) != npos\<close> and \<open>s.starts_with(p)\<close>.\<close>

fun starts_with :: "string \<Rightarrow> string \<Rightarrow> bool" where
  "starts_with s [] = True"
| "starts_with [] (p # ps) = False"
| "starts_with (c # s) (p # ps) = (c = p \<and> starts_with s ps)"

fun contains :: "string \<Rightarrow> string \<Rightarrow> bool" where
  "contains [] needle = (needle = [])"
| "contains (c # s) needle = (starts_with (c # s) needle \<or> contains s needle)"

lemma starts_with_prefix: "starts_with s p \<longleftrightarrow> prefix p s"
  by (induction s p rule: starts_with.induct) auto

lemma contains_sublist: "contains s needle \<longleftrightarrow> sublist needle s"
  by (induction s needle rule: contains.induct)
    (auto simp: starts_with_prefix sublist_Cons_right)

lemma digit_char_code [simp]: "d < 10 \<Longrightarrow> (of_char (digit_char d) :: nat) = 48 + d"
  by (simp add: digit_char_def)

lemma string_of_nat_nonempty [simp]: "string_of_nat n \<noteq> []"
  by (subst string_of_nat.simps) simp

lemma string_of_nat_digits: "\<forall>c \<in> set (string_of_nat n). is_digit c"
proof (induction n rule: string_of_nat.induct)
  case (1 n)
  then show ?case
    by (subst string_of_nat.simps) (auto simp: is_digit_def)
qed

lemma digits_value_append:
  "digits_value acc (xs @ [c]) = 10 * digits_value acc xs + digit_value c"
  by (induction acc xs rule: digits_value.induct) simp_all

lemma digits_value_string_of_nat: "digits_value 0 (string_of_nat n) = n"
proof (induction n rule: string_of_nat.induct)
  case (1 n)
  then show ?case
    by (subst string_of_nat.simps) (auto simp: digits_value_append digit_value_def)
qed

lemma string_of_nat_inject [simp]: "string_of_nat m = string_of_nat n \<longleftrightarrow> m = n"
  by (metis digits_value_string_of_nat)


section \<open>Sorting with a comparator\<close>

text \<open>
  \<^verbatim>\<open>std::sort(begin, end, lt)\<close> leaves the elements in an order in which no later element is
  \<open>lt\<close>-before an earlier one, provided \<open>lt\<close> is a strict weak ordering of the elements;
  otherwise its behaviour is undefined. Where the elements are pairwise comparable there is exactly
  one such order, so that insertion computes the order the library computes.
\<close>

fun insert_by :: "('a \<Rightarrow> 'a \<Rightarrow> bool) \<Rightarrow> 'a \<Rightarrow> 'a list \<Rightarrow> 'a list" where
  "insert_by lt x [] = [x]"
| "insert_by lt x (y # ys) = (if lt y x then y # insert_by lt x ys else x # y # ys)"

fun sort_by :: "('a \<Rightarrow> 'a \<Rightarrow> bool) \<Rightarrow> 'a list \<Rightarrow> 'a list" where
  "sort_by lt [] = []"
| "sort_by lt (x # xs) = insert_by lt x (sort_by lt xs)"

abbreviation in_order :: "('a \<Rightarrow> 'a \<Rightarrow> bool) \<Rightarrow> 'a list \<Rightarrow> bool" where
  "in_order lt \<equiv> sorted_wrt (\<lambda>x y. \<not> lt y x)"

lemma mset_insert_by [simp, sort_simps]: "mset (insert_by lt x xs) = add_mset x (mset xs)"
  by (induction xs) auto

lemma mset_sort_by [simp, sort_simps]: "mset (sort_by lt xs) = mset xs"
  by (induction xs) simp_all

lemma set_sort_by [simp, sort_simps]: "set (sort_by lt xs) = set xs"
  by (metis mset_sort_by set_mset_mset)

lemma set_insert_by [simp, sort_simps]: "set (insert_by lt x xs) = insert x (set xs)"
  by (induction xs) auto

lemma length_sort_by [simp, sort_simps]: "length (sort_by lt xs) = length xs"
  by (metis mset_sort_by size_mset)

lemma distinct_sort_by [simp, sort_simps]: "distinct (sort_by lt xs) = distinct xs"
  by (metis distinct_count_atmost_1 mset_sort_by set_sort_by)

text \<open>
  The contract of a comparator: on the elements that satisfy \<open>ok\<close> it is asymmetric and
  negatively transitive, i.e. a strict weak ordering.
\<close>

locale comparator =
  fixes lt :: "'a \<Rightarrow> 'a \<Rightarrow> bool" and ok :: "'a \<Rightarrow> bool"
  assumes asym: "ok x \<Longrightarrow> ok y \<Longrightarrow> lt x y \<Longrightarrow> \<not> lt y x"
    and neg_trans: "ok x \<Longrightarrow> ok y \<Longrightarrow> ok z \<Longrightarrow> lt x z \<Longrightarrow> lt x y \<or> lt y z"
begin

lemma insert_by_in_order:
  "ok x \<Longrightarrow> list_all ok ys \<Longrightarrow> in_order lt ys \<Longrightarrow> in_order lt (insert_by lt x ys)"
proof (induction ys)
  case (Cons y ys)
  then have oks: "ok y" "\<And>z. z \<in> set ys \<Longrightarrow> ok z"
    by (auto simp: list_all_iff)
  show ?case
  proof (cases "lt y x")
    case True
    with Cons oks asym [of y x] show ?thesis by auto
  next
    case False
    with Cons.prems oks have "\<not> lt z x" if "z \<in> set ys" for z
      using that neg_trans [of z y x] by auto
    with False Cons.prems show ?thesis by auto
  qed
qed simp

lemma sort_by_in_order: "list_all ok xs \<Longrightarrow> in_order lt (sort_by lt xs)"
  by (induction xs) (auto intro!: insert_by_in_order simp: list_all_iff)

text \<open>Two orders of the same pairwise comparable elements are equal.\<close>

lemma in_order_unique:
  assumes "mset xs = mset ys" and "in_order lt xs" and "in_order lt ys"
    and "\<forall>x \<in> set xs. \<forall>y \<in> set xs. x \<noteq> y \<longrightarrow> lt x y \<or> lt y x"
  shows "xs = ys"
  using assms
proof (induction xs arbitrary: ys)
  case (Cons x xs)
  then obtain y ys' where ys: "ys = y # ys'" by (cases ys) auto
  have "x \<in> set ys" "y \<in> set (x # xs)"
    using Cons.prems(1) ys by (metis list.set_intros(1) set_mset_mset)+
  then have "\<not> lt y x \<or> x = y" "\<not> lt x y \<or> x = y"
    using Cons.prems(2,3) ys by auto
  then have "x = y" using Cons.prems(4) \<open>y \<in> set (x # xs)\<close> by auto
  moreover have "xs = ys'"
    using Cons.prems ys \<open>x = y\<close> by (intro Cons.IH) auto
  ultimately show ?case by (simp add: ys)
qed simp

lemma sort_by_unique:
  assumes "mset xs = mset ys" and "list_all ok xs"
    and "\<forall>x \<in> set xs. \<forall>y \<in> set xs. x \<noteq> y \<longrightarrow> lt x y \<or> lt y x"
  shows "sort_by lt xs = sort_by lt ys"
proof -
  have "list_all ok ys"
    using assms(1,2) by (metis list_all_iff set_mset_mset)
  then show ?thesis
    using assms by (intro in_order_unique) (auto intro: sort_by_in_order)
qed

text \<open>What a truncated sorted list leaves out is not before anything it keeps.\<close>

lemma take_sort_by_best:
  assumes "list_all ok xs" and "x \<in> set (take k (sort_by lt xs))"
    and "y \<in> set (drop k (sort_by lt xs))"
  shows "\<not> lt y x"
proof -
  have "in_order lt (take k (sort_by lt xs) @ drop k (sort_by lt xs))"
    using assms(1) by (simp add: sort_by_in_order)
  then show ?thesis
    using assms(2,3) unfolding sorted_wrt_append by blast
qed

lemma take_sort_by_in_order: "list_all ok xs \<Longrightarrow> in_order lt (take k (sort_by lt xs))"
  by (rule sorted_wrt_take [OF sort_by_in_order])

end

text \<open>The byte-wise order of strings meets the contract.\<close>

interpretation string_order: comparator "(<) :: string \<Rightarrow> string \<Rightarrow> bool" "\<lambda>_. True"
  by unfold_locales auto

end
