(* ===== verification/Floats.thy ===== *)
theory Floats
  imports Prelude
begin

text \<open>
  IEEE 754 binary floating point as the C++ \<open>float\<close> and \<open>double\<close> of the sources compute it:
  a value is its bit pattern, and an arithmetic operation computes the exact result as a fraction of
  natural numbers and rounds it once, to nearest with ties to even. No fused multiply-add and no
  excess precision are assumed, as on the x86-64 and AArch64 targets of the build without
  contraction. The payload of a NaN is never inspected by the sources; operations return one
  quiet NaN.
\<close>

section \<open>Formats\<close>

text \<open>
  A format has \<open>fp_prec\<close> significand bits (the hidden one included) and its smallest positive
  value is \<open>1 / 2 ^ fp_scale\<close>. A pattern is a natural number: the magnitude bits plus
  \<open>fp_sgn\<close> when the sign bit is set. Magnitudes from \<open>fp_inf\<close> on are infinity and NaN.
\<close>

record fp_format =
  fp_prec :: nat
  fp_scale :: nat
  fp_inf :: nat
  fp_sgn :: nat

definition binary32 :: fp_format where
  "binary32 = \<lparr>fp_prec = 24, fp_scale = 149, fp_inf = 0x7F800000, fp_sgn = 0x80000000\<rparr>"

definition binary64 :: fp_format where
  "binary64 = \<lparr>fp_prec = 53, fp_scale = 1074, fp_inf = 0x7FF0000000000000,
     fp_sgn = 0x8000000000000000\<rparr>"

definition fp_neg :: "fp_format \<Rightarrow> nat \<Rightarrow> bool" where
  "fp_neg f b = (fp_sgn f \<le> b)"

definition fp_mag :: "fp_format \<Rightarrow> nat \<Rightarrow> nat" where
  "fp_mag f b = b mod fp_sgn f"

definition fp_isnan :: "fp_format \<Rightarrow> nat \<Rightarrow> bool" where
  "fp_isnan f b = (fp_inf f < fp_mag f b)"

definition fp_isinf :: "fp_format \<Rightarrow> nat \<Rightarrow> bool" where
  "fp_isinf f b = (fp_mag f b = fp_inf f)"

definition fp_isfinite :: "fp_format \<Rightarrow> nat \<Rightarrow> bool" where
  "fp_isfinite f b = (fp_mag f b < fp_inf f)"

definition fp_pack :: "fp_format \<Rightarrow> bool \<Rightarrow> nat \<Rightarrow> nat" where
  "fp_pack f neg m = (if neg then fp_sgn f + m else m)"

definition fp_nan :: "fp_format \<Rightarrow> nat" where
  "fp_nan f = fp_inf f + 2 ^ (fp_prec f - 2)"

text \<open>
  The magnitude of a finite pattern in units of \<open>1 / 2 ^ fp_scale\<close>: a natural number.
\<close>

definition fp_hidden :: "fp_format \<Rightarrow> nat" where
  "fp_hidden f = 2 ^ (fp_prec f - 1)"

definition fp_units :: "fp_format \<Rightarrow> nat \<Rightarrow> nat" where
  "fp_units f m = (let h = fp_hidden f; e = m div h; r = m mod h
     in if e = 0 then r else (h + r) * 2 ^ (e - 1))"

section \<open>Rounding\<close>

definition div_half_even :: "nat \<Rightarrow> nat \<Rightarrow> nat" where
  "div_half_even a b = (let q = a div b; r = a mod b
     in if 2 * r < b \<or> (2 * r = b \<and> even q) then q else q + 1)"

fun bit_length :: "nat \<Rightarrow> nat" where
  "bit_length n = (if n = 0 then 0 else Suc (bit_length (n div 2)))"

declare bit_length.simps [simp del]

text \<open>
  The magnitude bits of the value nearest to \<open>num / den\<close>: \<open>s\<close> is the exponent of the unit in
  the last place, and a significand that rounds up to \<open>2 ^ fp_prec\<close> carries into the exponent
  field by itself. Results beyond the largest finite value are infinity.
\<close>

definition fp_round :: "fp_format \<Rightarrow> nat \<Rightarrow> nat \<Rightarrow> nat" where
  "fp_round f num den = (let n = num * 2 ^ fp_scale f;
       s = bit_length (n div den) - fp_prec f
     in min (fp_inf f) (s * fp_hidden f + div_half_even n (den * 2 ^ s)))"

section \<open>Arithmetic\<close>

definition fp_value :: "fp_format \<Rightarrow> nat \<Rightarrow> int" where
  "fp_value f b = (if fp_neg f b then - int (fp_units f (fp_mag f b))
     else int (fp_units f (fp_mag f b)))"

definition fp_add :: "fp_format \<Rightarrow> nat \<Rightarrow> nat \<Rightarrow> nat" where
  "fp_add f a b = (
     if fp_isnan f a \<or> fp_isnan f b then fp_nan f
     else if fp_isinf f a then (if fp_isinf f b \<and> fp_neg f a \<noteq> fp_neg f b then fp_nan f else a)
     else if fp_isinf f b then b
     else let z = fp_value f a + fp_value f b
       in if z = 0 then fp_pack f (fp_neg f a \<and> fp_neg f b) 0
          else fp_pack f (z < 0) (fp_round f (nat \<bar>z\<bar>) (2 ^ fp_scale f)))"

definition fp_negate :: "fp_format \<Rightarrow> nat \<Rightarrow> nat" where
  "fp_negate f b = fp_pack f (\<not> fp_neg f b) (fp_mag f b)"

definition fp_sub :: "fp_format \<Rightarrow> nat \<Rightarrow> nat \<Rightarrow> nat" where
  "fp_sub f a b = fp_add f a (fp_negate f b)"

definition fp_mul :: "fp_format \<Rightarrow> nat \<Rightarrow> nat \<Rightarrow> nat" where
  "fp_mul f a b = (let neg = (fp_neg f a \<noteq> fp_neg f b); m = fp_mag f a; n = fp_mag f b in
     if fp_isnan f a \<or> fp_isnan f b then fp_nan f
     else if fp_isinf f a \<or> fp_isinf f b
       then (if m = 0 \<or> n = 0 then fp_nan f else fp_pack f neg (fp_inf f))
     else fp_pack f neg (fp_round f (fp_units f m * fp_units f n) (2 ^ (2 * fp_scale f))))"

definition fp_div :: "fp_format \<Rightarrow> nat \<Rightarrow> nat \<Rightarrow> nat" where
  "fp_div f a b = (let neg = (fp_neg f a \<noteq> fp_neg f b); m = fp_mag f a; n = fp_mag f b in
     if fp_isnan f a \<or> fp_isnan f b then fp_nan f
     else if fp_isinf f a then (if fp_isinf f b then fp_nan f else fp_pack f neg (fp_inf f))
     else if fp_isinf f b then fp_pack f neg 0
     else if n = 0 then (if m = 0 then fp_nan f else fp_pack f neg (fp_inf f))
     else fp_pack f neg (fp_round f (fp_units f m) (fp_units f n)))"

text \<open>
  Comparison: the magnitude bits order the non-negative values, so that the signed magnitude orders
  all of them and identifies the two zeros; NaN compares false with everything.
\<close>

definition fp_key :: "fp_format \<Rightarrow> nat \<Rightarrow> int" where
  "fp_key f b = (if fp_neg f b then - int (fp_mag f b) else int (fp_mag f b))"

definition fp_less :: "fp_format \<Rightarrow> nat \<Rightarrow> nat \<Rightarrow> bool" where
  "fp_less f a b = (\<not> fp_isnan f a \<and> \<not> fp_isnan f b \<and> fp_key f a < fp_key f b)"

definition fp_equal :: "fp_format \<Rightarrow> nat \<Rightarrow> nat \<Rightarrow> bool" where
  "fp_equal f a b = (\<not> fp_isnan f a \<and> \<not> fp_isnan f b \<and> fp_key f a = fp_key f b)"

section \<open>The types \<open>float\<close> and \<open>double\<close>\<close>

type_synonym float32 = "32 word"
type_synonym float64 = "64 word"

definition f32_add :: "float32 \<Rightarrow> float32 \<Rightarrow> float32" where
  "f32_add a b = of_nat (fp_add binary32 (unat a) (unat b))"

definition f32_sub :: "float32 \<Rightarrow> float32 \<Rightarrow> float32" where
  "f32_sub a b = of_nat (fp_sub binary32 (unat a) (unat b))"

definition f32_mul :: "float32 \<Rightarrow> float32 \<Rightarrow> float32" where
  "f32_mul a b = of_nat (fp_mul binary32 (unat a) (unat b))"

definition f32_div :: "float32 \<Rightarrow> float32 \<Rightarrow> float32" where
  "f32_div a b = of_nat (fp_div binary32 (unat a) (unat b))"

definition f32_of_nat :: "nat \<Rightarrow> float32" where
  "f32_of_nat n = of_nat (fp_round binary32 n 1)"

definition f32_less :: "float32 \<Rightarrow> float32 \<Rightarrow> bool" where
  "f32_less a b = fp_less binary32 (unat a) (unat b)"

definition f32_equal :: "float32 \<Rightarrow> float32 \<Rightarrow> bool" where
  "f32_equal a b = fp_equal binary32 (unat a) (unat b)"

definition f32_isnan :: "float32 \<Rightarrow> bool" where
  "f32_isnan a = fp_isnan binary32 (unat a)"

definition f32_isfinite :: "float32 \<Rightarrow> bool" where
  "f32_isfinite a = fp_isfinite binary32 (unat a)"

definition f64_div :: "float64 \<Rightarrow> float64 \<Rightarrow> float64" where
  "f64_div a b = of_nat (fp_div binary64 (unat a) (unat b))"

definition f64_add :: "float64 \<Rightarrow> float64 \<Rightarrow> float64" where
  "f64_add a b = of_nat (fp_add binary64 (unat a) (unat b))"

definition f64_mul :: "float64 \<Rightarrow> float64 \<Rightarrow> float64" where
  "f64_mul a b = of_nat (fp_mul binary64 (unat a) (unat b))"

definition f64_of_nat :: "nat \<Rightarrow> float64" where
  "f64_of_nat n = of_nat (fp_round binary64 n 1)"

text \<open>
  Conversion between formats, and the correctly rounded square root: the integer root of the value
  scaled up has far more bits than the result, so that a sticky bit for a remainder decides the rounding.
\<close>

definition fp_convert :: "fp_format \<Rightarrow> fp_format \<Rightarrow> nat \<Rightarrow> nat" where
  "fp_convert f g b = (
     if fp_isnan f b then fp_nan g
     else if fp_isinf f b then fp_pack g (fp_neg f b) (fp_inf g)
     else fp_pack g (fp_neg f b) (fp_round g (fp_units f (fp_mag f b)) (2 ^ fp_scale f)))"

fun isqrt :: "nat \<Rightarrow> nat" where
  "isqrt n = (if n = 0 then 0 else let r = 2 * isqrt (n div 4) in if (r + 1) ^ 2 \<le> n then r + 1 else r)"

declare isqrt.simps [simp del]

definition fp_sqrt :: "fp_format \<Rightarrow> nat \<Rightarrow> nat" where
  "fp_sqrt f b = (
     if fp_isnan f b \<or> (fp_neg f b \<and> fp_mag f b \<noteq> 0) then fp_nan f
     else if fp_isinf f b \<or> fp_mag f b = 0 then b
     else let n = fp_units f (fp_mag f b) * 2 ^ fp_scale f; q = isqrt n
       in fp_pack f False (fp_round f (2 * q + (if q * q = n then 0 else 1)) (2 ^ (fp_scale f + 1))))"

definition f64_of_f32 :: "float32 \<Rightarrow> float64" where
  "f64_of_f32 a = of_nat (fp_convert binary32 binary64 (unat a))"

definition f32_of_f64 :: "float64 \<Rightarrow> float32" where
  "f32_of_f64 a = of_nat (fp_convert binary64 binary32 (unat a))"

definition f64_sqrt :: "float64 \<Rightarrow> float64" where
  "f64_sqrt a = of_nat (fp_sqrt binary64 (unat a))"

lemma isqrt_spec: "isqrt n ^ 2 \<le> n \<and> n < (isqrt n + 1) ^ 2"
proof (induction n rule: isqrt.induct)
  case (1 n)
  show ?case
  proof (cases "n = 0")
    case False
    define r where "r = isqrt (n div 4)"
    have "r ^ 2 \<le> n div 4" "n div 4 < (r + 1) ^ 2" using 1 [OF False] by (simp_all add: r_def)
    then have "4 * r ^ 2 \<le> n" "n < 4 * (r + 1) ^ 2" by auto
    then have "(2 * r) ^ 2 \<le> n" "n < (2 * r + 2) ^ 2" by (simp_all add: power2_eq_square algebra_simps)
    moreover have "isqrt n = (if (2 * r + 1) ^ 2 \<le> n then 2 * r + 1 else 2 * r)"
      using False by (subst isqrt.simps) (simp add: r_def Let_def)
    ultimately show ?thesis by (simp add: not_le)
  qed (simp add: isqrt.simps)
qed

definition f64_less :: "float64 \<Rightarrow> float64 \<Rightarrow> bool" where
  "f64_less a b = fp_less binary64 (unat a) (unat b)"

abbreviation f32_zero :: float32 where "f32_zero \<equiv> 0"
abbreviation f32_one :: float32 where "f32_one \<equiv> 0x3F800000"
abbreviation f32_two :: float32 where "f32_two \<equiv> 0x40000000"

section \<open>Rounding is exact on representable values and monotone\<close>

lemma bit_length_le_iff: "bit_length n \<le> k \<longleftrightarrow> n < 2 ^ k"
proof (induction n arbitrary: k rule: bit_length.induct)
  case (1 n)
  show ?case
  proof (cases "n = 0")
    case True
    then show ?thesis by (simp add: bit_length.simps)
  next
    case False
    then show ?thesis
      using 1 [of "k - 1"] by (cases k) (auto simp: bit_length.simps [of n])
  qed
qed

lemma bit_length_mono: "m \<le> n \<Longrightarrow> bit_length m \<le> bit_length n"
  using bit_length_le_iff [of m "bit_length n"] bit_length_le_iff [of n "bit_length n"] by simp

lemma bit_length_eqI: "2 ^ k \<le> n \<Longrightarrow> n < 2 ^ Suc k \<Longrightarrow> bit_length n = Suc k"
  using bit_length_le_iff [of n k] bit_length_le_iff [of n "Suc k"] by simp

lemma bit_length_ge: "0 < n \<Longrightarrow> 2 ^ (bit_length n - 1) \<le> n"
  using bit_length_le_iff [of n "bit_length n - 1"] bit_length_le_iff [of n 0] by force

lemma div_half_even_exact [simp]: "0 < b \<Longrightarrow> div_half_even (q * b) b = q"
  by (simp add: div_half_even_def)

lemma div_half_even_bounds: "a div b \<le> div_half_even a b" "div_half_even a b \<le> a div b + 1"
  by (simp_all add: div_half_even_def Let_def)

text \<open>Rounding of fractions is monotone: compare quotients first, then twice the remainders.\<close>

lemma frac_cases:
  fixes a b c d :: nat
  assumes "0 < b" and "0 < d" and "a * d \<le> c * b"
  shows "a div b < c div d \<or> (a div b = c div d \<and> (a mod b) * d \<le> (c mod d) * b)"
proof -
  define q r where "q = a div b" and "r = a mod b"
  define q' r' where "q' = c div d" and "r' = c mod d"
  have a: "a = q * b + r" and c: "c = q' * d + r'"
    by (simp_all add: q_def r_def q'_def r'_def)
  have le: "a div b \<le> c div d"
  proof (rule ccontr)
    assume "\<not> a div b \<le> c div d"
    then have "(c div d + 1) * d \<le> (a div b) * d" by (intro mult_le_mono1) simp
    moreover have "c < (c div d + 1) * d" using assms(2) by (simp add: dividend_less_div_times)
    ultimately have "c * b < (a div b) * d * b"
      using assms(1) by (meson less_le_trans mult_less_mono1)
    also have "\<dots> \<le> a * d" by (metis div_times_less_eq_dividend mult.commute mult.left_commute mult_le_mono2)
    finally show False using assms(3) by simp
  qed
  show ?thesis
  proof (cases "a div b = c div d")
    case True
    have "(q * b + r) * d \<le> (q' * d + r') * b"
      using assms(3) a c by metis
    moreover have "q = q'" using True by (simp add: q_def q'_def)
    ultimately have "r * d \<le> r' * b" by (simp add: algebra_simps)
    with True show ?thesis by (simp add: r_def r'_def)
  qed (use le in simp)
qed

lemma div_half_even_mono:
  fixes a b c d :: nat
  assumes "0 < b" and "0 < d" and "a * d \<le> c * b"
  shows "div_half_even a b \<le> div_half_even c d"
  using frac_cases [OF assms]
proof
  assume "a div b < c div d"
  then show ?thesis
    using div_half_even_bounds [of a b] div_half_even_bounds [of c d] by linarith
next
  assume eq: "a div b = c div d \<and> (a mod b) * d \<le> (c mod d) * b"
  have step: "d \<le> 2 * (c mod d)" if "b \<le> 2 * (a mod b)"
  proof -
    have "b * d \<le> 2 * ((a mod b) * d)" using that by (simp add: mult_le_mono1)
    also have "\<dots> \<le> (2 * (c mod d)) * b" using eq by simp
    finally show ?thesis using assms(1) by (simp add: mult.commute)
  qed
  have strict: "d < 2 * (c mod d)" if "b < 2 * (a mod b)"
  proof -
    have "b * d < 2 * ((a mod b) * d)" using that assms(2) by simp
    also have "\<dots> \<le> (2 * (c mod d)) * b" using eq by simp
    finally show ?thesis using assms(1) by (simp add: mult.commute)
  qed
  show ?thesis
    using eq step strict by (auto simp: div_half_even_def Let_def)
qed


text \<open>A sane format: at least two significand bits and an infinity pattern below the sign bit.\<close>

definition fp_ok :: "fp_format \<Rightarrow> bool" where
  "fp_ok f = (2 \<le> fp_prec f \<and> fp_inf f + 2 ^ (fp_prec f - 1) \<le> fp_sgn f)"

lemma fp_ok_formats [simp]: "fp_ok binary32" "fp_ok binary64"
  by (simp_all add: fp_ok_def binary32_def binary64_def)

lemma fp_hidden_props:
  assumes "fp_ok f"
  shows "0 < fp_hidden f" "2 ^ fp_prec f = 2 * fp_hidden f" "2 ^ (fp_prec f - 1) = fp_hidden f"
proof -
  have "fp_prec f = Suc (fp_prec f - 1)" using assms by (simp add: fp_ok_def)
  then have "2 ^ fp_prec f = (2::nat) ^ Suc (fp_prec f - 1)" by (rule arg_cong)
  then show "2 ^ fp_prec f = 2 * fp_hidden f" by (simp add: fp_hidden_def)
qed (simp_all add: fp_hidden_def)

lemma fp_round_le_inf [simp]: "fp_round f n d \<le> fp_inf f"
  by (simp add: fp_round_def Let_def)

theorem fp_round_exact:
  assumes "fp_ok f" and "m \<le> fp_inf f"
  shows "fp_round f (fp_units f m) (2 ^ fp_scale f) = m"
proof -
  define h where "h = fp_hidden f"
  have p: "fp_prec f = Suc (fp_prec f - 1)" using assms(1) by (simp add: fp_ok_def)
  have h: "0 < h" "2 ^ fp_prec f = 2 * h" "2 ^ (fp_prec f - 1) = h"
    using fp_hidden_props [OF assms(1)] by (simp_all add: h_def)
  show ?thesis
  proof (cases "m div h = 0")
    case True
    then have m: "m < h" "fp_units f m = m"
      using h(1) by (simp_all add: fp_units_def h_def [symmetric] Euclidean_Rings.div_eq_0_iff)
    then have "bit_length m \<le> fp_prec f" using h by (simp add: bit_length_le_iff)
    with m show ?thesis using assms(2) by (simp add: fp_round_def h_def [symmetric])
  next
    case False
    define e where "e = m div h - 1"
    have e: "m div h = Suc e" using False by (simp add: e_def)
    have u: "fp_units f m = (h + m mod h) * 2 ^ e"
      by (simp add: fp_units_def h_def [symmetric] e)
    have "bit_length (fp_units f m) = Suc (fp_prec f - 1 + e)"
    proof (rule bit_length_eqI)
      show "2 ^ (fp_prec f - 1 + e) \<le> fp_units f m"
        unfolding power_add h(3) by (simp add: u)
      have "h + m mod h < 2 * h" using h(1) by simp
      then show "fp_units f m < 2 ^ Suc (fp_prec f - 1 + e)"
        unfolding power_Suc power_add h(3) by (simp add: u mult.assoc [symmetric])
    qed
    then have s: "bit_length (fp_units f m) - fp_prec f = e" using p by simp
    have "div_half_even (fp_units f m * 2 ^ fp_scale f) (2 ^ fp_scale f * 2 ^ e) = h + m mod h"
      using div_half_even_exact [of "2 ^ fp_scale f * 2 ^ e" "h + m mod h"]
      by (simp add: u mult.assoc mult.left_commute mult.commute)
    moreover have "e * h + (h + m mod h) = m"
      using e by (metis add.commute add.left_commute mult_Suc div_mult_mod_eq)
    ultimately show ?thesis using assms(2) by (simp add: fp_round_def s h_def [symmetric])
  qed
qed

theorem fp_round_mono:
  assumes "fp_ok f" and "0 < b" and "0 < d" and "a * d \<le> c * b"
  shows "fp_round f a b \<le> fp_round f c d"
proof -
  define A C where "A = a * 2 ^ fp_scale f" and "C = c * 2 ^ fp_scale f"
  define s t where "s = bit_length (A div b) - fp_prec f" and "t = bit_length (C div d) - fp_prec f"
  define h where "h = fp_hidden f"
  have p: "fp_prec f = Suc (fp_prec f - 1)" using assms(1) by (simp add: fp_ok_def)
  have h: "0 < h" "2 ^ fp_prec f = 2 * h" "2 ^ (fp_prec f - 1) = h"
    using fp_hidden_props [OF assms(1)] by (simp_all add: h_def)
  have AC: "A * d \<le> C * b" using assms(4) by (simp add: A_def C_def)
  have q: "A div b \<le> C div d" using frac_cases [OF assms(2,3) AC] by auto
  have st: "s \<le> t" using bit_length_mono [OF q] by (simp add: s_def t_def diff_le_mono)
  have "s * h + div_half_even A (b * 2 ^ s) \<le> t * h + div_half_even C (d * 2 ^ t)"
  proof (cases "s = t")
    case True
    have "A * (d * 2 ^ t) \<le> C * (b * 2 ^ s)"
      using AC True by (simp add: mult.assoc [symmetric])
    with assms(2,3) True show ?thesis by (simp add: div_half_even_mono)
  next
    case False
    have "A div b < 2 ^ (fp_prec f + s)"
      unfolding bit_length_le_iff [symmetric] by (simp add: s_def)
    then have "A div (b * 2 ^ s) < 2 ^ fp_prec f"
      by (simp add: div_mult2_eq less_mult_imp_div_less power_add)
    then have up: "div_half_even A (b * 2 ^ s) \<le> 2 * h"
      using div_half_even_bounds(2) [of A "b * 2 ^ s"] h(2) by simp
    have bl: "bit_length (C div d) = fp_prec f + t" using False st by (simp add: t_def)
    then have "0 < C div d" using p by (cases "C div d") (auto simp: bit_length.simps)
    then have "2 ^ (fp_prec f - 1 + t) \<le> C div d"
      using bit_length_ge [of "C div d"] bl p by (metis add_Suc diff_Suc_1)
    then have "h \<le> C div (d * 2 ^ t)"
      unfolding power_add h(3) by (simp add: div_mult2_eq less_eq_div_iff_mult_less_eq)
    then have lo: "h \<le> div_half_even C (d * 2 ^ t)"
      using div_half_even_bounds(1) [of C "d * 2 ^ t"] by simp
    have "Suc s * h \<le> t * h" using False st by (intro mult_le_mono1) simp
    with up lo show ?thesis by simp
  qed
  then show ?thesis
    by (simp add: fp_round_def Let_def A_def [symmetric] C_def [symmetric] s_def [symmetric]
        t_def [symmetric] h_def [symmetric] min.coboundedI2 min_le_iff_disj)
qed


section \<open>Arithmetic on non-negative values\<close>

lemma fp_units_mono:
  assumes "fp_ok f" and "m \<le> n"
  shows "fp_units f m \<le> fp_units f n"
proof -
  define h where "h = fp_hidden f"
  have h: "0 < h" using fp_hidden_props [OF assms(1)] by (simp add: h_def)
  have m: "m = (m div h) * h + m mod h" and n: "n = (n div h) * h + n mod h" by simp_all
  have e: "m div h \<le> n div h" using assms(2) by (rule div_le_mono)
  have r: "m mod h < h" "n mod h < h" using h by simp_all
  have u: "fp_units f k = (if k div h = 0 then k mod h else (h + k mod h) * 2 ^ (k div h - 1))"
    for k by (simp add: fp_units_def Let_def h_def)
  consider "m div h = n div h" | "m div h = 0" "0 < n div h" | "0 < m div h" "m div h < n div h"
    using e by linarith
  then show ?thesis
  proof cases
    case 1
    then have "m mod h \<le> n mod h" using assms(2) m n by (metis add_le_cancel_left)
    with 1 show ?thesis by (simp add: u)
  next
    case 2
    have "h * 1 \<le> (h + n mod h) * 2 ^ (n div h - 1)" by (intro mult_le_mono) simp_all
    with r(1) have "m mod h \<le> (h + n mod h) * 2 ^ (n div h - 1)" by linarith
    with 2 show ?thesis by (simp add: u)
  next
    case 3
    have "(h + m mod h) * 2 ^ (m div h - 1) \<le> (2 * h) * 2 ^ (m div h - 1)"
      using r by (intro mult_le_mono1) simp
    also have "\<dots> = h * 2 ^ (m div h)" using 3 by (cases "m div h") simp_all
    also have "\<dots> \<le> (h + n mod h) * 2 ^ (n div h - 1)"
      using 3 by (intro mult_le_mono power_increasing) simp_all
    finally show ?thesis using 3 by (simp add: u)
  qed
qed

lemma fp_nonneg_simps:
  assumes "fp_ok f" and "a \<le> fp_inf f"
  shows "fp_mag f a = a" "\<not> fp_neg f a" "\<not> fp_isnan f a" "fp_isinf f a = (a = fp_inf f)"
    "fp_value f a = int (fp_units f a)" "fp_key f a = int a"
proof -
  have "a < fp_sgn f"
    using assms fp_hidden_props(1,3) [OF assms(1)] unfolding fp_ok_def by linarith
  then show "fp_mag f a = a" "\<not> fp_neg f a" by (simp_all add: fp_mag_def fp_neg_def)
  then show "\<not> fp_isnan f a" "fp_isinf f a = (a = fp_inf f)"
    "fp_value f a = int (fp_units f a)" "fp_key f a = int a"
    using assms(2) by (simp_all add: fp_isnan_def fp_isinf_def fp_value_def fp_key_def)
qed

lemma fp_round_0 [simp]: "0 < d \<Longrightarrow> fp_round f 0 d = 0"
  by (simp add: fp_round_def bit_length.simps [of 0] div_half_even_def)

lemma fp_add_nonneg:
  assumes "fp_ok f" and "a \<le> fp_inf f" and "b \<le> fp_inf f"
  shows "fp_add f a b = (if a = fp_inf f \<or> b = fp_inf f then fp_inf f
    else fp_round f (fp_units f a + fp_units f b) (2 ^ fp_scale f))"
proof -
  note A = fp_nonneg_simps [OF assms(1,2)] and B = fp_nonneg_simps [OF assms(1,3)]
  have abs: "nat (int (fp_units f a) + int (fp_units f b)) = fp_units f a + fp_units f b"
    by (rule nat_int_add)
  consider "a = fp_inf f" | "a \<noteq> fp_inf f" "b = fp_inf f" | "a \<noteq> fp_inf f" "b \<noteq> fp_inf f"
    by blast
  then show ?thesis
  proof cases
    case 1
    with A B show ?thesis by (simp add: fp_add_def)
  next
    case 2
    with A B show ?thesis by (simp add: fp_add_def)
  next
    case 3
    with A B have "fp_add f a b = (if int (fp_units f a) + int (fp_units f b) = 0 then 0
        else fp_round f (fp_units f a + fp_units f b) (2 ^ fp_scale f))"
      by (simp add: fp_add_def Let_def abs fp_pack_def del: of_nat_add)
    moreover have "int (fp_units f a) + int (fp_units f b) = 0 \<longleftrightarrow> fp_units f a + fp_units f b = 0"
      by linarith
    ultimately show ?thesis using 3 by simp
  qed
qed

lemma fp_add_nonneg_le_inf:
  assumes "fp_ok f" and "a \<le> fp_inf f" and "b \<le> fp_inf f"
  shows "fp_add f a b \<le> fp_inf f"
  by (simp add: fp_add_nonneg [OF assms])

lemma fp_add_mono:
  assumes "fp_ok f" and "a \<le> a'" and "b \<le> b'" and "a' \<le> fp_inf f" and "b' \<le> fp_inf f"
  shows "fp_add f a b \<le> fp_add f a' b'"
proof -
  have le: "a \<le> fp_inf f" "b \<le> fp_inf f" using assms by simp_all
  have "fp_units f a + fp_units f b \<le> fp_units f a' + fp_units f b'"
    using assms by (intro add_mono fp_units_mono)
  then have "fp_round f (fp_units f a + fp_units f b) (2 ^ fp_scale f)
      \<le> fp_round f (fp_units f a' + fp_units f b') (2 ^ fp_scale f)"
    using assms(1) by (intro fp_round_mono) simp_all
  then show ?thesis
    using assms by (auto simp: fp_add_nonneg [OF assms(1) le]
        fp_add_nonneg [OF assms(1) assms(4,5)])
qed

lemma fp_add_0:
  assumes "fp_ok f" and "a \<le> fp_inf f"
  shows "fp_add f 0 a = a"
proof -
  have "fp_units f 0 = 0" by (simp add: fp_units_def)
  then show ?thesis
    using assms by (cases "0 = fp_inf f") (simp_all add: fp_add_nonneg fp_round_exact)
qed

text \<open>The same facts on the type \<open>float\<close>: \<open>f32_nonneg\<close> is "neither NaN nor negative".\<close>

definition f32_nonneg :: "float32 \<Rightarrow> bool" where
  "f32_nonneg a = (unat a \<le> fp_inf binary32)"

lemma inf32_bound: "n \<le> fp_inf binary32 \<Longrightarrow> unat (of_nat n :: float32) = n"
  by (simp add: binary32_def unat_of_nat)

lemma f32_nonneg_zero [simp]: "f32_nonneg 0"
  by (simp add: f32_nonneg_def)

lemma f32_nonneg_of_nat [simp]: "f32_nonneg (f32_of_nat n)"
  by (simp add: f32_nonneg_def f32_of_nat_def inf32_bound)

lemma f32_nonneg_add [simp]: "f32_nonneg a \<Longrightarrow> f32_nonneg b \<Longrightarrow> f32_nonneg (f32_add a b)"
  by (simp add: f32_nonneg_def f32_add_def inf32_bound fp_add_nonneg_le_inf)

lemma f32_nonneg_not_nan: "f32_nonneg a \<Longrightarrow> \<not> f32_isnan a"
  by (simp add: f32_nonneg_def f32_isnan_def fp_nonneg_simps)

lemma f32_add_0 [simp]: "f32_nonneg a \<Longrightarrow> f32_add 0 a = a"
  by (simp add: f32_nonneg_def f32_add_def fp_add_0)

lemma f32_add_mono:
  "unat a \<le> unat a' \<Longrightarrow> unat b \<le> unat b' \<Longrightarrow> f32_nonneg a' \<Longrightarrow> f32_nonneg b' \<Longrightarrow>
    unat (f32_add a b) \<le> unat (f32_add a' b')"
  by (simp add: f32_nonneg_def f32_add_def inf32_bound fp_add_nonneg_le_inf fp_add_mono)

lemma f32_less_nonneg: "f32_nonneg a \<Longrightarrow> f32_nonneg b \<Longrightarrow> f32_less a b \<longleftrightarrow> unat a < unat b"
  by (simp add: f32_nonneg_def f32_less_def fp_less_def fp_nonneg_simps word_less_nat_alt [symmetric]
      word_less_def)

lemma f32_equal_nonneg: "f32_nonneg a \<Longrightarrow> f32_nonneg b \<Longrightarrow> f32_equal a b \<longleftrightarrow> a = b"
  by (simp add: f32_nonneg_def f32_equal_def fp_equal_def fp_nonneg_simps word_uint_eq_iff)

lemma f32_of_nat_mono: "m \<le> n \<Longrightarrow> unat (f32_of_nat m) \<le> unat (f32_of_nat n)"
  by (simp add: f32_of_nat_def inf32_bound fp_round_mono)

lemma f32_add_0_right: "f32_nonneg a \<Longrightarrow> f32_add a 0 = a"
proof -
  assume a: "f32_nonneg a"
  have "fp_add binary32 (unat a) 0 = fp_add binary32 0 (unat a)"
    using a by (simp add: f32_nonneg_def fp_add_nonneg add.commute disj_commute)
  with a show ?thesis by (simp add: f32_add_def f32_nonneg_def fp_add_0)
qed

lemma f32_add_increases: "f32_nonneg a \<Longrightarrow> f32_nonneg x \<Longrightarrow> unat a \<le> unat (f32_add a x)"
  using f32_add_mono [of a a 0 x] by (simp add: f32_add_0_right)

text \<open>Reciprocals: division of a positive by a non-negative value is antitone in the divisor.\<close>

lemma fp_units_pos: "fp_ok f \<Longrightarrow> 0 < m \<Longrightarrow> 0 < fp_units f m"
  using fp_hidden_props(1) [of f]
  by (auto simp: fp_units_def Let_def Euclidean_Rings.div_eq_0_iff)

lemma fp_div_nonneg:
  assumes "fp_ok f" and "0 < a" and "a < fp_inf f" and "b \<le> fp_inf f"
  shows "fp_div f a b = (if b = fp_inf f then 0 else if b = 0 then fp_inf f
    else fp_round f (fp_units f a) (fp_units f b))"
  using assms fp_nonneg_simps [OF assms(1), of a] fp_nonneg_simps [OF assms(1), of b]
  by (auto simp: fp_div_def Let_def fp_pack_def)

lemma fp_div_antimono:
  assumes "fp_ok f" and "0 < a" and "a < fp_inf f" and "b \<le> c" and "c \<le> fp_inf f"
  shows "fp_div f a c \<le> fp_div f a b"
proof -
  have b: "b \<le> fp_inf f" using assms by simp
  consider "c = fp_inf f" | "b = 0" "c \<noteq> fp_inf f" | "0 < b" "c < fp_inf f"
    using assms by fastforce
  then show ?thesis
  proof cases
    case 3
    then have "fp_round f (fp_units f a) (fp_units f c) \<le> fp_round f (fp_units f a) (fp_units f b)"
      using assms by (intro fp_round_mono) (auto intro: fp_units_pos fp_units_mono)
    with 3 assms b show ?thesis by (simp add: fp_div_nonneg)
  qed (use assms b in \<open>auto simp: fp_div_nonneg\<close>)
qed

lemma f32_nonneg_recip [simp]: "f32_nonneg b \<Longrightarrow> f32_nonneg (f32_div f32_one b)"
  and f32_recip_antimono: "unat b \<le> unat c \<Longrightarrow> f32_nonneg c \<Longrightarrow>
    unat (f32_div f32_one c) \<le> unat (f32_div f32_one b)"
proof -
  have one: "0 < unat f32_one" "unat f32_one < fp_inf binary32" by (simp_all add: binary32_def)
  have le: "fp_div binary32 (unat f32_one) n \<le> fp_inf binary32" if "n \<le> fp_inf binary32" for n
    using that one by (simp add: fp_div_nonneg)
  show "f32_nonneg b \<Longrightarrow> f32_nonneg (f32_div f32_one b)"
    using le by (simp add: f32_nonneg_def f32_div_def inf32_bound)
  show "unat b \<le> unat c \<Longrightarrow> f32_nonneg c \<Longrightarrow>
      unat (f32_div f32_one c) \<le> unat (f32_div f32_one b)"
    using le one fp_div_antimono [of binary32 "unat f32_one" "unat b" "unat c"]
    by (simp add: f32_nonneg_def f32_div_def inf32_bound)
qed

end
