(* ===== verification/Json.thy ===== *)
theory Json
  imports Floats
begin

text \<open>
  JSON values as the sources use them through nlohmann::json: the value type with its three kinds of
  numbers, \<^verbatim>\<open>find\<close>, and the conversions of \<^verbatim>\<open>get\<close> with their documented exceptions. Parsing and
  printing text is a parameter wherever it is used. An object is a list of members with distinct keys.
\<close>

datatype json =
    Json_null
  | Json_bool bool
  | Json_unsigned nat
  | Json_integer int
  | Json_float float64
  | Json_string string
  | Json_array "json list"
  | Json_object "(string \<times> json) list"

text \<open>\<open>find\<close> on anything but an object finds nothing.\<close>

fun json_find :: "json \<Rightarrow> string \<Rightarrow> json option" where
  "json_find (Json_object ms) key = map_of ms key"
| "json_find _ key = None"

fun is_object :: "json \<Rightarrow> bool" where
  "is_object (Json_object ms) = True"
| "is_object _ = False"

fun is_number_integer :: "json \<Rightarrow> bool" where
  "is_number_integer (Json_unsigned n) = True"
| "is_number_integer (Json_integer n) = True"
| "is_number_integer _ = False"

text \<open>
  Conversion of a number to a signed integer type of \<open>w + 1\<close> bits: integers are taken modulo
  \<open>2 ^ (w + 1)\<close>, floating-point numbers truncated (out of range this is undefined). Other values are
  a type error, except that arithmetic types wider than a boolean also accept booleans.
\<close>

definition to_signed :: "nat \<Rightarrow> int \<Rightarrow> int" where
  "to_signed w z = (z + 2 ^ w) mod 2 ^ (w + 1) - 2 ^ w"

definition f64_trunc :: "float64 \<Rightarrow> int option" where
  "f64_trunc b = (let m = unat b in
     if fp_isfinite binary64 m then
       (let a = int (fp_units binary64 (fp_mag binary64 m) div 2 ^ fp_scale binary64)
        in Some (if fp_neg binary64 m then - a else a))
     else None)"

definition json_type_error :: exn where
  "json_type_error = Json_exception ''type_error''"

fun get_signed :: "nat \<Rightarrow> json \<Rightarrow> int res" where
  "get_signed w (Json_unsigned n) = Inr (to_signed w (int n))"
| "get_signed w (Json_integer z) = Inr (to_signed w z)"
| "get_signed w (Json_float x) = (case f64_trunc x of
     Some z \<Rightarrow> if - (2 ^ w) \<le> z \<and> z < 2 ^ w then Inr z else Inl (Other_exception ''undefined conversion'')
   | None \<Rightarrow> Inl (Other_exception ''undefined conversion''))"
| "get_signed w (Json_bool b) = Inr (if b then 1 else 0)"
| "get_signed w _ = Inl json_type_error"

fun get_bool :: "json \<Rightarrow> bool res" where
  "get_bool (Json_bool b) = Inr b"
| "get_bool _ = Inl json_type_error"

fun get_string :: "json \<Rightarrow> string res" where
  "get_string (Json_string s) = Inr s"
| "get_string _ = Inl json_type_error"

text \<open>\<open>object.value(key, fallback)\<close>.\<close>

definition json_value :: "(json \<Rightarrow> 'a res) \<Rightarrow> json \<Rightarrow> string \<Rightarrow> 'a \<Rightarrow> 'a res" where
  "json_value get j key fallback = (if \<not> is_object j then Inl json_type_error
     else case json_find j key of None \<Rightarrow> Inr fallback | Some v \<Rightarrow> get v)"

lemma to_signed_range: "- (2 ^ w) \<le> to_signed w z \<and> to_signed w z < 2 ^ w"
  using pos_mod_bound [of "2 ^ (w + 1)" "z + 2 ^ w"] pos_mod_sign [of "2 ^ (w + 1)" "z + 2 ^ w"]
  by (simp add: to_signed_def)

lemma to_signed_id:
  assumes "- (2 ^ w) \<le> z" and "z < 2 ^ w"
  shows "to_signed w z = z"
proof -
  have "(z + 2 ^ w) mod 2 ^ (w + 1) = z + 2 ^ w" using assms by (intro mod_pos_pos_trivial) simp_all
  then show ?thesis by (simp add: to_signed_def)
qed

text \<open>From \<open>2 ^ w\<close> up to \<open>2 ^ (w + 1) - 1\<close> the conversion is negative.\<close>

lemma to_signed_high:
  assumes "2 ^ w \<le> z" and "z < 2 ^ (w + 1)"
  shows "to_signed w z < 0"
proof -
  have "(z + 2 ^ w) mod 2 ^ (w + 1) = (z + 2 ^ w - 2 ^ (w + 1)) mod 2 ^ (w + 1)"
    by (metis minus_mod_self2)
  also have "\<dots> = z - 2 ^ w" using assms by (subst mod_pos_pos_trivial) simp_all
  finally show ?thesis using assms(2) by (simp add: to_signed_def)
qed

text \<open>The numbers a parsed document holds: 64-bit unsigned and signed integers, or doubles.\<close>

fun number_fits :: "json \<Rightarrow> bool" where
  "number_fits (Json_unsigned n) \<longleftrightarrow> n < 2 ^ 64"
| "number_fits (Json_integer z) \<longleftrightarrow> - (2 ^ 63) \<le> z \<and> z < 2 ^ 63"
| "number_fits _ = True"

fun json_fits :: "json \<Rightarrow> bool" where
  "json_fits (Json_array js) = list_all json_fits js"
| "json_fits (Json_object ms) = list_all (\<lambda>m. json_fits (snd m)) ms"
| "json_fits j = number_fits j"

lemma json_fits_find: "json_fits j \<Longrightarrow> json_find j key = Some v \<Longrightarrow> json_fits v"
  by (cases j) (auto simp: list_all_iff dest!: map_of_SomeD)

lemma json_fits_number: "json_fits j \<Longrightarrow> number_fits j"
  by (cases j) simp_all

end
