(* ===== verification/Hashing.thy ===== *)
theory Hashing
  imports Prelude
begin

text \<open>
  \<^verbatim>\<open>src/support/hash.cpp\<close>: the 64-bit FNV-1a hash that names chunks and symbols and detects
  changed files, and its rendering as sixteen lower-case hexadecimal digits. All arithmetic is on
  64-bit words, so multiplication wraps as \<^verbatim>\<open>std::uint64_t\<close> does.
\<close>

unbundle bit_operations_syntax

definition offset_basis :: "64 word" where
  "offset_basis = 14695981039346656037"

definition fnv_prime :: "64 word" where
  "fnv_prime = 1099511628211"

definition fnv_step :: "64 word \<Rightarrow> char \<Rightarrow> 64 word" where
  "fnv_step result character = (result XOR of_char character) * fnv_prime"

definition stable_hash64 :: "string \<Rightarrow> 64 word" where
  "stable_hash64 value = foldl fnv_step offset_basis value"

definition hex_digits :: string where
  "hex_digits = ''0123456789abcdef''"

definition stable_hash_hex :: "string \<Rightarrow> string" where
  "stable_hash_hex value = (let hash = stable_hash64 value in
     map (\<lambda>index. hex_digits ! unat (drop_bit ((16 - 1 - index) * 4) hash AND 0xF)) [0..<16])"

section \<open>A changed byte is always seen\<close>

lemma of_char_word_inject: "(of_char c :: 64 word) = of_char d \<longleftrightarrow> c = d"
proof
  assume eq: "(of_char c :: 64 word) = of_char d"
  have "unat (of_char x :: 64 word) = (of_char x :: nat)" for x
  proof -
    have "(of_char x :: 64 word) = of_nat (of_char x)" by (rule of_nat_of_char [symmetric])
    moreover have "(of_char x :: nat) < 18446744073709551616"
      using nat_of_char_less_256 [of x] by linarith
    ultimately show ?thesis by (simp add: unat_of_nat)
  qed
  with eq show "c = d" by (metis of_char_eq_iff)
qed simp

lemma fnv_prime_unit: "fnv_prime * 14886173955864302971 = 1"
  by (simp add: fnv_prime_def)

lemma fnv_step_inject_state: "fnv_step h c = fnv_step h' c \<longleftrightarrow> h = h'"
proof
  assume "fnv_step h c = fnv_step h' c"
  then have "(h XOR of_char c) * (fnv_prime * 14886173955864302971)
      = (h' XOR of_char c) * (fnv_prime * 14886173955864302971)"
    by (simp add: fnv_step_def mult.assoc [symmetric])
  then have "(h XOR of_char c) XOR of_char c = (h' XOR of_char c) XOR of_char c"
    by (simp add: fnv_prime_unit)
  then show "h = h'" by (simp add: xor.assoc)
qed simp

lemma fnv_step_inject_char: "fnv_step h c = fnv_step h d \<longleftrightarrow> c = d"
proof
  assume "fnv_step h c = fnv_step h d"
  then have "(h XOR of_char c) * (fnv_prime * 14886173955864302971)
      = (h XOR of_char d) * (fnv_prime * 14886173955864302971)"
    by (simp add: fnv_step_def mult.assoc [symmetric])
  then have "h XOR (h XOR of_char c) = h XOR (h XOR of_char d)"
    by (simp add: fnv_prime_unit)
  then show "c = d" by (simp add: xor.assoc [symmetric] of_char_word_inject)
qed simp

lemma foldl_fnv_inject: "foldl fnv_step h xs = foldl fnv_step h' xs \<longleftrightarrow> h = h'"
  by (induction xs arbitrary: h h') (simp_all add: fnv_step_inject_state)

lemma stable_hash64_substitution:
  "stable_hash64 (xs @ c # ys) = stable_hash64 (xs @ d # ys) \<longleftrightarrow> c = d"
  by (simp add: stable_hash64_def foldl_fnv_inject fnv_step_inject_char)

section \<open>The hexadecimal rendering loses nothing\<close>

lemma hex_digits_inject: "i < 16 \<Longrightarrow> j < 16 \<Longrightarrow> hex_digits ! i = hex_digits ! j \<longleftrightarrow> i = j"
  by (rule nth_eq_iff_index_eq) (simp_all add: hex_digits_def)

lemma nibble_bound: "unat (w AND 0xF :: 64 word) < 16"
proof -
  have "unat (w AND 0xF) \<le> unat (0xF :: 64 word)"
    by (rule word_and_le1 [THEN word_le_nat_alt [THEN iffD1]])
  then show ?thesis by simp
qed

lemma word_eq_by_nibbles:
  fixes v w :: "64 word"
  assumes "\<And>k. k < 16 \<Longrightarrow> drop_bit (k * 4) v AND 0xF = drop_bit (k * 4) w AND 0xF"
  shows "v = w"
proof (rule bit_word_eqI)
  fix n :: nat
  assume n: "n < LENGTH(64)"
  have k: "n div 4 < 16" using n by simp
  have m: "bit (0xF :: 64 word) (n mod 4)"
  proof -
    have "bit (mask 4 :: 64 word) (n mod 4)" unfolding bit_mask_iff by simp
    moreover have "mask 4 = (0xF :: 64 word)" by (simp add: mask_eq_exp_minus_1)
    ultimately show ?thesis by metis
  qed
  have "bit (drop_bit (n div 4 * 4) u AND 0xF) (n mod 4) = bit u n" for u :: "64 word"
    using m by (simp add: bit_and_iff bit_drop_bit_eq)
  then show "bit v n = bit w n" using assms [OF k] by metis
qed

lemma length_stable_hash_hex [simp]: "length (stable_hash_hex v) = 16"
  by (simp add: stable_hash_hex_def)

lemma stable_hash_hex_inject:
  "stable_hash_hex v = stable_hash_hex w \<longleftrightarrow> stable_hash64 v = stable_hash64 w"
proof
  assume eq: "stable_hash_hex v = stable_hash_hex w"
  show "stable_hash64 v = stable_hash64 w"
  proof (rule word_eq_by_nibbles)
    fix k :: nat
    assume k: "k < 16"
    have nth: "stable_hash_hex u ! (15 - k)
        = hex_digits ! unat (drop_bit (k * 4) (stable_hash64 u) AND 0xF)" for u
    proof -
      have "15 - k < 16" "15 - (15 - k) = k" using k by simp_all
      then show ?thesis by (simp add: stable_hash_hex_def Let_def)
    qed
    have "unat (drop_bit (k * 4) (stable_hash64 v) AND 0xF)
        = unat (drop_bit (k * 4) (stable_hash64 w) AND 0xF)"
      using nth [of v] nth [of w] eq by (simp add: hex_digits_inject nibble_bound)
    then show "drop_bit (k * 4) (stable_hash64 v) AND 0xF
        = drop_bit (k * 4) (stable_hash64 w) AND 0xF"
      by (simp add: word_unat_eq_iff)
  qed
qed (simp add: stable_hash_hex_def)

lemma stable_hash_hex_chars: "set (stable_hash_hex v) \<subseteq> set hex_digits"
proof -
  have "hex_digits ! unat (w AND 0xF :: 64 word) \<in> set hex_digits" for w
    by (rule nth_mem) (use nibble_bound [of w] in \<open>simp add: hex_digits_def\<close>)
  then show ?thesis by (auto simp: stable_hash_hex_def Let_def)
qed

text \<open>
  A file, or a chunk, in which exactly one byte was replaced gets a different 64-bit hash and a
  different hexadecimal hash: such an edit can never be mistaken for an unchanged file.
\<close>

lemma stable_hash_detects_substitution:
  assumes "c \<noteq> d"
  shows "stable_hash64 (before @ c # after) \<noteq> stable_hash64 (before @ d # after)
    \<and> stable_hash_hex (before @ c # after) \<noteq> stable_hash_hex (before @ d # after)"
  using assms by (simp add: stable_hash_hex_inject stable_hash64_substitution)

lemma stable_hash_detects_substitution_example:
  "CHR ''a'' \<noteq> CHR ''b'' \<and> stable_hash64 ''xay'' \<noteq> stable_hash64 ''xby''
    \<and> stable_hash_hex ''xay'' \<noteq> stable_hash_hex ''xby''"
  using stable_hash_detects_substitution [of "CHR ''a''" "CHR ''b''" "''x''" "''y''"] by simp

end
