(* ===== verification/Paths.thy ===== *)
theory Paths
  imports Prelude
begin

text \<open>
  The part of \<^verbatim>\<open>std::filesystem::path\<close> (POSIX flavour) the sources use. A path is its native
  string; on POSIX the generic format is the same string, so \<^verbatim>\<open>generic_string\<close> is the identity
  and is not written out. The operations follow [fs.path.generic], [fs.path.decompose] and
  [fs.path.gen] of the C++20 standard.
\<close>

type_synonym path = string

abbreviation slash :: char where "slash \<equiv> CHR ''/''"

fun split_on :: "char \<Rightarrow> string \<Rightarrow> string list" where
  "split_on sep [] = [[]]"
| "split_on sep (c # cs) = (if c = sep then [] # split_on sep cs
     else (case split_on sep cs of [] \<Rightarrow> [[c]] | seg # segs \<Rightarrow> (c # seg) # segs))"

definition is_absolute :: "path \<Rightarrow> bool" where
  "is_absolute p = starts_with p ''/''"

text \<open>The file names of a path, root directory and empty trailing element left out.\<close>

definition path_names :: "path \<Rightarrow> string list" where
  "path_names p = filter (\<lambda>s. s \<noteq> []) (split_on slash p)"

definition has_trailing_slash :: "path \<Rightarrow> bool" where
  "has_trailing_slash p = (path_names p \<noteq> [] \<and> last p = slash)"

text \<open>Range iteration over a path: root directory, names, and "" after a trailing separator.\<close>

definition path_elements :: "path \<Rightarrow> string list" where
  "path_elements p = (if is_absolute p then [''/''] else []) @ path_names p
     @ (if has_trailing_slash p then [[]] else [])"

fun join_names :: "string list \<Rightarrow> string" where
  "join_names [] = []"
| "join_names [s] = s"
| "join_names (s # ss) = s @ slash # join_names ss"

text \<open>
  \<^verbatim>\<open>lexically_normal\<close>: dots vanish, a name followed by dot-dot vanishes with it, dot-dot right
  after the root vanishes; a vanished last element leaves a trailing separator, except after
  dot-dot; an empty result is a single dot.
\<close>

fun normal_names :: "bool \<Rightarrow> string list \<Rightarrow> string list \<Rightarrow> string list" where
  "normal_names ab acc [] = rev acc"
| "normal_names ab acc (s # ss) =
     (if s = ''.'' then normal_names ab acc ss
      else if s = ''..'' then
        (case acc of
           [] \<Rightarrow> if ab then normal_names ab [] ss else normal_names ab [''..''] ss
         | a # as \<Rightarrow> if a = ''..'' then normal_names ab (''..'' # acc) ss
             else normal_names ab as ss)
      else normal_names ab (s # acc) ss)"

definition lexically_normal :: "path \<Rightarrow> path" where
  "lexically_normal p = (if p = [] then [] else
     let names = path_names p; ab = is_absolute p; out = normal_names ab [] names;
       trailing = (out \<noteq> [] \<and> last out \<noteq> ''..'' \<and>
         (has_trailing_slash p \<or> last names = ''.'' \<or> last names = ''..''));
       body = join_names out @ (if trailing then ''/'' else [])
     in if ab then slash # body else if out = [] then ''.'' else body)"

text \<open>\<open>p / q\<close>, \<open>filename()\<close>, \<open>extension()\<close>.\<close>

definition path_append :: "path \<Rightarrow> path \<Rightarrow> path" where
  "path_append p q = (if is_absolute q then q
     else if p = [] \<or> last p = slash then p @ q else p @ slash # q)"

definition filename :: "path \<Rightarrow> string" where
  "filename p = last (split_on slash p)"

definition extension :: "path \<Rightarrow> string" where
  "extension p = (let name = filename p; segs = split_on (CHR ''.'') name in
     if name = ''.'' \<or> name = ''..'' \<or> length segs < 2 \<or> (length segs = 2 \<and> hd segs = [])
     then [] else CHR ''.'' # last segs)"

text \<open>\<open>parent_path()\<close> and \<open>lexically_relative(base)\<close>.\<close>

definition parent_path :: "path \<Rightarrow> path" where
  "parent_path p = (if path_names p = [] then p else
     let body = rev (dropWhile (\<lambda>c. c = slash) (dropWhile (\<lambda>c. c \<noteq> slash) (rev p)))
     in if body = [] \<and> is_absolute p then ''/'' else body)"

fun strip_common :: "'a list \<Rightarrow> 'a list \<Rightarrow> 'a list \<times> 'a list" where
  "strip_common (x # xs) (y # ys) = (if x = y then strip_common xs ys else (x # xs, y # ys))"
| "strip_common xs ys = (xs, ys)"

definition lexically_relative :: "path \<Rightarrow> path \<Rightarrow> path" where
  "lexically_relative p base = (if is_absolute p \<noteq> is_absolute base then [] else
     case strip_common (path_elements p) (path_elements base) of (a, b) \<Rightarrow>
       let n = int (length (filter (\<lambda>s. s \<noteq> [] \<and> s \<noteq> ''.'' \<and> s \<noteq> ''..'') b))
           - int (length (filter (\<lambda>s. s = ''..'') b))
       in if a = [] \<and> b = [] then ''.''
          else if n < 0 then []
          else if n = 0 \<and> (a = [] \<or> hd a = []) then ''.''
          else foldl path_append [] (replicate (nat n) ''..'' @ a))"

section \<open>Basic facts\<close>

lemma split_on_nonempty [simp]: "split_on sep s \<noteq> []"
  by (induction s) (auto split: list.splits)

lemma split_on_no_sep: "seg \<in> set (split_on sep s) \<Longrightarrow> sep \<notin> set seg"
  by (induction s arbitrary: seg) (auto split: list.splits if_splits)

lemma path_names_proper: "s \<in> set (path_names p) \<Longrightarrow> s \<noteq> [] \<and> slash \<notin> set s"
  by (auto simp: path_names_def dest: split_on_no_sep)

lemma normal_names_subset:
  "s \<in> set (normal_names ab acc ss) \<Longrightarrow> s \<in> set acc \<or> s \<in> set ss"
proof (induction ab acc ss rule: normal_names.induct)
  case (2 ab acc s ss)
  then show ?case by (auto split: if_splits list.splits)
qed simp

lemma normal_names_no_dot:
  "''.'' \<notin> set acc \<Longrightarrow> ''.'' \<notin> set (normal_names ab acc ss)"
proof (induction ab acc ss rule: normal_names.induct)
  case (2 ab acc s ss)
  then show ?case by (auto split: list.splits)
qed simp

lemma join_names_nonempty: "ss \<noteq> [] \<Longrightarrow> [] \<notin> set ss \<Longrightarrow> join_names ss \<noteq> []"
  by (induction ss rule: join_names.induct) simp_all

lemma lexically_normal_nonempty:
  assumes "p \<noteq> []"
  shows "lexically_normal p \<noteq> []"
proof -
  have "[] \<notin> set (normal_names ab [] (path_names p))" for ab
    using normal_names_subset [of "[]"] path_names_proper [of "[]" p] by fastforce
  then show ?thesis
    using assms join_names_nonempty by (simp add: lexically_normal_def Let_def)
qed

lemma lexically_normal_examples:
  "lexically_normal ''src/./a//b.cpp'' = ''src/a/b.cpp''"
  "lexically_normal ''a/b/..'' = ''a/''"
  "lexically_normal ''a/..'' = ''.''"
  "lexically_normal ''a/../../b'' = ''../b''"
  "lexically_normal ''/../x'' = ''/x''"
  "lexically_normal ''../'' = ''..''"
  by code_simp+

lemma lexically_relative_examples:
  "lexically_relative ''/r/a/b.c'' ''/r'' = ''a/b.c''"
  "lexically_relative ''/r'' ''/r'' = ''.''"
  "lexically_relative ''/x/y'' ''/r/s'' = ''../../x/y''"
  "parent_path ''/r/a'' = ''/r''" "parent_path ''/r'' = ''/''" "parent_path ''a/b/'' = ''a/b''"
  by code_simp+

end
