(* ===== verification/Domain.thy ===== *)
theory Domain
  imports Floats Hashing Paths
begin

text \<open>
  The data the components exchange (\<^verbatim>\<open>include/llamacodelab/domain/*.hpp\<close>), the order of
  search results every retriever sorts by, and the dot product of
  \<^verbatim>\<open>src/domain/similarity.cpp\<close>; its normalisation is in \<open>Similarity\<close>.
\<close>

type_synonym ChunkId = "64 word"

record SourceRange =
  range_path :: path
  range_start_line :: "32 word"
  range_end_line :: "32 word"

record Chunk =
  chunk_id :: ChunkId
  chunk_source :: SourceRange
  chunk_language :: string
  chunk_content :: string
  chunk_content_hash :: string
  chunk_chunker_version :: string

type_synonym Embedding = "float32 list"

datatype EmbeddingKind = Embed_query | Embed_document

record SearchHit =
  hit_chunk_id :: ChunkId
  hit_score :: float32

datatype Role = Role_system | Role_user | Role_assistant

record ChatMessage =
  msg_role :: Role
  msg_content :: string

definition role_name :: "Role \<Rightarrow> string" where
  "role_name r = (case r of Role_system \<Rightarrow> ''system'' | Role_user \<Rightarrow> ''user''
     | Role_assistant \<Rightarrow> ''assistant'')"

text \<open>
  Sampling options and statistics of one generation. \<open>std::int32_t\<close> fields are \<open>int\<close>
  (they are only compared and converted), floating-point ones are bit patterns; durations are
  milliseconds.
\<close>

record GenerationOptions =
  opt_max_tokens :: int
  opt_temperature :: float32
  opt_top_k :: int
  opt_top_p :: float32
  opt_repeat_penalty :: float32
  opt_seed :: "32 word"

record GenerationStats =
  stat_prompt_tokens :: nat
  stat_generated_tokens :: nat
  stat_time_to_first_token :: int
  stat_prompt_tokens_per_second :: float64
  stat_decode_tokens_per_second :: float64

definition empty_stats :: GenerationStats where
  "empty_stats = \<lparr>stat_prompt_tokens = 0, stat_generated_tokens = 0,
     stat_time_to_first_token = 0, stat_prompt_tokens_per_second = 0,
     stat_decode_tokens_per_second = 0\<rparr>"

section \<open>The order of search results\<close>

text \<open>
  \<^verbatim>\<open>better\<close> of the vector indexes, repeated as a lambda in the fusion, symbol-graph and
  reranking code: higher score first, then the smaller chunk id.
\<close>

definition better :: "SearchHit \<Rightarrow> SearchHit \<Rightarrow> bool" where
  "better lhs rhs = (f32_less (hit_score rhs) (hit_score lhs)
     \<or> (f32_equal (hit_score lhs) (hit_score rhs) \<and> hit_chunk_id lhs < hit_chunk_id rhs))"

abbreviation hit_ok :: "SearchHit \<Rightarrow> bool" where
  "hit_ok h \<equiv> \<not> f32_isnan (hit_score h)"

lemma better_iff:
  assumes "hit_ok x" and "hit_ok y"
  shows "better x y \<longleftrightarrow>
    (let a = fp_key binary32 (unat (hit_score x)); b = fp_key binary32 (unat (hit_score y))
     in b < a \<or> (a = b \<and> hit_chunk_id x < hit_chunk_id y))"
  using assms by (auto simp: better_def f32_less_def f32_equal_def fp_less_def fp_equal_def
      f32_isnan_def Let_def)

interpretation hit_order: comparator better hit_ok
proof
  fix x y assume "hit_ok x" "hit_ok y" "better x y"
  then show "\<not> better y x" by (auto simp: better_iff Let_def)
next
  fix x y z assume "hit_ok x" "hit_ok y" "hit_ok z" "better x z"
  then show "better x y \<or> better y z" by (auto simp: better_iff Let_def)
qed

text \<open>Hits of different chunks are always comparable, so their sorted order is unique.\<close>

lemma better_total:
  "hit_ok x \<Longrightarrow> hit_ok y \<Longrightarrow> hit_chunk_id x \<noteq> hit_chunk_id y \<Longrightarrow> better x y \<or> better y x"
  by (auto simp: better_iff Let_def not_less le_less)

lemma sort_hits_unique:
  assumes "mset xs = mset ys" and "list_all hit_ok xs" and "distinct (map hit_chunk_id xs)"
  shows "sort_by better xs = sort_by better ys"
proof (rule hit_order.sort_by_unique [OF assms(1,2)])
  show "\<forall>x\<in>set xs. \<forall>y\<in>set xs. x \<noteq> y \<longrightarrow> better x y \<or> better y x"
    using assms(2,3) better_total
    by (metis (no_types, lifting) distinct_map inj_onD list_all_iff)
qed

section \<open>Similarity\<close>

definition is_finite_embedding :: "float32 list \<Rightarrow> bool" where
  "is_finite_embedding values = list_all f32_isfinite values"

text \<open>\<open>std::inner_product(lhs, rhs, 0.0F)\<close>: left to right, one rounding per operation.\<close>

fun inner_product :: "float32 \<Rightarrow> float32 list \<Rightarrow> float32 list \<Rightarrow> float32" where
  "inner_product acc (x # xs) (y # ys) = inner_product (f32_add acc (f32_mul x y)) xs ys"
| "inner_product acc _ _ = acc"

definition dot_product :: "float32 list \<Rightarrow> float32 list \<Rightarrow> float32 res" where
  "dot_product lhs rhs = (
     if length lhs \<noteq> length rhs
       then Inl (Invalid_argument ''embedding dimensions do not match'')
     else if \<not> is_finite_embedding lhs \<or> \<not> is_finite_embedding rhs
       then Inl (Invalid_argument ''embedding must be finite'')
     else Inr (inner_product 0 lhs rhs))"

lemma dot_product_ok:
  "length lhs = length rhs \<Longrightarrow> is_finite_embedding lhs \<Longrightarrow> is_finite_embedding rhs \<Longrightarrow>
    dot_product lhs rhs = Inr (inner_product 0 lhs rhs)"
  by (simp add: dot_product_def)

end
