(* ===== verification/Prompt_Builder.thy ===== *)
theory Prompt_Builder
  imports Domain
begin

text \<open>
  \<^verbatim>\<open>src/application/prompt_builder.cpp\<close>: fitting a chat history into a token budget by
  discarding the oldest non-system messages. The chat formatter (\<^verbatim>\<open>IChatFormatter\<close>) and the
  token counter (\<^verbatim>\<open>ITokenCounter\<close>) are the interfaces the builder is called with; both may
  throw.
\<close>

record BuiltPrompt =
  built_text :: string
  built_retained :: "ChatMessage list"
  built_token_count :: nat
  built_discarded :: nat

type_synonym chat_formatter = "ChatMessage list \<Rightarrow> bool \<Rightarrow> string res"
type_synonym token_counter = "string \<Rightarrow> nat res"

text \<open>\<open>find_if\<close> of the first non-system message, and \<open>erase\<close> of it; \<open>None\<close> if there is none.\<close>

fun erase_first_nonsystem :: "ChatMessage list \<Rightarrow> ChatMessage list option" where
  "erase_first_nonsystem [] = None"
| "erase_first_nonsystem (m # ms) = (if msg_role m \<noteq> Role_system then Some ms
     else map_option (Cons m) (erase_first_nonsystem ms))"

lemma erase_first_nonsystem_length:
  "erase_first_nonsystem ms = Some ms' \<Longrightarrow> length ms = Suc (length ms')"
  by (induction ms arbitrary: ms') (auto split: if_splits)

function build_loop ::
  "chat_formatter \<Rightarrow> token_counter \<Rightarrow> nat \<Rightarrow> ChatMessage list \<Rightarrow> nat \<Rightarrow> BuiltPrompt res" where
  "build_loop format_chat count_tokens max_prompt_tokens retained discarded =
     res_bind (format_chat retained True) (\<lambda>text.
     res_bind (count_tokens text) (\<lambda>token_count.
       if token_count \<le> max_prompt_tokens then
         Inr \<lparr>built_text = text, built_retained = retained, built_token_count = token_count,
           built_discarded = discarded\<rparr>
       else case erase_first_nonsystem retained of
         None \<Rightarrow> Inl (Invalid_argument
           ''system prompt exceeds the configured chat prompt token budget'')
       | Some rest \<Rightarrow>
           if length retained = 1 then Inl (Invalid_argument
             ''no chat messages fit within the configured prompt token budget'')
           else build_loop format_chat count_tokens max_prompt_tokens rest (discarded + 1)))"
  by pat_completeness auto
termination
  by (relation "measure (\<lambda>(_, _, _, retained, _). length retained)")
    (auto dest: erase_first_nonsystem_length)

declare build_loop.simps [simp del]

definition build ::
  "ChatMessage list \<Rightarrow> chat_formatter \<Rightarrow> token_counter \<Rightarrow> nat \<Rightarrow> BuiltPrompt res" where
  "build messages format_chat count_tokens max_prompt_tokens = (
     if messages = [] then Inl (Invalid_argument ''chat messages must not be empty'')
     else if max_prompt_tokens = 0
       then Inl (Invalid_argument ''max_prompt_tokens must be positive'')
     else build_loop format_chat count_tokens max_prompt_tokens messages 0)"

section \<open>What discarding leaves\<close>

text \<open>The history without its \<open>k\<close> oldest non-system messages.\<close>

fun drop_oldest :: "nat \<Rightarrow> ChatMessage list \<Rightarrow> ChatMessage list" where
  "drop_oldest 0 ms = ms"
| "drop_oldest (Suc k) [] = []"
| "drop_oldest (Suc k) (m # ms) = (if msg_role m = Role_system then m # drop_oldest (Suc k) ms
     else drop_oldest k ms)"

abbreviation is_system :: "ChatMessage \<Rightarrow> bool" where
  "is_system m \<equiv> msg_role m = Role_system"

lemma drop_oldest_Nil [simp]: "drop_oldest k [] = []"
  by (cases k) simp_all

lemma drop_oldest_system: "filter is_system (drop_oldest k ms) = filter is_system ms"
  by (induction k ms rule: drop_oldest.induct) simp_all

lemma drop_oldest_others:
  "filter (\<lambda>m. \<not> is_system m) (drop_oldest k ms) = drop k (filter (\<lambda>m. \<not> is_system m) ms)"
  by (induction k ms rule: drop_oldest.induct) simp_all

lemma drop_oldest_subseq: "subseq (drop_oldest k ms) ms"
  by (induction k ms rule: drop_oldest.induct) auto

lemma erase_drop_oldest:
  "erase_first_nonsystem (drop_oldest k ms) = (if filter (\<lambda>m. \<not> is_system m) (drop_oldest k ms) = []
     then None else Some (drop_oldest (Suc k) ms))"
proof (induction k ms rule: drop_oldest.induct)
  case (1 ms)
  then show ?case by (induction ms) (auto split: if_splits)
next
  case (3 k m ms)
  then show ?case by (cases "is_system m") simp_all
qed simp

text \<open>How many messages may be discarded: all non-system ones, but never the last message left.\<close>

definition max_discard :: "ChatMessage list \<Rightarrow> nat" where
  "max_discard ms = (let n = length (filter (\<lambda>m. \<not> is_system m) ms)
     in if filter is_system ms = [] then n - 1 else n)"

lemma length_drop_oldest: "length (drop_oldest k ms)
    = length (filter is_system ms) + (length (filter (\<lambda>m. \<not> is_system m) ms) - k)"
proof -
  have "length (drop_oldest k ms) = length (filter is_system (drop_oldest k ms))
      + length (filter (\<lambda>m. \<not> is_system m) (drop_oldest k ms))"
    by (simp add: sum_length_filter_compl)
  then show ?thesis by (simp add: drop_oldest_system drop_oldest_others)
qed

lemma nonempty_counts:
  "ms \<noteq> [] \<Longrightarrow> 0 < length (filter is_system ms) + length (filter (\<lambda>m. \<not> is_system m) ms)"
  by (simp add: sum_length_filter_compl)

lemma max_discard_eq: "max_discard ms = (if length (filter is_system ms) = 0
    then length (filter (\<lambda>m. \<not> is_system m) ms) - 1 else length (filter (\<lambda>m. \<not> is_system m) ms))"
  by (simp add: max_discard_def)

lemma may_discard_iff:
  assumes "ms \<noteq> []" and "k \<le> max_discard ms"
  shows "filter (\<lambda>m. \<not> is_system m) (drop_oldest k ms) \<noteq> [] \<and> length (drop_oldest k ms) \<noteq> 1
    \<longleftrightarrow> k < max_discard ms"
proof -
  define S N where "S = length (filter is_system ms)"
    and "N = length (filter (\<lambda>m. \<not> is_system m) ms)"
  have "filter (\<lambda>m. \<not> is_system m) (drop_oldest k ms) \<noteq> [] \<longleftrightarrow> k < N"
    by (simp add: drop_oldest_others N_def not_le)
  moreover have "length (drop_oldest k ms) = S + (N - k)"
    by (simp only: length_drop_oldest S_def N_def)
  moreover have "max_discard ms = (if S = 0 then N - 1 else N)"
    by (simp only: max_discard_eq S_def N_def)
  moreover have "0 < S + N" using nonempty_counts [OF assms(1)] by (simp only: S_def N_def)
  ultimately show ?thesis using assms(2) by (cases "S = 0") auto
qed

lemma drop_oldest_nonempty:
  assumes "ms \<noteq> []" and "k \<le> max_discard ms"
  shows "drop_oldest k ms \<noteq> []"
proof -
  have "0 < length (drop_oldest k ms)"
    using assms(2) nonempty_counts [OF assms(1)] unfolding length_drop_oldest max_discard_eq
    by (auto simp del: length_0_conv length_greater_0_conv split: if_splits)
  then show ?thesis by simp
qed

definition overflows ::
  "chat_formatter \<Rightarrow> token_counter \<Rightarrow> nat \<Rightarrow> ChatMessage list \<Rightarrow> bool" where
  "overflows fmt cnt budget ms =
     (\<exists>text n. fmt ms True = Inr text \<and> cnt text = Inr n \<and> budget < n)"

lemma build_loop_sound:
  assumes "ms \<noteq> []"
  shows "k \<le> max_discard ms \<Longrightarrow> build_loop fmt cnt budget (drop_oldest k ms) k = Inr b \<Longrightarrow>
    \<exists>j. k \<le> j \<and> j \<le> max_discard ms \<and> built_discarded b = j
      \<and> built_retained b = drop_oldest j ms \<and> fmt (drop_oldest j ms) True = Inr (built_text b)
      \<and> cnt (built_text b) = Inr (built_token_count b) \<and> built_token_count b \<le> budget
      \<and> (\<forall>i. k \<le> i \<longrightarrow> i < j \<longrightarrow> overflows fmt cnt budget (drop_oldest i ms))"
proof (induction "max_discard ms - k" arbitrary: k)
  case (0 k)
  then have k: "k = max_discard ms" by simp
  then have "filter (\<lambda>m. \<not> is_system m) (drop_oldest k ms) = [] \<or> length (drop_oldest k ms) = 1"
    using may_discard_iff [OF assms, of k] by auto
  with 0(3) k show ?case
    by (subst (asm) build_loop.simps)
      (auto simp: res_simps erase_drop_oldest split: if_splits intro!: exI [of _ k])
next
  case (Suc x k)
  then have lt: "k < max_discard ms" by simp
  note may = may_discard_iff [OF assms, of k]
  have er: "erase_first_nonsystem (drop_oldest k ms) = Some (drop_oldest (Suc k) ms)"
    "length (drop_oldest k ms) \<noteq> 1"
    using lt may by (simp_all add: erase_drop_oldest)
  from Suc.prems(2) obtain t n where tn: "fmt (drop_oldest k ms) True = Inr t"
      "cnt t = Inr n"
    by (subst (asm) build_loop.simps) (auto simp: res_simps)
  show ?case
  proof (cases "n \<le> budget")
    case True
    with Suc.prems tn show ?thesis
      by (subst (asm) build_loop.simps) (auto intro!: exI [of _ k])
  next
    case False
    then have ov: "overflows fmt cnt budget (drop_oldest k ms)"
      using tn by (auto simp: overflows_def)
    from Suc.prems(2) False tn er
    have "build_loop fmt cnt budget (drop_oldest (Suc k) ms) (Suc k) = Inr b"
      by (subst (asm) build_loop.simps) simp
    moreover have "x = max_discard ms - Suc k" "Suc k \<le> max_discard ms" using Suc(2) lt by simp_all
    ultimately obtain j where j: "Suc k \<le> j" "j \<le> max_discard ms" "built_discarded b = j"
      "built_retained b = drop_oldest j ms" "fmt (drop_oldest j ms) True = Inr (built_text b)"
      "cnt (built_text b) = Inr (built_token_count b)" "built_token_count b \<le> budget"
      "\<forall>i. Suc k \<le> i \<longrightarrow> i < j \<longrightarrow> overflows fmt cnt budget (drop_oldest i ms)"
      using Suc(1) [of "Suc k"] by blast
    have "overflows fmt cnt budget (drop_oldest i ms)" if "k \<le> i" "i < j" for i
      using that ov j(8) by (cases "i = k") auto
    with j(1-7) show ?thesis
      by (intro exI [of _ j]) simp
  qed
qed

lemma build_loop_total:
  assumes "ms \<noteq> []" and "\<And>xs. fmt xs True = Inr (f xs)" and "\<And>t. cnt t = Inr (c t)"
  shows "k \<le> j \<Longrightarrow> j \<le> max_discard ms \<Longrightarrow> c (f (drop_oldest j ms)) \<le> budget \<Longrightarrow>
    \<exists>b. build_loop fmt cnt budget (drop_oldest k ms) k = Inr b"
proof (induction "j - k" arbitrary: k)
  case (0 k)
  then have "k = j" by simp
  with 0 show ?case by (subst build_loop.simps) (simp add: assms)
next
  case (Suc x k)
  then have "k < max_discard ms" by linarith
  then have "filter (\<lambda>m. \<not> is_system m) (drop_oldest k ms) \<noteq> []" "length (drop_oldest k ms) \<noteq> 1"
    using may_discard_iff [OF assms(1), of k] by simp_all
  moreover have "\<exists>b. build_loop fmt cnt budget (drop_oldest (Suc k) ms) (Suc k) = Inr b"
    using Suc by simp
  ultimately show ?case
    by (subst build_loop.simps) (simp add: assms erase_drop_oldest)
qed

lemma build_loop_errors:
  "(\<And>xs. fmt xs True = Inr (f xs)) \<Longrightarrow> (\<And>t. cnt t = Inr (c t)) \<Longrightarrow>
    build_loop fmt cnt budget ms k = Inl e \<Longrightarrow> \<exists>m. e = Invalid_argument m"
proof (induction fmt cnt budget ms k rule: build_loop.induct)
  case (1 fmt cnt budget ms k)
  from 1(4) consider "fmt ms True = Inl e" | t where "cnt t = Inl e"
    | m where "e = Invalid_argument m"
    | t n rest where "fmt ms True = Inr t" "cnt t = Inr n" "\<not> n \<le> budget"
      "erase_first_nonsystem ms = Some rest" "length ms \<noteq> 1"
      "build_loop fmt cnt budget rest (k + 1) = Inl e"
    by (subst (asm) build_loop.simps) (auto simp: res_simps split: if_splits option.splits)
  then show ?case
  proof cases
    case (4 t n rest)
    show ?thesis by (rule 1(1) [OF 4(1-5) 1(2,3) 4(6)])
  qed (use 1(2,3) in auto)
qed

section \<open>Properties\<close>

text \<open>
  C5. A prompt that is returned fits the budget, its text and token count are the formatter's and the
  counter's for the retained messages, every system message is retained, the retained other messages
  are the most recent ones, and no smaller number of discarded messages would have fitted.
\<close>

theorem build_keeps_most_recent:
  assumes "build messages fmt cnt budget = Inr b"
  shows "built_token_count b \<le> budget \<and> fmt (built_retained b) True = Inr (built_text b)
    \<and> cnt (built_text b) = Inr (built_token_count b) \<and> built_retained b \<noteq> []
    \<and> subseq (built_retained b) messages
    \<and> filter is_system (built_retained b) = filter is_system messages
    \<and> filter (\<lambda>m. \<not> is_system m) (built_retained b)
        = drop (built_discarded b) (filter (\<lambda>m. \<not> is_system m) messages)
    \<and> (\<forall>i < built_discarded b. overflows fmt cnt budget (drop_oldest i messages))"
proof -
  have ne: "messages \<noteq> []" using assms by (auto simp: build_def)
  have "build_loop fmt cnt budget (drop_oldest 0 messages) 0 = Inr b"
    using assms by (auto simp: build_def split: if_splits)
  from build_loop_sound [OF ne _ this] obtain j where j: "j \<le> max_discard messages"
      "built_discarded b = j" "built_retained b = drop_oldest j messages"
      "fmt (drop_oldest j messages) True = Inr (built_text b)"
      "cnt (built_text b) = Inr (built_token_count b)" "built_token_count b \<le> budget"
      "\<forall>i < j. overflows fmt cnt budget (drop_oldest i messages)" by auto
  then show ?thesis
    using drop_oldest_nonempty [OF ne j(1)]
    by (simp add: drop_oldest_system drop_oldest_others drop_oldest_subseq)
qed

text \<open>A formatter and a counter of the tests: role, colon, content, bar; one token per byte.\<close>

definition pipe_format :: chat_formatter where
  "pipe_format ms add_prefix = Inr (concat (map (\<lambda>m. role_name (msg_role m) @ '':'' @ msg_content m @ ''|'') ms)
     @ (if add_prefix then ''assistant:'' else []))"

definition byte_count :: token_counter where
  "byte_count t = Inr (length t)"

theorem build_keeps_most_recent_witness:
  "\<exists>b. build [\<lparr>msg_role = Role_system, msg_content = ''s''\<rparr>,
         \<lparr>msg_role = Role_user, msg_content = ''first''\<rparr>,
         \<lparr>msg_role = Role_user, msg_content = ''latest''\<rparr>] pipe_format byte_count 32 = Inr b
     \<and> built_discarded b = 1 \<and> built_token_count b \<le> 32
     \<and> filter is_system (built_retained b) = [\<lparr>msg_role = Role_system, msg_content = ''s''\<rparr>]"
proof -
  let ?ms = "[\<lparr>msg_role = Role_system, msg_content = ''s''\<rparr>,
     \<lparr>msg_role = Role_user, msg_content = ''first''\<rparr>,
     \<lparr>msg_role = Role_user, msg_content = ''latest''\<rparr>]"
  let ?b = "\<lparr>built_text = ''system:s|user:latest|assistant:'', built_retained =
      [\<lparr>msg_role = Role_system, msg_content = ''s''\<rparr>,
       \<lparr>msg_role = Role_user, msg_content = ''latest''\<rparr>],
     built_token_count = 31, built_discarded = 1\<rparr>"
  have "build ?ms pipe_format byte_count 32 = Inr ?b" by code_simp
  with build_keeps_most_recent [OF this] show ?thesis by (intro exI [of _ ?b]) simp
qed

text \<open>
  The loop always ends, and when neither the formatter nor the counter throws it ends with a prompt
  exactly if some admissible number of discarded messages fits the budget; otherwise with
  \<^verbatim>\<open>std::invalid_argument\<close>.
\<close>

lemma build_succeeds_iff:
  assumes "messages \<noteq> []" and "0 < budget"
    and "\<And>xs. fmt xs True = Inr (f xs)" and "\<And>t. cnt t = Inr (c t)"
  shows "((\<exists>b. build messages fmt cnt budget = Inr b)
      \<longleftrightarrow> (\<exists>k \<le> max_discard messages. c (f (drop_oldest k messages)) \<le> budget))
    \<and> (\<forall>e. build messages fmt cnt budget = Inl e \<longrightarrow> (\<exists>m. e = Invalid_argument m))"
proof (intro conjI iffI)
  assume "\<exists>b. build messages fmt cnt budget = Inr b"
  then obtain b where "build_loop fmt cnt budget (drop_oldest 0 messages) 0 = Inr b"
    using assms(1,2) by (auto simp: build_def)
  from build_loop_sound [OF assms(1) _ this] assms(3,4)
  show "\<exists>k \<le> max_discard messages. c (f (drop_oldest k messages)) \<le> budget" by auto
next
  assume "\<exists>k \<le> max_discard messages. c (f (drop_oldest k messages)) \<le> budget"
  then show "\<exists>b. build messages fmt cnt budget = Inr b"
    using build_loop_total [where fmt = fmt and cnt = cnt and f = f and c = c and k = 0]
      assms by (auto simp: build_def)
next
  show "\<forall>e. build messages fmt cnt budget = Inl e \<longrightarrow> (\<exists>m. e = Invalid_argument m)"
    using build_loop_errors [where fmt = fmt and cnt = cnt and f = f and c = c] assms
    by (auto simp: build_def)
qed

lemma build_succeeds_iff_example:
  "\<not> (\<exists>b. build [\<lparr>msg_role = Role_user, msg_content = ''too long''\<rparr>] pipe_format byte_count 1 = Inr b)"
proof -
  let ?f = "\<lambda>ms. concat (map (\<lambda>m. role_name (msg_role m) @ '':'' @ msg_content m @ ''|'') ms)
     @ ''assistant:''"
  show ?thesis
    using build_succeeds_iff [of "[\<lparr>msg_role = Role_user, msg_content = ''too long''\<rparr>]" 1
        pipe_format ?f byte_count length]
    by (simp add: pipe_format_def byte_count_def max_discard_def role_name_def)
qed

text \<open>
  With a system message present the builder may discard every other message, the question being
  asked included, and still return a prompt: the last message of the history is not protected.
\<close>

lemma build_may_drop_the_question:
  "\<exists>b. build [\<lparr>msg_role = Role_system, msg_content = ''s''\<rparr>,
         \<lparr>msg_role = Role_user, msg_content = ''question''\<rparr>] pipe_format byte_count 20 = Inr b
     \<and> built_retained b = [\<lparr>msg_role = Role_system, msg_content = ''s''\<rparr>]"
proof -
  let ?b = "\<lparr>built_text = ''system:s|assistant:'', built_retained =
      [\<lparr>msg_role = Role_system, msg_content = ''s''\<rparr>],
     built_token_count = 19, built_discarded = 1\<rparr>"
  have "build [\<lparr>msg_role = Role_system, msg_content = ''s''\<rparr>,
      \<lparr>msg_role = Role_user, msg_content = ''question''\<rparr>] pipe_format byte_count 20 = Inr ?b"
    by code_simp
  then show ?thesis by simp
qed

end
