(* ===== verification/Chunk_Repository.thy ===== *)
theory Chunk_Repository
  imports Domain
begin

text \<open>
  The chunk repository interface (\<^verbatim>\<open>IChunkRepository\<close> of
  \<^verbatim>\<open>include/llamacodelab/domain/retrieval.hpp\<close>) as a locale, and the in-memory
  implementation of \<^verbatim>\<open>src/adapters/memory/in_memory_chunk_repository.cpp\<close>. The SQLite
  implementation is in \<open>Sqlite_Chunks\<close>.
\<close>

section \<open>The interface\<close>

text \<open>
  What a client of \<^verbatim>\<open>get_many\<close> relies on: every id is looked up, in the order given, ids that are
  not stored are skipped, and what is returned for an id carries that id.
\<close>

locale chunk_repository =
  fixes valid :: "'s \<Rightarrow> bool" and find_chunk :: "'s \<Rightarrow> ChunkId \<Rightarrow> Chunk option"
    and get_many :: "'s \<Rightarrow> ChunkId list \<Rightarrow> Chunk list"
  assumes get_many_Nil: "get_many s [] = []"
    and get_many_Cons: "get_many s (i # ids) = (case find_chunk s i of
          None \<Rightarrow> get_many s ids | Some c \<Rightarrow> c # get_many s ids)"
    and find_chunk_id: "valid s \<Longrightarrow> find_chunk s i = Some c \<Longrightarrow> chunk_id c = i"
begin

lemma get_many_ids:
  "valid s \<Longrightarrow> map chunk_id (get_many s ids) = filter (\<lambda>i. find_chunk s i \<noteq> None) ids"
  by (induction ids) (auto simp: get_many_Nil get_many_Cons find_chunk_id split: option.splits)

lemma get_many_length: "length (get_many s ids) \<le> length ids"
  by (induction ids) (auto simp: get_many_Nil get_many_Cons split: option.splits)

lemma get_many_set: "c \<in> set (get_many s ids) \<longleftrightarrow> (\<exists>i \<in> set ids. find_chunk s i = Some c)"
proof (induction ids)
  case (Cons j ids)
  then show ?case by (cases "find_chunk s j") (auto simp: get_many_Cons)
qed (simp add: get_many_Nil)

lemma get_many_complete:
  assumes "valid s"
  shows "length (get_many s ids) = length ids \<longleftrightarrow> (\<forall>i \<in> set ids. find_chunk s i \<noteq> None)"
proof -
  have "length (get_many s ids) = length (filter (\<lambda>i. find_chunk s i \<noteq> None) ids)"
    using arg_cong [OF get_many_ids [OF assms], of length] by simp
  moreover have "length (filter P ids) = length ids \<longleftrightarrow> (\<forall>i \<in> set ids. P i)" for P
    by (metis filter_True length_filter_less less_irrefl)
  ultimately show ?thesis by simp
qed

text \<open>The map from ids to chunks a client builds from the answer is the stored one.\<close>

lemma map_of_get_many:
  assumes "valid s" and "i \<in> set ids"
  shows "map_of (map (\<lambda>c. (chunk_id c, c)) (get_many s ids)) i = find_chunk s i"
  using assms(2)
proof (induction ids)
  case (Cons j ids)
  have *: "map_of (map (\<lambda>c. (chunk_id c, c)) (get_many s ids)) i = None" if "i \<notin> set ids"
    using that find_chunk_id [OF assms(1)] by (auto simp: map_of_eq_None_iff get_many_set)
  show ?case
  proof (cases "i \<in> set ids")
    case True
    with Cons.IH show ?thesis
      by (auto simp: get_many_Cons find_chunk_id [OF assms(1)] split: option.splits)
  next
    case False
    with Cons.prems have "j = i" by simp
    with * [OF False] show ?thesis
      by (auto simp: get_many_Cons find_chunk_id [OF assms(1)] split: option.splits)
  qed
qed simp

end

section \<open>The in-memory implementation\<close>

type_synonym InMemoryChunkRepository = "ChunkId \<rightharpoonup> Chunk"

fun insert_chunks :: "Chunk list \<Rightarrow> InMemoryChunkRepository \<Rightarrow> InMemoryChunkRepository" where
  "insert_chunks [] chunks = chunks"
| "insert_chunks (c # cs) chunks = insert_chunks cs (chunks(chunk_id c \<mapsto> c))"

definition replace_chunks ::
  "Chunk list \<Rightarrow> InMemoryChunkRepository \<Rightarrow> InMemoryChunkRepository" where
  "replace_chunks cs chunks = insert_chunks cs Map.empty"

fun memory_get_many :: "InMemoryChunkRepository \<Rightarrow> ChunkId list \<Rightarrow> Chunk list" where
  "memory_get_many chunks [] = []"
| "memory_get_many chunks (i # ids) = (case chunks i of
     Some c \<Rightarrow> c # memory_get_many chunks ids | None \<Rightarrow> memory_get_many chunks ids)"

definition memory_size :: "InMemoryChunkRepository \<Rightarrow> nat" where
  "memory_size chunks = card (dom chunks)"

definition keyed_by_id :: "InMemoryChunkRepository \<Rightarrow> bool" where
  "keyed_by_id chunks \<longleftrightarrow> (\<forall>i c. chunks i = Some c \<longrightarrow> chunk_id c = i)"

lemma insert_chunks_lookup:
  "insert_chunks cs m i = (case map_of (rev (map (\<lambda>c. (chunk_id c, c)) cs)) i of
     Some c \<Rightarrow> Some c | None \<Rightarrow> m i)"
  by (induction cs arbitrary: m) (auto simp: map_add_def split: option.splits)

lemma keyed_by_id_insert: "keyed_by_id m \<Longrightarrow> keyed_by_id (insert_chunks cs m)"
proof (induction cs arbitrary: m)
  case (Cons c cs)
  have "keyed_by_id (m(chunk_id c \<mapsto> c))" using Cons.prems by (simp add: keyed_by_id_def)
  then show ?case using Cons.IH by simp
qed simp

lemma keyed_by_id_replace: "keyed_by_id (replace_chunks cs m)"
  unfolding replace_chunks_def by (rule keyed_by_id_insert) (simp add: keyed_by_id_def)

interpretation memory: chunk_repository keyed_by_id "\<lambda>m i. m i" memory_get_many
  by unfold_locales (auto simp: keyed_by_id_def split: option.splits)

text \<open>
  After \<^verbatim>\<open>replace\<close> the in-memory repository holds exactly the given chunks, one per id, the
  last one given for an id, whatever it held before; \<^verbatim>\<open>get_many\<close> returns the chunks asked for, in
  the order of the request, skipping ids that are not stored, and \<^verbatim>\<open>size\<close> counts the ids.
\<close>

lemma memory_replace_get_many:
  "replace_chunks cs m i = map_of (rev (map (\<lambda>c. (chunk_id c, c)) cs)) i
   \<and> map chunk_id (memory_get_many (replace_chunks cs m) ids)
       = filter (\<lambda>i. i \<in> chunk_id ` set cs) ids
   \<and> set (memory_get_many (replace_chunks cs m) ids) \<subseteq> set cs
   \<and> memory_size (replace_chunks cs m) = card (chunk_id ` set cs)"
proof -
  have look: "replace_chunks cs m j = map_of (rev (map (\<lambda>c. (chunk_id c, c)) cs)) j" for j
    by (simp add: replace_chunks_def insert_chunks_lookup split: option.splits)
  have dom: "dom (replace_chunks cs m) = chunk_id ` set cs"
  proof -
    have "replace_chunks cs m = map_of (rev (map (\<lambda>c. (chunk_id c, c)) cs))"
      using look by (intro ext)
    then show ?thesis by (simp add: dom_map_of_conv_image_fst image_image)
  qed
  have "set (memory_get_many (replace_chunks cs m) ids) \<subseteq> set cs"
  proof
    fix c assume "c \<in> set (memory_get_many (replace_chunks cs m) ids)"
    then obtain i where "replace_chunks cs m i = Some c" by (auto simp: memory.get_many_set)
    then show "c \<in> set cs" by (auto simp: look dest!: map_of_SomeD)
  qed
  moreover have "(replace_chunks cs m j \<noteq> None) = (j \<in> chunk_id ` set cs)" for j
    using dom by auto
  ultimately show ?thesis
    using look memory.get_many_ids [OF keyed_by_id_replace] by (simp add: memory_size_def dom)
qed

end
