(* ===== verification/Ask_Service.thy ===== *)
theory Ask_Service
  imports Context_Budget Chunk_Repository
begin

text \<open>
  \<^verbatim>\<open>src/application/ask_service.cpp\<close>: answering a question about the repository. The retriever, the
  chunk repository, the optional reranker and the text generator are the interfaces the service is
  constructed with; each may throw. A generator's run is the list of pieces it hands to the token
  callback, in order, and what it returns or throws afterwards.
\<close>

type_synonym retriever = "string \<Rightarrow> nat \<Rightarrow> SearchHit list res"
type_synonym reranker = "string \<Rightarrow> SearchHit list \<Rightarrow> Chunk list \<Rightarrow> nat \<Rightarrow> SearchHit list res"
type_synonym text_generator =
  "string \<Rightarrow> GenerationOptions \<Rightarrow> bool \<Rightarrow> string list \<times> GenerationStats res"

text \<open>The default sampling options: 0.2, 0.9 and 1.1 are in single precision.\<close>

definition default_generation :: GenerationOptions where
  "default_generation = \<lparr>opt_max_tokens = 512, opt_temperature = 0x3E4CCCCD, opt_top_k = 40, opt_top_p = 0x3F666666,
     opt_repeat_penalty = 0x3F8CCCCD, opt_seed = 42\<rparr>"

record Citation =
  cited_id :: string
  cited_source :: SourceRange
  retrieval_score :: float32

record AskResult =
  answer :: string
  citations :: "Citation list"
  generation :: GenerationStats
  prompt_tokens :: nat
  ask_skipped :: nat
  citations_valid :: bool

record AskService =
  retrieve :: retriever
  get_chunks :: "ChunkId list \<Rightarrow> Chunk list res"
  count_tokens :: token_counter
  generate :: text_generator
  options :: GenerationOptions
  budget :: RagPromptBudget
  rerank :: "reranker option"
  rerank_candidates :: nat

definition make_ask_service :: "AskService \<Rightarrow> AskService res" where
  "make_ask_service svc = (
     if rerank_candidates svc < 20 \<or> 50 < rerank_candidates svc
     then Inl (Invalid_argument ''rerank candidate count must be in [20, 50]'')
     else Inr svc)"

definition answer_cites :: "string \<Rightarrow> string \<Rightarrow> bool" where
  "answer_cites ans sid = contains ans (''['' @ sid @ '']'')"

text \<open>\<open>by_id.emplace\<close> keeps the first chunk of an id, as \<open>map_of\<close> does.\<close>

definition index_chunks :: "Chunk list \<Rightarrow> ChunkId \<rightharpoonup> Chunk" where
  "index_chunks chunks = map_of (map (\<lambda>c. (chunk_id c, c)) chunks)"

fun number_sources ::
  "(ChunkId \<rightharpoonup> Chunk) \<Rightarrow> SearchHit list \<Rightarrow> RagSource list \<Rightarrow> RagSource list" where
  "number_sources by_id [] sources = sources"
| "number_sources by_id (h # hs) sources = (case by_id (hit_chunk_id h) of
     None \<Rightarrow> number_sources by_id hs sources
   | Some c \<Rightarrow> number_sources by_id hs (sources @
       [\<lparr>source_id = ''S'' @ string_of_nat (length sources + 1), source_chunk = c,
         source_score = hit_score h\<rparr>]))"

text \<open>Retrieval, optional reranking and numbering of the sources.\<close>

definition find_sources :: "AskService \<Rightarrow> string \<Rightarrow> nat \<Rightarrow> RagSource list res" where
  "find_sources svc question top_k =
     res_bind (retrieve svc question (case rerank svc of None \<Rightarrow> top_k
         | Some _ \<Rightarrow> max top_k (rerank_candidates svc))) (\<lambda>hits.
     if hits = [] then Inl (Runtime_error ''no repository context matched the question'')
     else res_bind (get_chunks svc (map hit_chunk_id hits)) (\<lambda>chunks.
     res_bind (case rerank svc of None \<Rightarrow> Inr hits | Some r \<Rightarrow> r question hits chunks top_k) (\<lambda>hits.
     let sources = number_sources (index_chunks chunks) hits [] in
     if sources = [] then Inl (Runtime_error
       ''all retrieved chunks were removed from the repository'')
     else Inr sources)))"

text \<open>
  The pieces the generator emits go through \<open>tee\<close> to the caller's callback; an exception of the
  callback ends the generation. The calls made are the first component.
\<close>

fun deliver :: "(string \<Rightarrow> exn option) \<Rightarrow> string list \<Rightarrow> string list \<times> exn option" where
  "deliver on_token [] = ([], None)"
| "deliver on_token (p # ps) = (case on_token p of
     Some e \<Rightarrow> ([p], Some e)
   | None \<Rightarrow> (case deliver on_token ps of (calls, e) \<Rightarrow> (p # calls, e)))"

definition cite :: "RagSource \<Rightarrow> Citation" where
  "cite s = \<lparr>cited_id = source_id s, cited_source = chunk_source (source_chunk s),
     retrieval_score = source_score s\<rparr>"

definition ask :: "AskService \<Rightarrow> string \<Rightarrow> nat \<Rightarrow> (string \<Rightarrow> exn option) option \<Rightarrow> bool \<Rightarrow>
    string list \<times> AskResult res" where
  "ask svc question top_k on_token stop = (
     if question = [] \<or> top_k = 0 \<or> on_token = None
     then ([], Inl (Invalid_argument ''question, top_k, and token callback must be provided''))
     else case find_sources svc question top_k of
       Inl e \<Rightarrow> ([], Inl e)
     | Inr sources \<Rightarrow> (case build_rag question sources (count_tokens svc) (budget svc) of
         Inl e \<Rightarrow> ([], Inl e)
       | Inr prompt \<Rightarrow>
           (case generate svc (rag_text prompt) (options svc) stop of (pieces, outcome) \<Rightarrow>
           (case deliver (the on_token) pieces of
             (calls, Some e) \<Rightarrow> (calls, Inl e)
           | (calls, None) \<Rightarrow> (calls, res_bind outcome (\<lambda>stats.
               let ans = concat calls; kept = retained_sources prompt in
               Inr \<lparr>answer = ans, citations = map cite kept, generation = stats,
                 prompt_tokens = rag_token_count prompt,
                 ask_skipped = skipped_sources prompt,
                 citations_valid = (kept \<noteq> [] \<and> list_all (\<lambda>s. answer_cites ans (source_id s)) kept)
               \<rparr>))))))"

section \<open>Numbering\<close>

abbreviation numbered :: "nat \<Rightarrow> string" where
  "numbered k \<equiv> ''S'' @ string_of_nat k"

lemma number_sources_ids:
  "map source_id sources = map numbered [1..<Suc (length sources)] \<Longrightarrow>
    map source_id (number_sources by_id hits sources)
      = map numbered [1..<Suc (length (number_sources by_id hits sources))]"
  by (induction by_id hits sources rule: number_sources.induct) (auto split: option.splits)

lemma number_sources_length: "length (number_sources by_id hits sources)
    = length sources + length (filter (\<lambda>h. by_id (hit_chunk_id h) \<noteq> None) hits)"
  by (induction by_id hits sources rule: number_sources.induct) (auto split: option.splits)

lemma number_sources_in:
  "s \<in> set (number_sources by_id hits sources) \<Longrightarrow>
    s \<in> set sources \<or> (\<exists>h \<in> set hits. by_id (hit_chunk_id h) = Some (source_chunk s)
      \<and> source_score s = hit_score h)"
  by (induction by_id hits sources rule: number_sources.induct) (auto split: option.splits)

lemma distinct_numbered: "distinct (map numbered [1..<Suc n])"
  by (simp add: distinct_map inj_on_def)

lemma deliver_all: "deliver cb ps = (calls, None) \<Longrightarrow> calls = ps"
  by (induction ps arbitrary: calls) (auto split: option.splits prod.splits)

lemma deliver_prefix: "deliver cb ps = (calls, e) \<Longrightarrow> prefix calls ps"
  by (induction ps arbitrary: calls) (auto split: option.splits prod.splits)

lemma find_sources_numbered:
  assumes "find_sources svc question top_k = Inr sources"
  obtains hits0 chunks hits where
    "retrieve svc question (case rerank svc of None \<Rightarrow> top_k
         | Some _ \<Rightarrow> max top_k (rerank_candidates svc)) = Inr hits0"
    "hits0 \<noteq> []" "get_chunks svc (map hit_chunk_id hits0) = Inr chunks"
    "(case rerank svc of None \<Rightarrow> Inr hits0 | Some r \<Rightarrow> r question hits0 chunks top_k) = Inr hits"
    "sources = number_sources (index_chunks chunks) hits []" "sources \<noteq> []"
  using assms that by (auto simp: find_sources_def res_simps Let_def split: if_splits)

lemma ask_result:
  assumes "ask svc question top_k on_token stop = (calls, Inr r)"
  obtains sources prompt stats where
    "find_sources svc question top_k = Inr sources"
    "build_rag question sources (count_tokens svc) (budget svc) = Inr prompt"
    "generate svc (rag_text prompt) (options svc) stop = (calls, Inr stats)"
    "r = \<lparr>answer = concat calls, citations = map cite (retained_sources prompt),
       generation = stats, prompt_tokens = rag_token_count prompt,
       ask_skipped = skipped_sources prompt,
       citations_valid = (retained_sources prompt \<noteq> [] \<and> list_all
         (\<lambda>s. answer_cites (concat calls) (source_id s)) (retained_sources prompt))\<rparr>"
  using assms that
  by (auto simp: ask_def Let_def res_simps
      split: if_splits sum.splits prod.splits option.splits dest: deliver_all)

lemma map_cited_id: "map cited_id (map cite ss) = map source_id ss"
  by (simp add: cite_def)

lemma cited_chunk_found:
  assumes "ask svc question k on_token stop = (calls, Inr r)" and "c \<in> set (citations r)"
  shows "\<exists>ids chunks ch. get_chunks svc ids = Inr chunks \<and> ch \<in> set chunks \<and> cited_source c = chunk_source ch"
proof -
  from ask_result [OF assms(1)] obtain sources prompt where
    a: "find_sources svc question k = Inr sources" "build_rag question sources (count_tokens svc) (budget svc) = Inr prompt"
      "citations r = map cite (retained_sources prompt)" by (metis AskResult.select_convs(2))
  from find_sources_numbered [OF a(1)] obtain ids chunks hits where
    f: "get_chunks svc ids = Inr chunks" "sources = number_sources (index_chunks chunks) hits []" by metis
  obtain s where s: "s \<in> set sources" "c = cite s" using assms(2) a(3) build_rag_retained [OF a(2)] by auto
  then obtain i where "index_chunks chunks i = Some (source_chunk s)"
    using number_sources_in [of s _ hits "[]"] f(2) by auto
  then have "source_chunk s \<in> set chunks" unfolding index_chunks_def by (auto dest: map_of_SomeD)
  with f(1) s(2) show ?thesis by (auto simp: cite_def)
qed

section \<open>A concrete service\<close>

text \<open>One stored chunk, a retriever that finds it, and a generator that cites it in two pieces.\<close>

definition sample_chunk :: Chunk where
  "sample_chunk = \<lparr>chunk_id = 7, chunk_source = \<lparr>range_path = ''a.cpp'', range_start_line = 1,
     range_end_line = 2\<rparr>, chunk_language = ''cpp'', chunk_content = ''x'', chunk_content_hash = ''h'',
     chunk_chunker_version = ''text-v1''\<rparr>"

definition sample_service :: AskService where
  "sample_service = \<lparr>retrieve = (\<lambda>q k. Inr [\<lparr>hit_chunk_id = 7, hit_score = 0\<rparr>]),
     get_chunks = (\<lambda>ids. Inr (memory_get_many [7 \<mapsto> sample_chunk] ids)),
     count_tokens = (\<lambda>t. Inr 3), generate = (\<lambda>p o' s. ([''see '', ''[S1]''], Inr empty_stats)),
     options = \<lparr>opt_max_tokens = 8, opt_temperature = 0, opt_top_k = 1, opt_top_p = 0,
       opt_repeat_penalty = 0, opt_seed = 1\<rparr>,
     budget = \<lparr>model_context = 10, reserved_output_tokens = 4, safety_margin_tokens = 3\<rparr>,
     rerank = None, rerank_candidates = 30\<rparr>"

lemma string_of_nat_1: "string_of_nat (Suc 0) = ''1''"
  by code_simp

lemma sample_ask: "\<exists>r. ask sample_service ''q'' 1 (Some (\<lambda>p. None)) False = ([''see '', ''[S1]''], Inr r)
    \<and> citations_valid r \<and> answer r = ''see [S1]''
    \<and> citations r = [\<lparr>cited_id = ''S1'', cited_source = chunk_source sample_chunk, retrieval_score = 0\<rparr>]"
  by (simp add: ask_def find_sources_def sample_service_def index_chunks_def build_rag_def
      Let_def max_prompt_def string_of_nat_1 answer_cites_def cite_def sample_chunk_def)

section \<open>Properties\<close>

text \<open>
  C4. The answer is exactly what the caller saw through the token callback; the citations carry
  distinct ids among S1 to Sn, where n counts the sources found, cited or skipped; they are reported
  as valid exactly if there is one and the answer contains the bracketed id of each; the prompt left
  the reserved output and the safety margin free.
\<close>

theorem ask_answer_and_citations:
  assumes "ask svc question top_k on_token stop = (calls, Inr r)"
    and "reserved_output_tokens (budget svc) + safety_margin_tokens (budget svc) \<le> size_max"
    and "model_context (budget svc) \<le> size_max"
  shows "answer r = concat calls \<and> distinct (map cited_id (citations r))
    \<and> set (map cited_id (citations r))
        \<subseteq> numbered ` {1..ask_skipped r + length (citations r)}
    \<and> (citations_valid r \<longleftrightarrow> citations r \<noteq> []
        \<and> (\<forall>c \<in> set (citations r). sublist (''['' @ cited_id c @ '']'') (answer r)))
    \<and> prompt_tokens r + reserved_output_tokens (budget svc) + safety_margin_tokens (budget svc)
        \<le> model_context (budget svc)"
proof -
  obtain sources prompt stats where
    a: "find_sources svc question top_k = Inr sources"
      "build_rag question sources (count_tokens svc) (budget svc) = Inr prompt"
      "r = \<lparr>answer = concat calls, citations = map cite (retained_sources prompt),
       generation = stats, prompt_tokens = rag_token_count prompt,
       ask_skipped = skipped_sources prompt,
       citations_valid = (retained_sources prompt \<noteq> [] \<and> list_all
         (\<lambda>s. answer_cites (concat calls) (source_id s)) (retained_sources prompt))\<rparr>"
    by (rule ask_result [OF assms(1)])
  obtain by_id hits where src: "sources = number_sources by_id hits []"
    by (rule find_sources_numbered [OF a(1)]) blast
  have ids: "map source_id sources = map numbered [1..<Suc (length sources)]"
    unfolding src by (rule number_sources_ids) simp
  obtain keep where b: "retained_sources prompt = nths sources keep"
      "skipped_sources prompt + length (retained_sources prompt) = length sources"
      "rag_token_count prompt + reserved_output_tokens (budget svc)
        + safety_margin_tokens (budget svc) \<le> model_context (budget svc)"
    by (rule build_rag_sound [OF a(2) assms(2,3)])
  have kept: "map source_id (retained_sources prompt)
      = nths (map numbered [1..<Suc (length sources)]) keep"
    using b(1) ids by (metis nths_map)
  have "distinct (map source_id (retained_sources prompt))"
    unfolding kept by (intro distinct_nthsI distinct_numbered)
  moreover have "set (map source_id (retained_sources prompt)) \<subseteq> numbered ` {1..length sources}"
    unfolding kept using set_nths_subset [of "map numbered [1..<Suc (length sources)]" keep]
    by (auto simp del: upt_Suc)
  moreover have "map cited_id (citations r) = map source_id (retained_sources prompt)"
    unfolding a(3) AskResult.select_convs by (rule map_cited_id)
  moreover have "citations_valid r \<longleftrightarrow> citations r \<noteq> []
      \<and> (\<forall>c \<in> set (citations r). sublist (''['' @ cited_id c @ '']'') (answer r))"
    unfolding a(3) AskResult.select_convs list_all_iff answer_cites_def contains_sublist
    by (simp add: cite_def)
  moreover have "answer r = concat calls" "prompt_tokens r = rag_token_count prompt"
    "ask_skipped r + length (citations r) = length sources"
    unfolding a(3) using b(2) by simp_all
  ultimately show ?thesis using b(3) by metis
qed

theorem ask_answer_and_citations_witness:
  "\<exists>calls r. ask sample_service ''q'' 1 (Some (\<lambda>p. None)) False = (calls, Inr r)
    \<and> answer r = concat calls \<and> citations_valid r \<and> length (citations r) = 1
    \<and> prompt_tokens r + 4 + 3 \<le> 10"
proof -
  obtain calls r where r: "ask sample_service ''q'' 1 (Some (\<lambda>p. None)) False = (calls, Inr r)"
    "citations_valid r" "length (citations r) = 1" using sample_ask by auto
  have b: "budget sample_service
      = \<lparr>model_context = 10, reserved_output_tokens = 4, safety_margin_tokens = 3\<rparr>"
    by (simp add: sample_service_def)
  from ask_answer_and_citations [OF r(1)] r show ?thesis by (auto simp: b)
qed

text \<open>
  With the in-memory repository every citation is grounded: it names the source range of a chunk
  that is stored under the id of one of the retrieved hits, with the score of the (reranked) hit.
\<close>

lemma ask_cites_stored_chunks:
  assumes "ask svc question top_k on_token stop = (calls, Inr r)"
    and "get_chunks svc = (\<lambda>ids. Inr (memory_get_many m ids))" and "keyed_by_id m"
  shows "\<exists>found hits. retrieve svc question (case rerank svc of None \<Rightarrow> top_k
        | Some _ \<Rightarrow> max top_k (rerank_candidates svc)) = Inr found
    \<and> (case rerank svc of None \<Rightarrow> Inr found
        | Some f \<Rightarrow> f question found (memory_get_many m (map hit_chunk_id found)) top_k) = Inr hits
    \<and> (\<forall>c \<in> set (citations r). \<exists>h \<in> set hits. \<exists>ch. hit_chunk_id h \<in> hit_chunk_id ` set found
        \<and> m (hit_chunk_id h) = Some ch \<and> cited_source c = chunk_source ch
        \<and> retrieval_score c = hit_score h)"
proof -
  from ask_result [OF assms(1)] obtain sources prompt where
    a: "find_sources svc question top_k = Inr sources"
      "build_rag question sources (count_tokens svc) (budget svc) = Inr prompt"
      "citations r = map cite (retained_sources prompt)"
    by (metis AskResult.select_convs(2))
  from find_sources_numbered [OF a(1)] obtain found chunks hits where
    f: "retrieve svc question (case rerank svc of None \<Rightarrow> top_k
         | Some _ \<Rightarrow> max top_k (rerank_candidates svc)) = Inr found"
      "get_chunks svc (map hit_chunk_id found) = Inr chunks"
      "(case rerank svc of None \<Rightarrow> Inr found | Some g \<Rightarrow> g question found chunks top_k) = Inr hits"
      "sources = number_sources (index_chunks chunks) hits []" by metis
  have chunks: "chunks = memory_get_many m (map hit_chunk_id found)"
    using f(2) assms(2) by simp
  have grounded: "\<exists>h \<in> set hits. \<exists>ch. hit_chunk_id h \<in> hit_chunk_id ` set found
      \<and> m (hit_chunk_id h) = Some ch \<and> cited_source c = chunk_source ch
      \<and> retrieval_score c = hit_score h" if c: "c \<in> set (citations r)" for c
  proof -
    obtain s where s: "s \<in> set sources" "c = cite s"
      using c a(3) build_rag_retained [OF a(2)] by auto
    then obtain h where h: "h \<in> set hits" "index_chunks chunks (hit_chunk_id h) = Some (source_chunk s)"
        "source_score s = hit_score h"
      using number_sources_in [of s _ hits "[]"] f(4) by auto
    have "source_chunk s \<in> set chunks" "chunk_id (source_chunk s) = hit_chunk_id h"
      using map_of_SomeD [OF h(2) [unfolded index_chunks_def]] by auto
    then have "hit_chunk_id h \<in> set (map hit_chunk_id found)" "m (hit_chunk_id h) = Some (source_chunk s)"
      using assms(3) unfolding chunks memory.get_many_set
      by (auto simp: keyed_by_id_def intro: rev_image_eqI)
    with h(1,3) s(2) show ?thesis by (auto simp: cite_def)
  qed
  show ?thesis using f(1,3) grounded unfolding chunks by blast
qed

lemma ask_cites_stored_chunks_example:
  "\<exists>calls r. ask sample_service ''q'' 1 (Some (\<lambda>p. None)) False = (calls, Inr r)
    \<and> citations r \<noteq> [] \<and> (\<forall>c \<in> set (citations r). cited_source c = chunk_source sample_chunk)"
proof -
  obtain calls r where r: "ask sample_service ''q'' 1 (Some (\<lambda>p. None)) False = (calls, Inr r)"
    "citations r \<noteq> []" using sample_ask by auto
  have "keyed_by_id [7 \<mapsto> sample_chunk]" by (simp add: keyed_by_id_def sample_chunk_def)
  from ask_cites_stored_chunks [OF r(1) _ this] r show ?thesis
    by (fastforce simp: sample_service_def split: if_splits)
qed

text \<open>
  Bad arguments, an empty retrieval and a retrieval whose chunks have all been removed end in the
  exception the code names, before the token callback is called once.
\<close>

lemma ask_refusals:
  "(question = [] \<or> top_k = 0 \<or> on_token = None \<longrightarrow>
      ask svc question top_k on_token stop
        = ([], Inl (Invalid_argument ''question, top_k, and token callback must be provided'')))
   \<and> (question \<noteq> [] \<and> top_k \<noteq> 0 \<and> on_token \<noteq> None \<and> rerank svc = None
        \<and> retrieve svc question top_k = Inr [] \<longrightarrow>
      ask svc question top_k on_token stop
        = ([], Inl (Runtime_error ''no repository context matched the question'')))
   \<and> (question \<noteq> [] \<and> top_k \<noteq> 0 \<and> on_token \<noteq> None \<and> rerank svc = None
        \<and> retrieve svc question top_k = Inr hits \<and> hits \<noteq> []
        \<and> get_chunks svc (map hit_chunk_id hits) = Inr [] \<longrightarrow>
      ask svc question top_k on_token stop
        = ([], Inl (Runtime_error ''all retrieved chunks were removed from the repository'')))"
proof -
  have "number_sources (index_chunks []) hits [] = []"
    using number_sources_length [of "index_chunks []" hits "[]"] by (simp add: index_chunks_def)
  then show ?thesis by (auto simp: ask_def find_sources_def Let_def)
qed

lemma ask_refusals_example:
  "ask sample_service [] 1 None False
     = ([], Inl (Invalid_argument ''question, top_k, and token callback must be provided''))
   \<and> ask (sample_service\<lparr>retrieve := \<lambda>q k. Inr []\<rparr>) ''q'' 1 (Some (\<lambda>p. None)) False
     = ([], Inl (Runtime_error ''no repository context matched the question''))
   \<and> ask (sample_service\<lparr>get_chunks := \<lambda>ids. Inr []\<rparr>) ''q'' 1 (Some (\<lambda>p. None)) False
     = ([], Inl (Runtime_error ''all retrieved chunks were removed from the repository''))"
proof -
  have "rerank sample_service = None"
    "retrieve sample_service ''q'' 1 = Inr [\<lparr>hit_chunk_id = 7, hit_score = 0\<rparr>]"
    by (simp_all add: sample_service_def)
  then show ?thesis
    using ask_refusals [of "[]" 1 None sample_service False "[]"]
      ask_refusals [of "''q''" 1 "Some (\<lambda>p. None)" "sample_service\<lparr>retrieve := \<lambda>q k. Inr []\<rparr>" False "[]"]
      ask_refusals [of "''q''" 1 "Some (\<lambda>p. None)" "sample_service\<lparr>get_chunks := \<lambda>ids. Inr []\<rparr>"
        False "[\<lparr>hit_chunk_id = 7, hit_score = 0\<rparr>]"]
    by simp
qed

end
