(* ===== verification/Utf8_Stream.thy ===== *)
theory Utf8_Stream
  imports Prelude
begin

unbundle bit_operations_syntax

text \<open>
  The streaming UTF-8 repair of \<^verbatim>\<open>src/adapters/llama/llama_generator.cpp\<close>: generated tokens are
  byte strings that may split a character, so complete characters are passed on, an incomplete tail
  is kept, and malformed bytes become U+FFFD. The reference is the Unicode definition of UTF-8: the
  encodings of scalar values.
\<close>

section \<open>The code\<close>

abbreviation byte_of :: "char \<Rightarrow> nat" where
  "byte_of c \<equiv> of_char c"

definition is_continuation :: "char \<Rightarrow> bool" where
  "is_continuation c = ((byte_of c AND 0xC0) = 0x80)"

definition replacement :: string where
  "replacement = [CHR 0xEF, CHR 0xBF, CHR 0xBD]"

text \<open>The width a lead byte announces; 0 is the branch of a byte that cannot lead.\<close>

definition lead_width :: "char \<Rightarrow> nat" where
  "lead_width c = (let lead = byte_of c in
     if lead \<le> 0x7F then 1
     else if 0xC2 \<le> lead \<and> lead \<le> 0xDF then 2
     else if 0xE0 \<le> lead \<and> lead \<le> 0xEF then 3
     else if 0xF0 \<le> lead \<and> lead \<le> 0xF4 then 4
     else 0)"

text \<open>The checks on a sequence of the announced width.\<close>

definition valid_sequence :: "nat \<Rightarrow> string \<Rightarrow> bool" where
  "valid_sequence width s = (let lead = byte_of (s ! 0); second = byte_of (s ! 1) in
     list_all is_continuation (drop 1 (take width s))
     \<and> (width = 3 \<longrightarrow> \<not> ((lead = 0xE0 \<and> second < 0xA0) \<or> (lead = 0xED \<and> 0xA0 \<le> second)))
     \<and> (width = 4 \<longrightarrow> \<not> ((lead = 0xF0 \<and> second < 0x90) \<or> (lead = 0xF4 \<and> 0x8F < second))))"

text \<open>The loop on the unconsumed part: what is output, and what stays pending.\<close>

function emit_loop :: "bool \<Rightarrow> string \<Rightarrow> string \<times> string" where
  "emit_loop final [] = ([], [])"
| "emit_loop final (c # cs) = (let width = lead_width c in
     if width = 0 then (case emit_loop final cs of (out, rest) \<Rightarrow> (replacement @ out, rest))
     else if length (c # cs) < width then
       (if final then (case emit_loop final cs of (out, rest) \<Rightarrow> (replacement @ out, rest))
        else ([], c # cs))
     else if \<not> valid_sequence width (c # cs)
       then (case emit_loop final cs of (out, rest) \<Rightarrow> (replacement @ out, rest))
     else (case emit_loop final (drop width (c # cs)) of
       (out, rest) \<Rightarrow> (take width (c # cs) @ out, rest)))"
  by pat_completeness auto
termination
  by (relation "measure (\<lambda>(_, s). length s)") auto

declare emit_loop.simps(2) [simp del]

text \<open>The call: the new pending bytes, and the call of the callback, if there is one.\<close>

definition emit_complete_utf8 :: "string \<Rightarrow> bool \<Rightarrow> string \<times> string list" where
  "emit_complete_utf8 pending final = (case emit_loop final pending of
     (out, rest) \<Rightarrow> (rest, if out = [] then [] else [out]))"

text \<open>A whole generation: one call per piece, and a last one with \<open>final\<close> set.\<close>

fun stream_pieces :: "string \<Rightarrow> string list \<Rightarrow> string list" where
  "stream_pieces pending [] = snd (emit_complete_utf8 pending True)"
| "stream_pieces pending (p # ps) = (case emit_complete_utf8 (pending @ p) False of
     (rest, calls) \<Rightarrow> calls @ stream_pieces rest ps)"

section \<open>The reference\<close>

definition scalar_value :: "nat \<Rightarrow> bool" where
  "scalar_value u \<longleftrightarrow> u < 0x110000 \<and> \<not> (0xD800 \<le> u \<and> u \<le> 0xDFFF)"

definition utf8_encode :: "nat \<Rightarrow> string" where
  "utf8_encode u = map char_of (
     if u < 0x80 then [u]
     else if u < 0x800 then [0xC0 + u div 64, 0x80 + u mod 64]
     else if u < 0x10000 then [0xE0 + u div 4096, 0x80 + u div 64 mod 64, 0x80 + u mod 64]
     else [0xF0 + u div 262144, 0x80 + u div 4096 mod 64, 0x80 + u div 64 mod 64, 0x80 + u mod 64])"

definition well_formed :: "string \<Rightarrow> bool" where
  "well_formed s \<longleftrightarrow> (\<exists>us. list_all scalar_value us \<and> s = concat (map utf8_encode us))"

section \<open>Accepted sequences are the encodings of scalar values\<close>

lemma and_192: "(b :: nat) AND 0xC0 = 64 * (b div 64 mod 4)"
proof -
  have m: "(0xC0 :: nat) = push_bit 6 (mask 2)"
    by (simp add: mask_eq_exp_minus_1 push_bit_eq_mult)
  have "b AND push_bit 6 (mask 2) = push_bit 6 (take_bit 2 (drop_bit 6 b))"
    by (rule bit_eqI) (auto simp: bit_and_iff bit_push_bit_iff bit_mask_iff bit_take_bit_iff
        bit_drop_bit_eq)
  also have "\<dots> = 64 * (b div 64 mod 4)"
    by (simp add: push_bit_eq_mult take_bit_eq_mod drop_bit_eq_div)
  finally show ?thesis by (simp only: m)
qed

lemma is_continuation_iff: "is_continuation c \<longleftrightarrow> 0x80 \<le> byte_of c \<and> byte_of c \<le> 0xBF"
proof -
  have "byte_of c < 256" by simp
  then have "byte_of c div 64 < 4" by (simp add: less_mult_imp_div_less)
  then have "is_continuation c \<longleftrightarrow> byte_of c div 64 = 2"
    by (simp add: is_continuation_def and_192)
  then show ?thesis by auto
qed

lemma char_eq_iff: "c = d \<longleftrightarrow> byte_of c = byte_of d"
  by (metis char_of_char)

lemma well_formed_Nil [simp]: "well_formed []"
  by (auto simp: well_formed_def intro: exI [of _ "[]"])

lemma well_formed_append: "well_formed s \<Longrightarrow> well_formed t \<Longrightarrow> well_formed (s @ t)"
  unfolding well_formed_def by (metis concat_append list_all_append map_append)

lemma well_formed_scalar: "scalar_value u \<Longrightarrow> well_formed (utf8_encode u)"
  unfolding well_formed_def by (intro exI [of _ "[u]"]) simp

lemma replacement_scalar: "replacement = utf8_encode 0xFFFD"
  by (simp add: replacement_def utf8_encode_def char_eq_iff)

lemma well_formed_replacement [simp]: "well_formed replacement"
  unfolding replacement_scalar by (rule well_formed_scalar) (simp add: scalar_value_def)

text \<open>Base-64 digits of a code point.\<close>

lemma div_4096: "(u :: nat) div 4096 = u div 64 div 64" and div_262144: "u div 262144 = u div 64 div 64 div 64"
  by (simp_all add: div_mult2_eq [symmetric])

lemma base64: "b < 64 \<Longrightarrow> (a * 64 + b) div 64 = (a :: nat)" "b < 64 \<Longrightarrow> (a * 64 + b) mod 64 = b"
  by simp_all

lemma lead_width_cases:
  obtains "lead_width c = 0"
  | "lead_width c = 1" "byte_of c \<le> 0x7F"
  | "lead_width c = 2" "0xC2 \<le> byte_of c" "byte_of c \<le> 0xDF"
  | "lead_width c = 3" "0xE0 \<le> byte_of c" "byte_of c \<le> 0xEF"
  | "lead_width c = 4" "0xF0 \<le> byte_of c" "byte_of c \<le> 0xF4"
  using that unfolding lead_width_def Let_def
  by (cases "byte_of c \<le> 0x7F"; cases "0xC2 \<le> byte_of c \<and> byte_of c \<le> 0xDF";
      cases "0xE0 \<le> byte_of c \<and> byte_of c \<le> 0xEF"; cases "0xF0 \<le> byte_of c \<and> byte_of c \<le> 0xF4")
    simp_all

lemma char_of_byte: "char_of (byte_of c) = c"
  by simp

lemma encode_two:
  assumes "0xC2 \<le> byte_of c" and "byte_of c \<le> 0xDF" and "is_continuation d"
  shows "\<exists>u. scalar_value u \<and> [c, d] = utf8_encode u"
proof -
  define u where "u = (byte_of c - 0xC0) * 64 + (byte_of d - 0x80)"
  have d: "0x80 \<le> byte_of d" "byte_of d - 0x80 < 64" using assms(3) by (auto simp: is_continuation_iff)
  have dig: "u div 64 = byte_of c - 0xC0" "u mod 64 = byte_of d - 0x80"
    unfolding u_def using base64 [OF d(2)] by simp_all
  have u: "0x80 \<le> u" "u < 0x800" using assms d unfolding u_def by simp_all
  have "utf8_encode u = map char_of [byte_of c, byte_of d]"
    using u assms d by (simp add: utf8_encode_def dig)
  then have "[c, d] = utf8_encode u" by (simp add: char_of_byte)
  moreover have "scalar_value u" using u by (simp add: scalar_value_def)
  ultimately show ?thesis by blast
qed

lemma encode_three:
  assumes "0xE0 \<le> byte_of c" and "byte_of c \<le> 0xEF" and "is_continuation d" and "is_continuation e"
    and "\<not> ((byte_of c = 0xE0 \<and> byte_of d < 0xA0) \<or> (byte_of c = 0xED \<and> 0xA0 \<le> byte_of d))"
  shows "\<exists>u. scalar_value u \<and> [c, d, e] = utf8_encode u"
proof -
  define x y z where "x = byte_of c - 0xE0" and "y = byte_of d - 0x80" and "z = byte_of e - 0x80"
  define u where "u = (x * 64 + y) * 64 + z"
  have d: "0x80 \<le> byte_of d" "y < 64" "0x80 \<le> byte_of e" "z < 64"
    using assms(3,4) by (auto simp: is_continuation_iff y_def z_def)
  have dig: "u div 4096 = x" "u div 64 mod 64 = y" "u mod 64 = z"
    unfolding u_def div_4096 by (simp_all only: base64 d)
  have x: "x \<le> 15" and cases: "x = 0 \<longrightarrow> 32 \<le> y" "x = 13 \<longrightarrow> y < 32"
    using assms d by (auto simp: x_def y_def)
  have u: "0x800 \<le> u" "u < 0x10000" using x cases d unfolding u_def by (cases "x = 0"; simp)+
  have sur: "\<not> (0xD800 \<le> u \<and> u \<le> 0xDFFF)"
  proof
    assume a: "0xD800 \<le> u \<and> u \<le> 0xDFFF"
    then have "0xD800 div 4096 \<le> u div 4096" "u div 4096 \<le> 0xDFFF div 4096"
      by (auto intro: div_le_mono)
    then have "x = 13" using dig(1) by simp
    with a cases(2) d show False unfolding u_def by simp
  qed
  have "utf8_encode u = map char_of [byte_of c, byte_of d, byte_of e]"
    using u assms d unfolding utf8_encode_def dig by (simp add: x_def y_def z_def)
  then have "[c, d, e] = utf8_encode u" by (simp add: char_of_byte)
  moreover have "scalar_value u" using u sur by (simp add: scalar_value_def)
  ultimately show ?thesis by blast
qed

lemma encode_four:
  assumes "0xF0 \<le> byte_of c" and "byte_of c \<le> 0xF4" and "is_continuation d" and "is_continuation e"
    and "is_continuation f"
    and "\<not> ((byte_of c = 0xF0 \<and> byte_of d < 0x90) \<or> (byte_of c = 0xF4 \<and> 0x8F < byte_of d))"
  shows "\<exists>u. scalar_value u \<and> [c, d, e, f] = utf8_encode u"
proof -
  define w x y z where "w = byte_of c - 0xF0" and "x = byte_of d - 0x80" and "y = byte_of e - 0x80"
    and "z = byte_of f - 0x80"
  define u where "u = ((w * 64 + x) * 64 + y) * 64 + z"
  have d: "0x80 \<le> byte_of d" "x < 64" "0x80 \<le> byte_of e" "y < 64" "0x80 \<le> byte_of f" "z < 64"
    using assms(3-5) by (auto simp: is_continuation_iff x_def y_def z_def)
  have dig: "u div 262144 = w" "u div 4096 mod 64 = x" "u div 64 mod 64 = y" "u mod 64 = z"
    unfolding u_def div_4096 div_262144 by (simp_all only: base64 d)
  have w: "w \<le> 4" and cases: "w = 0 \<longrightarrow> 16 \<le> x" "w = 4 \<longrightarrow> x < 16"
    using assms d by (auto simp: w_def x_def)
  have u: "0x10000 \<le> u" using w cases d unfolding u_def by (cases "w = 0") simp_all
  have u2: "u < 0x110000" using w cases d unfolding u_def by (cases "w = 4") simp_all
  have "utf8_encode u = map char_of [byte_of c, byte_of d, byte_of e, byte_of f]"
    using u assms d unfolding utf8_encode_def dig by (simp add: w_def x_def y_def z_def)
  then have "[c, d, e, f] = utf8_encode u" by (simp add: char_of_byte)
  moreover have "scalar_value u" using u u2 by (simp add: scalar_value_def)
  ultimately show ?thesis by blast
qed

lemma list_of_length:
  "2 \<le> length (c # cs) \<Longrightarrow> \<exists>d ds. cs = d # ds"
  "3 \<le> length (c # cs) \<Longrightarrow> \<exists>d e ds. cs = d # e # ds"
  "4 \<le> length (c # cs) \<Longrightarrow> \<exists>d e f ds. cs = d # e # f # ds"
  by (auto simp: Suc_le_length_iff numeral_eq_Suc)

lemma accepted_sequence:
  assumes "lead_width c = width" and "width \<noteq> 0" and "width \<le> length (c # cs)"
    and "valid_sequence width (c # cs)"
  shows "\<exists>u. scalar_value u \<and> take width (c # cs) = utf8_encode u"
proof (cases rule: lead_width_cases [of c])
  case 2
  then show ?thesis using assms(1)
    by (intro exI [of _ "byte_of c"]) (auto simp: scalar_value_def utf8_encode_def)
next
  case 3
  with assms(1,3) list_of_length(1) [of c cs] obtain d ds where cs: "cs = d # ds" by auto
  have w: "width = 2" using assms(1) 3 by simp
  have t: "take 2 (c # cs) = [c, d]" by (simp add: cs)
  show ?thesis
    using assms(4) 3 encode_two [of c d] unfolding w t valid_sequence_def Let_def by simp
next
  case 4
  with assms(1,3) list_of_length(2) [of c cs] obtain d e ds where cs: "cs = d # e # ds" by auto
  have w: "width = 3" using assms(1) 4 by simp
  have t: "take 3 (c # cs) = [c, d, e]" by (simp add: cs numeral_3_eq_3)
  show ?thesis
    using assms(4) 4 encode_three [of c d e] unfolding w t valid_sequence_def Let_def
    by (simp add: cs)
next
  case 5
  with assms(1,3) list_of_length(3) [of c cs] obtain d e f ds where cs: "cs = d # e # f # ds" by auto
  have w: "width = 4" using assms(1) 5 by simp
  have t: "take 4 (c # cs) = [c, d, e, f]" by (simp add: cs numeral_eq_Suc)
  show ?thesis
    using assms(4) 5 encode_four [of c d e f] unfolding w t valid_sequence_def Let_def
    by (simp add: cs)
qed (use assms in simp)

text \<open>Conversely, the encoding of a scalar value is accepted, whatever follows it.\<close>

lemma valid_sequence_cases:
  "valid_sequence 3 (c # d # e # rest) \<longleftrightarrow> is_continuation d \<and> is_continuation e
     \<and> \<not> ((byte_of c = 0xE0 \<and> byte_of d < 0xA0) \<or> (byte_of c = 0xED \<and> 0xA0 \<le> byte_of d))"
  "valid_sequence 4 (c # d # e # f # rest) \<longleftrightarrow> is_continuation d \<and> is_continuation e
     \<and> is_continuation f
     \<and> \<not> ((byte_of c = 0xF0 \<and> byte_of d < 0x90) \<or> (byte_of c = 0xF4 \<and> 0x8F < byte_of d))"
  by (simp_all add: valid_sequence_def Let_def)

lemma three: "Suc (Suc (Suc 0)) = 3"
  by simp

lemma encode_accepted:
  assumes "scalar_value u"
  obtains c cs where "utf8_encode u = c # cs" "lead_width c = length (c # cs)"
    "\<forall>rest. valid_sequence (length (c # cs)) (c # cs @ rest)"
proof -
  have m: "u div 64 mod 64 < 64" "u mod 64 < 64" "u div 4096 mod 64 < 64" by simp_all
  consider "u < 0x80" | "0x80 \<le> u" "u < 0x800" | "0x800 \<le> u" "u < 0x10000" | "0x10000 \<le> u" "u < 0x110000"
    using assms unfolding scalar_value_def by linarith
  then show thesis
  proof cases
    case 1
    then show thesis
      by (intro that [of "char_of u" "[]"])
        (simp_all add: utf8_encode_def lead_width_def valid_sequence_def)
  next
    case 2
    then have "2 \<le> u div 64" "u div 64 < 32" by (simp_all add: less_mult_imp_div_less)
    with 2 m show thesis
      by (intro that [of "char_of (0xC0 + u div 64)" "[char_of (0x80 + u mod 64)]"])
        (simp_all add: utf8_encode_def lead_width_def Let_def valid_sequence_def is_continuation_iff)
  next
    case 3
    define p q r where "p = u div 4096" and "q = u div 64 mod 64" and "r = u mod 64"
    have enc: "utf8_encode u = [char_of (0xE0 + p), char_of (0x80 + q), char_of (0x80 + r)]"
      using 3 by (simp add: utf8_encode_def p_def q_def r_def)
    have u: "u = p * 4096 + q * 64 + r"
      using div_mult_mod_eq [of u 64] div_mult_mod_eq [of "u div 64" 64]
      unfolding p_def q_def r_def div_4096 by linarith
    have b: "p < 16" "q \<le> 63" "r \<le> 63" using 3 m
      by (simp_all add: p_def q_def r_def less_mult_imp_div_less less_Suc_eq_le [symmetric])
    have y: "p = 0 \<longrightarrow> 32 \<le> q" "p = 13 \<longrightarrow> q < 32"
      using u 3 b assms unfolding scalar_value_def by auto
    show thesis
      by (rule that [OF enc]) (use b y in \<open>auto simp: lead_width_def Let_def three
          valid_sequence_cases is_continuation_iff\<close>)
  next
    case 4
    define p q r t where "p = u div 262144" and "q = u div 4096 mod 64" and "r = u div 64 mod 64"
      and "t = u mod 64"
    have enc: "utf8_encode u = [char_of (0xF0 + p), char_of (0x80 + q), char_of (0x80 + r),
        char_of (0x80 + t)]"
      using 4 by (simp add: utf8_encode_def p_def q_def r_def t_def)
    have u: "u = p * 262144 + q * 4096 + r * 64 + t"
      using div_mult_mod_eq [of u 64] div_mult_mod_eq [of "u div 64" 64]
        div_mult_mod_eq [of "u div 64 div 64" 64]
      unfolding p_def q_def r_def t_def div_4096 div_262144 by linarith
    have b: "q \<le> 63" "r \<le> 63" "t \<le> 63" using m
      by (simp_all add: q_def r_def t_def less_Suc_eq_le [symmetric])
    have p: "p \<le> 4" "p = 0 \<longrightarrow> 16 \<le> q" "p = 4 \<longrightarrow> q < 16" using u 4 b by auto
    show thesis
      by (rule that [OF enc]) (use b p in \<open>auto simp: lead_width_def Let_def three
          valid_sequence_cases is_continuation_iff\<close>)
  qed
qed

section \<open>Streaming\<close>

text \<open>One step of the loop, for any \<open>final\<close>, when the whole announced width is there.\<close>

lemma emit_loop_complete:
  assumes "lead_width c = 0 \<or> lead_width c \<le> length (c # cs)"
  shows "emit_loop final (c # cs) =
    (if lead_width c = 0 \<or> \<not> valid_sequence (lead_width c) (c # cs)
     then (replacement @ fst (emit_loop final cs), snd (emit_loop final cs))
     else (take (lead_width c) (c # cs) @ fst (emit_loop final (drop (lead_width c) (c # cs))),
       snd (emit_loop final (drop (lead_width c) (c # cs)))))"
  using assms by (auto simp: emit_loop.simps(2) Let_def split_beta)

lemma valid_sequence_append:
  "0 < width \<Longrightarrow> width \<le> length s \<Longrightarrow> valid_sequence width (s @ t) = valid_sequence width s"
  by (cases "width = 1") (auto simp: valid_sequence_def Let_def nth_append)

text \<open>
  What is emitted early is a prefix of what the whole input gives, and the pending bytes carry the rest.
\<close>

lemma emit_loop_append:
  "emit_loop False xs = (out, rest) \<Longrightarrow>
    emit_loop final (xs @ ys) = (out @ fst (emit_loop final (rest @ ys)), snd (emit_loop final (rest @ ys)))"
proof (induction xs arbitrary: out rest rule: length_induct)
  case (1 xs)
  show ?case
  proof (cases xs)
    case Nil
    with 1(2) show ?thesis by simp
  next
    case (Cons c cs)
    show ?thesis
    proof (cases "lead_width c = 0 \<or> lead_width c \<le> length (c # cs)")
      case False
      with 1(2) Cons have "out = []" "rest = xs"
        by (auto simp: emit_loop.simps(2) Let_def split: if_splits)
      then show ?thesis by simp
    next
      case True
      then have full: "lead_width c = 0 \<or> lead_width c \<le> length (c # cs @ ys)" by auto
      let ?bad = "lead_width c = 0 \<or> \<not> valid_sequence (lead_width c) (c # cs)"
      have bad: "(lead_width c = 0 \<or> \<not> valid_sequence (lead_width c) (c # cs @ ys)) = ?bad"
        using True valid_sequence_append [of "lead_width c" "c # cs" ys] by auto
      note step = emit_loop_complete [OF True, of False]
        and step' = emit_loop_complete [OF full, of final, unfolded bad]
      show ?thesis
      proof (cases ?bad)
        case True
        have "emit_loop False cs = (fst (emit_loop False cs), snd (emit_loop False cs))" by simp
        from 1(1) [rule_format, OF _ this] Cons True step step' 1(2) show ?thesis by auto
      next
        case False
        then have w: "0 < lead_width c" "lead_width c \<le> length (c # cs)" using True by auto
        let ?d = "drop (lead_width c) (c # cs)"
        have dr: "drop (lead_width c) (c # cs @ ys) = ?d @ ys"
          "take (lead_width c) (c # cs @ ys) = take (lead_width c) (c # cs)"
          using w(2) drop_append [of "lead_width c" "c # cs" ys]
            take_append [of "lead_width c" "c # cs" ys] by simp_all
        have "length ?d < length xs" using w Cons by simp
        moreover have "emit_loop False ?d = (fst (emit_loop False ?d), snd (emit_loop False ?d))" by simp
        ultimately have ih: "emit_loop final (?d @ ys) = (fst (emit_loop False ?d)
            @ fst (emit_loop final (snd (emit_loop False ?d) @ ys)),
            snd (emit_loop final (snd (emit_loop False ?d) @ ys)))"
          using 1(1) by blast
        have o: "out = take (lead_width c) (c # cs) @ fst (emit_loop False ?d)"
          "rest = snd (emit_loop False ?d)"
          using 1(2) Cons False step by auto
        show ?thesis using step' False ih by (simp add: Cons o dr)
      qed
    qed
  qed
qed

lemma emit_loop_final_rest: "snd (emit_loop True xs) = []"
proof (induction xs rule: length_induct)
  case (1 xs)
  show ?case
  proof (cases xs)
    case (Cons c cs)
    then show ?thesis using 1
      by (auto simp: emit_loop.simps(2) Let_def split_beta)
  qed simp
qed

text \<open>What the callbacks receive in total is the repair of the whole text.\<close>

definition utf8_repair :: "string \<Rightarrow> string" where
  "utf8_repair s = fst (emit_loop True s)"

lemma stream_pieces_total: "concat (stream_pieces pending ps) = utf8_repair (pending @ concat ps)"
proof (induction ps arbitrary: pending)
  case Nil
  then show ?case by (simp add: emit_complete_utf8_def utf8_repair_def split_beta)
next
  case (Cons p ps)
  obtain out rest where e: "emit_loop False (pending @ p) = (out, rest)" by fastforce
  have "concat (stream_pieces pending (p # ps)) = out @ utf8_repair (rest @ concat ps)"
    using Cons [of rest] e by (auto simp: emit_complete_utf8_def)
  also have "\<dots> = utf8_repair ((pending @ p) @ concat ps)"
    using emit_loop_append [OF e, of True "concat ps"] by (simp add: utf8_repair_def)
  finally show ?case by simp
qed

lemma emit_loop_well_formed: "well_formed (fst (emit_loop final xs))"
proof (induction xs rule: length_induct)
  case (1 xs)
  show ?case
  proof (cases xs)
    case (Cons c cs)
    let ?w = "lead_width c"
    have cs: "well_formed (fst (emit_loop final cs))" using 1 Cons by simp
    show ?thesis
    proof (cases "?w \<noteq> 0 \<and> ?w \<le> length (c # cs) \<and> valid_sequence ?w (c # cs)")
      case True
      then have "length (drop ?w (c # cs)) < length xs" using Cons by simp
      then have "well_formed (fst (emit_loop final (drop ?w (c # cs))))" using 1 by blast
      moreover from True accepted_sequence [of c ?w cs] have "well_formed (take ?w (c # cs))"
        using well_formed_scalar by auto
      ultimately show ?thesis
        using True Cons emit_loop_complete [of c cs final] by (simp add: well_formed_append)
    qed (use cs Cons in \<open>auto simp: emit_loop.simps(2) Let_def split_beta well_formed_append\<close>)
  qed simp
qed

lemma emit_loop_identity:
  "list_all scalar_value us \<Longrightarrow> emit_loop final (concat (map utf8_encode us)) = (concat (map utf8_encode us), [])"
proof (induction us)
  case (Cons u us)
  from Cons.prems have "scalar_value u" by simp
  then obtain c cs where e: "utf8_encode u = c # cs" "lead_width c = length (c # cs)"
    "\<forall>rest. valid_sequence (length (c # cs)) (c # cs @ rest)"
    by (rule encode_accepted)
  let ?r = "concat (map utf8_encode us)"
  have "lead_width c = 0 \<or> lead_width c \<le> length (c # cs @ ?r)" using e(2) by simp
  from emit_loop_complete [OF this, of final] e Cons show ?case by simp
qed simp

text \<open>At most three bytes are held back.\<close>

lemma emit_loop_pending: "length (snd (emit_loop False xs)) < 4"
proof (induction xs rule: length_induct)
  case (1 xs)
  show ?case
  proof (cases xs)
    case (Cons c cs)
    have "lead_width c \<le> 4" by (cases rule: lead_width_cases [of c]) simp_all
    then show ?thesis using 1 Cons
      by (auto simp: emit_loop.simps(2) Let_def split_beta)
  qed simp
qed

section \<open>Properties\<close>

text \<open>
  C13. However the generated bytes are cut into pieces, the concatenation of what the callback receives
  is the same, the repair of the whole byte string; each call passes well-formed UTF-8, so no
  character is split between calls; and a text that is well-formed passes unchanged.
\<close>

theorem stream_is_cut_independent:
  "concat (stream_pieces [] ps) = utf8_repair (concat ps)
   \<and> (\<forall>call \<in> set (stream_pieces [] ps). well_formed call \<and> call \<noteq> [])
   \<and> (well_formed (concat ps) \<longrightarrow> concat (stream_pieces [] ps) = concat ps)"
proof -
  have "well_formed call \<and> call \<noteq> []" if "call \<in> set (stream_pieces pending ps)" for call pending
    using that
  proof (induction ps arbitrary: pending)
    case Nil
    then show ?case using emit_loop_well_formed [of True pending]
      by (auto simp: emit_complete_utf8_def split_beta split: if_splits)
  next
    case (Cons p ps)
    then show ?case using emit_loop_well_formed [of False "pending @ p"]
      by (auto simp: emit_complete_utf8_def split_beta split: if_splits)
  qed
  moreover have "utf8_repair s = s" if "well_formed s" for s
    using that emit_loop_identity [of _ True] by (auto simp: well_formed_def utf8_repair_def)
  ultimately show ?thesis using stream_pieces_total [of "[]" ps] by simp
qed

theorem stream_is_cut_independent_witness:
  "well_formed (utf8_encode 0x20AC)
   \<and> concat (stream_pieces [] [take 1 (utf8_encode 0x20AC), drop 1 (utf8_encode 0x20AC)])
       = utf8_encode 0x20AC"
proof -
  have "well_formed (utf8_encode 0x20AC)"
    by (rule well_formed_scalar) (simp add: scalar_value_def)
  with stream_is_cut_independent [of "[take 1 (utf8_encode 0x20AC), drop 1 (utf8_encode 0x20AC)]"]
  have "concat (stream_pieces [] [take 1 (utf8_encode 0x20AC), drop 1 (utf8_encode 0x20AC)])
      = concat [take 1 (utf8_encode 0x20AC), drop 1 (utf8_encode 0x20AC)]"
    by (metis append_Nil2 append_take_drop_id concat.simps)
  also have "\<dots> = utf8_encode 0x20AC" by simp
  finally show ?thesis using \<open>well_formed (utf8_encode 0x20AC)\<close> by blast
qed

text \<open>
  Streaming delays by at most one incomplete character: after every piece fewer than four bytes
  are held back, and the last call leaves none.
\<close>

lemma pending_is_bounded:
  "length (fst (emit_complete_utf8 pending False)) < 4 \<and> fst (emit_complete_utf8 pending True) = []"
  using emit_loop_pending [of pending] emit_loop_final_rest [of pending]
  by (simp add: emit_complete_utf8_def split_beta)

end
