(* ===== verification/Generation_Queue.thy ===== *)
theory Generation_Queue
  imports Prelude
begin

text \<open>
  \<^verbatim>\<open>src/application/generation_queue.cpp\<close>: the bounded queue in front of the single worker
  thread that runs generations. Submitting threads, stopping threads and the worker interleave; a
  step of the model is one critical section of \<^verbatim>\<open>mutex_\<close>, one atomic operation on the stop
  token, or one step of the worker between two of them. A task is a parameter \<open>'t\<close>; the empty
  \<^verbatim>\<open>std::function\<close> is \<open>None\<close>.
\<close>

section \<open>The class\<close>

record 't GenerationQueue =
  capacity :: nat
  tasks :: "'t list"
  accepting :: bool
  stop_requested :: bool

definition make_queue :: "nat \<Rightarrow> 't GenerationQueue res" where
  "make_queue cap = (
     if cap = 0 then Inl (Invalid_argument ''generation queue capacity must be positive'')
     else Inr \<lparr>capacity = cap, tasks = [], accepting = True, stop_requested = False\<rparr>)"

definition try_submit ::
  "'t option \<Rightarrow> 't GenerationQueue \<Rightarrow> (bool \<times> 't GenerationQueue) res" where
  "try_submit task q = (case task of
     None \<Rightarrow> Inl (Invalid_argument ''generation task must not be empty'')
   | Some t \<Rightarrow> (if \<not> accepting q \<or> capacity q \<le> length (tasks q) then Inr (False, q)
       else Inr (True, q\<lparr>tasks := tasks q @ [t]\<rparr>)))"

definition depth :: "'t GenerationQueue \<Rightarrow> nat" where
  "depth q = length (tasks q)"

text \<open>\<open>stop()\<close> is two separate atomic actions, so that other threads may run in between.\<close>

definition stop_close :: "'t GenerationQueue \<Rightarrow> 't GenerationQueue" where
  "stop_close q = q\<lparr>accepting := False\<rparr>"

definition stop_request :: "'t GenerationQueue \<Rightarrow> 't GenerationQueue" where
  "stop_request q = q\<lparr>stop_requested := True\<rparr>"

section \<open>The worker thread\<close>

text \<open>
  Where \<open>run\<close> is: at the loop condition, inside \<open>available_.wait\<close> (without the mutex), after
  the wait (holding the mutex), executing a task, or returned. A task that throws ends the process
  (\<^verbatim>\<open>std::terminate\<close> in the thread function): \<open>Terminated\<close>.
\<close>

datatype 't worker = Loop_head | Waiting | Locked | Running 't | Exited | Terminated

definition wake_condition :: "'t GenerationQueue \<Rightarrow> bool" where
  "wake_condition q = (stop_requested q \<or> tasks q \<noteq> [] \<or> \<not> accepting q)"

text \<open>The next step of \<open>run\<close>, other than finishing a task; \<open>None\<close> when it is blocked or over.\<close>

fun run :: "'t worker \<Rightarrow> 't GenerationQueue \<Rightarrow> ('t worker \<times> 't GenerationQueue) option" where
  "run Loop_head q = Some (if stop_requested q then Exited else Waiting, q)"
| "run Waiting q = (if wake_condition q then Some (Locked, q) else None)"
| "run Locked q = (if stop_requested q then Some (Loop_head, q)
     else case tasks q of [] \<Rightarrow> Some (Loop_head, q)
       | t # ts \<Rightarrow> Some (Running t, q\<lparr>tasks := ts\<rparr>))"
| "run _ q = None"

section \<open>Interleavings\<close>

text \<open>
  The system: the queue, the worker, the number of callers inside \<open>stop\<close> between its two
  actions, and the history: the tasks accepted, started and finished so far.
\<close>

record 't system =
  queue :: "'t GenerationQueue"
  worker :: "'t worker"
  stopping :: nat
  accepted :: "'t list"
  started :: "'t list"
  finished :: "'t list"

datatype 't action =
    Submit "'t option" | Stop_close | Stop_request | Worker_step | Task_return | Task_throw

definition start_system :: "'t GenerationQueue \<Rightarrow> 't system" where
  "start_system q = \<lparr>queue = q, worker = Loop_head, stopping = 0, accepted = [], started = [],
     finished = []\<rparr>"

fun running :: "'t worker \<Rightarrow> 't list" where
  "running (Running t) = [t]"
| "running _ = []"

text \<open>\<open>perform\<close> is \<open>None\<close> when the action is not possible: a lock that is held, a thread not there.\<close>

fun perform :: "'t action \<Rightarrow> 't system \<Rightarrow> 't system option" where
  "perform (Submit task) s = (if worker s = Locked then None else
     case try_submit task (queue s) of
       Inl e \<Rightarrow> Some s
     | Inr (ok, q) \<Rightarrow> Some (s\<lparr>queue := q,
         accepted := accepted s @ (if ok then (case task of Some t \<Rightarrow> [t] | None \<Rightarrow> []) else [])\<rparr>))"
| "perform Stop_close s = (if worker s = Locked then None else
     Some (s\<lparr>queue := stop_close (queue s), stopping := Suc (stopping s)\<rparr>))"
| "perform Stop_request s = (if stopping s = 0 then None else
     Some (s\<lparr>queue := stop_request (queue s), stopping := stopping s - 1\<rparr>))"
| "perform Worker_step s = (case run (worker s) (queue s) of
     None \<Rightarrow> None
   | Some (w, q) \<Rightarrow> Some (s\<lparr>worker := w, queue := q, started := started s @ running w\<rparr>))"
| "perform Task_return s = (case worker s of
     Running t \<Rightarrow> Some (s\<lparr>worker := Loop_head, finished := finished s @ [t]\<rparr>)
   | _ \<Rightarrow> None)"
| "perform Task_throw s = (case worker s of
     Running t \<Rightarrow> Some (s\<lparr>worker := Terminated\<rparr>)
   | _ \<Rightarrow> None)"

inductive queue_step :: "'t action \<Rightarrow> 't system \<Rightarrow> 't system \<Rightarrow> bool" where
  step: "perform a s = Some s' \<Longrightarrow> worker s \<noteq> Terminated \<Longrightarrow> queue_step a s s'"

inductive_cases queue_stepE: "queue_step a s s'"
inductive_simps queue_step_iff: "queue_step a s s'"

inductive steps :: "'t system \<Rightarrow> 't action list \<Rightarrow> 't system \<Rightarrow> bool" where
  steps_refl: "steps s [] s"
| steps_snoc: "steps s as s' \<Longrightarrow> queue_step a s' s'' \<Longrightarrow> steps s (as @ [a]) s''"

text \<open>Executing a list of actions, for concrete runs.\<close>

fun perform_all :: "'t action list \<Rightarrow> 't system \<Rightarrow> 't system option" where
  "perform_all [] s = Some s"
| "perform_all (a # as) s = (if worker s = Terminated then None else
     case perform a s of None \<Rightarrow> None | Some s' \<Rightarrow> perform_all as s')"

lemma steps_prepend:
  "steps s' as s'' \<Longrightarrow> queue_step a s s' \<Longrightarrow> steps s (a # as) s''"
proof (induction s' as s'' rule: steps.induct)
  case (steps_refl s')
  then show ?case using steps.steps_snoc [OF steps.steps_refl, of a s s'] by simp
next
  case (steps_snoc s' as t b u)
  then show ?case using steps.steps_snoc [of s "a # as" t b u] by simp
qed

lemma perform_all_steps: "perform_all as s = Some s' \<Longrightarrow> steps s as s'"
proof (induction as arbitrary: s)
  case (Cons a as)
  then show ?case
    by (auto split: if_splits option.splits intro!: steps_prepend queue_step.step)
qed (simp add: steps_refl)

section \<open>The invariant\<close>

text \<open>
  Never more tasks than the capacity; what was accepted is, in this order, what was started followed
  by what still waits; what was started is what was finished followed by the running task; a stop
  was announced before it is requested.
\<close>

definition queue_inv :: "nat \<Rightarrow> 't system \<Rightarrow> bool" where
  "queue_inv cap s \<longleftrightarrow> capacity (queue s) = cap
     \<and> length (tasks (queue s)) \<le> cap
     \<and> accepted s = started s @ tasks (queue s)
     \<and> (worker s \<noteq> Terminated \<longrightarrow> started s = finished s @ running (worker s))
     \<and> (stop_requested (queue s) \<or> 0 < stopping s \<longrightarrow> \<not> accepting (queue s))
     \<and> (worker s = Exited \<longrightarrow> stop_requested (queue s))"

lemma queue_inv_start: "make_queue cap = Inr q \<Longrightarrow> queue_inv cap (start_system q)"
  by (auto simp: make_queue_def start_system_def queue_inv_def split: if_splits)

lemma queue_inv_step:
  assumes "queue_step a s s'" and "queue_inv cap s"
  shows "queue_inv cap s'"
proof (cases a)
  case (Submit task)
  with assms show ?thesis
    by (cases task) (auto simp: queue_step_iff queue_inv_def try_submit_def split: if_splits)
next
  case Worker_step
  with assms show ?thesis
    by (cases "worker s") (auto simp: queue_step_iff queue_inv_def split: if_splits list.splits)
qed (use assms in \<open>auto simp: queue_step_iff queue_inv_def stop_close_def stop_request_def
    split: if_splits worker.splits\<close>)

lemma queue_inv_steps: "steps s as s' \<Longrightarrow> queue_inv cap s \<Longrightarrow> queue_inv cap s'"
  by (induction rule: steps.induct) (auto intro: queue_inv_step)

section \<open>Shutting down\<close>

text \<open>How many steps of the worker thread are left once a stop has been requested.\<close>

fun steps_left :: "'t worker \<Rightarrow> nat" where
  "steps_left Waiting = 3"
| "steps_left Locked = 2"
| "steps_left (Running t) = 2"
| "steps_left Loop_head = 1"
| "steps_left _ = 0"

fun by_worker :: "'t action \<Rightarrow> bool" where
  "by_worker Worker_step = True"
| "by_worker Task_return = True"
| "by_worker Task_throw = True"
| "by_worker _ = False"

lemma stopped_step:
  assumes "queue_step a s s'" and "stop_requested (queue s)" and "\<not> accepting (queue s)"
  shows "stop_requested (queue s') \<and> \<not> accepting (queue s') \<and> started s' = started s
    \<and> accepted s' = accepted s \<and> tasks (queue s') = tasks (queue s)
    \<and> steps_left (worker s') + (if by_worker a then 1 else 0) \<le> steps_left (worker s)"
proof (cases a)
  case (Submit task)
  with assms show ?thesis
    by (cases task) (auto simp: queue_step_iff try_submit_def split: if_splits)
next
  case Worker_step
  with assms show ?thesis
    by (cases "worker s") (auto simp: queue_step_iff split: if_splits list.splits)
qed (use assms in \<open>auto simp: queue_step_iff stop_close_def stop_request_def
    split: if_splits worker.splits\<close>)

lemma stopped_steps:
  assumes "steps s as s'" and "stop_requested (queue s)" and "\<not> accepting (queue s)"
  shows "stop_requested (queue s') \<and> \<not> accepting (queue s') \<and> started s' = started s
    \<and> accepted s' = accepted s \<and> tasks (queue s') = tasks (queue s)
    \<and> steps_left (worker s') + length (filter by_worker as) \<le> steps_left (worker s)"
  using assms
proof (induction rule: steps.induct)
  case (steps_snoc s as s' a s'')
  then show ?case using stopped_step [OF steps_snoc.hyps(2)] by (auto split: if_splits)
qed simp

text \<open>The worker of a stopped queue is never blocked by anything but its own task.\<close>

lemma stopped_not_blocked:
  assumes "stop_requested (queue s)" and "worker s \<noteq> Exited" and "worker s \<noteq> Terminated"
  shows "\<exists>s'. queue_step Worker_step s s' \<or> queue_step Task_return s s'"
  using assms by (cases "worker s") (auto simp: queue_step_iff wake_condition_def)

section \<open>Properties\<close>

text \<open>
  C3. In every interleaving of submitters, stoppers and the worker the queue never holds more tasks
  than its capacity, and no accepted task is lost, duplicated or reordered: the accepted tasks are
  the started ones followed by the waiting ones, and tasks are run one at a time to their end.
\<close>

theorem queue_bounded_fifo:
  assumes "make_queue cap = Inr q" and "steps (start_system q) as s"
  shows "depth (queue s) \<le> cap \<and> accepted s = started s @ tasks (queue s)
    \<and> (worker s \<noteq> Terminated \<longrightarrow> started s = finished s @ running (worker s))"
  using queue_inv_steps [OF assms(2) queue_inv_start [OF assms(1)]]
  by (simp add: queue_inv_def depth_def)

theorem queue_bounded_fifo_witness:
  "\<exists>s. perform_all [Submit (Some (1 :: nat)), Worker_step, Submit (Some 2), Submit (Some 3),
        Worker_step, Worker_step, Submit (Some 3), Task_return]
      (start_system \<lparr>capacity = 2, tasks = [], accepting = True, stop_requested = False\<rparr>) = Some s
    \<and> depth (queue s) \<le> 2 \<and> accepted s = [1, 2, 3] \<and> started s = [1] \<and> finished s = [1]"
proof -
  let ?q = "\<lparr>capacity = 2, tasks = [], accepting = True, stop_requested = False\<rparr>"
  let ?as = "[Submit (Some (1 :: nat)), Worker_step, Submit (Some 2), Submit (Some 3),
    Worker_step, Worker_step, Submit (Some 3), Task_return]"
  have run: "\<exists>s. perform_all ?as (start_system ?q) = Some s \<and> accepted s = [1, 2, 3]
      \<and> started s = [1] \<and> finished s = [1]"
    by (simp add: start_system_def try_submit_def wake_condition_def)
  then obtain s where s: "perform_all ?as (start_system ?q) = Some s" "accepted s = [1, 2, 3]"
      "started s = [1]" "finished s = [1]" by blast
  have "make_queue 2 = Inr ?q" by (simp add: make_queue_def)
  from queue_bounded_fifo [OF this perform_all_steps [OF s(1)]] s show ?thesis by blast
qed

text \<open>
  A submission is accepted exactly if the queue accepts tasks and has room: then the task joins
  the end of the queue; otherwise nothing changes. An empty task is refused with an exception.
\<close>

lemma try_submit_spec:
  "try_submit None q = Inl (Invalid_argument ''generation task must not be empty'')
   \<and> try_submit (Some t) q = Inr (accepting q \<and> depth q < capacity q,
       if accepting q \<and> depth q < capacity q then q\<lparr>tasks := tasks q @ [t]\<rparr> else q)"
  by (simp add: try_submit_def depth_def)

text \<open>
  C7. Once a stop has been requested, in every continuation no further task is accepted or started,
  the worker takes at most three more steps, and unless it has returned or its task has ended the
  process, it can take one: the worker thread returns, so that joining it terminates.
\<close>

theorem stop_terminates_worker:
  assumes "make_queue cap = Inr q" and "steps (start_system q) as s"
    and "stop_requested (queue s)" and "steps s bs s'"
  shows "accepted s' = accepted s \<and> started s' = started s
    \<and> length (filter by_worker bs) \<le> 3
    \<and> (worker s' = Exited \<or> worker s' = Terminated
       \<or> (\<exists>s''. queue_step Worker_step s' s'' \<or> queue_step Task_return s' s''))"
proof -
  have "\<not> accepting (queue s)"
    using queue_inv_steps [OF assms(2) queue_inv_start [OF assms(1)]] assms(3)
    by (simp add: queue_inv_def)
  note stopped = stopped_steps [OF assms(4,3) this]
  moreover have "steps_left (worker s) \<le> 3" by (cases "worker s") auto
  ultimately show ?thesis using stopped_not_blocked [of s'] by fastforce
qed

theorem stop_terminates_worker_witness:
  "\<exists>s s'. perform_all [Submit (Some (1 :: nat)), Worker_step, Worker_step, Worker_step,
        Submit (Some 2), Stop_close, Stop_request]
      (start_system \<lparr>capacity = 2, tasks = [], accepting = True, stop_requested = False\<rparr>) = Some s
    \<and> perform_all [Submit (Some 3), Task_return, Worker_step] s = Some s'
    \<and> worker s' = Exited \<and> started s' = started s \<and> accepted s' = [1, 2]"
proof -
  let ?q = "\<lparr>capacity = 2, tasks = [], accepting = True, stop_requested = False\<rparr>"
  let ?as = "[Submit (Some (1 :: nat)), Worker_step, Worker_step, Worker_step,
        Submit (Some 2), Stop_close, Stop_request]"
  let ?bs = "[Submit (Some 3), Task_return, Worker_step]"
  have "\<exists>s s'. perform_all ?as (start_system ?q) = Some s \<and> perform_all ?bs s = Some s'
      \<and> stop_requested (queue s) \<and> worker s' = Exited \<and> accepted s' = [1, 2]"
    by (simp add: start_system_def try_submit_def wake_condition_def stop_close_def
        stop_request_def)
  then obtain s s' where s: "perform_all ?as (start_system ?q) = Some s"
      "perform_all ?bs s = Some s'" "stop_requested (queue s)" "worker s' = Exited"
      "accepted s' = [1, 2]" by blast
  have "make_queue 2 = Inr ?q" by (simp add: make_queue_def)
  from stop_terminates_worker [OF this perform_all_steps [OF s(1)] s(3) perform_all_steps [OF s(2)]] s
  show ?thesis by blast
qed

end
