(* ===== verification/Text_Chunker.thy ===== *)
theory Text_Chunker
  imports Domain
begin

text \<open>
  \<^verbatim>\<open>src/adapters/filesystem/text_chunker.cpp\<close>: splitting a file into lines and the lines into
  overlapping chunks. Line indices are \<open>nat\<close>; the one sum of a caller-supplied size that can wrap
  (\<^verbatim>\<open>start + options.max_lines\<close>) and the difference \<^verbatim>\<open>end - 1U\<close> are unsigned 64-bit.
  Reading the file is a parameter: the bytes of the file, or nothing when it cannot be opened.
\<close>

record ChunkingOptions =
  max_lines :: nat
  overlap_lines :: nat
  max_bytes :: nat
  version :: string

definition default_chunking :: ChunkingOptions where
  "default_chunking = \<lparr>max_lines = 80, overlap_lines = 16, max_bytes = 12 * 1024,
     version = ''text-v1''\<rparr>"

abbreviation newline :: char where "newline \<equiv> CHR 0x0A"
abbreviation carriage_return :: char where "carriage_return \<equiv> CHR 0x0D"
abbreviation nul :: char where "nul \<equiv> CHR 0x00"

definition pop_cr :: "string \<Rightarrow> string" where
  "pop_cr line = (if line \<noteq> [] \<and> last line = carriage_return then butlast line else line)"

function split_lines :: "string \<Rightarrow> string list" where
  "split_lines text = (if text = [] then [] else
     pop_cr (takeWhile (\<lambda>c. c \<noteq> newline) text) #
       (case dropWhile (\<lambda>c. c \<noteq> newline) text of [] \<Rightarrow> [] | _ # rest \<Rightarrow> split_lines rest))"
  by pat_completeness auto
termination
  by (relation "measure length")
    (auto dest!: arg_cong [where f = length], metis Suc_le_lessD length_dropWhile_le)

declare split_lines.simps [simp del]

function content_size :: "string list \<Rightarrow> nat \<Rightarrow> nat \<Rightarrow> nat" where
  "content_size lines index till = (if index < till
     then length (lines ! index) + (if index + 1 < till then 1 else 0)
       + content_size lines (index + 1) till
     else 0)"
  by pat_completeness auto
termination
  by (relation "measure (\<lambda>(lines, index, till). till - index)") auto

declare content_size.simps [simp del]

function join_lines_from :: "string list \<Rightarrow> nat \<Rightarrow> nat \<Rightarrow> nat \<Rightarrow> string" where
  "join_lines_from lines start index till = (if index < till
     then (if index \<noteq> start then [newline] else []) @ lines ! index
       @ join_lines_from lines start (index + 1) till
     else [])"
  by pat_completeness auto
termination
  by (relation "measure (\<lambda>(lines, start, index, till). till - index)") auto

declare join_lines_from.simps [simp del]

definition join_lines :: "string list \<Rightarrow> nat \<Rightarrow> nat \<Rightarrow> string" where
  "join_lines lines start till = join_lines_from lines start start till"

definition validate_options :: "ChunkingOptions \<Rightarrow> unit res" where
  "validate_options options = (
     if max_lines options = 0 then Inl (Invalid_argument ''chunk max_lines must be positive'')
     else if overlap_lines options \<ge> max_lines options
       then Inl (Invalid_argument ''chunk overlap_lines must be smaller than max_lines'')
     else if max_bytes options = 0 then Inl (Invalid_argument ''chunk max_bytes must be positive'')
     else if version options = [] then Inl (Invalid_argument ''chunk version must not be empty'')
     else Inr ())"

definition line_number :: "nat \<Rightarrow> 32 word res" where
  "line_number zero_based = (
     if zero_based \<ge> 4294967295 then Inl (Invalid_argument ''source file has too many lines'')
     else Inr (of_nat (zero_based + 1)))"

text \<open>The inner loop: drop lines from the end while the chunk is too large.\<close>

function shrink_end :: "string list \<Rightarrow> nat \<Rightarrow> nat \<Rightarrow> nat \<Rightarrow> nat" where
  "shrink_end lines start limit till =
     (if start + 1 < till \<and> limit < content_size lines start till
      then shrink_end lines start limit (till - 1) else till)"
  by pat_completeness auto
termination
  by (relation "measure (\<lambda>(lines, start, limit, till). till)") auto

declare shrink_end.simps [simp del]

definition chunk_end :: "ChunkingOptions \<Rightarrow> string list \<Rightarrow> nat \<Rightarrow> nat" where
  "chunk_end options lines start =
     shrink_end lines start (max_bytes options) (min (sz_add start (max_lines options)) (length lines))"

definition chunk_key :: "string \<Rightarrow> 32 word \<Rightarrow> 32 word \<Rightarrow> string \<Rightarrow> string \<Rightarrow> string" where
  "chunk_key normalized_path start_line end_line content_hash ver =
     normalized_path @ [nul] @ string_of_nat (unat start_line) @ [nul]
       @ string_of_nat (unat end_line) @ [nul] @ content_hash @ [nul] @ ver"

definition make_chunk ::
  "string \<Rightarrow> string \<Rightarrow> ChunkingOptions \<Rightarrow> string \<Rightarrow> 32 word \<Rightarrow> 32 word \<Rightarrow> Chunk" where
  "make_chunk normalized_path language options content start_line end_line =
     (let content_hash = stable_hash_hex content in
      \<lparr>chunk_id = stable_hash64
          (chunk_key normalized_path start_line end_line content_hash (version options)),
        chunk_source = \<lparr>range_path = normalized_path, range_start_line = start_line,
          range_end_line = end_line\<rparr>,
        chunk_language = language, chunk_content = content, chunk_content_hash = content_hash,
        chunk_chunker_version = version options\<rparr>)"

definition next_start :: "ChunkingOptions \<Rightarrow> nat \<Rightarrow> nat \<Rightarrow> nat" where
  "next_start options start till = max (start + 1)
     (if overlap_lines options < till then till - overlap_lines options else till)"

text \<open>The outer loop of \<^verbatim>\<open>chunk_text\<close>, from \<open>start\<close> on.\<close>

function chunk_loop ::
  "string \<Rightarrow> string \<Rightarrow> ChunkingOptions \<Rightarrow> string list \<Rightarrow> nat \<Rightarrow> Chunk list res" where
  "chunk_loop path language options lines start = (if start < length lines then
     let till = chunk_end options lines start; content = join_lines lines start till in
     res_bind (line_number start) (\<lambda>start_line.
     res_bind (line_number (sz_sub till 1)) (\<lambda>end_line.
       let chunk = make_chunk path language options content start_line end_line in
       if till = length lines then Inr [chunk]
       else res_bind (chunk_loop path language options lines (next_start options start till))
         (\<lambda>chunks. Inr (chunk # chunks))))
     else Inr [])"
  by pat_completeness auto
termination
  by (relation "measure (\<lambda>(path, language, options, lines, start). length lines - start)")
    (auto simp: next_start_def)

declare chunk_loop.simps [simp del]

definition chunk_text ::
  "path \<Rightarrow> string \<Rightarrow> string \<Rightarrow> ChunkingOptions \<Rightarrow> Chunk list res" where
  "chunk_text relative_path language text options =
     res_bind (validate_options options) (\<lambda>_.
       let lines = split_lines text in
       if lines = [] then Inr [] else
       let normalized_path = lexically_normal relative_path in
       if normalized_path = [] \<or> is_absolute relative_path \<or> starts_with normalized_path ''../''
       then Inl (Invalid_argument ''chunk path must be a relative path inside the repository'')
       else chunk_loop normalized_path language options lines 0)"

definition chunk_file ::
  "(path \<rightharpoonup> string) \<Rightarrow> path \<Rightarrow> path \<Rightarrow> string \<Rightarrow> ChunkingOptions \<Rightarrow> Chunk list res" where
  "chunk_file read_file absolute_path relative_path language options =
     (case read_file absolute_path of
        None \<Rightarrow> Inl (Runtime_error (''cannot read scanned file: '' @ absolute_path))
      | Some text \<Rightarrow> chunk_text relative_path language text options)"


section \<open>The spans of lines a run of the loop covers\<close>

text \<open>
  The half-open line intervals of the chunks, as a function of their own: what the loop does
  besides hashing and numbering.
\<close>

function chunk_spans :: "ChunkingOptions \<Rightarrow> string list \<Rightarrow> nat \<Rightarrow> (nat \<times> nat) list" where
  "chunk_spans options lines start = (if start < length lines then
     let till = chunk_end options lines start in
     (start, till) # (if till = length lines then []
       else chunk_spans options lines (next_start options start till))
     else [])"
  by pat_completeness auto
termination
  by (relation "measure (\<lambda>(options, lines, start). length lines - start)")
    (auto simp: next_start_def)

declare chunk_spans.simps [simp del]

definition span_chunk :: "string \<Rightarrow> string \<Rightarrow> ChunkingOptions \<Rightarrow> string list \<Rightarrow> nat \<times> nat \<Rightarrow> Chunk" where
  "span_chunk path language options lines = (\<lambda>(s, e).
     make_chunk path language options (join_lines lines s e) (of_nat (s + 1)) (of_nat e))"

definition fits :: "ChunkingOptions \<Rightarrow> string list \<Rightarrow> bool" where
  "fits options lines = (0 < max_lines options \<and> length lines + max_lines options \<le> size_max)"

lemma length_join_lines_from:
  "start < index \<Longrightarrow> length (join_lines_from lines start index till)
     = content_size lines index till + (if index < till then 1 else 0)"
proof (induction lines start index till rule: join_lines_from.induct)
  case (1 lines start index till)
  then show ?case
    by (simp add: join_lines_from.simps [of lines start index] content_size.simps [of lines index])
qed

lemma length_join_lines: "length (join_lines lines start till) = content_size lines start till"
  by (simp add: join_lines_def join_lines_from.simps [of lines start start]
      content_size.simps [of lines start] length_join_lines_from)

lemma shrink_end_props:
  "start < till \<Longrightarrow> start < shrink_end lines start limit till
     \<and> shrink_end lines start limit till \<le> till
     \<and> (content_size lines start (shrink_end lines start limit till) \<le> limit
        \<or> shrink_end lines start limit till = start + 1)"
proof (induction lines start limit till rule: shrink_end.induct)
  case (1 lines start limit till)
  show ?case
  proof (cases "start + 1 < till \<and> limit < content_size lines start till")
    case True
    then have "start < till - 1" by linarith
    with 1 True show ?thesis by (subst (1 2 3 4) shrink_end.simps) auto
  next
    case False
    then have "shrink_end lines start limit till = till" by (subst shrink_end.simps) auto
    with False 1(2) show ?thesis by auto
  qed
qed

lemma chunk_end_props:
  assumes "start < length lines" and "fits options lines"
  shows "start < chunk_end options lines start" "chunk_end options lines start \<le> length lines"
    "chunk_end options lines start \<le> start + max_lines options"
    "content_size lines start (chunk_end options lines start) \<le> max_bytes options
      \<or> chunk_end options lines start = start + 1"
proof -
  have "sz_add start (max_lines options) = start + max_lines options"
    using assms by (simp add: fits_def)
  then show "start < chunk_end options lines start" "chunk_end options lines start \<le> length lines"
    "chunk_end options lines start \<le> start + max_lines options"
    "content_size lines start (chunk_end options lines start) \<le> max_bytes options
      \<or> chunk_end options lines start = start + 1"
    using assms shrink_end_props [of start "min (start + max_lines options) (length lines)" lines
        "max_bytes options"]
    by (simp_all add: chunk_end_def fits_def)
qed

lemma next_start_props:
  "start < till \<Longrightarrow> start < next_start options start till \<and> next_start options start till \<le> till"
  by (auto simp: next_start_def)

lemma chunk_spans_unfold:
  "start < length lines \<Longrightarrow> chunk_spans options lines start =
    (start, chunk_end options lines start) # (if chunk_end options lines start = length lines then []
      else chunk_spans options lines (next_start options start (chunk_end options lines start)))"
  by (simp add: chunk_spans.simps [of options lines start] Let_def)

text \<open>Every line from \<open>start\<close> on is in a span; spans are within bounds and move forward.\<close>

lemma chunk_spans_cover:
  "fits options lines \<Longrightarrow> start \<le> i \<Longrightarrow> i < length lines \<Longrightarrow>
    \<exists>(s, e) \<in> set (chunk_spans options lines start). s \<le> i \<and> i < e"
proof (induction options lines start rule: chunk_spans.induct)
  case (1 options lines start)
  define till where "till = chunk_end options lines start"
  have start: "start < length lines" using 1 by simp
  note ends = chunk_end_props [OF start \<open>fits options lines\<close>, folded till_def]
  note unfold = chunk_spans_unfold [OF start, of options, folded till_def]
  show ?case
  proof (cases "i < till")
    case True
    then show ?thesis using 1 by (simp add: unfold)
  next
    case False
    then have "till \<noteq> length lines" "next_start options start till \<le> i"
      using 1 next_start_props [OF ends(1), of options] by auto
    with 1 start show ?thesis by (auto simp: unfold till_def)
  qed
qed

lemma chunk_spans_bounds:
  "fits options lines \<Longrightarrow> \<forall>(s, e) \<in> set (chunk_spans options lines start).
    start \<le> s \<and> s < e \<and> e \<le> length lines \<and> e \<le> s + max_lines options
    \<and> (content_size lines s e \<le> max_bytes options \<or> e = s + 1)"
proof (induction options lines start rule: chunk_spans.induct)
  case (1 options lines start)
  show ?case
  proof (cases "start < length lines")
    case False
    then show ?thesis by (simp add: chunk_spans.simps [of options lines start])
  next
    case start: True
    define till where "till = chunk_end options lines start"
    define ns where "ns = next_start options start till"
    note ends = chunk_end_props [OF start \<open>fits options lines\<close>, folded till_def]
    have ns: "start \<le> ns" using next_start_props [OF ends(1), of options] by (simp add: ns_def)
    have IH: "till \<noteq> length lines \<Longrightarrow> \<forall>(s, e) \<in> set (chunk_spans options lines ns).
        ns \<le> s \<and> s < e \<and> e \<le> length lines \<and> e \<le> s + max_lines options
        \<and> (content_size lines s e \<le> max_bytes options \<or> e = s + 1)"
      using 1 start by (simp add: till_def ns_def)
    show ?thesis
      unfolding chunk_spans_unfold [OF start, of options, folded till_def, folded ns_def]
      using ends IH ns by (cases "till = length lines") (auto simp: case_prod_beta)
  qed
qed

lemma chunk_spans_forward:
  "fits options lines \<Longrightarrow> sorted_wrt (\<lambda>(s, e) (s', e'). s < s') (chunk_spans options lines start)"
proof (induction options lines start rule: chunk_spans.induct)
  case (1 options lines start)
  show ?case
  proof (cases "start < length lines")
    case False
    then show ?thesis by (simp add: chunk_spans.simps [of options lines start])
  next
    case start: True
    define till where "till = chunk_end options lines start"
    note ends = chunk_end_props [OF start \<open>fits options lines\<close>, folded till_def]
    have "start < s" if "(s, e) \<in> set (chunk_spans options lines (next_start options start till))"
      for s e
      using chunk_spans_bounds [OF \<open>fits options lines\<close>, of "next_start options start till"] that
        next_start_props [OF ends(1), of options] by fastforce
    then show ?thesis
      using 1 start by (auto simp: chunk_spans_unfold [OF start, of options] till_def)
  qed
qed

text \<open>The loop yields the chunks of the spans, whenever the line numbers fit into 32 bits.\<close>

lemma line_number_ok: "i < 4294967295 \<Longrightarrow> line_number i = Inr (of_nat (i + 1))"
  by (simp add: line_number_def)

lemma chunk_loop_eq_spans:
  "fits options lines \<Longrightarrow> length lines \<le> 4294967295 \<Longrightarrow>
    chunk_loop path language options lines start
      = Inr (map (span_chunk path language options lines) (chunk_spans options lines start))"
proof (induction path language options lines start rule: chunk_loop.induct)
  case (1 path language options lines start)
  show ?case
  proof (cases "start < length lines")
    case False
    then show ?thesis
      by (simp add: chunk_loop.simps [of path language options lines start]
          chunk_spans.simps [of options lines start])
  next
    case start: True
    define till where "till = chunk_end options lines start"
    note ends = chunk_end_props [OF start \<open>fits options lines\<close>, folded till_def]
    have sub: "sz_sub till 1 = till - 1" using ends 1 by simp
    have ln: "line_number start = Inr (of_nat (start + 1))"
      "line_number (sz_sub till 1) = Inr (of_nat till)"
      using ends 1 start line_number_ok [of start] line_number_ok [of "till - 1"] sub by auto
    have IH: "till \<noteq> length lines \<Longrightarrow>
        chunk_loop path language options lines (next_start options start till)
        = Inr (map (span_chunk path language options lines)
            (chunk_spans options lines (next_start options start till)))"
      using 1 start ln by (simp add: till_def)
    have "chunk_loop path language options lines start =
      (if till = length lines then Inr [span_chunk path language options lines (start, till)]
       else res_bind (chunk_loop path language options lines (next_start options start till))
         (\<lambda>chunks. Inr (span_chunk path language options lines (start, till) # chunks)))"
      using start ln by (subst chunk_loop.simps) (simp add: till_def [symmetric] span_chunk_def Let_def)
    also have "\<dots> = Inr (map (span_chunk path language options lines)
        (chunk_spans options lines start))"
      using start IH by (simp add: chunk_spans.simps [of options lines start] till_def [symmetric]
          Let_def)
    finally show ?thesis .
  qed
qed


section \<open>Properties\<close>

definition accepted_path :: "path \<Rightarrow> bool" where
  "accepted_path p = (lexically_normal p \<noteq> [] \<and> \<not> is_absolute p
     \<and> \<not> starts_with (lexically_normal p) ''../'')"

lemma chunk_text_eq_spans:
  assumes "validate_options options = Inr ()" and "accepted_path path"
    and "length (split_lines text) + max_lines options \<le> size_max"
    and "length (split_lines text) \<le> 4294967295"
  shows "chunk_text path language text options = Inr (map
    (span_chunk (lexically_normal path) language options (split_lines text))
    (chunk_spans options (split_lines text) 0))"
proof -
  have "fits options (split_lines text)"
    using assms(1,3) by (auto simp: fits_def validate_options_def split: if_splits)
  then show ?thesis
    using assms by (cases "split_lines text = []")
      (simp_all add: chunk_text_def accepted_path_def chunk_loop_eq_spans Let_def
        chunk_spans.simps [of options "[]"])
qed

text \<open>
  C1. For valid options, an acceptable path and a file of at most 2^32 - 1 lines, chunking returns
  (it neither throws nor loops) a list of chunks over line intervals such that every line of the file
  is in a chunk, each interval is non-empty, within the file and at most \<open>max_lines\<close> long, intervals
  start strictly later and later, and the content of a chunk is exactly its lines joined by newlines
  and is at most \<open>max_bytes\<close> long unless it is a single line.
\<close>

theorem chunk_text_covers_file:
  assumes "validate_options options = Inr ()" and "accepted_path path"
    and "lines = split_lines text"
    and "length lines + max_lines options \<le> size_max" and "length lines \<le> 4294967295"
  shows "\<exists>spans. chunk_text path language text options
        = Inr (map (span_chunk (lexically_normal path) language options lines) spans)
    \<and> (\<forall>i < length lines. \<exists>(s, e) \<in> set spans. s \<le> i \<and> i < e)
    \<and> (\<forall>(s, e) \<in> set spans. s < e \<and> e \<le> length lines \<and> e \<le> s + max_lines options
        \<and> (length (join_lines lines s e) \<le> max_bytes options \<or> e = s + 1))
    \<and> sorted_wrt (\<lambda>(s, e) (s', e'). s < s') spans"
proof -
  let ?spans = "chunk_spans options lines 0"
  have fit: "fits options lines"
    using assms by (auto simp: fits_def validate_options_def split: if_splits)
  have "chunk_text path language text options
      = Inr (map (span_chunk (lexically_normal path) language options lines) ?spans)"
    using assms chunk_text_eq_spans by simp
  moreover have "\<forall>i < length lines. \<exists>(s, e) \<in> set ?spans. s \<le> i \<and> i < e"
    using chunk_spans_cover [OF fit, of 0] by simp
  moreover have "\<forall>(s, e) \<in> set ?spans. s < e \<and> e \<le> length lines \<and> e \<le> s + max_lines options
        \<and> (length (join_lines lines s e) \<le> max_bytes options \<or> e = s + 1)"
    using chunk_spans_bounds [OF fit, of 0] by (auto simp: length_join_lines)
  ultimately show ?thesis using chunk_spans_forward [OF fit, of 0] by blast
qed

theorem chunk_text_covers_file_witness:
  "\<exists>spans. chunk_text ''a.cpp'' ''cpp'' [CHR ''x'', CHR 0x0A, CHR ''y'', CHR 0x0A, CHR ''z'']
          \<lparr>max_lines = 2, overlap_lines = 1, max_bytes = 9, version = ''v''\<rparr>
        = Inr (map (span_chunk (lexically_normal ''a.cpp'') ''cpp''
            \<lparr>max_lines = 2, overlap_lines = 1, max_bytes = 9, version = ''v''\<rparr>
            [''x'', ''y'', ''z'']) spans)
    \<and> (\<forall>i < length [''x'', ''y'', ''z'']. \<exists>(s, e) \<in> set spans. s \<le> i \<and> i < e)"
proof -
  let ?o = "\<lparr>max_lines = 2, overlap_lines = 1, max_bytes = 9, version = ''v''\<rparr>"
  let ?t = "[CHR ''x'', CHR 0x0A, CHR ''y'', CHR 0x0A, CHR ''z'']"
  have v: "validate_options ?o = Inr ()" by (simp add: validate_options_def)
  have p: "accepted_path ''a.cpp''" by code_simp
  have l: "[''x'', ''y'', ''z''] = split_lines ?t" by code_simp
  show ?thesis using chunk_text_covers_file [OF v p l, of "''cpp''"] by simp blast
qed

text \<open>
  The key a chunk id is hashed from determines the path, the lines, the content hash and the
  chunker version: equal ids of different chunks can only come from a collision of the hash.
\<close>

lemma split_on_sep: "sep \<notin> set a \<Longrightarrow> split_on sep (a @ sep # b) = a # split_on sep b"
  by (induction a) auto

lemma split_on_none: "sep \<notin> set a \<Longrightarrow> split_on sep a = [a]"
  by (induction a) auto

lemma string_of_nat_no_nul: "nul \<notin> set (string_of_nat n)"
  using string_of_nat_digits [of n] by (auto simp: is_digit_def)

lemma chunk_key_split:
  assumes "nul \<notin> set p" and "nul \<notin> set h" and "nul \<notin> set v"
  shows "split_on nul (chunk_key p s e h v)
    = [p, string_of_nat (unat s), string_of_nat (unat e), h, v]"
  using assms by (simp add: chunk_key_def split_on_sep split_on_none string_of_nat_no_nul)

text \<open>
  Chunk ids separate chunks up to collisions of the 64-bit hash: the text that is hashed into the
  id is the same only for the same path, line range, content hash and chunker version (none of which
  contains a NUL byte).
\<close>

lemma chunk_key_injective:
  assumes "nul \<notin> set p" and "nul \<notin> set h" and "nul \<notin> set v"
    and "nul \<notin> set p'" and "nul \<notin> set h'" and "nul \<notin> set v'"
    and "chunk_key p s e h v = chunk_key p' s' e' h' v'"
  shows "p = p' \<and> s = s' \<and> e = e' \<and> h = h' \<and> v = v'"
  using chunk_key_split [OF assms(1-3), of s e] chunk_key_split [OF assms(4-6), of s' e'] assms(7)
  by (simp add: word_unat_eq_iff)

lemma chunk_key_injective_example:
  "chunk_key ''a.cpp'' 1 2 ''0f'' ''text-v1'' \<noteq> chunk_key ''a.cpp'' 12 2 ''0f'' ''text-v1''"
  using chunk_key_injective [of "''a.cpp''" "''0f''" "''text-v1''" "''a.cpp''" "''0f''"
      "''text-v1''" 1 2 12 2] by auto

text \<open>
  Exactly which inputs are refused: invalid options, or a non-empty file with an absolute path or
  one that leads out of the repository. An empty file has no chunk, whatever its path.
\<close>

lemma chunk_text_errors:
  assumes "length (split_lines text) + max_lines options \<le> size_max"
    and "length (split_lines text) \<le> 4294967295"
  shows "(\<exists>e. chunk_text path language text options = Inl e) \<longleftrightarrow>
    max_lines options = 0 \<or> overlap_lines options \<ge> max_lines options \<or> max_bytes options = 0
    \<or> version options = [] \<or> (text \<noteq> [] \<and> \<not> accepted_path path)"
proof -
  have empty: "split_lines text = [] \<longleftrightarrow> text = []"
    by (subst split_lines.simps) simp
  have valid: "validate_options options = Inr () \<longleftrightarrow> \<not> (max_lines options = 0
      \<or> overlap_lines options \<ge> max_lines options \<or> max_bytes options = 0 \<or> version options = [])"
    by (simp add: validate_options_def)
  consider (bad) "validate_options options \<noteq> Inr ()"
    | (ok) "validate_options options = Inr ()" "accepted_path path"
    | (path) "validate_options options = Inr ()" "\<not> accepted_path path" by blast
  then show ?thesis
  proof cases
    case bad
    then obtain e where "validate_options options = Inl e"
      by (cases "validate_options options") auto
    with bad valid show ?thesis by (auto simp: chunk_text_def)
  next
    case ok
    then show ?thesis using valid chunk_text_eq_spans [OF ok assms, of language] by auto
  next
    case path
    then show ?thesis
      using valid empty by (auto simp: chunk_text_def accepted_path_def Let_def)
  qed
qed

lemma chunk_text_errors_example:
  "\<exists>e. chunk_text ''../x.cpp'' ''cpp'' ''x'' default_chunking = Inl e"
proof -
  have l: "length (split_lines ''x'') = 1" by code_simp
  have "\<not> accepted_path ''../x.cpp''" by code_simp
  then show ?thesis
    using chunk_text_errors [of "''x''" default_chunking "''../x.cpp''" "''cpp''"] l
    by (simp add: default_chunking_def)
qed

end
