(* ===== verification/Sqlite_Chunks.thy ===== *)
theory Sqlite_Chunks
  imports Chunk_Repository
begin

text \<open>
  \<^verbatim>\<open>src/adapters/sqlite/sqlite_chunk_repository.cpp\<close>: the persistent chunk repository. The
  database is the list of rows of each of its tables, in order of insertion; each SQL statement is read with its documented
  effect, primary keys, the cascading foreign key and the three full-text triggers included. Integer
  columns hold the 64-bit (or 32-bit) patterns the code binds. Row ids of documents are assigned by SQLite: one more than the
  largest in use. A transaction keeps the tables it started from.
\<close>

record doc_row =
  doc_id :: int
  doc_path :: path
  doc_hash :: string
  doc_size :: "64 word"
  doc_modified :: "64 word"
  doc_parser :: string

record chunk_row =
  crow_id :: ChunkId
  crow_document :: int
  crow_start :: "32 word"
  crow_end :: "32 word"
  crow_language :: string
  crow_symbol :: string
  crow_content :: string
  crow_hash :: string
  crow_offset :: "64 word"

record fts_row =
  fts_rowid :: ChunkId
  fts_path :: path
  fts_symbol :: string
  fts_content :: string

record tables =
  documents_table :: "doc_row list"
  chunks_table :: "chunk_row list"
  chunk_fts :: "fts_row list"
  index_metadata :: "string \<rightharpoonup> string"

record SqliteChunkRepository =
  live :: tables
  saved :: "tables option"

record StoredDocument =
  sdoc_path :: path
  sdoc_hash :: string
  sdoc_size :: "64 word"
  sdoc_modified :: "64 word"
  sdoc_parser :: string
  sdoc_chunks :: "Chunk list"

section \<open>Schema\<close>

text \<open>What the triggers select for a chunk row: its document's path, its symbol and its content.\<close>

definition path_of_document :: "doc_row list \<Rightarrow> int \<Rightarrow> path option" where
  "path_of_document docs i = map_option doc_path (find (\<lambda>d. doc_id d = i) docs)"

definition fts_rows_of :: "doc_row list \<Rightarrow> chunk_row \<Rightarrow> fts_row list" where
  "fts_rows_of docs c = (case path_of_document docs (crow_document c) of
     None \<Rightarrow> []
   | Some p \<Rightarrow> [\<lparr>fts_rowid = crow_id c, fts_path = p, fts_symbol = crow_symbol c,
       fts_content = crow_content c\<rparr>])"

definition set_metadata :: "string \<Rightarrow> string \<Rightarrow> SqliteChunkRepository \<Rightarrow> SqliteChunkRepository" where
  "set_metadata key v r = r\<lparr>live := (live r)\<lparr>index_metadata := (index_metadata (live r))(key \<mapsto> v)\<rparr>\<rparr>"

definition no_tables :: tables where
  "no_tables = \<lparr>documents_table = [], chunks_table = [], chunk_fts = [], index_metadata = Map.empty\<rparr>"

text \<open>
  Opening a database file that holds \<open>t\<close> (nothing for a new file): missing tables are created, the
  full-text rows of all chunks are inserted or replaced.
\<close>

definition open_repository :: "tables option \<Rightarrow> SqliteChunkRepository" where
  "open_repository stored = (
     let t = (case stored of None \<Rightarrow> no_tables | Some t \<Rightarrow> t);
       rows = concat (map (fts_rows_of (documents_table t)) (chunks_table t))
     in set_metadata ''schema_version'' ''2''
       \<lparr>live = t\<lparr>chunk_fts := filter (\<lambda>f. fts_rowid f \<notin> fts_rowid ` set rows) (chunk_fts t) @ rows\<rparr>,
        saved = None\<rparr>)"

section \<open>Transactions\<close>

definition begin_tx :: "SqliteChunkRepository \<Rightarrow> SqliteChunkRepository res" where
  "begin_tx r = (case saved r of
     None \<Rightarrow> Inr (r\<lparr>saved := Some (live r)\<rparr>)
   | Some _ \<Rightarrow> Inl (Runtime_error ''cannot start a transaction within a transaction''))"

definition commit_tx :: "SqliteChunkRepository \<Rightarrow> SqliteChunkRepository res" where
  "commit_tx r = (case saved r of
     None \<Rightarrow> Inl (Runtime_error ''cannot commit - no transaction is active'')
   | Some _ \<Rightarrow> Inr (r\<lparr>saved := None\<rparr>))"

definition rollback_tx :: "SqliteChunkRepository \<Rightarrow> SqliteChunkRepository" where
  "rollback_tx r = (case saved r of None \<Rightarrow> r | Some t \<Rightarrow> \<lparr>live = t, saved = None\<rparr>)"

section \<open>Writing\<close>

text \<open>
  Deleting the documents of a path deletes their chunks (\<^verbatim>\<open>ON DELETE CASCADE\<close>), and each deleted
  chunk its full-text row (the delete trigger).
\<close>

definition erase_document :: "path \<Rightarrow> SqliteChunkRepository \<Rightarrow> SqliteChunkRepository" where
  "erase_document p r = (
     let t = live r;
       gone = map doc_id (filter (\<lambda>d. doc_path d = p) (documents_table t));
       gone_chunks = map crow_id (filter (\<lambda>c. crow_document c \<in> set gone) (chunks_table t))
     in r\<lparr>live := t\<lparr>documents_table := filter (\<lambda>d. doc_path d \<noteq> p) (documents_table t),
       chunks_table := filter (\<lambda>c. crow_document c \<notin> set gone) (chunks_table t),
       chunk_fts := filter (\<lambda>f. fts_rowid f \<notin> set gone_chunks) (chunk_fts t)\<rparr>\<rparr>)"

definition next_rowid :: "doc_row list \<Rightarrow> int" where
  "next_rowid docs = 1 + foldr (\<lambda>d m. max (doc_id d) m) docs 0"

definition insert_document :: "StoredDocument \<Rightarrow> tables \<Rightarrow> (int \<times> tables) res" where
  "insert_document d t = (
     if sdoc_path d \<in> set (map doc_path (documents_table t))
     then Inl (Runtime_error ''insert document: UNIQUE constraint failed: documents.relative_path'')
     else let i = next_rowid (documents_table t) in
       Inr (i, t\<lparr>documents_table := documents_table t @ [\<lparr>doc_id = i, doc_path = sdoc_path d,
         doc_hash = sdoc_hash d, doc_size = sdoc_size d, doc_modified = sdoc_modified d,
         doc_parser = sdoc_parser d\<rparr>]\<rparr>))"

definition row_of_chunk :: "int \<Rightarrow> nat \<Rightarrow> Chunk \<Rightarrow> chunk_row" where
  "row_of_chunk document offset c = \<lparr>crow_id = chunk_id c, crow_document = document,
     crow_start = range_start_line (chunk_source c), crow_end = range_end_line (chunk_source c),
     crow_language = chunk_language c, crow_symbol = [], crow_content = chunk_content c,
     crow_hash = chunk_content_hash c, crow_offset = of_nat offset\<rparr>"

text \<open>The loop over the chunks; each insertion fires the insert trigger. A failure keeps what is done.\<close>

fun insert_chunk_rows :: "int \<Rightarrow> nat \<Rightarrow> Chunk list \<Rightarrow> tables \<Rightarrow> unit res \<times> tables" where
  "insert_chunk_rows document offset [] t = (Inr (), t)"
| "insert_chunk_rows document offset (c # cs) t = (
     if chunk_id c \<in> set (map crow_id (chunks_table t))
     then (Inl (Runtime_error ''insert chunk: UNIQUE constraint failed: chunks.id''), t)
     else let row = row_of_chunk document offset c in
       insert_chunk_rows document (offset + 1) cs
         (t\<lparr>chunks_table := chunks_table t @ [row],
           chunk_fts := chunk_fts t @ fts_rows_of (documents_table t) row\<rparr>))"

text \<open>
  The errors of the database's own constraints. That a statement may also fail for other reasons is added where the
  call is made, inside a transaction that is rolled back (\<open>perform_all\<close> of the index service).
\<close>

definition replace_document ::
  "StoredDocument \<Rightarrow> nat \<Rightarrow> SqliteChunkRepository \<Rightarrow> unit res \<times> SqliteChunkRepository" where
  "replace_document d generation r = (
     let r = erase_document (sdoc_path d) r in
     case insert_document d (live r) of
       Inl e \<Rightarrow> (Inl e, r)
     | Inr (i, t) \<Rightarrow> (case insert_chunk_rows i 0 (sdoc_chunks d) t of
         (Inl e, t) \<Rightarrow> (Inl e, r\<lparr>live := t\<rparr>)
       | (Inr u, t) \<Rightarrow> (Inr (), set_metadata ''active_vector_generation'' (string_of_nat generation)
           (r\<lparr>live := t\<rparr>))))"

section \<open>Reading\<close>

text \<open>
  First what the queries select, as functions of the tables. A step that fails while a chunk is looked up is, for
  \<open>get_many\<close>, a chunk that is not there, so a failure shortens its result like a missing row.
\<close>

definition read_chunk :: "path \<Rightarrow> string \<Rightarrow> chunk_row \<Rightarrow> Chunk" where
  "read_chunk p parser c = \<lparr>chunk_id = crow_id c,
     chunk_source = \<lparr>range_path = p, range_start_line = crow_start c, range_end_line = crow_end c\<rparr>,
     chunk_language = c_str (crow_language c), chunk_content = c_str (crow_content c),
     chunk_content_hash = c_str (crow_hash c), chunk_chunker_version = c_str parser\<rparr>"

text \<open>The first row of the join for an id.\<close>

definition sqlite_find :: "SqliteChunkRepository \<Rightarrow> ChunkId \<Rightarrow> Chunk option" where
  "sqlite_find r i = (case find (\<lambda>c. crow_id c = i) (chunks_table (live r)) of
     None \<Rightarrow> None
   | Some c \<Rightarrow> (case find (\<lambda>d. doc_id d = crow_document c) (documents_table (live r)) of
       None \<Rightarrow> None
     | Some d \<Rightarrow> Some (read_chunk (c_str (doc_path d)) (doc_parser d) c)))"

fun sqlite_get_many :: "SqliteChunkRepository \<Rightarrow> ChunkId list \<Rightarrow> Chunk list" where
  "sqlite_get_many r [] = []"
| "sqlite_get_many r (i # ids) = (case sqlite_find r i of
     Some c \<Rightarrow> c # sqlite_get_many r ids | None \<Rightarrow> sqlite_get_many r ids)"

definition documents :: "SqliteChunkRepository \<Rightarrow> StoredDocument list" where
  "documents r = map (\<lambda>d. \<lparr>sdoc_path = c_str (doc_path d), sdoc_hash = c_str (doc_hash d),
     sdoc_size = doc_size d, sdoc_modified = doc_modified d, sdoc_parser = c_str (doc_parser d),
     sdoc_chunks = []\<rparr>) (documents_table (live r))"

text \<open>Ids are ordered as the signed integers they are stored as.\<close>

definition chunks_for_document :: "path \<Rightarrow> SqliteChunkRepository \<Rightarrow> Chunk list" where
  "chunks_for_document p r = (
     let t = live r in
     sort_by (\<lambda>a b. sint (chunk_id a) < sint (chunk_id b))
       (concat (map (\<lambda>c. map (\<lambda>d. read_chunk p (doc_parser d) c)
          (filter (\<lambda>d. doc_id d = crow_document c \<and> doc_path d = p) (documents_table t)))
        (chunks_table t))))"

definition metadata_value :: "string \<Rightarrow> SqliteChunkRepository \<Rightarrow> string" where
  "metadata_value key r = (case index_metadata (live r) key of None \<Rightarrow> [] | Some v \<Rightarrow> c_str v)"

text \<open>
  What the reading calls return. A query may be refused (preparing the statement or binding its parameter throws),
  and its loop ends at the first step that is not a row, whether the query is complete or the step has failed
  (busy, an input error): the code does not look at the code of that step. \<open>Read_stopped n\<close> is a query whose
  steps fail after \<open>n\<close> rows.
\<close>

datatype read_outcome = Read_all | Read_stopped nat | Read_refused exn

fun rows_of :: "read_outcome \<Rightarrow> 'a list \<Rightarrow> 'a list res" where
  "rows_of Read_all rows = Inr rows"
| "rows_of (Read_stopped n) rows = Inr (take n rows)"
| "rows_of (Read_refused e) rows = Inl e"

definition documents_read :: "read_outcome \<Rightarrow> SqliteChunkRepository \<Rightarrow> StoredDocument list res" where
  "documents_read outcome r = rows_of outcome (documents r)"

definition chunks_read :: "read_outcome \<Rightarrow> path \<Rightarrow> SqliteChunkRepository \<Rightarrow> Chunk list res" where
  "chunks_read outcome p r = rows_of outcome (chunks_for_document p r)"

text \<open>Without a row the value is the empty string, as for a key that is not there.\<close>

definition metadata_read :: "read_outcome \<Rightarrow> string \<Rightarrow> SqliteChunkRepository \<Rightarrow> string res" where
  "metadata_read outcome key r = res_bind
     (rows_of outcome (case index_metadata (live r) key of None \<Rightarrow> [] | Some v \<Rightarrow> [c_str v]))
     (\<lambda>rows. Inr (case rows of [] \<Rightarrow> [] | v # _ \<Rightarrow> v))"

lemma complete_reads:
  assumes "\<And>n. outcome \<noteq> Read_stopped n"
  shows "documents_read outcome r = Inr ds \<Longrightarrow> ds = documents r"
    "chunks_read outcome p r = Inr cs \<Longrightarrow> cs = chunks_for_document p r"
    "metadata_read outcome key r = Inr v \<Longrightarrow> v = metadata_value key r"
  using assms by (cases outcome; auto simp: documents_read_def chunks_read_def metadata_read_def metadata_value_def
    split: option.splits)+

lemma all_read [simp]:
  "documents_read Read_all r = Inr (documents r)" "chunks_read Read_all p r = Inr (chunks_for_document p r)"
  "metadata_read Read_all key r = Inr (metadata_value key r)"
  by (simp_all add: documents_read_def chunks_read_def metadata_read_def metadata_value_def split: option.split)

lemma unread_metadata [simp]: "metadata_read (Read_stopped 0) key r = Inr []"
  by (simp add: metadata_read_def)

section \<open>The invariant of the tables\<close>

definition db_inv :: "tables \<Rightarrow> bool" where
  "db_inv t \<longleftrightarrow> distinct (map doc_id (documents_table t)) \<and> distinct (map doc_path (documents_table t))
     \<and> distinct (map crow_id (chunks_table t))
     \<and> (\<forall>c \<in> set (chunks_table t). crow_document c \<in> doc_id ` set (documents_table t))
     \<and> chunk_fts t = concat (map (fts_rows_of (documents_table t)) (chunks_table t))"

definition chunk_ids :: "tables \<Rightarrow> ChunkId set" where
  "chunk_ids t = crow_id ` set (chunks_table t)"

lemma find_unique:
  assumes "distinct (map f xs)" and "x \<in> set xs"
  shows "find (\<lambda>y. f y = f x) xs = Some x"
  using assms by (induction xs) (auto simp: rev_image_eqI)

lemma find_None_image: "find (\<lambda>y. f y = k) xs = None \<longleftrightarrow> k \<notin> f ` set xs"
  by (auto simp: find_None_iff)

lemma find_SomeD: "find P xs = Some x \<Longrightarrow> x \<in> set xs \<and> P x"
  by (metis find_Some_iff nth_mem)

lemma fts_rows_of_rowid: "f \<in> set (fts_rows_of docs c) \<Longrightarrow> fts_rowid f = crow_id c"
  by (auto simp: fts_rows_of_def split: option.splits)

lemma fts_rows_of_cong:
  "path_of_document docs (crow_document c) = path_of_document docs' (crow_document c) \<Longrightarrow>
    fts_rows_of docs c = fts_rows_of docs' c"
  by (simp add: fts_rows_of_def)

lemma path_of_document_inv:
  "distinct (map doc_id docs) \<Longrightarrow> d \<in> set docs \<Longrightarrow> path_of_document docs (doc_id d) = Some (doc_path d)"
  by (simp add: path_of_document_def find_unique)

lemma open_repository_inv:
  assumes "\<And>t. stored = Some t \<Longrightarrow> db_inv t"
  shows "db_inv (live (open_repository stored))"
proof -
  define t where "t = (case stored of None \<Rightarrow> no_tables | Some t \<Rightarrow> t)"
  have inv: "db_inv t" using assms by (auto simp: t_def db_inv_def no_tables_def split: option.splits)
  then have "filter (\<lambda>f. fts_rowid f \<notin> fts_rowid ` set (chunk_fts t)) (chunk_fts t) = []"
    by (simp add: filter_empty_conv)
  then have "live (open_repository stored)
      = t\<lparr>index_metadata := (index_metadata t)(''schema_version'' \<mapsto> ''2'')\<rparr>"
    using inv unfolding open_repository_def t_def [symmetric] Let_def
    by (simp add: set_metadata_def db_inv_def)
  with inv show ?thesis by (simp add: db_inv_def)
qed

lemma open_repository_saved [simp]: "saved (open_repository stored) = None"
  by (simp add: open_repository_def set_metadata_def Let_def)

lemma set_metadata_inv [simp]: "db_inv (live (set_metadata k v r)) = db_inv (live r)"
  by (simp add: set_metadata_def db_inv_def)

text \<open>Erasing, in terms of what is kept.\<close>

lemma filter_fts_rows:
  assumes "distinct (map crow_id cs)"
  shows "filter (\<lambda>f. fts_rowid f \<notin> crow_id ` {c \<in> set cs. \<not> P c}) (concat (map (fts_rows_of docs) cs))
    = concat (map (fts_rows_of docs) (filter P cs))"
proof -
  have "filter (\<lambda>f. fts_rowid f \<notin> S) (concat (map (fts_rows_of docs) xs))
      = concat (map (fts_rows_of docs) (filter (\<lambda>c. crow_id c \<notin> S) xs))" for S xs
  proof (induction xs)
    case (Cons c xs)
    have "filter (\<lambda>f. fts_rowid f \<notin> S) (fts_rows_of docs c) = (if crow_id c \<in> S then [] else fts_rows_of docs c)"
      by (auto simp: filter_empty_conv filter_id_conv fts_rows_of_rowid)
    with Cons show ?case by simp
  qed simp
  moreover have "filter (\<lambda>c. crow_id c \<notin> crow_id ` {c \<in> set cs. \<not> P c}) cs = filter P cs"
    using assms by (intro filter_cong) (auto simp: distinct_map inj_on_def)
  ultimately show ?thesis by simp
qed

definition docs_except :: "path \<Rightarrow> tables \<Rightarrow> doc_row list" where
  "docs_except p t = filter (\<lambda>d. doc_path d \<noteq> p) (documents_table t)"

lemma erase_document_inv:
  assumes "db_inv (live r)"
  shows "db_inv (live (erase_document p r))"
proof -
  let ?t = "live r"
  let ?gone = "doc_id ` {d \<in> set (documents_table ?t). doc_path d = p}"
  let ?P = "\<lambda>c. crow_document c \<notin> ?gone"
  have t: "live (erase_document p r) = ?t\<lparr>documents_table := docs_except p ?t,
      chunks_table := filter ?P (chunks_table ?t),
      chunk_fts := filter (\<lambda>f. fts_rowid f \<notin> crow_id ` {c \<in> set (chunks_table ?t). \<not> ?P c}) (chunk_fts ?t)\<rparr>"
    by (simp add: erase_document_def docs_except_def Let_def)
  have inv: "distinct (map doc_id (documents_table ?t))" "distinct (map doc_path (documents_table ?t))"
    "distinct (map crow_id (chunks_table ?t))"
    "\<And>c. c \<in> set (chunks_table ?t) \<Longrightarrow> crow_document c \<in> doc_id ` set (documents_table ?t)"
    "chunk_fts ?t = concat (map (fts_rows_of (documents_table ?t)) (chunks_table ?t))"
    using assms by (auto simp: db_inv_def)
  have kept: "\<exists>d \<in> set (docs_except p ?t). doc_id d = crow_document c"
    if "c \<in> set (chunks_table ?t)" "?P c" for c
    using inv(4) [OF that(1)] that(2) by (auto simp: docs_except_def)
  have "fts_rows_of (documents_table ?t) c = fts_rows_of (docs_except p ?t) c"
    if "c \<in> set (filter ?P (chunks_table ?t))" for c
  proof -
    from kept that obtain d where d: "d \<in> set (docs_except p ?t)" "doc_id d = crow_document c" by auto
    have "distinct (map doc_id (docs_except p ?t))" by (simp add: docs_except_def inv(1) distinct_map_filter)
    from path_of_document_inv [OF this d(1)] path_of_document_inv [OF inv(1), of d] d
    show ?thesis by (intro fts_rows_of_cong) (auto simp: docs_except_def)
  qed
  then have "concat (map (fts_rows_of (documents_table ?t)) (filter ?P (chunks_table ?t)))
      = concat (map (fts_rows_of (docs_except p ?t)) (filter ?P (chunks_table ?t)))"
    by (intro arg_cong [of _ _ concat] map_cong) auto
  moreover have "\<forall>c \<in> set (filter ?P (chunks_table ?t)). crow_document c \<in> doc_id ` set (docs_except p ?t)"
    using kept by force
  ultimately show ?thesis
    using inv filter_fts_rows [OF inv(3), of ?P "documents_table ?t"]
    by (simp add: t db_inv_def distinct_map_filter docs_except_def)
qed

section \<open>Documents as a map\<close>

text \<open>
  The abstract contents: a map from paths to documents with their chunks. The path and the chunker
  version of a stored chunk are those of its document.
\<close>

definition raw_chunk :: "doc_row \<Rightarrow> chunk_row \<Rightarrow> Chunk" where
  "raw_chunk d c = \<lparr>chunk_id = crow_id c,
     chunk_source = \<lparr>range_path = doc_path d, range_start_line = crow_start c, range_end_line = crow_end c\<rparr>,
     chunk_language = crow_language c, chunk_content = crow_content c,
     chunk_content_hash = crow_hash c, chunk_chunker_version = doc_parser d\<rparr>"

definition raw_document :: "chunk_row list \<Rightarrow> doc_row \<Rightarrow> StoredDocument" where
  "raw_document cs d = \<lparr>sdoc_path = doc_path d, sdoc_hash = doc_hash d, sdoc_size = doc_size d,
     sdoc_modified = doc_modified d, sdoc_parser = doc_parser d,
     sdoc_chunks = map (raw_chunk d) (filter (\<lambda>c. crow_document c = doc_id d) cs)\<rparr>"

definition document_map :: "tables \<Rightarrow> path \<rightharpoonup> StoredDocument" where
  "document_map t p = map_option (raw_document (chunks_table t))
     (find (\<lambda>d. doc_path d = p) (documents_table t))"

definition as_stored :: "StoredDocument \<Rightarrow> StoredDocument" where
  "as_stored d = d\<lparr>sdoc_chunks := map (\<lambda>c. c\<lparr>chunk_source := (chunk_source c)\<lparr>range_path := sdoc_path d\<rparr>,
     chunk_chunker_version := sdoc_parser d\<rparr>) (sdoc_chunks d)\<rparr>"

definition document_chunk_ids :: "StoredDocument \<Rightarrow> ChunkId set" where
  "document_chunk_ids d = chunk_id ` set (sdoc_chunks d)"

lemma raw_chunk_sel [simp]: "chunk_id (raw_chunk d c) = crow_id c" by (simp add: raw_chunk_def)

lemma as_stored_sel [simp]:
  "sdoc_path (as_stored d) = sdoc_path d" "sdoc_hash (as_stored d) = sdoc_hash d"
  "document_chunk_ids (as_stored d) = document_chunk_ids d"
  by (simp_all add: as_stored_def document_chunk_ids_def image_image)

lemma raw_document_ids:
  "document_chunk_ids (raw_document cs d) = crow_id ` {c \<in> set cs. crow_document c = doc_id d}"
  by (simp add: document_chunk_ids_def raw_document_def image_image)

lemma document_map_SomeI:
  "db_inv t \<Longrightarrow> d \<in> set (documents_table t) \<Longrightarrow>
    document_map t (doc_path d) = Some (raw_document (chunks_table t) d)"
  by (simp add: document_map_def find_unique db_inv_def)

lemma document_map_SomeD:
  "document_map t p = Some sd \<Longrightarrow>
    \<exists>d \<in> set (documents_table t). doc_path d = p \<and> sd = raw_document (chunks_table t) d"
  by (auto simp: document_map_def dest!: find_SomeD)

lemma document_map_None: "document_map t p = None \<longleftrightarrow> p \<notin> doc_path ` set (documents_table t)"
  by (simp add: document_map_def find_None_image)

lemma document_map_path: "document_map t p = Some sd \<Longrightarrow> sdoc_path sd = p"
  by (auto simp: raw_document_def dest!: document_map_SomeD)

lemma set_metadata_map [simp]: "document_map (live (set_metadata k v r)) = document_map (live r)"
  by (simp add: set_metadata_def document_map_def fun_eq_iff)

text \<open>The ids in the chunk table are those of the documents, and no id belongs to two documents.\<close>

lemma chunk_ids_documents:
  assumes "db_inv t"
  shows "chunk_ids t = (\<Union>d \<in> ran (document_map t). document_chunk_ids d)"
proof -
  have "ran (document_map t) = raw_document (chunks_table t) ` set (documents_table t)"
    using document_map_SomeI [OF assms] by (force simp: ran_def dest: document_map_SomeD)
  moreover have "\<forall>c \<in> set (chunks_table t). \<exists>d \<in> set (documents_table t). crow_document c = doc_id d"
    using assms by (auto simp: db_inv_def)
  ultimately show ?thesis by (fastforce simp: chunk_ids_def raw_document_ids)
qed

lemma document_ids_disjoint:
  assumes "db_inv t" and "document_map t p = Some a" and "document_map t q = Some b" and "p \<noteq> q"
  shows "document_chunk_ids a \<inter> document_chunk_ids b = {}"
proof -
  obtain d e where d: "d \<in> set (documents_table t)" "doc_path d = p" "a = raw_document (chunks_table t) d"
    and e: "e \<in> set (documents_table t)" "doc_path e = q" "b = raw_document (chunks_table t) e"
    using document_map_SomeD [OF assms(2)] document_map_SomeD [OF assms(3)] by blast
  have "inj_on crow_id (set (chunks_table t))" "inj_on doc_id (set (documents_table t))"
    using assms(1) by (auto simp: db_inv_def distinct_map)
  moreover have "doc_id d \<noteq> doc_id e"
    using inj_onD [OF calculation(2) _ d(1) e(1)] d(2) e(2) assms(4) by blast
  ultimately show ?thesis by (auto simp: d(3) e(3) raw_document_ids dest: inj_onD)
qed

lemma document_ids_distinct:
  assumes "db_inv t" and "document_map t p = Some a"
  shows "distinct (map chunk_id (sdoc_chunks a))"
  using assms by (auto simp: db_inv_def raw_document_def comp_def distinct_map_filter
      dest!: document_map_SomeD)

section \<open>What erasing and replacing do\<close>

lemma erase_document_map:
  assumes "db_inv (live r)"
  shows "document_map (live (erase_document p r)) = (document_map (live r))(p := None)"
proof
  fix q
  let ?t = "live r"
  have docs: "documents_table (live (erase_document p r)) = docs_except p ?t"
    by (simp add: erase_document_def docs_except_def Let_def)
  show "document_map (live (erase_document p r)) q = ((document_map ?t)(p := None)) q"
  proof (cases "q = p \<or> document_map ?t q = None")
    case True
    then have "document_map (live (erase_document p r)) q = None"
      by (auto simp: document_map_None docs docs_except_def)
    with True show ?thesis by auto
  next
    case False
    then obtain d where d: "d \<in> set (documents_table ?t)" "doc_path d = q" "q \<noteq> p"
      by (auto simp: document_map_None)
    then have d': "d \<in> set (documents_table (live (erase_document p r)))" by (simp add: docs docs_except_def)
    have "\<forall>x \<in> set (documents_table ?t). doc_path x = p \<longrightarrow> doc_id x \<noteq> doc_id d"
      using assms d by (auto simp: db_inv_def distinct_map inj_on_def)
    then have "filter (\<lambda>c. crow_document c = doc_id d) (chunks_table (live (erase_document p r)))
        = filter (\<lambda>c. crow_document c = doc_id d) (chunks_table ?t)"
      by (auto simp: erase_document_def Let_def intro!: filter_cong)
    then show ?thesis
      using document_map_SomeI [OF assms d(1)] document_map_SomeI [OF erase_document_inv [OF assms] d'] d
      by (simp add: raw_document_def)
  qed
qed

lemma erase_document_other [simp]:
  "index_metadata (live (erase_document p r)) = index_metadata (live r)"
  "saved (erase_document p r) = saved r"
  by (simp_all add: erase_document_def Let_def)

lemma next_rowid_fresh: "d \<in> set docs \<Longrightarrow> doc_id d < next_rowid docs"
  by (induction docs) (auto simp: next_rowid_def)

text \<open>The chunk loop succeeds exactly if the ids are new and pairwise different.\<close>

fun chunk_rows :: "int \<Rightarrow> nat \<Rightarrow> Chunk list \<Rightarrow> chunk_row list" where
  "chunk_rows document offset [] = []"
| "chunk_rows document offset (c # cs) = row_of_chunk document offset c # chunk_rows document (offset + 1) cs"

lemma chunk_rows_ids [simp]: "map crow_id (chunk_rows document offset cs) = map chunk_id cs"
  by (induction cs arbitrary: offset) (simp_all add: row_of_chunk_def)

lemma chunk_rows_document: "c \<in> set (chunk_rows document offset cs) \<Longrightarrow> crow_document c = document"
  by (induction cs arbitrary: offset) (auto simp: row_of_chunk_def)

lemma insert_chunk_rows_eq:
  "insert_chunk_rows document offset cs t = (r, t') \<Longrightarrow>
    documents_table t' = documents_table t \<and> index_metadata t' = index_metadata t
    \<and> (r = Inr () \<longleftrightarrow> distinct (map chunk_id cs) \<and> chunk_id ` set cs \<inter> chunk_ids t = {})
    \<and> (r = Inr () \<longrightarrow> chunks_table t' = chunks_table t @ chunk_rows document offset cs
        \<and> chunk_fts t' = chunk_fts t
            @ concat (map (fts_rows_of (documents_table t)) (chunk_rows document offset cs)))"
proof (induction document offset cs t arbitrary: r t' rule: insert_chunk_rows.induct)
  case (2 document offset c cs t)
  show ?case
  proof (cases "chunk_id c \<in> chunk_ids t")
    case True
    with 2(2) show ?thesis by (auto simp: chunk_ids_def)
  next
    case False
    let ?row = "row_of_chunk document offset c"
    let ?t = "t\<lparr>chunks_table := chunks_table t @ [?row],
      chunk_fts := chunk_fts t @ fts_rows_of (documents_table t) ?row\<rparr>"
    have f: "chunk_id c \<notin> set (map crow_id (chunks_table t))" using False by (simp add: chunk_ids_def)
    with 2(2) have "insert_chunk_rows document (offset + 1) cs ?t = (r, t')" by (simp add: Let_def)
    from 2(1) [OF f refl this] False show ?thesis
      by (auto simp: chunk_ids_def row_of_chunk_def)
  qed
qed simp

lemma raw_chunk_row:
  "map (raw_chunk d) (chunk_rows i offset cs) = map (\<lambda>c. c\<lparr>chunk_source := (chunk_source c)\<lparr>range_path := doc_path d\<rparr>,
     chunk_chunker_version := doc_parser d\<rparr>) cs"
  by (induction cs arbitrary: offset) (simp_all add: raw_chunk_def row_of_chunk_def)

text \<open>
  Adding a document whose path and row id are new and whose chunk ids are free keeps the invariant and
  adds exactly that document to the map.
\<close>

lemma add_document:
  assumes inv: "db_inv t" and path: "doc_path d \<notin> doc_path ` set (documents_table t)"
    and new_id: "doc_id d \<notin> doc_id ` set (documents_table t)"
    and ids: "distinct (map chunk_id cs)" "chunk_id ` set cs \<inter> chunk_ids t = {}"
    and rows: "rows = chunk_rows (doc_id d) 0 cs"
    and t': "documents_table t' = documents_table t @ [d]" "chunks_table t' = chunks_table t @ rows"
      "chunk_fts t' = chunk_fts t @ concat (map (fts_rows_of (documents_table t @ [d])) rows)"
  shows "db_inv t'" "document_map t' = (document_map t)(doc_path d \<mapsto> raw_document rows d)"
proof -
  have old: "path_of_document (documents_table t @ [d]) (crow_document c)
      = path_of_document (documents_table t) (crow_document c)" "crow_document c \<noteq> doc_id d"
    if "c \<in> set (chunks_table t)" for c
  proof -
    from that inv obtain e where e: "e \<in> set (documents_table t)" "crow_document c = doc_id e"
      by (auto simp: db_inv_def)
    then show "crow_document c \<noteq> doc_id d" using new_id by (metis imageI)
    have di: "distinct (map doc_id (documents_table t @ [d]))"
      using inv new_id by (auto simp: db_inv_def)
    with path_of_document_inv [OF di, of e] path_of_document_inv [of "documents_table t" e] e
    show "path_of_document (documents_table t @ [d]) (crow_document c)
      = path_of_document (documents_table t) (crow_document c)" by simp
  qed
  have fts: "concat (map (fts_rows_of (documents_table t @ [d])) (chunks_table t)) = chunk_fts t"
    using inv old by (auto simp: db_inv_def intro!: arg_cong [of _ _ concat] map_cong fts_rows_of_cong)
  have "crow_id ` set rows \<inter> crow_id ` set (chunks_table t) = {}" "distinct (map crow_id rows)"
    using ids rows by (simp_all add: chunk_ids_def flip: set_map)
  moreover have "\<forall>c \<in> set rows. crow_document c = doc_id d" using rows chunk_rows_document by auto
  ultimately show "db_inv t'"
    using inv path new_id fts by (auto simp: db_inv_def t')
  have no_rows: "filter (\<lambda>c. crow_document c = doc_id d) (chunks_table t) = []"
    using old(2) by (auto simp: filter_empty_conv)
  have own_rows: "filter (\<lambda>c. crow_document c = doc_id d) rows = rows"
    using \<open>\<forall>c \<in> set rows. crow_document c = doc_id d\<close> by (simp add: filter_id_conv)
  have other: "raw_document (chunks_table t') e = raw_document (chunks_table t) e"
    if "e \<in> set (documents_table t)" for e
  proof -
    have "doc_id e \<noteq> doc_id d" using that new_id by (metis imageI)
    then have "filter (\<lambda>c. crow_document c = doc_id e) rows = []"
      using \<open>\<forall>c \<in> set rows. crow_document c = doc_id d\<close> by (simp add: filter_empty_conv)
    then show ?thesis by (simp add: raw_document_def t')
  qed
  show "document_map t' = (document_map t)(doc_path d \<mapsto> raw_document rows d)"
  proof
    fix q
    have q_new: "document_map t' (doc_path d) = Some (raw_document rows d)"
      using document_map_SomeI [OF \<open>db_inv t'\<close>, of d] no_rows own_rows by (simp add: t' raw_document_def)
    show "document_map t' q = ((document_map t)(doc_path d \<mapsto> raw_document rows d)) q"
    proof (cases "document_map t q")
      case None
      then have "q = doc_path d \<or> document_map t' q = None"
        by (auto simp: document_map_None t')
      with None q_new show ?thesis by auto
    next
      case (Some sd)
      then obtain e where e: "e \<in> set (documents_table t)" "doc_path e = q" by (auto dest: document_map_SomeD)
      then have "document_map t' q = document_map t q"
        using document_map_SomeI [OF \<open>db_inv t'\<close>, of e] document_map_SomeI [OF inv e(1)] other [OF e(1)]
        by (auto simp: t')
      moreover have "q \<noteq> doc_path d" using e path by (metis imageI)
      ultimately show ?thesis by simp
    qed
  qed
qed

lemma disjoint_Union_ran:
  "A \<inter> (\<Union>x \<in> ran m. f x) = {} \<longleftrightarrow> (\<forall>k x. m k = Some x \<longrightarrow> A \<inter> f x = {})"
  unfolding ran_def by blast

lemma replace_document_cases:
  assumes "db_inv (live r)" and "replace_document d g r = (res, r')"
  shows "saved r' = saved r"
    "res = Inr () \<longleftrightarrow> distinct (map chunk_id (sdoc_chunks d))
       \<and> (\<forall>p sd. document_map (live r) p = Some sd \<and> p \<noteq> sdoc_path d \<longrightarrow>
            document_chunk_ids d \<inter> document_chunk_ids sd = {})" (is "_ \<longleftrightarrow> ?ok")
    "res = Inr () \<Longrightarrow> db_inv (live r') \<and> document_map (live r') = (document_map (live r))(sdoc_path d \<mapsto> as_stored d)
       \<and> index_metadata (live r') = (index_metadata (live r))(''active_vector_generation'' \<mapsto> string_of_nat g)"
proof -
  define r1 where "r1 = erase_document (sdoc_path d) r"
  define i where "i = next_rowid (documents_table (live r1))"
  define row where "row = \<lparr>doc_id = i, doc_path = sdoc_path d, doc_hash = sdoc_hash d,
    doc_size = sdoc_size d, doc_modified = sdoc_modified d, doc_parser = sdoc_parser d\<rparr>"
  define t1 where "t1 = (live r1)\<lparr>documents_table := documents_table (live r1) @ [row]\<rparr>"
  have inv1: "db_inv (live r1)" using assms(1) by (simp add: r1_def erase_document_inv)
  have map1: "document_map (live r1) = (document_map (live r))(sdoc_path d := None)"
    using assms(1) by (simp add: r1_def erase_document_map)
  have path: "sdoc_path d \<notin> doc_path ` set (documents_table (live r1))"
    using document_map_None [of "live r1" "sdoc_path d"] map1 by simp
  have ins: "insert_document d (live r1) = Inr (i, t1)"
    using path by (simp add: insert_document_def i_def row_def t1_def Let_def)
  obtain res1 t2 where loop: "insert_chunk_rows i 0 (sdoc_chunks d) t1 = (res1, t2)" by fastforce
  note eq = insert_chunk_rows_eq [OF loop]
  have rep: "replace_document d g r = (case res1 of Inl e \<Rightarrow> (Inl e, r1\<lparr>live := t2\<rparr>)
      | Inr u \<Rightarrow> (Inr (), set_metadata ''active_vector_generation'' (string_of_nat g) (r1\<lparr>live := t2\<rparr>)))"
    unfolding replace_document_def r1_def [symmetric] by (cases res1) (simp_all add: Let_def ins loop)
  have r': "res = res1"
      "res1 = Inr () \<Longrightarrow> r' = set_metadata ''active_vector_generation'' (string_of_nat g) (r1\<lparr>live := t2\<rparr>)"
    using assms(2) rep by (cases res1; simp)+
  have "saved r1 = saved r" by (simp add: r1_def)
  then have r'3: "saved r' = saved r"
    using assms(2) rep by (cases res1) (auto simp: set_metadata_def)
  show "saved r' = saved r" by (rule r'3)
  have "chunk_ids t1 = (\<Union>sd \<in> ran (document_map (live r1)). document_chunk_ids sd)"
    using chunk_ids_documents [OF inv1] by (simp add: t1_def chunk_ids_def)
  then have "document_chunk_ids d \<inter> chunk_ids t1 = {} \<longleftrightarrow> (\<forall>p sd. document_map (live r) p = Some sd \<and> p \<noteq> sdoc_path d \<longrightarrow>
            document_chunk_ids d \<inter> document_chunk_ids sd = {})"
    by (simp only: disjoint_Union_ran) (simp add: map1, blast)
  with eq r' show "res = Inr () \<longleftrightarrow> ?ok" by (auto simp: document_chunk_ids_def)
  assume "res = Inr ()"
  then have ok: "res1 = Inr ()" using r' by simp
  have fresh: "i \<notin> doc_id ` set (documents_table (live r1))"
    using next_rowid_fresh [of _ "documents_table (live r1)"] by (force simp: i_def)
  have sel: "documents_table t1 = documents_table (live r1) @ [row]" "chunks_table t1 = chunks_table (live r1)"
    "chunk_fts t1 = chunk_fts (live r1)" "chunk_ids t1 = chunk_ids (live r1)" by (simp_all add: t1_def chunk_ids_def)
  have row_sel: "doc_path row = sdoc_path d" "doc_id row = i" by (simp_all add: row_def)
  note added = add_document [OF inv1, where d = row and cs = "sdoc_chunks d" and t' = t2, OF _ _ _ _ refl]
  have "db_inv t2" "document_map t2 = (document_map (live r1))(sdoc_path d \<mapsto> raw_document (chunk_rows i 0 (sdoc_chunks d)) row)"
    using added path fresh eq ok sel unfolding row_sel by auto
  moreover have "raw_document (chunk_rows i 0 (sdoc_chunks d)) row = as_stored d"
  proof -
    have "filter (\<lambda>c. crow_document c = i) (chunk_rows i 0 (sdoc_chunks d)) = chunk_rows i 0 (sdoc_chunks d)"
      by (simp add: filter_id_conv chunk_rows_document)
    then show ?thesis by (simp add: raw_document_def as_stored_def row_sel raw_chunk_row) (simp add: row_def)
  qed
  moreover have "index_metadata t2 = index_metadata (live r)" using eq by (simp add: t1_def r1_def)
  ultimately show "db_inv (live r') \<and> document_map (live r') = (document_map (live r))(sdoc_path d \<mapsto> as_stored d)
       \<and> index_metadata (live r') = (index_metadata (live r))(''active_vector_generation'' \<mapsto> string_of_nat g)"
    using r'(2) [OF ok] map1 by simp (simp add: set_metadata_def)
qed

section \<open>Every statement keeps the invariant\<close>

lemma insert_document_inv:
  assumes "db_inv t" and "insert_document d t = Inr (i, t')"
  shows "db_inv t' \<and> i \<in> doc_id ` set (documents_table t')"
proof -
  define row where "row = \<lparr>doc_id = next_rowid (documents_table t), doc_path = sdoc_path d,
    doc_hash = sdoc_hash d, doc_size = sdoc_size d, doc_modified = sdoc_modified d,
    doc_parser = sdoc_parser d\<rparr>"
  have t': "t' = t\<lparr>documents_table := documents_table t @ [row]\<rparr>" "i = doc_id row"
    and path: "doc_path row \<notin> doc_path ` set (documents_table t)"
    using assms(2) by (auto simp: insert_document_def row_def Let_def split: if_splits)
  have "doc_id row \<notin> doc_id ` set (documents_table t)"
    using next_rowid_fresh [of _ "documents_table t"] by (force simp: row_def)
  from add_document(1) [OF assms(1) path this, where cs = "[]" and t' = t'] show ?thesis
    by (simp add: t')
qed

lemma insert_chunk_rows_inv:
  "db_inv t \<Longrightarrow> document \<in> doc_id ` set (documents_table t) \<Longrightarrow>
    db_inv (snd (insert_chunk_rows document offset cs t))"
proof (induction document offset cs t rule: insert_chunk_rows.induct)
  case (2 document offset c cs t)
  show ?case
  proof (cases "chunk_id c \<in> set (map crow_id (chunks_table t))")
    case False
    let ?row = "row_of_chunk document offset c"
    let ?t = "t\<lparr>chunks_table := chunks_table t @ [?row],
      chunk_fts := chunk_fts t @ fts_rows_of (documents_table t) ?row\<rparr>"
    have "db_inv ?t" using 2(2,3) False by (auto simp: db_inv_def row_of_chunk_def)
    with 2(1) [OF False refl] 2(3) False show ?thesis by (simp add: Let_def)
  qed (use 2 in simp)
qed simp

lemma replace_document_inv:
  assumes "db_inv (live r)"
  shows "db_inv (live (snd (replace_document d g r)))"
proof -
  let ?r = "erase_document (sdoc_path d) r"
  have inv: "db_inv (live ?r)" by (rule erase_document_inv [OF assms])
  show ?thesis
  proof (cases "insert_document d (live ?r)")
    case (Inr p)
    obtain i t where p: "p = (i, t)" by fastforce
    obtain res t' where loop: "insert_chunk_rows i 0 (sdoc_chunks d) t = (res, t')" by fastforce
    have "db_inv t'"
      using insert_chunk_rows_inv [of t i 0 "sdoc_chunks d"] insert_document_inv [OF inv Inr [unfolded p]] loop
      by simp
    then show ?thesis
      by (cases res) (simp_all add: replace_document_def Let_def Inr p loop)
  qed (use inv in \<open>simp add: replace_document_def Let_def\<close>)
qed

text \<open>The repositories a sequence of calls can lead to, calls that fail included.\<close>

inductive reachable_repository :: "SqliteChunkRepository \<Rightarrow> bool" where
  create: "reachable_repository (open_repository None)"
| reopen: "reachable_repository r \<Longrightarrow> saved r = None \<Longrightarrow> reachable_repository (open_repository (Some (live r)))"
| begin_call: "reachable_repository r \<Longrightarrow> begin_tx r = Inr r' \<Longrightarrow> reachable_repository r'"
| commit_call: "reachable_repository r \<Longrightarrow> commit_tx r = Inr r' \<Longrightarrow> reachable_repository r'"
| rollback_call: "reachable_repository r \<Longrightarrow> reachable_repository (rollback_tx r)"
| erase_call: "reachable_repository r \<Longrightarrow> reachable_repository (erase_document p r)"
| replace_call: "reachable_repository r \<Longrightarrow> reachable_repository (snd (replace_document d g r))"
| metadata_call: "reachable_repository r \<Longrightarrow> reachable_repository (set_metadata k v r)"

lemma replace_document_saved: "saved (snd (replace_document d g r)) = saved r"
  by (auto simp: replace_document_def set_metadata_def Let_def split: sum.splits prod.splits)

lemma reachable_repository_inv:
  "reachable_repository r \<Longrightarrow> db_inv (live r) \<and> (\<forall>t. saved r = Some t \<longrightarrow> db_inv t)"
proof (induction rule: reachable_repository.induct)
  case create
  then show ?case using open_repository_inv [of None] by simp
next
  case (reopen r)
  then show ?case using open_repository_inv [of "Some (live r)"] by simp
next
  case (replace_call r d g)
  then show ?case by (simp add: replace_document_inv replace_document_saved)
next
  case (metadata_call r k v)
  then show ?case by (simp add: set_metadata_def db_inv_def)
qed (auto simp: begin_tx_def commit_tx_def rollback_tx_def erase_document_inv split: option.splits)

section \<open>Reading back\<close>

definition cut_chunk :: "Chunk \<Rightarrow> Chunk" where
  "cut_chunk c = c\<lparr>chunk_language := c_str (chunk_language c), chunk_content := c_str (chunk_content c),
     chunk_content_hash := c_str (chunk_content_hash c), chunk_chunker_version := c_str (chunk_chunker_version c)\<rparr>"

definition nul_free :: "Chunk \<Rightarrow> bool" where
  "nul_free c \<longleftrightarrow> CHR 0x00 \<notin> set (chunk_language c) \<and> CHR 0x00 \<notin> set (chunk_content c)
     \<and> CHR 0x00 \<notin> set (chunk_content_hash c) \<and> CHR 0x00 \<notin> set (chunk_chunker_version c)"

lemma cut_chunk_id [simp]: "chunk_id (cut_chunk c) = chunk_id c" "nul_free c \<Longrightarrow> cut_chunk c = c"
  by (simp_all add: cut_chunk_def nul_free_def)

lemma read_chunk_cut: "read_chunk (doc_path d) (doc_parser d) c = cut_chunk (raw_chunk d c)"
  by (simp add: read_chunk_def cut_chunk_def raw_chunk_def)

abbreviation by_signed_id :: "Chunk \<Rightarrow> Chunk \<Rightarrow> bool" where
  "by_signed_id a b \<equiv> sint (chunk_id a) < sint (chunk_id b)"

lemma filter_keyed:
  assumes "distinct (map f xs)" and "d \<in> set xs" and "f d = p"
  shows "filter (\<lambda>x. P x \<and> f x = p) xs = (if P d then [d] else [])"
  using assms by (induction xs) (auto simp: filter_empty_conv image_iff)

lemma concat_map_Nil [simp]: "concat (map (\<lambda>c. []) xs) = []"
  by (induction xs) simp_all

lemma concat_map_if: "concat (map (\<lambda>c. if P c then [f c] else []) xs) = map f (filter P xs)"
  by (induction xs) simp_all

lemma chunks_for_document_eq:
  assumes "db_inv (live r)"
  shows "chunks_for_document p r = (case document_map (live r) p of None \<Rightarrow> []
    | Some sd \<Rightarrow> sort_by by_signed_id (map cut_chunk (sdoc_chunks sd)))"
proof (cases "document_map (live r) p")
  case None
  then have "filter (\<lambda>d. doc_id d = k \<and> doc_path d = p) (documents_table (live r)) = []" for k
    by (auto simp: document_map_None filter_empty_conv)
  with None show ?thesis by (simp add: chunks_for_document_def Let_def)
next
  case (Some sd)
  then obtain d where d: "d \<in> set (documents_table (live r))" "doc_path d = p"
    "sd = raw_document (chunks_table (live r)) d" by (auto dest: document_map_SomeD)
  have "distinct (map doc_path (documents_table (live r)))" using assms by (simp add: db_inv_def)
  from filter_keyed [OF this d(1,2), of "\<lambda>x. doc_id x = k" for k]
  have "concat (map (\<lambda>c. map (\<lambda>d. read_chunk p (doc_parser d) c)
      (filter (\<lambda>d. doc_id d = crow_document c \<and> doc_path d = p) (documents_table (live r))))
      (chunks_table (live r)))
    = concat (map (\<lambda>c. if crow_document c = doc_id d then [read_chunk p (doc_parser d) c] else [])
      (chunks_table (live r)))"
    by (intro arg_cong [of _ _ concat] map_cong) auto
  also have "\<dots> = map cut_chunk (sdoc_chunks sd)"
    unfolding concat_map_if by (simp add: d(3) raw_document_def d(2) [symmetric] read_chunk_cut comp_def)
  finally show ?thesis using Some by (simp add: chunks_for_document_def Let_def)
qed

lemma chunks_for_document_ids:
  assumes "db_inv (live r)"
  shows "chunk_id ` set (chunks_for_document p r)
    = (case document_map (live r) p of None \<Rightarrow> {} | Some sd \<Rightarrow> document_chunk_ids sd)"
  by (simp add: chunks_for_document_eq [OF assms] document_chunk_ids_def image_image split: option.splits)

lemma sqlite_find_eq:
  assumes "db_inv (live r)" and "document_map (live r) p = Some sd" and "c \<in> set (sdoc_chunks sd)"
  shows "sqlite_find r (chunk_id c) = Some (cut_chunk (c\<lparr>chunk_source := (chunk_source c)\<lparr>range_path := c_str p\<rparr>\<rparr>))"
proof -
  obtain d where d: "d \<in> set (documents_table (live r))" "doc_path d = p"
    "sd = raw_document (chunks_table (live r)) d" using assms(2) by (auto dest: document_map_SomeD)
  then obtain row where row: "row \<in> set (chunks_table (live r))" "crow_document row = doc_id d" "c = raw_chunk d row"
    using assms(3) by (auto simp: raw_document_def)
  have "find (\<lambda>c. crow_id c = crow_id row) (chunks_table (live r)) = Some row"
    "find (\<lambda>x. doc_id x = doc_id d) (documents_table (live r)) = Some d"
    using assms(1) row(1) d(1) by (auto simp: db_inv_def intro: find_unique)
  then show ?thesis
    using row d by (simp add: sqlite_find_def) (simp add: read_chunk_def cut_chunk_def raw_chunk_def)
qed

lemma sqlite_find_None:
  assumes "i \<notin> chunk_ids (live r)"
  shows "sqlite_find r i = None"
proof -
  have "find (\<lambda>c. crow_id c = i) (chunks_table (live r)) = None"
    using assms by (auto simp: find_None_image chunk_ids_def)
  then show ?thesis by (simp add: sqlite_find_def)
qed

interpretation sqlite: chunk_repository "\<lambda>r. db_inv (live r)" sqlite_find sqlite_get_many
  by unfold_locales
    (auto simp: sqlite_find_def read_chunk_def dest!: find_SomeD split: option.splits)

lemma fts_rows_of_sel:
  assumes "distinct (map doc_id docs)" and "d \<in> set docs" and "crow_document c = doc_id d"
  shows "map (\<lambda>f. (fts_rowid f, fts_path f, fts_content f)) (fts_rows_of docs c)
    = [(crow_id c, doc_path d, crow_content c)]"
  using path_of_document_inv [OF assms(1,2)] assms(3) by (simp add: fts_rows_of_def)

lemma fts_table_ids:
  assumes "db_inv t"
  shows "map fts_rowid (chunk_fts t) = map crow_id (chunks_table t)"
proof -
  have "map fts_rowid (concat (map (fts_rows_of (documents_table t)) cs)) = map crow_id cs"
    if "set cs \<subseteq> set (chunks_table t)" for cs
    using that
  proof (induction cs)
    case (Cons c cs)
    then obtain d where "d \<in> set (documents_table t)" "crow_document c = doc_id d"
      using assms by (auto simp: db_inv_def)
    then have "map fts_rowid (fts_rows_of (documents_table t) c) = [crow_id c]"
      using path_of_document_inv [of "documents_table t" d] assms
      by (simp add: fts_rows_of_def db_inv_def)
    with Cons show ?case by simp
  qed simp
  from this [of "chunks_table t"] assms show ?thesis by (simp add: db_inv_def)
qed

lemma fts_table_rows:
  assumes "db_inv t"
  shows "(i, p, content) \<in> (\<lambda>f. (fts_rowid f, fts_path f, fts_content f)) ` set (chunk_fts t) \<longleftrightarrow>
    (\<exists>d \<in> set (documents_table t). \<exists>c \<in> set (chunks_table t). crow_document c = doc_id d
      \<and> (i, p, content) = (crow_id c, doc_path d, crow_content c))" (is "?l \<longleftrightarrow> ?r")
proof -
  have inv: "distinct (map doc_id (documents_table t))"
    "\<forall>c \<in> set (chunks_table t). \<exists>d \<in> set (documents_table t). crow_document c = doc_id d"
    "chunk_fts t = concat (map (fts_rows_of (documents_table t)) (chunks_table t))"
    using assms by (auto simp: db_inv_def)
  let ?g = "\<lambda>f. (fts_rowid f, fts_path f, fts_content f)"
  have row: "?g ` set (fts_rows_of (documents_table t) c) = {(crow_id c, doc_path d, crow_content c)}"
    if "d \<in> set (documents_table t)" "crow_document c = doc_id d" for c d
    using arg_cong [OF fts_rows_of_sel [OF inv(1) that], of set] by simp
  have "?l \<longleftrightarrow> (\<exists>c \<in> set (chunks_table t). (i, p, content) \<in> ?g ` set (fts_rows_of (documents_table t) c))"
    unfolding inv(3) by (simp add: image_UN)
  also have "\<dots> \<longleftrightarrow> ?r"
  proof
    assume "\<exists>c \<in> set (chunks_table t). (i, p, content) \<in> ?g ` set (fts_rows_of (documents_table t) c)"
    then obtain c where c: "c \<in> set (chunks_table t)"
      "(i, p, content) \<in> ?g ` set (fts_rows_of (documents_table t) c)" by blast
    then obtain d where d: "d \<in> set (documents_table t)" "crow_document c = doc_id d" using inv(2) by blast
    with c row [OF d] show ?r by (intro bexI [of _ d] bexI [of _ c]) simp_all
  next
    assume ?r
    then obtain d c where d: "d \<in> set (documents_table t)" "crow_document c = doc_id d"
      and c: "c \<in> set (chunks_table t)" "(i, p, content) = (crow_id c, doc_path d, crow_content c)" by blast
    with row [OF d] show "\<exists>c \<in> set (chunks_table t). (i, p, content) \<in> ?g ` set (fts_rows_of (documents_table t) c)"
      by (intro bexI [of _ c]) simp_all
  qed
  finally show ?thesis .
qed

section \<open>Properties\<close>

lemma fts_mirror:
  assumes "reachable_repository r"
  shows "distinct (map fts_rowid (chunk_fts (live r)))
    \<and> ((\<exists>f \<in> set (chunk_fts (live r)). fts_rowid f = i \<and> fts_path f = p \<and> fts_content f = content)
      \<longleftrightarrow> (\<exists>sd c. document_map (live r) p = Some sd \<and> c \<in> set (sdoc_chunks sd)
            \<and> chunk_id c = i \<and> chunk_content c = content))"
proof
  have inv: "db_inv (live r)" using reachable_repository_inv [OF assms] by simp
  then show "distinct (map fts_rowid (chunk_fts (live r)))"
    by (simp add: fts_table_ids) (simp add: db_inv_def)
  let ?t = "live r"
  have "(\<exists>sd c. document_map ?t p = Some sd \<and> c \<in> set (sdoc_chunks sd) \<and> chunk_id c = i \<and> chunk_content c = content)
    \<longleftrightarrow> (\<exists>d \<in> set (documents_table ?t). doc_path d = p \<and> (\<exists>c \<in> set (chunks_table ?t).
          crow_document c = doc_id d \<and> crow_id c = i \<and> crow_content c = content))" (is "?a \<longleftrightarrow> ?b")
  proof
    assume ?a
    then obtain sd c where sd: "document_map ?t p = Some sd" "c \<in> set (sdoc_chunks sd)"
      "chunk_id c = i" "chunk_content c = content" by blast
    then obtain d where "d \<in> set (documents_table ?t)" "doc_path d = p"
      "sd = raw_document (chunks_table ?t) d" by (auto dest: document_map_SomeD)
    with sd show ?b by (intro bexI [of _ d]) (auto simp: raw_document_def raw_chunk_def)
  next
    assume ?b
    then obtain d c where d: "d \<in> set (documents_table ?t)" "doc_path d = p"
      and c: "c \<in> set (chunks_table ?t)" "crow_document c = doc_id d" "crow_id c = i" "crow_content c = content"
      by blast
    have "raw_chunk d c \<in> set (sdoc_chunks (raw_document (chunks_table ?t) d))"
      using c by (simp add: raw_document_def)
    moreover have "chunk_content (raw_chunk d c) = content" using c by (simp add: raw_chunk_def)
    ultimately show ?a using document_map_SomeI [OF inv d(1)] d(2) c(3) by auto
  qed
  moreover have "(\<exists>f \<in> set (chunk_fts ?t). fts_rowid f = i \<and> fts_path f = p \<and> fts_content f = content)
    \<longleftrightarrow> (i, p, content) \<in> (\<lambda>f. (fts_rowid f, fts_path f, fts_content f)) ` set (chunk_fts ?t)"
    by (auto simp: image_iff)
  ultimately show "(\<exists>f \<in> set (chunk_fts ?t). fts_rowid f = i \<and> fts_path f = p \<and> fts_content f = content) \<longleftrightarrow> ?a"
    unfolding fts_table_rows [OF inv, of i p content] by (simp only: prod.inject) metis
qed

text \<open>
  C16. However the repository is used, calls that fail half-way and reopening included, the full-text
  table mirrors the chunks: it has one row per stored chunk, with the chunk's id, the path of its
  document and its content.
\<close>

theorem fts_mirrors_chunks:
  assumes "reachable_repository r"
  shows "distinct (map fts_rowid (chunk_fts (live r)))
    \<and> ((\<exists>f \<in> set (chunk_fts (live r)). fts_rowid f = i \<and> fts_path f = p \<and> fts_content f = content)
      \<longleftrightarrow> (\<exists>sd c. document_map (live r) p = Some sd \<and> c \<in> set (sdoc_chunks sd)
            \<and> chunk_id c = i \<and> chunk_content c = content))"
  by (rule fts_mirror [OF assms])

definition sample_chunk :: "ChunkId \<Rightarrow> Chunk" where
  "sample_chunk i = \<lparr>chunk_id = i, chunk_source = \<lparr>range_path = ''a.cpp'', range_start_line = 1,
     range_end_line = 2\<rparr>, chunk_language = ''cpp'', chunk_content = ''int x;'',
     chunk_content_hash = ''00'', chunk_chunker_version = ''text-v1''\<rparr>"

definition sample_document :: StoredDocument where
  "sample_document = \<lparr>sdoc_path = ''a.cpp'', sdoc_hash = ''0f'', sdoc_size = 6, sdoc_modified = 1,
     sdoc_parser = ''text-v1'', sdoc_chunks = [sample_chunk 7, sample_chunk 5]\<rparr>"

lemma sample_replace:
  "fst (replace_document sample_document 1 (open_repository None)) = Inr ()"
  "fts_rowid (hd (chunk_fts (live (snd (replace_document sample_document 1 (open_repository None)))))) = 7"
  by (simp_all add: replace_document_def erase_document_def open_repository_def no_tables_def Let_def
      set_metadata_def insert_document_def sample_document_def sample_chunk_def row_of_chunk_def
      fts_rows_of_def path_of_document_def next_rowid_def)

theorem fts_mirrors_chunks_witness:
  "distinct (map fts_rowid (chunk_fts (live (snd (replace_document sample_document 1 (open_repository None))))))"
  using fts_mirrors_chunks [OF replace_call [OF create, of sample_document 1]] by blast

text \<open>
  C17. Replacing a document in a reachable repository succeeds exactly if its chunk ids differ from each
  other and from those of every other document. Then, for text without zero bytes, the document is what
  is read back by path (its chunks in the order of their ids as signed numbers) and by chunk id, every
  other document is unchanged and the active generation is the one given.
\<close>

theorem replace_document_reads_back:
  assumes "reachable_repository r"
    and "\<forall>c \<in> set (sdoc_chunks (as_stored d)). nul_free c" and "CHR 0x00 \<notin> set (sdoc_path d)"
  shows "(fst (replace_document d g r) = Inr () \<longleftrightarrow> distinct (map chunk_id (sdoc_chunks d))
      \<and> (\<forall>p sd. document_map (live r) p = Some sd \<and> p \<noteq> sdoc_path d \<longrightarrow>
            document_chunk_ids d \<inter> document_chunk_ids sd = {}))
    \<and> (fst (replace_document d g r) = Inr () \<longrightarrow> (let r' = snd (replace_document d g r) in
         document_map (live r') = (document_map (live r))(sdoc_path d \<mapsto> as_stored d)
         \<and> chunks_for_document (sdoc_path d) r' = sort_by by_signed_id (sdoc_chunks (as_stored d))
         \<and> (\<forall>c \<in> set (sdoc_chunks (as_stored d)). sqlite_get_many r' [chunk_id c] = [c])
         \<and> metadata_value ''active_vector_generation'' r' = string_of_nat g))"
proof (intro conjI impI)
  have inv: "db_inv (live r)" using reachable_repository_inv [OF assms(1)] by simp
  obtain res r' where rep: "replace_document d g r = (res, r')" by fastforce
  note cases = replace_document_cases [OF inv rep]
  show "fst (replace_document d g r) = Inr () \<longleftrightarrow> distinct (map chunk_id (sdoc_chunks d))
      \<and> (\<forall>p sd. document_map (live r) p = Some sd \<and> p \<noteq> sdoc_path d \<longrightarrow>
            document_chunk_ids d \<inter> document_chunk_ids sd = {})"
    using cases(2) by (simp add: rep)
  assume "fst (replace_document d g r) = Inr ()"
  then have ok: "db_inv (live r')" "document_map (live r') = (document_map (live r))(sdoc_path d \<mapsto> as_stored d)"
    "index_metadata (live r') = (index_metadata (live r))(''active_vector_generation'' \<mapsto> string_of_nat g)"
    using cases(3) by (auto simp: rep)
  have "map cut_chunk (sdoc_chunks (as_stored d)) = sdoc_chunks (as_stored d)"
    using assms(2) by (intro map_idI) simp
  then have "chunks_for_document (sdoc_path d) r' = sort_by by_signed_id (sdoc_chunks (as_stored d))"
    using chunks_for_document_eq [OF ok(1), of "sdoc_path d"] ok(2) by simp
  moreover have "sqlite_get_many r' [chunk_id c] = [c]" if c: "c \<in> set (sdoc_chunks (as_stored d))" for c
  proof -
    have "range_path (chunk_source c) = sdoc_path d" using c by (auto simp: as_stored_def)
    then have "c\<lparr>chunk_source := (chunk_source c)\<lparr>range_path := c_str (sdoc_path d)\<rparr>\<rparr> = c"
      using assms(3) by simp
    moreover have "cut_chunk c = c" using assms(2) c by simp
    ultimately show ?thesis using sqlite_find_eq [OF ok(1) _ c, of "sdoc_path d"] ok(2) by simp
  qed
  moreover have "metadata_value ''active_vector_generation'' r' = string_of_nat g"
    using string_of_nat_digits [of g] by (auto simp: metadata_value_def ok(3) is_digit_def intro!: c_str_id)
  ultimately show "let r' = snd (replace_document d g r) in
         document_map (live r') = (document_map (live r))(sdoc_path d \<mapsto> as_stored d)
         \<and> chunks_for_document (sdoc_path d) r' = sort_by by_signed_id (sdoc_chunks (as_stored d))
         \<and> (\<forall>c \<in> set (sdoc_chunks (as_stored d)). sqlite_get_many r' [chunk_id c] = [c])
         \<and> metadata_value ''active_vector_generation'' r' = string_of_nat g"
    using ok(2) by (simp add: rep)
qed

theorem replace_document_reads_back_witness:
  "chunks_for_document ''a.cpp'' (snd (replace_document sample_document 1 (open_repository None)))
    = [sample_chunk 5, sample_chunk 7]"
proof -
  have "sdoc_chunks (as_stored sample_document) = [sample_chunk 7, sample_chunk 5]"
    "sdoc_path sample_document = ''a.cpp''"
    by (simp_all add: as_stored_def sample_document_def sample_chunk_def)
  moreover have "\<forall>c \<in> set (sdoc_chunks (as_stored sample_document)). nul_free c"
    by (simp add: calculation(1)) (simp add: nul_free_def sample_chunk_def)
  moreover have "sint (5 :: ChunkId) < sint (7 :: ChunkId)" by simp
  ultimately show ?thesis
    using replace_document_reads_back [OF create, of sample_document 1] sample_replace(1)
    by (simp add: Let_def sample_chunk_def)
qed

end
