(* ===== verification/Vector_File.thy ===== *)
theory Vector_File
  imports Domain
begin

unbundle bit_operations_syntax

text \<open>
  \<^verbatim>\<open>src/adapters/vector/vector_file.cpp\<close>: the binary file of embeddings. A file is its bytes (a
  \<open>string\<close>), a directory tree a map from paths to files; the outcome of each system call that can
  fail is an argument.
\<close>

record VectorFileMetadata =
  meta_dimension :: "32 word"
  meta_model_hash :: string

record StoredVector =
  stored_id :: ChunkId
  stored_values :: Embedding

definition kMagic :: string where
  "kMagic = ''LLCLVEC1''"

definition kVersion :: "32 word" where
  "kVersion = 1"

definition kModelHashBytes :: nat where
  "kModelHashBytes = 32"

definition kHeaderBytes :: nat where
  "kHeaderBytes = 8 + 4 + 4 + 8 + 32"

section \<open>Little-endian integers\<close>

definition write_le :: "'a::len word \<Rightarrow> string" where
  "write_le v = map (\<lambda>index. char_of (unat (drop_bit (index * 8) v AND 0xFF)))
     [0..<LENGTH('a) div 8]"

text \<open>The loop over the bytes from \<open>index\<close> on, with the value so far; end of file throws.\<close>

function read_le_loop :: "nat \<Rightarrow> 'a::len word \<Rightarrow> string \<Rightarrow> ('a word \<times> string) res" where
  "read_le_loop index v input = (
     if LENGTH('a) div 8 \<le> index then Inr (v, input)
     else case input of
       [] \<Rightarrow> Inl (Runtime_error ''truncated vector file'')
     | c # rest \<Rightarrow>
         read_le_loop (index + 1) (v OR push_bit (index * 8) (of_nat (of_char c))) rest)"
  by pat_completeness auto
termination
  by (relation "measure (\<lambda>(index, v :: 'a word, input). LENGTH('a) div 8 - index)") auto

declare read_le_loop.simps [simp del]

definition read_le :: "string \<Rightarrow> ('a::len word \<times> string) res" where
  "read_le input = read_le_loop 0 0 input"

section \<open>Writing\<close>

definition encode_hash :: "string \<Rightarrow> string res" where
  "encode_hash hash = (
     if kModelHashBytes < length hash
     then Inl (Invalid_argument ''vector model hash exceeds 32 bytes'')
     else Inr (hash @ replicate (kModelHashBytes - length hash) (CHR 0x00)))"

definition decode_hash :: "string \<Rightarrow> string" where
  "decode_hash bytes = takeWhile (\<lambda>c. c \<noteq> CHR 0x00) bytes"

definition write_record :: "StoredVector \<Rightarrow> string" where
  "write_record r = write_le (stored_id r) @ concat (map write_le (stored_values r))"

text \<open>What is written for the records, and the exception that ends it, if any.\<close>

fun write_records :: "32 word \<Rightarrow> StoredVector list \<Rightarrow> string \<times> exn option" where
  "write_records dim [] = ([], None)"
| "write_records dim (r # rs) = (
     if length (stored_values r) \<noteq> unat dim
     then ([], Some (Invalid_argument ''vector record dimension does not match metadata''))
     else case write_records dim rs of (out, e) \<Rightarrow> (write_record r @ out, e))"

definition record_bytes :: "32 word \<Rightarrow> nat" where
  "record_bytes dim = 8 + unat dim * 4"

definition write_content :: "VectorFileMetadata \<Rightarrow> StoredVector list \<Rightarrow> string \<times> exn option" where
  "write_content m rs = (let head = kMagic @ write_le kVersion @ write_le (meta_dimension m)
       @ write_le (of_nat (length rs) :: 64 word) in
     case encode_hash (meta_model_hash m) of
       Inl e \<Rightarrow> (head, Some e)
     | Inr hash \<Rightarrow> (case write_records (meta_dimension m) rs of
         (out, e) \<Rightarrow> (head @ hash @ out, e)))"

text \<open>
  The outcomes of the system calls, in the order in which they are made: \<open>None\<close> is success. A write
  that fails (a full disk) leaves some of the bytes in the temporary file.
\<close>

record write_env =
  env_create_directories :: "exn option"
  env_open :: "exn option"
  env_flush :: "(exn \<times> nat) option"
  env_fsync :: "exn option"
  env_rename :: "exn option"

type_synonym file_tree = "path \<rightharpoonup> string"

definition write_atomic :: "path \<Rightarrow> VectorFileMetadata \<Rightarrow> StoredVector list \<Rightarrow> write_env \<Rightarrow>
    file_tree \<Rightarrow> unit res \<times> file_tree" where
  "write_atomic p m rs env fs = (
     if meta_dimension m = 0 \<or> meta_model_hash m = []
       then (Inl (Invalid_argument ''vector metadata dimension and model hash are required''), fs)
     else if (size_max - kHeaderBytes) div record_bytes (meta_dimension m) < length rs
       then (Inl (Overflow_error ''vector file size overflows uint64''), fs)
     else case env_create_directories env of Some e \<Rightarrow> (Inl e, fs)
     | None \<Rightarrow> (case env_open env of
         Some e \<Rightarrow> (Inl (Runtime_error (''cannot create vector temporary file: '' @ p @ ''.tmp'')), fs)
       | None \<Rightarrow> (case write_content m rs of
           (out, Some e) \<Rightarrow> (Inl e, fs(p @ ''.tmp'' \<mapsto> out))
         | (out, None) \<Rightarrow> (case env_flush env of
             Some (e, n) \<Rightarrow> (Inl (Runtime_error ''failed to write vector temporary file''),
               fs(p @ ''.tmp'' \<mapsto> take n out))
           | None \<Rightarrow> (case env_fsync env of
               Some e \<Rightarrow> (Inl e, fs(p @ ''.tmp'' \<mapsto> out))
             | None \<Rightarrow> (case env_rename env of
                 Some e \<Rightarrow> (Inl e, fs(p @ ''.tmp'' \<mapsto> out))
               | None \<Rightarrow> (Inr (), fs(p @ ''.tmp'' := None, p \<mapsto> out))))))))"

section \<open>Reading\<close>

fun read_values :: "nat \<Rightarrow> string \<Rightarrow> (Embedding \<times> string) res" where
  "read_values 0 input = Inr ([], input)"
| "read_values (Suc n) input = res_bind (read_le input) (\<lambda>(v, input).
     res_bind (read_values n input) (\<lambda>(vs, input). Inr (v # vs, input)))"

fun read_records :: "32 word \<Rightarrow> nat \<Rightarrow> string \<Rightarrow> StoredVector list res" where
  "read_records dim 0 input = Inr []"
| "read_records dim (Suc n) input = res_bind (read_le input) (\<lambda>(i, input).
     res_bind (read_values (unat dim) input) (\<lambda>(vs, input).
     res_bind (read_records dim n input) (\<lambda>rs.
       Inr (\<lparr>stored_id = i, stored_values = vs\<rparr> # rs))))"

text \<open>The bytes of the file, once it could be opened.\<close>

definition read_content :: "string \<Rightarrow> (VectorFileMetadata \<times> StoredVector list) res" where
  "read_content bytes = (
     if length bytes < kHeaderBytes
     then Inl (Runtime_error ''vector file is smaller than its header'')
     else if take 8 bytes \<noteq> kMagic
     then Inl (Runtime_error ''unsupported vector file magic or version'')
     else res_bind (read_le (drop 8 bytes)) (\<lambda>(version :: 32 word, input).
     if version \<noteq> kVersion
     then Inl (Runtime_error ''unsupported vector file magic or version'')
     else res_bind (read_le input) (\<lambda>(dimension :: 32 word, input).
     res_bind (read_le input) (\<lambda>(count :: 64 word, input).
     let hash = take kModelHashBytes input in
     if length hash \<noteq> kModelHashBytes \<or> dimension = 0
     then Inl (Runtime_error ''invalid vector file header'')
     else if (size_max - kHeaderBytes) div record_bytes dimension < unat count
         \<or> kHeaderBytes + unat count * record_bytes dimension \<noteq> length bytes
     then Inl (Runtime_error ''vector file size does not match its header'')
     else res_bind (read_records dimension (unat count) (drop kModelHashBytes input)) (\<lambda>rs.
       Inr (\<lparr>meta_dimension = dimension, meta_model_hash = decode_hash hash\<rparr>, rs))))))"

definition read_file :: "path \<Rightarrow> file_tree \<Rightarrow> (VectorFileMetadata \<times> StoredVector list) res" where
  "read_file p fs = (case fs p of
     None \<Rightarrow> Inl (System_error ''file_size'')
   | Some bytes \<Rightarrow> read_content bytes)"

section \<open>Round trip of an integer\<close>

lemma of_nat_byte: "(of_nat (of_char (char_of (unat (w AND 0xFF) :: nat) :: char)) :: 'a::len word)
    = w AND 0xFF"
proof -
  have "unat (w AND 0xFF) < 256"
  proof -
    have "w AND 0xFF = take_bit 8 w" by (simp add: take_bit_eq_mask mask_eq_exp_minus_1)
    then have "unat (w AND 0xFF) = take_bit 8 (unat w)" by (simp add: unsigned_take_bit_eq)
    then show ?thesis using take_bit_nat_less_exp [of 8 "unat w"] by simp
  qed
  then show ?thesis by simp
qed

lemma take_bit_step:
  "take_bit (index * 8) v OR push_bit (index * 8) (drop_bit (index * 8) v AND 0xFF)
    = take_bit (Suc index * 8) (v :: 'a::len word)"
proof (rule bit_word_eqI)
  fix n assume n: "n < LENGTH('a)"
  have m: "(0xFF :: 'a word) = mask 8" by (simp add: mask_eq_exp_minus_1)
  show "bit (take_bit (index * 8) v OR push_bit (index * 8) (drop_bit (index * 8) v AND 0xFF)) n
      = bit (take_bit (Suc index * 8) v) n"
    unfolding m using n
    by (auto simp: bit_or_iff bit_and_iff bit_push_bit_iff bit_drop_bit_eq bit_take_bit_iff
        bit_mask_iff)
qed

lemma read_le_loop_write:
  fixes v :: "'a::len word"
  assumes "LENGTH('a) = n * 8"
  shows "index \<le> n \<Longrightarrow>
    read_le_loop index (take_bit (index * 8) v)
      (map (\<lambda>i. char_of (unat (drop_bit (i * 8) v AND 0xFF))) [index..<n] @ rest) = Inr (v, rest)"
proof (induction "n - index" arbitrary: index)
  case 0
  then have "index = n" by simp
  then show ?case using assms by (simp add: read_le_loop.simps [of n] take_bit_word_eq_self)
next
  case (Suc x)
  then have lt: "index < n" by simp
  have "read_le_loop (Suc index) (take_bit (Suc index * 8) v)
      (map (\<lambda>i. char_of (unat (drop_bit (i * 8) v AND 0xFF))) [Suc index..<n] @ rest) = Inr (v, rest)"
    using Suc lt by (intro Suc(1)) simp_all
  then show ?case
    using lt assms take_bit_step [of index v] of_nat_byte [of "drop_bit (index * 8) v"]
    by (simp add: read_le_loop.simps [of index] upt_conv_Cons del: mult_Suc)
qed

lemma read_write_le32 [simp]: "read_le (write_le (v :: 32 word) @ rest) = Inr (v, rest)"
  and read_write_le64 [simp]: "read_le (write_le (w :: 64 word) @ rest) = Inr (w, rest)"
  using read_le_loop_write [of 4 0 v rest] read_le_loop_write [of 8 0 w rest]
  by (simp_all add: read_le_def write_le_def)

lemma length_write_le32 [simp]: "length (write_le (v :: 32 word)) = 4"
  and length_write_le64 [simp]: "length (write_le (w :: 64 word)) = 8"
  by (simp_all add: write_le_def)

section \<open>Round trip of a file\<close>

lemma read_values_write:
  "read_values (length vs) (concat (map write_le vs) @ rest) = Inr (vs, rest)"
  by (induction vs) simp_all

lemma write_records_ok:
  "write_records dim rs = (out, None) \<Longrightarrow> (\<forall>r \<in> set rs. length (stored_values r) = unat dim)
    \<and> out = concat (map write_record rs)"
  by (induction rs arbitrary: out) (auto split: if_splits prod.splits)

lemma read_records_write:
  "\<forall>r \<in> set rs. length (stored_values r) = unat dim \<Longrightarrow>
    read_records dim (length rs) (concat (map write_record rs)) = Inr rs"
proof (induction rs)
  case (Cons r rs)
  have "read_values (unat dim) (concat (map write_le (stored_values r)) @ concat (map write_record rs))
      = Inr (stored_values r, concat (map write_record rs))"
    using read_values_write [of "stored_values r"] Cons.prems by simp
  then have "read_values (unat dim) (concat (map write_le (stored_values r)) @ concat (map write_record rs))
      = Inr (stored_values r, concat (map write_record rs))" .
  moreover have "write_record r @ xs = write_le (stored_id r) @ concat (map write_le (stored_values r)) @ xs"
    for xs by (simp add: write_record_def)
  ultimately show ?case using Cons by simp
qed simp

lemma length_write_values: "length (concat (map write_le (vs :: Embedding))) = 4 * length vs"
  by (induction vs) simp_all

lemma length_write_records:
  "\<forall>r \<in> set rs. length (stored_values r) = unat dim \<Longrightarrow>
    length (concat (map write_record rs)) = length rs * record_bytes dim"
proof (induction rs)
  case (Cons r rs)
  then show ?case using length_write_values [of "stored_values r"]
    by (simp add: write_record_def record_bytes_def)
qed simp

lemma takeWhile_append_stop:
  "\<not> P c \<Longrightarrow> takeWhile P (xs @ replicate n c) = takeWhile P xs"
  by (induction xs) (simp_all add: takeWhile_eq_Nil_iff hd_replicate)

lemma decode_encode_hash:
  assumes "encode_hash hash = Inr bytes"
  shows "length bytes = kModelHashBytes" "decode_hash bytes = decode_hash hash"
proof -
  have b: "bytes = hash @ replicate (kModelHashBytes - length hash) (CHR 0x00)"
    "length hash \<le> kModelHashBytes"
    using assms by (auto simp: encode_hash_def split: if_splits)
  then show "length bytes = kModelHashBytes" by simp
  show "decode_hash bytes = decode_hash hash"
    unfolding b(1) decode_hash_def by (rule takeWhile_append_stop) simp
qed

lemma decode_hash_self: "CHR 0x00 \<notin> set hash \<Longrightarrow> decode_hash hash = hash"
  by (auto simp: decode_hash_def takeWhile_eq_all_conv)

text \<open>What \<^verbatim>\<open>read\<close> makes of the bytes \<^verbatim>\<open>write_atomic\<close> writes.\<close>

lemma write_content_ok:
  assumes "write_content m rs = (out, None)"
  obtains hash where "encode_hash (meta_model_hash m) = Inr hash"
    "\<forall>r \<in> set rs. length (stored_values r) = unat (meta_dimension m)"
    "out = kMagic @ write_le kVersion @ write_le (meta_dimension m)
       @ write_le (of_nat (length rs) :: 64 word) @ hash @ concat (map write_record rs)"
  using assms
  by (auto simp: write_content_def Let_def split: sum.splits prod.splits dest!: write_records_ok)

lemma read_write_content:
  assumes "write_content m rs = (out, None)" and "meta_dimension m \<noteq> 0"
    and "length rs \<le> (size_max - kHeaderBytes) div record_bytes (meta_dimension m)"
  shows "read_content out = Inr (m\<lparr>meta_model_hash := decode_hash (meta_model_hash m)\<rparr>, rs)"
proof -
  obtain hash where h: "encode_hash (meta_model_hash m) = Inr hash"
    "\<forall>r \<in> set rs. length (stored_values r) = unat (meta_dimension m)"
    "out = kMagic @ write_le kVersion @ write_le (meta_dimension m)
       @ write_le (of_nat (length rs) :: 64 word) @ hash @ concat (map write_record rs)"
    by (rule write_content_ok [OF assms(1)])
  have "length rs \<le> size_max - kHeaderBytes"
    using assms(3) div_le_dividend le_trans by blast
  then have "length rs < 2 ^ 64" by simp
  then have count: "unat (of_nat (length rs) :: 64 word) = length rs"
    by (simp add: unat_of_nat)
  have len: "length out = kHeaderBytes + length rs * record_bytes (meta_dimension m)"
    using length_write_records [OF h(2)] decode_encode_hash(1) [OF h(1)]
    by (simp add: h(3) kMagic_def kHeaderBytes_def kModelHashBytes_def)
  have parts: "take 8 out = kMagic"
    "drop 8 out = write_le kVersion @ write_le (meta_dimension m)
       @ write_le (of_nat (length rs) :: 64 word) @ hash @ concat (map write_record rs)"
    by (simp_all add: h(3) kMagic_def)
  show ?thesis
    using parts len count assms(2,3) decode_encode_hash [OF h(1)] read_records_write [OF h(2)]
    by (simp add: read_content_def Let_def)
qed

section \<open>What a successful read has checked\<close>

lemma read_le_loop_append:
  "read_le_loop index v xs = Inr (w, rest) \<Longrightarrow> read_le_loop index v (xs @ ys) = Inr (w, rest @ ys)"
proof (induction index v xs rule: read_le_loop.induct)
  case (1 index v input)
  then show ?case
    by (cases input) (auto simp: read_le_loop.simps [of index] split: if_splits)
qed

lemma read_le_append: "read_le xs = Inr (w, rest) \<Longrightarrow> read_le (xs @ ys) = Inr (w, rest @ ys)"
  by (simp add: read_le_def read_le_loop_append)

lemma read_le_loop_error: "read_le_loop index v xs = Inl e \<Longrightarrow> \<exists>m. e = Runtime_error m"
proof (induction index v xs rule: read_le_loop.induct)
  case (1 index v input)
  then show ?case
    by (cases input) (auto simp: read_le_loop.simps [of index] split: if_splits)
qed

lemma read_le_error: "read_le xs = Inl e \<Longrightarrow> \<exists>m. e = Runtime_error m"
  unfolding read_le_def by (rule read_le_loop_error)

lemma read_values_error: "read_values n xs = Inl e \<Longrightarrow> \<exists>m. e = Runtime_error m"
  by (induction n xs rule: read_values.induct) (auto simp: res_simps dest: read_le_error)

lemma read_records_error: "read_records dim n xs = Inl e \<Longrightarrow> \<exists>m. e = Runtime_error m"
  by (induction dim n xs rule: read_records.induct)
    (auto simp: res_simps dest: read_le_error read_values_error)

lemma read_content_error: "read_content b = Inl e \<Longrightarrow> \<exists>m. e = Runtime_error m"
  by (auto simp: read_content_def res_simps Let_def split: if_splits
      dest: read_le_error read_records_error)

lemma read_values_length: "read_values n xs = Inr (vs, rest) \<Longrightarrow> length vs = n"
  by (induction n xs arbitrary: vs rule: read_values.induct) (auto simp: res_simps)

lemma read_records_shape:
  "read_records dim n xs = Inr rs \<Longrightarrow> length rs = n \<and> (\<forall>r \<in> set rs. length (stored_values r) = unat dim)"
proof (induction n arbitrary: xs rs)
  case (Suc n)
  then obtain i ys vs zs rs' where "read_values (unat dim) ys = Inr (vs, zs)"
    "read_records dim n zs = Inr rs'" "rs = \<lparr>stored_id = i, stored_values = vs\<rparr> # rs'"
    by (auto simp: res_simps)
  then show ?case using Suc.IH [of zs rs'] read_values_length by auto
qed simp

lemma read_content_ok:
  assumes "read_content b = Inr (m, rs)"
  obtains i1 i2 i3 and count :: "64 word" where
    "kHeaderBytes \<le> length b" "read_le (drop 8 b) = Inr (kVersion, i1)"
    "read_le i1 = Inr (meta_dimension m, i2)" "read_le i2 = Inr (count, i3)"
    "meta_dimension m \<noteq> 0" "meta_model_hash m = decode_hash (take kModelHashBytes i3)"
    "kHeaderBytes + unat count * record_bytes (meta_dimension m) = length b"
    "length rs = unat count" "\<forall>r \<in> set rs. length (stored_values r) = unat (meta_dimension m)"
proof -
  from assms obtain i1 i2 i3 and count :: "64 word" where
    r: "kHeaderBytes \<le> length b" "read_le (drop 8 b) = Inr (kVersion, i1)"
    "read_le i1 = Inr (meta_dimension m, i2)" "read_le i2 = Inr (count, i3)"
    "meta_dimension m \<noteq> 0" "meta_model_hash m = decode_hash (take kModelHashBytes i3)"
    "kHeaderBytes + unat count * record_bytes (meta_dimension m) = length b"
    and rs: "read_records (meta_dimension m) (unat count) (drop kModelHashBytes i3) = Inr rs"
    by (auto simp: read_content_def res_simps Let_def split: if_splits)
  show thesis
    using read_records_shape [OF rs] by (intro that [OF r]) simp_all
qed

lemma read_content_not_prefix:
  assumes "read_content b = Inr (m, rs)" and "read_content (take n b) = Inr (m', rs')"
  shows "length b \<le> n"
proof -
  obtain i1 i2 i3 and c :: "64 word" where 1: "read_le (drop 8 b) = Inr (kVersion, i1)"
    "read_le i1 = Inr (meta_dimension m, i2)" "read_le i2 = Inr (c, i3)"
    "kHeaderBytes + unat c * record_bytes (meta_dimension m) = length b"
    by (rule read_content_ok [OF assms(1)])
  obtain j1 j2 j3 and d :: "64 word" where 2: "kHeaderBytes \<le> length (take n b)"
    "read_le (drop 8 (take n b)) = Inr (kVersion, j1)"
    "read_le j1 = Inr (meta_dimension m', j2)" "read_le j2 = Inr (d, j3)"
    "kHeaderBytes + unat d * record_bytes (meta_dimension m') = length (take n b)"
    by (rule read_content_ok [OF assms(2)])
  have "drop 8 (take n b @ drop n b) = drop 8 (take n b) @ drop n b"
    unfolding drop_append using 2(1) by (simp add: kHeaderBytes_def)
  then have "drop 8 b = drop 8 (take n b) @ drop n b" by simp
  then have "i1 = j1 @ drop n b" using read_le_append [OF 2(2), of "drop n b"] 1(1) by simp
  then have "meta_dimension m = meta_dimension m'" "i2 = j2 @ drop n b"
    using read_le_append [OF 2(3), of "drop n b"] 1(2) by simp_all
  then have "meta_dimension m = meta_dimension m'" "c = d"
    using read_le_append [OF 2(4), of "drop n b"] 1(3) by simp_all
  then have "length b = length (take n b)" using 1(4) 2(5) by simp
  then show ?thesis by simp
qed

lemma decode_hash_shape: "length (decode_hash xs) \<le> length xs" "CHR 0x00 \<notin> set (decode_hash xs)"
  by (auto simp: decode_hash_def length_takeWhile_le dest: set_takeWhileD)

lemma tmp_neq: "p @ ''.tmp'' \<noteq> p"
  by simp

lemma write_then_read:
  assumes "write_atomic p m rs env fs = (Inr (), fs')" and "CHR 0x00 \<notin> set (meta_model_hash m)"
  shows "read_file p fs' = Inr (m, rs)"
proof -
  obtain out where w: "write_content m rs = (out, None)" "fs' p = Some out" "meta_dimension m \<noteq> 0"
    "length rs \<le> (size_max - kHeaderBytes) div record_bytes (meta_dimension m)"
    using assms(1) by (auto simp: write_atomic_def split: if_splits option.splits prod.splits)
  with read_write_content [OF w(1,3,4)] decode_hash_self [OF assms(2)] show ?thesis
    by (simp add: read_file_def)
qed

section \<open>Properties\<close>

text \<open>
  C9. What was written is read back: after a successful write the file holds the metadata and the
  records, in order and bit for bit, for any model hash without a NUL byte.
\<close>

theorem vector_file_round_trip:
  assumes "write_atomic p m rs env fs = (Inr (), fs')" and "CHR 0x00 \<notin> set (meta_model_hash m)"
  shows "read_file p fs' = Inr (m, rs)"
  by (rule write_then_read [OF assms])

definition sample_metadata :: VectorFileMetadata where
  "sample_metadata = \<lparr>meta_dimension = 2, meta_model_hash = ''abc''\<rparr>"

definition sample_vectors :: "StoredVector list" where
  "sample_vectors = [\<lparr>stored_id = 7, stored_values = [f32_one, f32_two]\<rparr>]"

definition no_failures :: write_env where
  "no_failures = \<lparr>env_create_directories = None, env_open = None, env_flush = None,
     env_fsync = None, env_rename = None\<rparr>"

lemma sample_write:
  "\<exists>fs. write_atomic ''v'' sample_metadata sample_vectors no_failures Map.empty = (Inr (), fs)"
  by (simp add: write_atomic_def sample_metadata_def sample_vectors_def no_failures_def
      write_content_def encode_hash_def kModelHashBytes_def record_bytes_def kHeaderBytes_def Let_def)

theorem vector_file_round_trip_witness:
  "\<exists>fs. write_atomic ''v'' sample_metadata sample_vectors no_failures Map.empty = (Inr (), fs)
    \<and> read_file ''v'' fs = Inr (sample_metadata, sample_vectors)"
proof -
  obtain fs where "write_atomic ''v'' sample_metadata sample_vectors no_failures Map.empty = (Inr (), fs)"
    using sample_write by blast
  with vector_file_round_trip [OF this] show ?thesis by (auto simp: sample_metadata_def)
qed

text \<open>
  C10. Writing is atomic: whichever check or system call fails, and however many bytes a failed write
  has left, the destination is either as it was before (the call threw) or holds the complete new
  content (the call returned); no file but the destination and its temporary changes.
\<close>

theorem write_atomic_is_atomic:
  assumes "write_atomic p m rs env fs = (r, fs')"
  shows "(case r of Inr _ \<Rightarrow> write_content m rs = (the (fs' p), None) \<and> fs' p \<noteq> None
      \<and> fs' (p @ ''.tmp'') = None
    | Inl _ \<Rightarrow> fs' p = fs p) \<and> (\<forall>q. q \<noteq> p \<longrightarrow> q \<noteq> p @ ''.tmp'' \<longrightarrow> fs' q = fs q)"
  using assms tmp_neq [of p]
  by (auto simp: write_atomic_def split: if_splits option.splits prod.splits)

theorem write_atomic_is_atomic_witness:
  "\<exists>fs'. write_atomic ''v'' sample_metadata sample_vectors
      (no_failures\<lparr>env_flush := Some (Other_exception ''full'', 5)\<rparr>) [''v'' \<mapsto> ''old'']
      = (Inl (Runtime_error ''failed to write vector temporary file''), fs')
    \<and> fs' ''v'' = Some ''old''"
proof -
  let ?env = "no_failures\<lparr>env_flush := Some (Other_exception ''full'', 5)\<rparr>"
  have "\<exists>fs'. write_atomic ''v'' sample_metadata sample_vectors ?env [''v'' \<mapsto> ''old'']
      = (Inl (Runtime_error ''failed to write vector temporary file''), fs')"
    by (simp add: write_atomic_def sample_metadata_def sample_vectors_def no_failures_def
        write_content_def encode_hash_def kModelHashBytes_def record_bytes_def kHeaderBytes_def Let_def)
  then obtain fs' where w: "write_atomic ''v'' sample_metadata sample_vectors ?env [''v'' \<mapsto> ''old'']
      = (Inl (Runtime_error ''failed to write vector temporary file''), fs')" by blast
  from write_atomic_is_atomic [OF w] have "fs' ''v'' = Some ''old''" by simp
  with w show ?thesis by blast
qed

text \<open>
  C11. A file that is read without an exception has exactly the size its header announces, vectors of
  the announced dimension and a hash of at most 32 bytes; and no proper prefix of it, as left by an
  interrupted copy, is accepted.
\<close>

theorem read_detects_truncation:
  assumes "read_content bytes = Inr (m, rs)"
  shows "length bytes = 56 + length rs * (8 + 4 * unat (meta_dimension m)) \<and> meta_dimension m \<noteq> 0
    \<and> (\<forall>r \<in> set rs. length (stored_values r) = unat (meta_dimension m))
    \<and> length (meta_model_hash m) \<le> 32 \<and> CHR 0x00 \<notin> set (meta_model_hash m)
    \<and> (\<forall>n < length bytes. \<exists>msg. read_content (take n bytes) = Inl (Runtime_error msg))"
proof -
  obtain i3 and c :: "64 word" where 1: "meta_dimension m \<noteq> 0"
    "meta_model_hash m = decode_hash (take kModelHashBytes i3)"
    "kHeaderBytes + unat c * record_bytes (meta_dimension m) = length bytes"
    "length rs = unat c" "\<forall>r \<in> set rs. length (stored_values r) = unat (meta_dimension m)"
    by (rule read_content_ok [OF assms])
  have "\<exists>msg. read_content (take n bytes) = Inl (Runtime_error msg)" if "n < length bytes" for n
  proof (cases "read_content (take n bytes)")
    case (Inl e)
    then show ?thesis using read_content_error [OF Inl] by blast
  next
    case (Inr x)
    then show ?thesis using read_content_not_prefix [OF assms, of n "fst x" "snd x"] that by simp
  qed
  moreover have "length (meta_model_hash m) \<le> 32"
    unfolding 1(2) by (rule order_trans [OF decode_hash_shape(1)]) (simp add: kModelHashBytes_def)
  moreover have "CHR 0x00 \<notin> set (meta_model_hash m)"
    unfolding 1(2) by (rule decode_hash_shape(2))
  ultimately show ?thesis
    using 1(1,3,4,5) by (simp add: kHeaderBytes_def record_bytes_def mult.commute)
qed

theorem read_detects_truncation_witness:
  "\<exists>bytes. read_content bytes = Inr (sample_metadata, sample_vectors) \<and> length bytes = 72
    \<and> (\<exists>msg. read_content (take 71 bytes) = Inl (Runtime_error msg))"
proof -
  obtain out where w: "write_content sample_metadata sample_vectors = (out, None)"
    by (simp add: sample_metadata_def sample_vectors_def write_content_def encode_hash_def
        kModelHashBytes_def Let_def)
  have "read_content out = Inr (sample_metadata, sample_vectors)"
    using read_write_content [OF w] decode_hash_self [of "meta_model_hash sample_metadata"]
    by (simp add: sample_metadata_def sample_vectors_def kHeaderBytes_def record_bytes_def)
  from read_detects_truncation [OF this] this show ?thesis
    by (intro exI [of _ out]) (auto simp: sample_metadata_def sample_vectors_def)
qed

end
