(* ===== verification/Vector_Index.thy ===== *)
theory Vector_Index
  imports Domain
begin

text \<open>
  \<^verbatim>\<open>IVectorIndex\<close> (\<^verbatim>\<open>include/llamacodelab/domain/retrieval.hpp\<close>) as a pair of locales, a
  store of vectors and an exact nearest-neighbour search over it, and their implementation by
  \<^verbatim>\<open>src/adapters/vector/brute_force_index.cpp\<close>: a vector of records with a position table, where
  erasing moves the last record into the gap.
\<close>

section \<open>The interface\<close>

definition vector_ok :: "nat \<Rightarrow> Embedding \<Rightarrow> bool" where
  "vector_ok dim values \<longleftrightarrow> length values = dim \<and> is_finite_embedding values"

text \<open>
  The loop of the index service that fills a snapshot, calling the index's \<^verbatim>\<open>upsert\<close> for each vector.
\<close>

fun load_vectors ::
  "(ChunkId \<Rightarrow> Embedding \<Rightarrow> 's \<Rightarrow> 's res) \<Rightarrow> (ChunkId \<times> Embedding) list \<Rightarrow> 's \<Rightarrow> 's res" where
  "load_vectors upsert [] s = Inr s"
| "load_vectors upsert ((i, v) # vs) s = res_bind (upsert i v s) (load_vectors upsert vs)"

text \<open>The abstract state of a store is a finite map from chunk ids to vectors.\<close>

locale vector_store =
  fixes valid :: "'s \<Rightarrow> bool" and contents :: "'s \<Rightarrow> ChunkId \<rightharpoonup> Embedding" and dim :: "'s \<Rightarrow> nat"
    and upsert :: "ChunkId \<Rightarrow> Embedding \<Rightarrow> 's \<Rightarrow> 's res" and erase :: "ChunkId \<Rightarrow> 's \<Rightarrow> 's"
    and count :: "'s \<Rightarrow> nat"
  assumes upsert_ok: "valid s \<Longrightarrow> vector_ok (dim s) v \<Longrightarrow> \<exists>s'. upsert i v s = Inr s' \<and> valid s'
        \<and> contents s' = (contents s)(i \<mapsto> v) \<and> dim s' = dim s"
    and upsert_bad: "\<not> vector_ok (dim s) v \<Longrightarrow> \<exists>m. upsert i v s = Inl (Invalid_argument m)"
    and erase_ok: "valid s \<Longrightarrow> valid (erase i s) \<and> contents (erase i s) = (contents s)(i := None)
        \<and> dim (erase i s) = dim s"
    and count_ok: "valid s \<Longrightarrow> count s = card (dom (contents s))"
    and contents_ok: "valid s \<Longrightarrow> contents s i = Some v \<Longrightarrow> vector_ok (dim s) v"
begin

lemma load_ok:
  "valid s \<Longrightarrow> \<forall>(i, v) \<in> set vs. vector_ok (dim s) v \<Longrightarrow> distinct (map fst vs) \<Longrightarrow>
    \<exists>s'. load_vectors upsert vs s = Inr s' \<and> valid s' \<and> contents s' = contents s ++ map_of vs \<and> dim s' = dim s"
proof (induction vs arbitrary: s)
  case (Cons x vs)
  obtain i v where x: "x = (i, v)" by (cases x)
  with Cons.prems obtain s1 where s1: "upsert i v s = Inr s1" "valid s1"
      "contents s1 = (contents s)(i \<mapsto> v)" "dim s1 = dim s"
    using upsert_ok [of s v i] by auto
  from Cons.IH [OF s1(2)] Cons.prems s1(4) obtain s' where
    s': "load_vectors upsert vs s1 = Inr s'" "valid s'" "contents s' = contents s1 ++ map_of vs" "dim s' = dim s1"
    by auto
  have "i \<notin> dom (map_of vs)" using Cons.prems(3) x by (simp add: dom_map_of_conv_image_fst)
  then have "contents s' = contents s ++ map_of (x # vs)"
    using s'(3) s1(3) x by (auto simp: map_add_def fun_eq_iff split: option.splits)
  moreover have "load_vectors upsert (x # vs) s = Inr s'" using s'(1) s1(1) x by simp
  ultimately show ?case using s'(2,4) s1(4) by metis
qed simp

text \<open>A load that succeeds has put exactly the given vectors into the store.\<close>

lemma load_success:
  "valid s \<Longrightarrow> load_vectors upsert vs s = Inr s' \<Longrightarrow> distinct (map fst vs) \<Longrightarrow>
    valid s' \<and> contents s' = contents s ++ map_of vs"
proof -
  assume a: "valid s" "load_vectors upsert vs s = Inr s'" "distinct (map fst vs)"
  have "\<forall>(i, v) \<in> set vs. vector_ok (dim s) v"
    using a(1,2)
  proof (induction vs arbitrary: s)
    case (Cons x vs)
    obtain i v where x: "x = (i, v)" by (cases x)
    obtain s1 where s1: "upsert i v s = Inr s1" "load_vectors upsert vs s1 = Inr s'"
      using Cons.prems(2) x by (auto simp: res_simps)
    have v: "vector_ok (dim s) v" using upsert_bad [of s v i] s1(1) by auto
    from upsert_ok [OF Cons.prems(1) v, of i] s1(1) have "valid s1" "dim s1 = dim s" by auto
    with Cons.IH [OF \<open>valid s1\<close> s1(2)] v x show ?case by simp
  qed simp
  from load_ok [OF a(1) this a(3)] a(2) show ?thesis by auto
qed

lemma load_bad:
  "valid s \<Longrightarrow> load_vectors upsert vs s = Inl e \<Longrightarrow> \<exists>m. e = Invalid_argument m"
proof (induction vs arbitrary: s)
  case (Cons x vs)
  obtain i v where x: "x = (i, v)" by (cases x)
  show ?case
  proof (cases "vector_ok (dim s) v")
    case True
    with Cons.prems(1) upsert_ok [of s v i] obtain s1 where "upsert i v s = Inr s1" "valid s1" by auto
    with Cons x show ?thesis by simp
  qed (use Cons.prems x upsert_bad [of s v i] in auto)
qed simp

end

text \<open>
  An exact index returns, best first and at most \<open>k\<close> of them, hits for stored vectors with their
  scores, and nothing it leaves out is better than anything it returns. The scores have to be
  comparable: a sum of products of finite numbers can overflow to a NaN.
\<close>

locale exact_index = vector_store valid contents dim upsert erase count
  for valid :: "'s \<Rightarrow> bool" and contents dim upsert erase count +
  fixes search :: "'s \<Rightarrow> Embedding \<Rightarrow> nat \<Rightarrow> SearchHit list res"
  assumes search_zero: "search s q 0 = Inr []"
    and search_bad: "0 < k \<Longrightarrow> \<not> vector_ok (dim s) q \<Longrightarrow> \<exists>m. search s q k = Inl (Invalid_argument m)"
    and search_ok: "valid s \<Longrightarrow> vector_ok (dim s) q \<Longrightarrow>
        \<forall>v \<in> ran (contents s). \<not> f32_isnan (inner_product 0 q v) \<Longrightarrow>
        \<exists>hits. search s q k = Inr hits \<and> length hits = min k (count s) \<and> in_order better hits
          \<and> distinct (map hit_chunk_id hits)
          \<and> (\<forall>h \<in> set hits. \<exists>v. contents s (hit_chunk_id h) = Some v
               \<and> hit_score h = inner_product 0 q v)
          \<and> (\<forall>i v. contents s i = Some v \<longrightarrow> i \<notin> hit_chunk_id ` set hits \<longrightarrow>
               (\<forall>h \<in> set hits. \<not> better \<lparr>hit_chunk_id = i, hit_score = inner_product 0 q v\<rparr> h))"
begin

lemma search_all:
  assumes "valid s" and "vector_ok (dim s) q"
    and "\<forall>v \<in> ran (contents s). \<not> f32_isnan (inner_product 0 q v)" and "count s \<le> k"
    and "finite (dom (contents s))"
  shows "\<exists>hits. search s q k = Inr hits \<and> hit_chunk_id ` set hits = dom (contents s)"
proof -
  from search_ok [OF assms(1-3), of k] obtain hits where
    h: "search s q k = Inr hits" "length hits = min k (count s)" "distinct (map hit_chunk_id hits)"
      "\<forall>h \<in> set hits. \<exists>v. contents s (hit_chunk_id h) = Some v
         \<and> hit_score h = inner_product 0 q v"
    by blast
  have "hit_chunk_id ` set hits \<subseteq> dom (contents s)" using h(4) by auto
  moreover have "card (hit_chunk_id ` set hits) = card (dom (contents s))"
    using h(2,3) assms(4) count_ok [OF assms(1)] distinct_card [OF h(3)] by simp
  ultimately have "hit_chunk_id ` set hits = dom (contents s)"
    by (intro card_subset_eq assms(5))
  with h(1) show ?thesis by blast
qed

end

section \<open>The brute-force index\<close>

record VectorRecord =
  record_id :: ChunkId
  record_values :: Embedding

record BruteForceIndex =
  index_dimension :: nat
  records :: "VectorRecord list"
  positions :: "ChunkId \<rightharpoonup> nat"

definition make_index :: "nat \<Rightarrow> BruteForceIndex res" where
  "make_index d = (if d = 0 then Inl (Invalid_argument ''vector dimension must be positive'')
     else Inr \<lparr>index_dimension = d, records = [], positions = Map.empty\<rparr>)"

definition bf_upsert :: "ChunkId \<Rightarrow> Embedding \<Rightarrow> BruteForceIndex \<Rightarrow> BruteForceIndex res" where
  "bf_upsert i values s = (
     if length values \<noteq> index_dimension s
       then Inl (Invalid_argument ''embedding dimensions do not match index'')
     else if \<not> is_finite_embedding values
       then Inl (Invalid_argument ''embedding must be finite'')
     else case positions s i of
       Some p \<Rightarrow> Inr (s\<lparr>records := (records s)[p := (records s ! p)\<lparr>record_values := values\<rparr>]\<rparr>)
     | None \<Rightarrow> Inr (s\<lparr>positions := (positions s)(i \<mapsto> length (records s)),
         records := records s @ [\<lparr>record_id = i, record_values = values\<rparr>]\<rparr>))"

definition bf_erase :: "ChunkId \<Rightarrow> BruteForceIndex \<Rightarrow> BruteForceIndex" where
  "bf_erase i s = (case positions s i of
     None \<Rightarrow> s
   | Some p \<Rightarrow>
       let last_index = length (records s) - 1;
         moved = (if p \<noteq> last_index
           then s\<lparr>records := (records s)[p := records s ! last_index],
             positions := (positions s)(record_id (records s ! last_index) \<mapsto> p)\<rparr>
           else s)
       in moved\<lparr>records := butlast (records moved), positions := (positions moved)(i := None)\<rparr>)"

fun score_records :: "Embedding \<Rightarrow> VectorRecord list \<Rightarrow> SearchHit list res" where
  "score_records q [] = Inr []"
| "score_records q (r # rs) = res_bind (dot_product q (record_values r)) (\<lambda>x.
     res_bind (score_records q rs) (\<lambda>hits.
       Inr (\<lparr>hit_chunk_id = record_id r, hit_score = x\<rparr> # hits)))"

definition bf_search :: "BruteForceIndex \<Rightarrow> Embedding \<Rightarrow> nat \<Rightarrow> SearchHit list res" where
  "bf_search s q top_k = (
     if top_k = 0 then Inr []
     else if length q \<noteq> index_dimension s
       then Inl (Invalid_argument ''query dimensions do not match index'')
     else if \<not> is_finite_embedding q then Inl (Invalid_argument ''query must be finite'')
     else res_bind (score_records q (records s)) (\<lambda>hits.
       Inr (take top_k (sort_by better hits))))"

definition bf_size :: "BruteForceIndex \<Rightarrow> nat" where
  "bf_size s = length (records s)"

section \<open>The invariant\<close>

text \<open>The position table maps exactly the ids of the records to their positions.\<close>

definition positions_ok :: "VectorRecord list \<Rightarrow> (ChunkId \<rightharpoonup> nat) \<Rightarrow> bool" where
  "positions_ok rs ps \<longleftrightarrow> (\<forall>i p. ps i = Some p \<longleftrightarrow> p < length rs \<and> record_id (rs ! p) = i)"

definition bf_valid :: "BruteForceIndex \<Rightarrow> bool" where
  "bf_valid s \<longleftrightarrow> positions_ok (records s) (positions s)
     \<and> (\<forall>r \<in> set (records s). vector_ok (index_dimension s) (record_values r))"

definition bf_contents :: "BruteForceIndex \<Rightarrow> ChunkId \<rightharpoonup> Embedding" where
  "bf_contents s = map_of (map (\<lambda>r. (record_id r, record_values r)) (records s))"

lemma positions_ok_inj:
  "positions_ok rs ps \<Longrightarrow> p < length rs \<Longrightarrow> q < length rs \<Longrightarrow> record_id (rs ! p) = record_id (rs ! q)
    \<Longrightarrow> p = q"
  unfolding positions_ok_def by (metis option.inject)

lemma positions_ok_None:
  "positions_ok rs ps \<Longrightarrow> ps i = None \<Longrightarrow> p < length rs \<Longrightarrow> record_id (rs ! p) \<noteq> i"
  unfolding positions_ok_def by (metis option.distinct(1))

lemma positions_ok_distinct: "positions_ok rs ps \<Longrightarrow> distinct (map record_id rs)"
  unfolding distinct_conv_nth using positions_ok_inj by fastforce

text \<open>The contents, read through the position table.\<close>

lemma bf_contents_eq:
  assumes "bf_valid s"
  shows "bf_contents s i = map_option (\<lambda>p. record_values (records s ! p)) (positions s i)"
proof (cases "positions s i")
  case None
  then have "i \<notin> record_id ` set (records s)"
    using assms positions_ok_None [of "records s" "positions s" i]
    unfolding bf_valid_def by (metis imageE in_set_conv_nth)
  with None show ?thesis
    by (auto simp: bf_contents_def map_of_eq_None_iff image_image)
next
  case (Some p)
  then have p: "p < length (records s)" "record_id (records s ! p) = i"
    using assms by (auto simp: bf_valid_def positions_ok_def)
  have "distinct (map record_id (records s))"
    using assms by (auto simp: bf_valid_def dest: positions_ok_distinct)
  then have "distinct (map fst (map (\<lambda>r. (record_id r, record_values r)) (records s)))"
    by (simp add: comp_def)
  moreover have "(i, record_values (records s ! p))
      \<in> set (map (\<lambda>r. (record_id r, record_values r)) (records s))"
    using p by (auto intro!: image_eqI [of _ _ "records s ! p"])
  ultimately show ?thesis using Some by (simp add: bf_contents_def)
qed

lemma bf_dom: "dom (bf_contents s) = record_id ` set (records s)"
  by (simp add: bf_contents_def dom_map_of_conv_image_fst image_image)

lemma bf_card: "bf_valid s \<Longrightarrow> card (dom (bf_contents s)) = bf_size s"
  using distinct_card [of "map record_id (records s)"]
  by (auto simp: bf_dom bf_size_def bf_valid_def dest: positions_ok_distinct)

lemma positions_ok_append:
  "positions_ok rs ps \<Longrightarrow> ps i = None \<Longrightarrow> record_id r = i \<Longrightarrow>
    positions_ok (rs @ [r]) (ps(i \<mapsto> length rs))"
  using positions_ok_None [of rs ps i]
  unfolding positions_ok_def by (auto simp: nth_append less_Suc_eq split: if_splits)

lemma positions_ok_update:
  "positions_ok rs ps \<Longrightarrow> record_id r = record_id (rs ! p) \<Longrightarrow> positions_ok (rs[p := r]) ps"
proof -
  assume "positions_ok rs ps" "record_id r = record_id (rs ! p)"
  moreover from this(2) have "record_id (rs[p := r] ! q) = record_id (rs ! q)" if "q < length rs" for q
    using that by (cases "q = p") simp_all
  ultimately show ?thesis unfolding positions_ok_def by (metis length_list_update)
qed

text \<open>Moving the last record into the gap, in the general form that covers both branches.\<close>

lemma positions_ok_erase:
  assumes ok: "positions_ok rs ps" and p: "ps i = Some p"
  shows "positions_ok (butlast (rs[p := rs ! (length rs - 1)]))
    (ps(record_id (rs ! (length rs - 1)) \<mapsto> p, i := None))"
proof -
  define L where "L = length rs - 1"
  have pn: "p < length rs" "record_id (rs ! p) = i" "length rs = Suc L"
    using ok p unfolding positions_ok_def L_def by fastforce+
  have inj: "x = y" if "x \<le> L" "y \<le> L" "record_id (rs ! x) = record_id (rs ! y)" for x y
    using positions_ok_inj [OF ok] that pn(3) by simp
  have nth: "butlast (rs[p := rs ! L]) ! q = (if q = p then rs ! L else rs ! q)" if "q < L" for q
    using that pn by (simp add: nth_butlast nth_list_update)
  have ps: "ps j = Some q \<longleftrightarrow> q \<le> L \<and> record_id (rs ! q) = j" for j q
    using ok pn(3) unfolding positions_ok_def by auto
  have "(ps(record_id (rs ! L) \<mapsto> p, i := None)) j = Some q \<longleftrightarrow>
      q < L \<and> record_id (butlast (rs[p := rs ! L]) ! q) = j" for j q
  proof (cases "q < L")
    case True
    have "record_id (rs ! L) \<noteq> i" if "q = p" using inj [of L p] pn that True by auto
    moreover have "record_id (rs ! q) \<noteq> i" if "q \<noteq> p" using inj [of q p] pn that True by auto
    moreover have "record_id (rs ! q) \<noteq> record_id (rs ! L)" using inj [of q L] True by auto
    ultimately show ?thesis using True nth [OF True] ps [of j q] pn by auto
  next
    case False
    then have "q \<le> L \<Longrightarrow> q = L" by simp
    then have "p = q \<Longrightarrow> i = record_id (rs ! L)" using pn by auto
    then show ?thesis using False ps [of j q] pn \<open>q \<le> L \<Longrightarrow> q = L\<close> by (auto split: if_splits)
  qed
  then show ?thesis using pn(3) by (simp add: positions_ok_def L_def [symmetric])
qed

lemma bf_erase_eq:
  assumes "bf_valid s" and "positions s i = Some p"
  shows "bf_erase i s = s\<lparr>records := butlast ((records s)[p := records s ! (length (records s) - 1)]),
    positions := (positions s)(record_id (records s ! (length (records s) - 1)) \<mapsto> p, i := None)\<rparr>"
proof (cases "p = length (records s) - 1")
  case True
  have "record_id (records s ! p) = i"
    using assms by (auto simp: bf_valid_def positions_ok_def)
  with True assms(2) show ?thesis by (simp add: bf_erase_def)
qed (use assms in \<open>simp add: bf_erase_def Let_def\<close>)

lemma score_records_eq:
  assumes "\<forall>r \<in> set rs. vector_ok (length q) (record_values r)" and "is_finite_embedding q"
  shows "score_records q rs = Inr (map (\<lambda>r. \<lparr>hit_chunk_id = record_id r,
    hit_score = inner_product 0 q (record_values r)\<rparr>) rs)"
  using assms by (induction rs) (auto simp: vector_ok_def dot_product_ok)

section \<open>The interface is met\<close>

lemma bf_upsert_valid:
  assumes "bf_valid s" and "vector_ok (index_dimension s) v"
  shows "\<exists>s'. bf_upsert i v s = Inr s' \<and> bf_valid s' \<and> bf_contents s' = (bf_contents s)(i \<mapsto> v)
    \<and> index_dimension s' = index_dimension s"
proof -
  have ok: "positions_ok (records s) (positions s)" using assms(1) by (simp add: bf_valid_def)
  show ?thesis
  proof (cases "positions s i")
    case None
    define s' where "s' = s\<lparr>positions := (positions s)(i \<mapsto> length (records s)),
      records := records s @ [\<lparr>record_id = i, record_values = v\<rparr>]\<rparr>"
    have up: "bf_upsert i v s = Inr s'"
      using assms(2) None by (simp add: bf_upsert_def vector_ok_def s'_def)
    have valid: "bf_valid s'"
      using assms positions_ok_append [OF ok None] by (simp add: bf_valid_def s'_def)
    have bound: "positions s j = Some p \<Longrightarrow> p < length (records s)" for j p
      using ok by (simp add: positions_ok_def)
    have "bf_contents s' j = ((bf_contents s)(i \<mapsto> v)) j" for j
      unfolding bf_contents_eq [OF valid] fun_upd_apply bf_contents_eq [OF assms(1)]
      using bound [of j] by (cases "positions s j") (auto simp: s'_def nth_append)
    with up valid show ?thesis by (auto simp: s'_def)
  next
    case (Some p)
    then have p: "p < length (records s)" "record_id (records s ! p) = i"
      using ok by (auto simp: positions_ok_def)
    define s' where "s' = s\<lparr>records := (records s)[p := (records s ! p)\<lparr>record_values := v\<rparr>]\<rparr>"
    have up: "bf_upsert i v s = Inr s'"
      using assms(2) Some by (simp add: bf_upsert_def vector_ok_def s'_def)
    have valid: "bf_valid s'"
      using assms positions_ok_update [OF ok] set_update_subset_insert [of "records s" p]
      by (fastforce simp: bf_valid_def s'_def)
    have other: "positions s j = Some p \<Longrightarrow> j = i" for j
      using ok p by (auto simp: positions_ok_def)
    have "bf_contents s' j = ((bf_contents s)(i \<mapsto> v)) j" for j
      unfolding bf_contents_eq [OF valid] fun_upd_apply bf_contents_eq [OF assms(1)]
      using p Some other [of j] by (cases "positions s j") (auto simp: s'_def nth_list_update)
    with up valid show ?thesis by (auto simp: s'_def)
  qed
qed

lemma bf_erase_valid:
  assumes "bf_valid s"
  shows "bf_valid (bf_erase i s) \<and> bf_contents (bf_erase i s) = (bf_contents s)(i := None)
    \<and> index_dimension (bf_erase i s) = index_dimension s"
proof (cases "positions s i")
  case None
  then have "bf_erase i s = s" by (simp add: bf_erase_def)
  moreover have "bf_contents s i = None" using bf_contents_eq [OF assms] None by simp
  ultimately show ?thesis using assms by auto
next
  case (Some p)
  define L where "L = length (records s) - 1"
  have ok: "positions_ok (records s) (positions s)" using assms by (simp add: bf_valid_def)
  have p: "p < length (records s)" "record_id (records s ! p) = i"
    using ok Some by (auto simp: positions_ok_def)
  have Ll: "length (records s) = Suc L" using p(1) by (simp add: L_def)
  define s' where "s' = bf_erase i s"
  have s': "s' = s\<lparr>records := butlast ((records s)[p := records s ! L]),
      positions := (positions s)(record_id (records s ! L) \<mapsto> p, i := None)\<rparr>"
    unfolding s'_def L_def by (rule bf_erase_eq [OF assms Some])
  have "set (records s') \<subseteq> set (records s)"
    using set_update_subset_insert [of "records s" p "records s ! L"] Ll
    by (auto simp: s' dest!: in_set_butlastD)
  then have valid: "bf_valid s'"
    using assms positions_ok_erase [OF ok Some] by (auto simp: bf_valid_def s' L_def)
  have loc: "j \<noteq> i \<Longrightarrow> positions s j = Some q \<Longrightarrow> j \<noteq> record_id (records s ! L) \<Longrightarrow> q < L \<and> q \<noteq> p" for j q
    using ok p Ll by (auto simp: positions_ok_def less_Suc_eq)
  have L: "positions s (record_id (records s ! L)) = Some L"
    using ok Ll by (simp add: positions_ok_def)
  have pL: "p < L" if "record_id (records s ! L) \<noteq> i"
    using p Ll that by (cases "p = L") auto
  have "bf_contents s' j = ((bf_contents s)(i := None)) j" for j
    unfolding bf_contents_eq [OF valid] fun_upd_apply bf_contents_eq [OF assms]
    using loc [of j] L pL Ll p
    by (cases "positions s j") (auto simp: s' nth_butlast nth_list_update)
  with valid show ?thesis by (auto simp: s'_def [symmetric]) (simp add: s')
qed

lemma bf_search_ok:
  assumes "bf_valid s" and "vector_ok (index_dimension s) q"
    and "\<forall>v \<in> ran (bf_contents s). \<not> f32_isnan (inner_product 0 q v)"
  shows "\<exists>hits. bf_search s q k = Inr hits \<and> length hits = min k (bf_size s) \<and> in_order better hits
    \<and> distinct (map hit_chunk_id hits)
    \<and> (\<forall>h \<in> set hits. \<exists>v. bf_contents s (hit_chunk_id h) = Some v
         \<and> hit_score h = inner_product 0 q v)
    \<and> (\<forall>i v. bf_contents s i = Some v \<longrightarrow> i \<notin> hit_chunk_id ` set hits \<longrightarrow>
         (\<forall>h \<in> set hits. \<not> better \<lparr>hit_chunk_id = i, hit_score = inner_product 0 q v\<rparr> h))"
proof -
  define hit where "hit r = \<lparr>hit_chunk_id = record_id r,
    hit_score = inner_product 0 q (record_values r)\<rparr>" for r :: VectorRecord
  define all where "all = map hit (records s)"
  define hits where "hits = take k (sort_by better all)"
  have ok: "positions_ok (records s) (positions s)" using assms(1) by (simp add: bf_valid_def)
  have stored: "bf_contents s i = Some v \<longleftrightarrow> (\<exists>r \<in> set (records s). record_id r = i \<and> record_values r = v)"
    for i v
    unfolding bf_contents_eq [OF assms(1)] using ok
    by (auto simp: positions_ok_def set_conv_nth)
  have "score_records q (records s) = Inr all"
    unfolding all_def hit_def using assms(1,2)
    by (intro score_records_eq) (auto simp: bf_valid_def vector_ok_def)
  then have "bf_search s q k = Inr hits"
    using assms(2) by (auto simp: bf_search_def vector_ok_def hits_def)
  moreover have "length hits = min k (bf_size s)"
    by (simp add: hits_def all_def bf_size_def)
  moreover have nan: "list_all hit_ok all"
    using assms(3) stored by (force simp: all_def hit_def list_all_iff ran_def)
  moreover from nan have "in_order better hits"
    unfolding hits_def by (rule hit_order.take_sort_by_in_order)
  moreover have "distinct (map hit_chunk_id (sort_by better all))"
  proof -
    have "mset (map hit_chunk_id (sort_by better all)) = mset (map record_id (records s))"
      by (simp add: all_def multiset.map_comp comp_def) (simp add: hit_def)
    with positions_ok_distinct [OF ok] show ?thesis by (metis mset_eq_imp_distinct_iff)
  qed
  then have "distinct (map hit_chunk_id hits)"
    unfolding hits_def take_map [symmetric] by (rule distinct_take)
  moreover have "\<exists>v. bf_contents s (hit_chunk_id h) = Some v \<and> hit_score h = inner_product 0 q v"
    if "h \<in> set hits" for h
  proof -
    have "h \<in> set all" using that in_set_takeD [of h k "sort_by better all"] by (simp add: hits_def)
    then obtain r where "r \<in> set (records s)" "h = hit r" by (auto simp: all_def)
    then show ?thesis using stored by (auto simp: hit_def)
  qed
  moreover have "\<not> better \<lparr>hit_chunk_id = i, hit_score = inner_product 0 q v\<rparr> h"
    if iv: "bf_contents s i = Some v" "i \<notin> hit_chunk_id ` set hits" "h \<in> set hits" for i v h
  proof -
    let ?x = "\<lparr>hit_chunk_id = i, hit_score = inner_product 0 q v\<rparr>"
    have "?x \<in> set all" using iv(1) stored by (auto simp: all_def hit_def)
    then have "?x \<in> set (take k (sort_by better all)) \<union> set (drop k (sort_by better all))"
      unfolding set_append [symmetric] append_take_drop_id by simp
    moreover have "?x \<notin> set hits" using iv(2) by force
    ultimately have "?x \<in> set (drop k (sort_by better all))" unfolding hits_def by blast
    with iv(3) show ?thesis
      unfolding hits_def by (intro hit_order.take_sort_by_best [OF nan])
  qed
  ultimately show ?thesis by blast
qed

interpretation brute_force: exact_index bf_valid bf_contents index_dimension bf_upsert bf_erase
  bf_size bf_search
proof (unfold_locales, goal_cases)
  case (1 s v i)
  then show ?case by (rule bf_upsert_valid)
next
  case (3 s i)
  then show ?case by (rule bf_erase_valid)
next
  case (5 s i v)
  then show ?case by (auto simp: bf_contents_def bf_valid_def dest!: map_of_SomeD)
next
  case (8 s q k)
  then show ?case by (rule bf_search_ok)
qed (auto simp: bf_card bf_upsert_def bf_search_def vector_ok_def)

section \<open>Histories of an index\<close>

text \<open>
  A client's calls. A call that throws leaves the index as it was, as the guards of \<^verbatim>\<open>upsert\<close> precede
  every change.
\<close>

datatype index_call = Upsert ChunkId Embedding | Erase ChunkId

fun bf_call :: "index_call \<Rightarrow> BruteForceIndex \<Rightarrow> BruteForceIndex" where
  "bf_call (Upsert i v) s = (case bf_upsert i v s of Inr s' \<Rightarrow> s' | Inl e \<Rightarrow> s)"
| "bf_call (Erase i) s = bf_erase i s"

fun map_call :: "nat \<Rightarrow> index_call \<Rightarrow> (ChunkId \<rightharpoonup> Embedding) \<Rightarrow> (ChunkId \<rightharpoonup> Embedding)" where
  "map_call d (Upsert i v) m = (if vector_ok d v then m(i \<mapsto> v) else m)"
| "map_call d (Erase i) m = m(i := None)"

lemma bf_call_refines:
  assumes "bf_valid s"
  shows "bf_valid (bf_call c s) \<and> bf_contents (bf_call c s)
      = map_call (index_dimension s) c (bf_contents s)
    \<and> index_dimension (bf_call c s) = index_dimension s"
proof (cases c)
  case (Upsert i v)
  then show ?thesis
    using assms brute_force.upsert_ok [OF assms, of v i] brute_force.upsert_bad [of s v i]
    by (cases "vector_ok (index_dimension s) v") auto
next
  case (Erase i)
  then show ?thesis using brute_force.erase_ok [OF assms, of i] by simp
qed

lemma bf_calls_refine:
  "bf_valid s \<Longrightarrow> index_dimension s = d \<Longrightarrow> bf_valid (fold bf_call cs s)
    \<and> bf_contents (fold bf_call cs s) = fold (map_call d) cs (bf_contents s)
    \<and> index_dimension (fold bf_call cs s) = d"
  by (induction cs arbitrary: s) (use bf_call_refines in auto)

lemma make_index_valid:
  "make_index d = Inr s \<Longrightarrow> bf_valid s \<and> bf_contents s = Map.empty \<and> index_dimension s = d"
  by (auto simp: make_index_def bf_valid_def positions_ok_def bf_contents_def split: if_splits)

section \<open>Properties\<close>

text \<open>
  C2. The index implements a map: after any sequence of calls of \<^verbatim>\<open>upsert\<close> and \<^verbatim>\<open>erase\<close> on a new index
  (bad vectors refused without effect) its position table is exact, and it holds the vectors, one per
  id, that the same calls leave in a map.
\<close>

theorem index_implements_map:
  assumes "make_index d = Inr s"
  shows "bf_valid (fold bf_call calls s)
    \<and> bf_contents (fold bf_call calls s) = fold (map_call d) calls Map.empty
    \<and> bf_size (fold bf_call calls s) = card (dom (fold (map_call d) calls Map.empty))"
  using bf_calls_refine [of s d calls] make_index_valid [OF assms] bf_card by metis

theorem index_implements_map_witness:
  "\<exists>s. make_index 1 = Inr s \<and> bf_size (fold bf_call [Upsert 5 [0], Upsert 6 [0], Erase 5, Upsert 9 [0, 0]] s) = 1
    \<and> bf_contents (fold bf_call [Upsert 5 [0], Upsert 6 [0], Erase 5, Upsert 9 [0, 0]] s) 6 = Some [0]"
proof -
  obtain s where s: "make_index 1 = Inr s" by (simp add: make_index_def)
  have ok: "vector_ok 1 [0]" "\<not> vector_ok 1 [0, 0]"
    by (simp_all add: vector_ok_def is_finite_embedding_def f32_isfinite_def fp_isfinite_def
        fp_mag_def binary32_def)
  have "fold (map_call 1) [Upsert 5 [0], Upsert 6 [0], Erase 5, Upsert 9 [0, 0]] Map.empty
      = [6 \<mapsto> [0]]"
    using ok by (auto simp: fun_eq_iff)
  with index_implements_map [OF s, of "[Upsert 5 [0], Upsert 6 [0], Erase 5, Upsert 9 [0, 0]]"] s
  show ?thesis by simp
qed

text \<open>
  C6. A search for the \<open>k\<close> nearest vectors in an index with any history returns, best first, exactly
  the smaller of \<open>k\<close> and the number of stored vectors, each id once with the score of its vector,
  and no vector left out has a better score, ties broken by the smaller id; provided no score is NaN.
\<close>

theorem index_search_exact:
  assumes "make_index d = Inr s0" and "s = fold bf_call calls s0" and "vector_ok d q"
    and "\<forall>v \<in> ran (bf_contents s). \<not> f32_isnan (inner_product 0 q v)"
  shows "\<exists>hits. bf_search s q k = Inr hits \<and> length hits = min k (bf_size s)
    \<and> in_order better hits \<and> distinct (map hit_chunk_id hits)
    \<and> (\<forall>h \<in> set hits. \<exists>v. bf_contents s (hit_chunk_id h) = Some v
         \<and> hit_score h = inner_product 0 q v)
    \<and> (\<forall>i v. bf_contents s i = Some v \<longrightarrow> i \<notin> hit_chunk_id ` set hits \<longrightarrow>
         (\<forall>h \<in> set hits. \<not> better \<lparr>hit_chunk_id = i, hit_score = inner_product 0 q v\<rparr> h))"
proof -
  have "bf_valid s" "index_dimension s = d"
    using bf_calls_refine [of s0 d calls] make_index_valid [OF assms(1)] assms(2) by simp_all
  with assms(3) show ?thesis by (intro brute_force.search_ok assms(4)) simp_all
qed

theorem index_search_exact_witness:
  "\<exists>s hits. make_index 1 = Inr s \<and> bf_search (fold bf_call [Upsert 5 [0], Upsert 6 [0]] s) [0] 1 = Inr hits
    \<and> length hits = 1 \<and> in_order better hits"
proof -
  obtain s where s: "make_index 1 = Inr s" by (simp add: make_index_def)
  define t where "t = fold bf_call [Upsert 5 [0], Upsert 6 [0]] s"
  have ok: "vector_ok 1 [0]"
    by (simp add: vector_ok_def is_finite_embedding_def f32_isfinite_def fp_isfinite_def
        fp_mag_def binary32_def)
  have c: "bf_contents t = [5 \<mapsto> [0], 6 \<mapsto> [0]]" "bf_size t = 2"
    using bf_calls_refine [of s 1 "[Upsert 5 [0], Upsert 6 [0]]"] make_index_valid [OF s] ok
      bf_card [of t] unfolding t_def [symmetric] by simp_all
  have "f32_mul 0 0 = 0" "f32_add 0 0 = 0"
    by (simp_all add: f32_mul_def fp_mul_def Let_def fp_isnan_def fp_isinf_def fp_mag_def
        binary32_def fp_units_def fp_hidden_def fp_pack_def fp_neg_def)
  then have "\<forall>v \<in> ran (bf_contents t). \<not> f32_isnan (inner_product 0 [0] v)"
    by (auto simp: c ran_def f32_isnan_def fp_isnan_def fp_mag_def binary32_def)
  from index_search_exact [OF s t_def ok this, of 1] obtain hits where
    "bf_search t [0] 1 = Inr hits" "length hits = 1" "in_order better hits" using c(2) by auto
  with s show ?thesis unfolding t_def by blast
qed

end
