(* ===== verification/File_Scanner.thy ===== *)
theory File_Scanner
  imports Paths
begin

text \<open>
  \<^verbatim>\<open>src/adapters/filesystem/file_scanner.cpp\<close>: glob matching by dynamic programming, the rules of
  \<^verbatim>\<open>.gitignore\<close> files, and the traversal of a repository. The file system is a tree; what a system
  call reports of an entry (its canonical path, its size) is stored with it.
\<close>

record FileScannerOptions =
  opt_max_file_bytes :: nat
  opt_include_globs :: "string list"
  opt_exclude_globs :: "string list"

record ScannedFile =
  file_absolute_path :: path
  file_relative_path :: path
  file_language :: string
  file_size_bytes :: nat

record FileScanStats =
  files_seen :: nat
  files_indexable :: nat
  files_skipped :: nat

record FileScanResult =
  scan_files :: "ScannedFile list"
  scan_stats :: FileScanStats

record IgnoreRule =
  rule_pattern :: string
  rule_negated :: bool
  rule_directory_only :: bool
  rule_contains_slash :: bool

section \<open>Globs\<close>

definition normalized_path :: "path \<Rightarrow> string" where
  "normalized_path p = lexically_normal p"

definition is_within :: "path \<Rightarrow> path \<Rightarrow> bool" where
  "is_within root candidate = (let relative = lexically_relative candidate root in
     if relative = [] then path_elements candidate = path_elements root
     else hd (path_elements relative) \<noteq> ''..'')"

text \<open>
  A row of the table: entry \<open>i\<close> tells whether the pattern read so far matches the first \<open>i\<close>
  characters. \<open>fill_star\<close> is the inner loop for a star, its last argument the entry just computed.
\<close>

fun fill_star :: "bool list \<Rightarrow> bool \<Rightarrow> bool list" where
  "fill_star [] left = []"
| "fill_star (p # ps) left = (p \<or> left) # fill_star ps (p \<or> left)"

definition glob_row :: "char \<Rightarrow> string \<Rightarrow> bool list \<Rightarrow> bool list" where
  "glob_row token v previous = (
     if token = CHR ''*'' then hd previous # fill_star (tl previous) (hd previous)
     else if token = CHR ''?'' then False # butlast previous
     else False # map (\<lambda>(p, c). p \<and> token = c) (zip (butlast previous) v))"

definition glob_matches :: "string \<Rightarrow> string \<Rightarrow> bool" where
  "glob_matches pattern v = foldl (\<lambda>previous token. glob_row token v previous)
     (True # replicate (length v) False) pattern ! length v"

section \<open>Ignore rules\<close>

definition matches_rule :: "IgnoreRule \<Rightarrow> path \<Rightarrow> bool" where
  "matches_rule rule relative = (let p = normalized_path relative in
     if rule_directory_only rule
       then p = rule_pattern rule \<or> starts_with p (rule_pattern rule @ ''/'')
     else if rule_contains_slash rule then glob_matches (rule_pattern rule) p
     else list_ex (glob_matches (rule_pattern rule)) (path_elements relative))"

text \<open>\<open>std::getline\<close> until the end of the file: no line after a final newline.\<close>

definition getlines :: "string \<Rightarrow> string list" where
  "getlines s = (let segs = split_on (CHR 0x0A) s in if last segs = [] then butlast segs else segs)"

text \<open>
  One line of an ignore file. A line that is only a slash leaves nothing to take the last character of:
  the source reads before the start of the string there; the model skips the line.
\<close>

definition parse_rule :: "string \<Rightarrow> IgnoreRule option" where
  "parse_rule raw = (
     let line = (if raw \<noteq> [] \<and> last raw = CHR 0x0D then butlast raw else raw) in
     if line = [] \<or> hd line = CHR ''#'' then None
     else let negated = (hd line = CHR ''!''); line = (if negated then tl line else line) in
       if line = [] then None
       else let line = (if hd line = slash then tl line else line) in
         if line = [] then None
         else let directory_only = (last line = slash); line = (if directory_only then butlast line else line) in
           if line = [] then None
           else Some \<lparr>rule_pattern = line, rule_negated = negated, rule_directory_only = directory_only,
             rule_contains_slash = slash \<in> set line\<rparr>)"

definition read_ignore_file :: "string \<Rightarrow> IgnoreRule list" where
  "read_ignore_file content = List.map_filter parse_rule (getlines content)"

text \<open>
  The directories from the one that holds the candidate up to the root, innermost first. Each step
  takes the parent of a path, so that as many steps as the path has characters reach the root.
\<close>

fun directories_above :: "nat \<Rightarrow> path \<Rightarrow> path \<Rightarrow> path list" where
  "directories_above 0 root directory = []"
| "directories_above (Suc fuel) root directory = (
     if \<not> is_within root directory then []
     else if path_elements directory = path_elements root then [directory]
     else directory # directories_above fuel root (parent_path directory))"

fun apply_rules :: "IgnoreRule list \<Rightarrow> path \<Rightarrow> bool \<Rightarrow> bool" where
  "apply_rules [] relative ignored = ignored"
| "apply_rules (rule # rules) relative ignored = apply_rules rules relative
     (if matches_rule rule relative then \<not> rule_negated rule else ignored)"

text \<open>\<open>contents\<close> is what reading a file yields: nothing if it cannot be opened.\<close>

definition ignores :: "(path \<rightharpoonup> string) \<Rightarrow> path \<Rightarrow> path \<Rightarrow> bool" where
  "ignores contents root candidate = foldl (\<lambda>ignored current. apply_rules
       (case contents (path_append current ''.gitignore'') of
          None \<Rightarrow> [] | Some s \<Rightarrow> read_ignore_file s)
       (lexically_relative candidate current) ignored)
     False (rev (directories_above (Suc (length candidate)) root (parent_path candidate)))"

definition is_default_excluded_directory :: "path \<Rightarrow> bool" where
  "is_default_excluded_directory p = (let name = filename p in
     name \<in> {''.git'', ''build'', ''out'', ''third_party'', ''vendor'', ''node_modules'', ''.cache''}
     \<or> starts_with name ''build-'')"

definition source_language :: "path \<Rightarrow> string" where
  "source_language p = (
     if filename p = ''CMakeLists.txt'' \<or> extension p = ''.cmake'' then ''cmake''
     else let ext = extension p in
       if ext = ''.c'' then ''c''
       else if ext \<in> {''.cc'', ''.cpp'', ''.cxx'', ''.ipp'', ''.tpp''} then ''cpp''
       else if ext \<in> {''.h'', ''.hh'', ''.hpp'', ''.hxx''} then ''cpp-header''
       else [])"

definition matches_any :: "string list \<Rightarrow> path \<Rightarrow> bool" where
  "matches_any patterns p = list_ex (\<lambda>pattern. glob_matches pattern (normalized_path p)) patterns"

section \<open>The traversal\<close>

text \<open>
  Entries of the file system: a directory (reached through a symbolic link or not) with its entries, a
  directory whose listing fails with an error, a regular file with its canonical path and size (where the
  system calls succeed), anything else.
\<close>

record file_attributes =
  attr_canonical :: "path option"
  attr_size :: "nat option"

datatype fs_node =
    Dir_node bool "(string \<times> fs_node) list"
  | Broken_dir bool string
  | File_node file_attributes
  | Other_node

record scan_env =
  env_contents :: "path \<rightharpoonup> string"
  env_root :: path
  env_options :: FileScannerOptions

definition enters :: "scan_env \<Rightarrow> path \<Rightarrow> bool \<Rightarrow> bool" where
  "enters env p symlink = (\<not> (symlink \<or> is_default_excluded_directory p
     \<or> ignores (env_contents env) (env_root env) p
     \<or> matches_any (opt_exclude_globs (env_options env)) (lexically_relative p (env_root env))))"

text \<open>What is done with a regular file: the file to record, or \<open>None\<close> if it is skipped.\<close>

definition accept_file :: "scan_env \<Rightarrow> path \<Rightarrow> file_attributes \<Rightarrow> ScannedFile option" where
  "accept_file env p a = (
     let opts = env_options env; relative = lexically_normal (lexically_relative p (env_root env)) in
     case attr_canonical a of
       None \<Rightarrow> None
     | Some canonical \<Rightarrow>
         if \<not> is_within (env_root env) canonical \<or> ignores (env_contents env) (env_root env) p
             \<or> matches_any (opt_exclude_globs opts) relative then None
         else let language = source_language relative;
             included = (language \<noteq> [] \<or> matches_any (opt_include_globs opts) relative) in
           case attr_size a of
             None \<Rightarrow> None
           | Some bytes \<Rightarrow> if \<not> included \<or> opt_max_file_bytes opts < bytes then None
               else Some \<lparr>file_absolute_path = canonical, file_relative_path = relative,
                 file_language = (if language = [] then ''text'' else language),
                 file_size_bytes = bytes\<rparr>)"

definition record_file :: "ScannedFile option \<Rightarrow> FileScanResult \<Rightarrow> FileScanResult" where
  "record_file f r = (let st = scan_stats r; st = st\<lparr>files_seen := files_seen st + 1\<rparr> in
     case f of
       None \<Rightarrow> r\<lparr>scan_stats := st\<lparr>files_skipped := files_skipped st + 1\<rparr>\<rparr>
     | Some f \<Rightarrow> r\<lparr>scan_files := scan_files r @ [f], scan_stats := st\<lparr>files_indexable := files_indexable st + 1\<rparr>\<rparr>)"

text \<open>
  The recursive directory iterator as the list of entries still to come: the entries of a directory that
  is entered come next.
\<close>

fun node_weight :: "fs_node \<Rightarrow> nat" where
  "node_weight (Dir_node s es) = Suc (sum_list (map (\<lambda>(n, c). node_weight c) es))"
| "node_weight (Broken_dir s m) = 1"
| "node_weight (File_node a) = 1"
| "node_weight Other_node = 1"

definition children :: "path \<Rightarrow> (string \<times> fs_node) list \<Rightarrow> (path \<times> fs_node) list" where
  "children p es = map (\<lambda>(n, c). (path_append p n, c)) es"

lemma node_weight_pos [simp]: "0 < node_weight n"
  by (cases n) simp_all

lemma children_weight: "sum_list (map (\<lambda>(p, n). node_weight n) (children p es))
    = sum_list (map (\<lambda>(n, c). node_weight c) es)"
  by (induction es) (auto simp: children_def)

function scan_loop :: "scan_env \<Rightarrow> (path \<times> fs_node) list \<Rightarrow> FileScanResult \<Rightarrow> FileScanResult res" where
  "scan_loop env [] r = Inr r"
| "scan_loop env ((p, Dir_node symlink es) # rest) r = scan_loop env
     (if enters env p symlink then children p es @ rest else rest) r"
| "scan_loop env ((p, Broken_dir symlink m) # rest) r =
     (if enters env p symlink then Inl (Runtime_error (''failed while scanning repository: '' @ m))
      else scan_loop env rest r)"
| "scan_loop env ((p, File_node a) # rest) r = scan_loop env rest (record_file (accept_file env p a) r)"
| "scan_loop env ((p, Other_node) # rest) r = scan_loop env rest r"
  by pat_completeness auto
termination
  by (relation "measure (\<lambda>(env, entries, r). sum_list (map (\<lambda>(p, n). node_weight n) entries))")
    (auto simp: children_weight)

definition no_files :: FileScanResult where
  "no_files = \<lparr>scan_files = [], scan_stats = \<lparr>files_seen = 0, files_indexable = 0, files_skipped = 0\<rparr>\<rparr>"

abbreviation by_relative_path :: "ScannedFile \<Rightarrow> ScannedFile \<Rightarrow> bool" where
  "by_relative_path l r \<equiv> normalized_path (file_relative_path l) < normalized_path (file_relative_path r)"

text \<open>
  \<open>canonical_root\<close> is the result of \<^verbatim>\<open>weakly_canonical\<close> (\<open>None\<close> if it fails), \<open>tree\<close> what is there.
\<close>

definition scan :: "(path \<rightharpoonup> string) \<Rightarrow> path \<Rightarrow> path option \<Rightarrow> fs_node \<Rightarrow> FileScannerOptions \<Rightarrow>
    FileScanResult res" where
  "scan contents repository_root canonical_root tree opts = (
     let refusal = Inl (Invalid_argument
       (''repository root must be an accessible directory: '' @ repository_root)) in
     if opt_max_file_bytes opts = 0 then Inl (Invalid_argument ''max_file_bytes must be positive'')
     else case canonical_root of
       None \<Rightarrow> refusal
     | Some root \<Rightarrow> (case tree of
         Dir_node s es \<Rightarrow> res_bind (scan_loop \<lparr>env_contents = contents, env_root = root, env_options = opts\<rparr>
             (children root es) no_files) (\<lambda>r.
             Inr (r\<lparr>scan_files := sort_by by_relative_path (scan_files r)\<rparr>))
       | Broken_dir s m \<Rightarrow> Inl (Runtime_error (''failed while scanning repository: '' @ m))
       | _ \<Rightarrow> refusal))"

section \<open>Globs: the table computes the language of the pattern\<close>

text \<open>The reference: a star stands for any string, a question mark for any character.\<close>

fun glob :: "string \<Rightarrow> string \<Rightarrow> bool" where
  "glob [] v = (v = [])"
| "glob (t # ts) v = (if t = CHR ''*'' then (\<exists>a b. v = a @ b \<and> glob ts b)
     else (\<exists>c w. v = c # w \<and> (t = CHR ''?'' \<or> t = c) \<and> glob ts w))"

lemma glob_append: "glob (p @ q) v \<longleftrightarrow> (\<exists>a b. v = a @ b \<and> glob p a \<and> glob q b)"
proof (induction p arbitrary: v)
  case (Cons t p)
  show ?case
  proof (cases "t = CHR ''*''")
    case True
    then show ?thesis using Cons.IH by simp (metis append.assoc)
  next
    case False
    have "(\<exists>c w. v = c # w \<and> (t = CHR ''?'' \<or> t = c) \<and> (\<exists>a b. w = a @ b \<and> glob p a \<and> glob q b))
      \<longleftrightarrow> (\<exists>a b. v = a @ b \<and> (\<exists>c w. a = c # w \<and> (t = CHR ''?'' \<or> t = c) \<and> glob p w) \<and> glob q b)"
      by (metis append_Cons)
    with False Cons.IH show ?thesis by simp
  qed
qed simp

lemma fill_star_nth:
  "i < length ps \<Longrightarrow> fill_star ps left ! i \<longleftrightarrow> left \<or> (\<exists>j \<le> i. ps ! j)"
proof (induction ps arbitrary: left i)
  case (Cons p ps)
  show ?case
  proof (cases i)
    case (Suc k)
    have "(\<exists>j \<le> Suc k. (p # ps) ! j) \<longleftrightarrow> p \<or> (\<exists>j \<le> k. ps ! j)"
      by (metis Suc_le_mono bot_nat_0.extremum nth_Cons_0 nth_Cons_Suc not0_implies_Suc)
    with Suc Cons show ?thesis by auto
  qed auto
qed simp

lemma length_fill_star [simp]: "length (fill_star ps left) = length ps"
  by (induction ps arbitrary: left) simp_all

definition row_ok :: "string \<Rightarrow> string \<Rightarrow> bool list \<Rightarrow> bool" where
  "row_ok pattern v row \<longleftrightarrow> length row = Suc (length v)
     \<and> (\<forall>i \<le> length v. row ! i \<longleftrightarrow> glob pattern (take i v))"

lemma glob_snoc_star: "glob (p @ ''*'') (take i v) \<longleftrightarrow> (\<exists>j \<le> i. glob p (take j v))"
proof -
  have "(\<exists>a b. take i v = a @ b \<and> glob p a) \<longleftrightarrow> (\<exists>j \<le> i. glob p (take j v))"
  proof (intro iffI; elim exE conjE)
    fix a b assume a: "take i v = a @ b" "glob p a"
    then have "a = take (min i (length a)) v"
      by (metis append_eq_conv_conj take_take min.commute)
    with a(2) show "\<exists>j \<le> i. glob p (take j v)" by (metis min.cobounded1)
  next
    fix j assume "j \<le> i" "glob p (take j v)"
    moreover have "take i v = take j v @ drop j (take i v)"
      using \<open>j \<le> i\<close> by (metis append_take_drop_id min.absorb1 take_take)
    ultimately show "\<exists>a b. take i v = a @ b \<and> glob p a" by blast
  qed
  then show ?thesis by (simp add: glob_append)
qed

lemma glob_snoc_char:
  assumes "t \<noteq> CHR ''*''" and "i < length v"
  shows "glob (p @ [t]) (take (Suc i) v) \<longleftrightarrow> glob p (take i v) \<and> (t = CHR ''?'' \<or> t = v ! i)"
proof -
  have "glob (p @ [t]) w \<longleftrightarrow> (\<exists>a c. w = a @ [c] \<and> glob p a \<and> (t = CHR ''?'' \<or> t = c))" for w
    using assms(1) by (auto simp: glob_append)
  then show ?thesis using assms(2) by (auto simp: take_Suc_conv_app_nth)
qed

lemma glob_snoc_empty: "t \<noteq> CHR ''*'' \<Longrightarrow> \<not> glob (p @ [t]) []"
  by (simp add: glob_append)

lemma hd_row: "row_ok p v row \<Longrightarrow> row \<noteq> [] \<and> hd row = row ! 0"
  by (cases row) (auto simp: row_ok_def)

lemma glob_row_star:
  assumes "row_ok p v row"
  shows "row_ok (p @ ''*'') v (glob_row (CHR ''*'') v row)"
proof -
  obtain x xs where row: "row = x # xs" using hd_row [OF assms] by (cases row) auto
  have "(x # fill_star xs x) ! i \<longleftrightarrow> (\<exists>j \<le> i. (x # xs) ! j)" if "i \<le> length xs" for i
  proof (cases i)
    case (Suc k)
    have "(\<exists>j \<le> Suc k. (x # xs) ! j) \<longleftrightarrow> x \<or> (\<exists>j \<le> k. xs ! j)"
      by (metis Suc_le_mono bot_nat_0.extremum nth_Cons_0 nth_Cons_Suc not0_implies_Suc)
    with Suc that show ?thesis by (simp add: fill_star_nth)
  qed simp
  with assms show ?thesis
    by (auto simp: row_ok_def glob_row_def row glob_snoc_star intro: order_trans)
qed

lemma glob_row_char:
  assumes "row_ok p v row" and "t \<noteq> CHR ''*''"
  shows "row_ok (p @ [t]) v (glob_row t v row)"
proof -
  have len: "length row = Suc (length v)" using assms(1) by (simp add: row_ok_def)
  then have b: "butlast row ! i = row ! i" if "i < length v" for i
    using that by (simp add: nth_butlast)
  have cell: "glob_row t v row ! Suc i \<longleftrightarrow> row ! i \<and> (t = CHR ''?'' \<or> t = v ! i)" if "i < length v" for i
    using that len b assms(2) by (simp add: glob_row_def)
  have "glob_row t v row ! i \<longleftrightarrow> glob (p @ [t]) (take i v)" if "i \<le> length v" for i
  proof (cases i)
    case 0
    with assms(2) show ?thesis by (simp add: glob_row_def glob_snoc_empty)
  next
    case (Suc k)
    with that cell [of k] assms glob_snoc_char [OF assms(2), of k v p] show ?thesis
      by (simp add: row_ok_def)
  qed
  moreover have "length (glob_row t v row) = Suc (length v)"
    using len assms(2) by (simp add: glob_row_def)
  ultimately show ?thesis by (simp add: row_ok_def)
qed

lemma glob_rows: "row_ok p v row \<Longrightarrow> row_ok (p @ q) v (foldl (\<lambda>r t. glob_row t v r) row q)"
proof (induction q arbitrary: p row)
  case (Cons t q)
  then have "row_ok (p @ [t]) v (glob_row t v row)"
    using glob_row_star glob_row_char by (cases "t = CHR ''*''") auto
  from Cons.IH [OF this] show ?case by simp
qed simp

lemma glob_matches_glob: "glob_matches pattern v \<longleftrightarrow> glob pattern v"
proof -
  have "row_ok [] v (True # replicate (length v) False)"
    by (auto simp: row_ok_def nth_Cons split: nat.splits)
  from glob_rows [OF this, of pattern] show ?thesis
    by (simp add: row_ok_def glob_matches_def)
qed

section \<open>Staying within the root\<close>

definition canonical_path :: "path \<Rightarrow> bool" where
  "canonical_path p \<longleftrightarrow> is_absolute p \<and> \<not> has_trailing_slash p
     \<and> ''.'' \<notin> set (path_names p) \<and> ''..'' \<notin> set (path_names p)"

lemma foldl_path_append:
  "p \<noteq> [] \<Longrightarrow> \<forall>s \<in> set ss. slash \<notin> set s \<Longrightarrow>
    \<exists>rest. foldl path_append p ss = p @ rest \<and> (rest = [] \<or> last p = slash \<or> hd rest = slash)"
proof (induction ss arbitrary: p)
  case (Cons s ss)
  have "\<not> is_absolute s" using Cons.prems(2) by (cases s) (auto simp: is_absolute_def)
  then have "path_append p s = p @ (if last p = slash then s else slash # s)"
    using Cons.prems(1) by (simp add: path_append_def)
  then obtain r where r: "path_append p s = p @ r" "r = [] \<or> last p = slash \<or> hd r = slash"
    by (metis list.sel(1))
  from Cons.IH [of "p @ r"] Cons.prems r(1) obtain rest where
    "foldl path_append (p @ r) ss = (p @ r) @ rest" "rest = [] \<or> last (p @ r) = slash \<or> hd rest = slash"
    by auto
  with r show ?case by (cases r) (auto split: if_splits)
qed simp

lemma split_on_append_sep: "sep \<notin> set s \<Longrightarrow> split_on sep (s @ sep # t) = s # split_on sep t"
  by (induction s) auto

lemma split_on_without: "sep \<notin> set s \<Longrightarrow> split_on sep s = [s]"
  by (induction s) auto

lemma hd_relative_elements:
  assumes "s \<noteq> []" and "\<forall>x \<in> set (s # ss). slash \<notin> set x"
  shows "foldl path_append [] (s # ss) \<noteq> [] \<and> hd (path_elements (foldl path_append [] (s # ss))) = s"
proof -
  have s: "slash \<notin> set s" "hd s \<noteq> slash" using assms by (auto simp: neq_Nil_conv)
  then have "path_append [] s = s" by (cases s) (auto simp: path_append_def is_absolute_def)
  moreover obtain rest where rest: "foldl path_append s ss = s @ rest"
    "rest = [] \<or> last s = slash \<or> hd rest = slash"
    using foldl_path_append [OF assms(1)] assms(2) by auto
  moreover have "last s \<noteq> slash" using s(1) assms(1) last_in_set by metis
  ultimately have e: "foldl path_append [] (s # ss) = s @ rest" "rest = [] \<or> (\<exists>r. rest = slash # r)"
    by (simp, metis list.collapse)
  then have "\<exists>xs. path_names (s @ rest) = s # xs"
    using split_on_append_sep [OF s(1)] split_on_without [OF s(1)] assms(1)
    by (auto simp: path_names_def)
  moreover have "\<not> is_absolute (s @ rest)"
    using assms(1) s(2) by (cases s) (auto simp: is_absolute_def)
  ultimately show ?thesis using e(1) assms(1) by (auto simp: path_elements_def)
qed

lemma strip_common_props:
  "strip_common xs ys = (a, b) \<Longrightarrow> \<exists>c. xs = c @ a \<and> ys = c @ b \<and> (a = [] \<or> b = [] \<or> hd a \<noteq> hd b)"
proof (induction xs ys rule: strip_common.induct)
  case (1 x xs y ys)
  show ?case
  proof (cases "x = y")
    case True
    with 1 obtain c where "xs = c @ a" "ys = c @ b" "a = [] \<or> b = [] \<or> hd a \<noteq> hd b" by auto
    with True show ?thesis by (intro exI [of _ "x # c"]) simp
  qed (use 1 in auto)
qed auto

text \<open>The check compares whole path components, not characters.\<close>

lemma is_within_iff:
  assumes "canonical_path root" and "canonical_path p"
  shows "is_within root p \<longleftrightarrow> prefix (path_names root) (path_names p)"
proof -
  have el: "path_elements root = ''/'' # path_names root" "path_elements p = ''/'' # path_names p"
    using assms by (simp_all add: canonical_path_def path_elements_def)
  obtain a b where ab: "strip_common (path_names p) (path_names root) = (a, b)" by fastforce
  from strip_common_props [OF this] obtain c where c: "path_names p = c @ a" "path_names root = c @ b"
    "a = [] \<or> b = [] \<or> hd a \<noteq> hd b" by blast
  have proper: "\<forall>x \<in> set a. x \<noteq> [] \<and> slash \<notin> set x \<and> x \<noteq> ''.'' \<and> x \<noteq> ''..''"
    "\<forall>x \<in> set b. x \<noteq> [] \<and> x \<noteq> ''.'' \<and> x \<noteq> ''..''"
    using assms c path_names_proper [of _ p] path_names_proper [of _ root]
    by (auto simp: canonical_path_def)
  have f: "filter (\<lambda>s. s \<noteq> [] \<and> s \<noteq> ''.'' \<and> s \<noteq> ''..'') b = b" "filter (\<lambda>s. s = ''..'') b = []"
    using proper(2) by (auto simp: filter_id_conv filter_empty_conv)
  have rel: "lexically_relative p root = (if a = [] \<and> b = [] then ''.''
      else if b = [] \<and> (a = [] \<or> hd a = []) then ''.''
      else foldl path_append [] (replicate (length b) ''..'' @ a))"
    using assms ab by (auto simp: lexically_relative_def el f canonical_path_def Let_def)
  show ?thesis
  proof (cases b)
    case Nil
    then have pre: "prefix (path_names root) (path_names p)" using c by simp
    show ?thesis
    proof (cases a)
      case Nil
      with \<open>b = []\<close> rel have "lexically_relative p root = ''.''" by simp
      moreover have "hd (path_elements ''.'') \<noteq> ''..''" by code_simp
      ultimately show ?thesis using pre by (simp add: is_within_def)
    next
      case (Cons x xs)
      with rel \<open>b = []\<close> proper(1) have "lexically_relative p root = foldl path_append [] (x # xs)" by simp
      with hd_relative_elements [of x xs] proper(1) Cons pre show ?thesis by (simp add: is_within_def)
    qed
  next
    case (Cons y ys)
    then have "lexically_relative p root = foldl path_append [] (''..'' # (replicate (length ys) ''..'' @ a))"
      using rel by simp
    moreover have "\<forall>x \<in> set (''..'' # (replicate (length ys) ''..'' @ a)). slash \<notin> set x"
    proof
      fix x assume "x \<in> set (''..'' # (replicate (length ys) ''..'' @ a))"
      then consider "x = ''..''" | "x \<in> set a" by (auto simp: set_replicate_conv_if split: if_splits)
      then show "slash \<notin> set x"
      proof cases
        case 1
        then show ?thesis by simp
      qed (use proper(1) in blast)
    qed
    ultimately have "\<not> is_within root p"
      using hd_relative_elements [of "''..''" "replicate (length ys) ''..'' @ a"] by (simp add: is_within_def)
    moreover have "\<not> prefix (path_names root) (path_names p)"
      using c Cons by (auto simp: prefix_def)
    ultimately show ?thesis by simp
  qed
qed

section \<open>What a scan visits\<close>

inductive visited :: "scan_env \<Rightarrow> (path \<times> fs_node) list \<Rightarrow> path \<Rightarrow> fs_node \<Rightarrow> bool" for env entries where
  top: "(p, n) \<in> set entries \<Longrightarrow> visited env entries p n"
| below: "visited env entries p (Dir_node s es) \<Longrightarrow> enters env p s \<Longrightarrow> (m, c) \<in> set es \<Longrightarrow>
    visited env entries (path_append p m) c"

lemma visited_mono: "visited env xs p n \<Longrightarrow> set xs \<subseteq> set ys \<Longrightarrow> visited env ys p n"
  by (induction rule: visited.induct) (auto intro: visited.intros)

lemma visited_Cons:
  "visited env ((p, n) # rest) q m \<longleftrightarrow> (q = p \<and> m = n) \<or> visited env rest q m
    \<or> (\<exists>s es. n = Dir_node s es \<and> enters env p s \<and> visited env (children p es) q m)" (is "?l \<longleftrightarrow> ?r")
proof
  assume ?l
  then show ?r
  proof (induction rule: visited.induct)
    case (top q m)
    then show ?case by (auto intro: visited.top)
  next
    case (below q s es m c)
    have "visited env (children q es) (path_append q m) c"
      using below.hyps by (intro visited.top) (auto simp: children_def)
    with below show ?case by (auto intro: visited.below)
  qed
next
  have "visited env ((p, Dir_node s es) # rest) q m"
    if "visited env (children p es) q m" "enters env p s" for s es
    using that(1)
  proof (induction rule: visited.induct)
    case (top q m)
    then obtain k where "q = path_append p k" "(k, m) \<in> set es" by (auto simp: children_def)
    moreover have "visited env ((p, Dir_node s es) # rest) p (Dir_node s es)" by (simp add: visited.top)
    ultimately show ?case using visited.below that(2) by blast
  qed (auto intro: visited.below)
  moreover have "visited env ((p, n) # rest) q m" if "visited env rest q m"
    by (rule visited_mono [OF that]) auto
  moreover assume ?r
  ultimately show ?l by (auto intro: visited.top)
qed

lemma visited_Nil [simp]: "\<not> visited env [] p n"
proof
  assume "visited env [] p n"
  then show False by induction auto
qed

lemma visited_append: "visited env (xs @ ys) p n \<longleftrightarrow> visited env xs p n \<or> visited env ys p n"
  by (induction xs) (auto simp: visited_Cons)

definition stats_ok :: "FileScanResult \<Rightarrow> bool" where
  "stats_ok r \<longleftrightarrow> files_seen (scan_stats r) = files_indexable (scan_stats r) + files_skipped (scan_stats r)
     \<and> files_indexable (scan_stats r) = length (scan_files r)"

definition accepted :: "scan_env \<Rightarrow> (path \<times> fs_node) list \<Rightarrow> ScannedFile set" where
  "accepted env entries = {f. \<exists>p a. visited env entries p (File_node a) \<and> accept_file env p a = Some f}"

lemma accepted_simps [simp]:
  "accepted env [] = {}"
  "accepted env ((p, Dir_node s es) # rest)
    = (if enters env p s then accepted env (children p es @ rest) else accepted env rest)"
  "accepted env ((p, Broken_dir s m) # rest) = accepted env rest"
  "accepted env ((p, Other_node) # rest) = accepted env rest"
  "accepted env ((p, File_node a) # rest)
    = (case accept_file env p a of None \<Rightarrow> {} | Some f \<Rightarrow> {f}) \<union> accepted env rest"
  by (auto simp: accepted_def visited_Cons visited_append split: option.splits)

lemma record_file_props [simp]:
  "stats_ok r \<Longrightarrow> stats_ok (record_file f r)"
  "scan_files (record_file f r) = scan_files r @ (case f of None \<Rightarrow> [] | Some f \<Rightarrow> [f])"
  by (auto simp: record_file_def stats_ok_def Let_def split: option.splits)

lemma scan_loop_ok:
  "scan_loop env entries r = Inr r' \<Longrightarrow> stats_ok r \<Longrightarrow>
    stats_ok r' \<and> set (scan_files r') = set (scan_files r) \<union> accepted env entries"
proof (induction env entries r rule: scan_loop.induct)
  case (3 env p s m rest r)
  then show ?case by (auto split: if_splits)
qed (auto split: option.splits)

text \<open>A scan fails exactly when it enters a directory that cannot be listed.\<close>

lemma scan_loop_total:
  "(\<exists>r'. scan_loop env entries r = Inr r') \<longleftrightarrow>
    (\<forall>p s m. visited env entries p (Broken_dir s m) \<longrightarrow> \<not> enters env p s)"
proof (induction env entries r rule: scan_loop.induct)
  case (2 env p s es rest r)
  then show ?case by (auto simp: visited_Cons visited_append split: if_splits)
next
  case (3 env p s m rest r)
  show ?case
  proof (cases "enters env p s")
    case True
    moreover have "visited env ((p, Broken_dir s m) # rest) p (Broken_dir s m)" by (simp add: visited_Cons)
    ultimately show ?thesis by (metis Inl_Inr_False scan_loop.simps(3))
  next
    case False
    with 3 show ?thesis by (auto simp: visited_Cons)
  qed
qed (simp_all add: visited_Cons)

lemma accept_fileD:
  assumes "accept_file env p a = Some f"
  shows "attr_canonical a = Some (file_absolute_path f)" "is_within (env_root env) (file_absolute_path f)"
    "\<not> ignores (env_contents env) (env_root env) p" "attr_size a = Some (file_size_bytes f)"
    "file_size_bytes f \<le> opt_max_file_bytes (env_options env)"
    "file_relative_path f = lexically_normal (lexically_relative p (env_root env))"
    "\<not> matches_any (opt_exclude_globs (env_options env)) (file_relative_path f)"
    "source_language (file_relative_path f) \<noteq> [] \<or> matches_any (opt_include_globs (env_options env)) (file_relative_path f)"
  using assms by (auto simp: accept_file_def Let_def not_less split: option.splits if_splits)

interpretation path_order: comparator by_relative_path "\<lambda>_. True"
  by unfold_locales auto

section \<open>Properties\<close>

text \<open>
  C18. The table of booleans decides the language of the pattern, in which a star stands for any string
  (slashes included) and a question mark for any one character.
\<close>

theorem glob_matches_reference: "glob_matches pattern v \<longleftrightarrow> glob pattern v"
  by (rule glob_matches_glob)

text \<open>
  C19. A scan of a canonical root fails exactly if it enters a directory that cannot be listed. Otherwise it returns,
  sorted by path, the files it visits and accepts, no others; each of them lies below the root by its
  canonical path, component by component, is not ignored or excluded, is of a known language or
  included, and is not larger than the limit; the statistics count every regular file visited once.
\<close>

theorem scan_finds_files:
  assumes "canonical_path root" and "0 < opt_max_file_bytes opts"
    and "\<forall>p a c. visited env (children root es) p (File_node a) \<longrightarrow> attr_canonical a = Some c \<longrightarrow> canonical_path c"
    and "env = \<lparr>env_contents = contents, env_root = root, env_options = opts\<rparr>"
  shows "((\<exists>r. scan contents repository_root (Some root) (Dir_node s es) opts = Inr r)
      \<longleftrightarrow> (\<forall>p s m. visited env (children root es) p (Broken_dir s m) \<longrightarrow> \<not> enters env p s))
    \<and> (\<forall>r. scan contents repository_root (Some root) (Dir_node s es) opts = Inr r \<longrightarrow>
        in_order by_relative_path (scan_files r)
        \<and> set (scan_files r) = {f. \<exists>p a. visited env (children root es) p (File_node a) \<and> accept_file env p a = Some f}
        \<and> (\<forall>f \<in> set (scan_files r). prefix (path_names root) (path_names (file_absolute_path f))
            \<and> file_size_bytes f \<le> opt_max_file_bytes opts
            \<and> \<not> matches_any (opt_exclude_globs opts) (file_relative_path f)
            \<and> (source_language (file_relative_path f) \<noteq> [] \<or> matches_any (opt_include_globs opts) (file_relative_path f)))
        \<and> files_indexable (scan_stats r) = length (scan_files r)
        \<and> files_seen (scan_stats r) = files_indexable (scan_stats r) + files_skipped (scan_stats r))"
proof -
  let ?loop = "scan_loop env (children root es) no_files"
  have s: "scan contents repository_root (Some root) (Dir_node s es) opts
      = res_bind ?loop (\<lambda>r. Inr (r\<lparr>scan_files := sort_by by_relative_path (scan_files r)\<rparr>))"
    using assms(2,4) by (simp add: scan_def)
  have "(\<exists>r. scan contents repository_root (Some root) (Dir_node s es) opts = Inr r) \<longleftrightarrow> (\<exists>r. ?loop = Inr r)"
    unfolding s by (auto simp: res_simps)
  note total = this [unfolded scan_loop_total]
  have ok: "in_order by_relative_path (scan_files r) \<and> set (scan_files r) = accepted env (children root es) \<and> stats_ok r"
    if "scan contents repository_root (Some root) (Dir_node s es) opts = Inr r" for r
  proof -
    from that obtain r0 where r0: "?loop = Inr r0" "r = r0\<lparr>scan_files := sort_by by_relative_path (scan_files r0)\<rparr>"
      unfolding s by (auto simp: res_simps)
    have "stats_ok no_files" by (simp add: stats_ok_def no_files_def)
    from scan_loop_ok [OF r0(1) this] have "stats_ok r0" "set (scan_files r0) = accepted env (children root es)"
      by (simp_all add: no_files_def)
    then show ?thesis using r0(2) path_order.sort_by_in_order [of "scan_files r0"]
      by (simp add: stats_ok_def list_all_iff)
  qed
  have files: "prefix (path_names root) (path_names (file_absolute_path f))
            \<and> file_size_bytes f \<le> opt_max_file_bytes opts
            \<and> \<not> matches_any (opt_exclude_globs opts) (file_relative_path f)
            \<and> (source_language (file_relative_path f) \<noteq> [] \<or> matches_any (opt_include_globs opts) (file_relative_path f))"
    if f: "f \<in> accepted env (children root es)" for f
  proof -
    from f obtain p a where v: "visited env (children root es) p (File_node a)" and a: "accept_file env p a = Some f"
      by (auto simp: accepted_def)
    note d = accept_fileD [OF a]
    have "canonical_path (file_absolute_path f)" using assms(3) v d(1) by blast
    with is_within_iff [OF assms(1)] d(2) have "prefix (path_names root) (path_names (file_absolute_path f))"
      by (simp add: assms(4))
    with d show ?thesis by (simp add: assms(4))
  qed
  show ?thesis
    using total ok files by (auto simp: stats_ok_def accepted_def)
qed

definition sample_entries :: "(string \<times> fs_node) list" where
  "sample_entries = [(''a.cpp'', File_node \<lparr>attr_canonical = Some ''/r/a.cpp'', attr_size = Some 3\<rparr>)]"

definition sample_scan_options :: FileScannerOptions where
  "sample_scan_options = \<lparr>opt_max_file_bytes = 10, opt_include_globs = [], opt_exclude_globs = []\<rparr>"

lemma sample_visited:
  "visited env (children ''/r'' sample_entries) p n \<longleftrightarrow>
    p = ''/r/a.cpp'' \<and> n = File_node \<lparr>attr_canonical = Some ''/r/a.cpp'', attr_size = Some 3\<rparr>"
  by (simp add: sample_entries_def children_def visited_Cons path_append_def is_absolute_def)

theorem scan_finds_files_witness:
  "\<exists>r. scan Map.empty ''.'' (Some ''/r'') (Dir_node False sample_entries) sample_scan_options = Inr r
    \<and> files_indexable (scan_stats r) = length (scan_files r)"
proof -
  have c: "canonical_path ''/r''" "canonical_path ''/r/a.cpp''"
    unfolding canonical_path_def by code_simp+
  have m: "0 < opt_max_file_bytes sample_scan_options" by (simp add: sample_scan_options_def)
  from scan_finds_files [OF c(1) m _ refl, where es = sample_entries and contents = Map.empty and s = False
    and repository_root = "''.''"]
  show ?thesis using c(2) by (simp add: sample_visited) (elim conjE exE, blast)
qed

text \<open>
  A rule for directories is compared as a literal prefix of the path from its ignore file: unlike in
  git, it does not apply to directories further down.
\<close>

lemma directory_rule_is_anchored:
  "map_option (\<lambda>rule. (matches_rule rule ''bin/x.cpp'', matches_rule rule ''a/bin/x.cpp'')) (parse_rule ''bin/'')
    = Some (True, False)"
  by code_simp

end
