(* ===== verification/Configuration.thy ===== *)
theory Configuration
  imports Json Paths
begin

text \<open>
  \<^verbatim>\<open>src/support/config.cpp\<close>: reading the configuration from a parsed JSON document, with defaults and
  validation. Opening and parsing the file is the argument \<open>parsed\<close> of \<open>load_config\<close>.
\<close>

record ModelConfig =
  model_path :: path
  model_context_size :: nat
  model_batch_size :: nat
  model_gpu_layers :: int
  model_flash_attention :: bool
  model_chat_template :: "string option"

record IndexConfig =
  index_data_dir :: path
  index_chunk_lines :: nat
  index_overlap_lines :: nat
  index_max_file_bytes :: nat
  index_top_k :: nat
  index_hnsw_enabled :: bool
  index_hnsw_ef_search :: nat
  index_reranker_enabled :: bool
  index_rerank_candidates :: nat
  index_semantic_index_enabled :: bool
  index_compilation_database_dir :: path

record AppConfig =
  app_generation_model :: ModelConfig
  app_embedding_model :: ModelConfig
  app_index :: IndexConfig
  app_log_level :: string

definition default_model :: ModelConfig where
  "default_model = \<lparr>model_path = [], model_context_size = 4096, model_batch_size = 512,
     model_gpu_layers = - 1, model_flash_attention = True, model_chat_template = None\<rparr>"

definition default_index :: IndexConfig where
  "default_index = \<lparr>index_data_dir = ''var/index'', index_chunk_lines = 80, index_overlap_lines = 16,
     index_max_file_bytes = 1048576, index_top_k = 8, index_hnsw_enabled = False,
     index_hnsw_ef_search = 256, index_reranker_enabled = False, index_rerank_candidates = 30,
     index_semantic_index_enabled = False, index_compilation_database_dir = ''build''\<rparr>"

section \<open>Reading\<close>

abbreviation invalid :: "string \<Rightarrow> 'a res" where
  "invalid m \<equiv> Inl (Invalid_argument m)"

text \<open>The third check of the source (a value above the largest size) can never fail on 64 bits.\<close>

definition read_size :: "json \<Rightarrow> string \<Rightarrow> nat \<Rightarrow> nat res" where
  "read_size obj key fallback = (case json_find obj key of
     None \<Rightarrow> Inr fallback
   | Some j \<Rightarrow> if \<not> is_number_integer j then invalid (key @ '' must be an integer'')
       else res_bind (get_signed 63 j) (\<lambda>v.
         if v < 0 then invalid (key @ '' must not be negative'')
         else if int size_max < v then invalid (key @ '' is too large'')
         else Inr (nat v)))"

definition read_bool :: "json \<Rightarrow> string \<Rightarrow> bool \<Rightarrow> bool res" where
  "read_bool obj key fallback = (case json_find obj key of
     None \<Rightarrow> Inr fallback
   | Some (Json_bool b) \<Rightarrow> Inr b
   | Some _ \<Rightarrow> invalid (key @ '' must be a boolean''))"

text \<open>A member that has to be a string, named in the message by its full name.\<close>

definition read_string :: "json \<Rightarrow> string \<Rightarrow> string \<Rightarrow> string \<Rightarrow> string res" where
  "read_string obj key full fallback = (case json_find obj key of
     None \<Rightarrow> Inr fallback
   | Some (Json_string s) \<Rightarrow> Inr s
   | Some _ \<Rightarrow> invalid (full @ '' must be a string''))"

definition read_chat_template :: "json \<Rightarrow> string \<Rightarrow> string option \<Rightarrow> string option res" where
  "read_chat_template obj key fallback = (case json_find obj ''chat_template'' of
     None \<Rightarrow> Inr fallback
   | Some (Json_string s) \<Rightarrow> if s = [] then invalid (key @ ''.chat_template must not be empty'') else Inr (Some s)
   | Some _ \<Rightarrow> invalid (key @ ''.chat_template must be a string''))"

definition read_model :: "json \<Rightarrow> string \<Rightarrow> ModelConfig \<Rightarrow> ModelConfig res" where
  "read_model root key fallback = (case json_find root key of
     None \<Rightarrow> Inr fallback
   | Some obj \<Rightarrow> if \<not> is_object obj then invalid (key @ '' must be an object'')
     else res_bind (read_string obj ''path'' (key @ ''.path'') (model_path fallback)) (\<lambda>p.
     res_bind (read_size obj ''context_size'' (model_context_size fallback)) (\<lambda>context_size.
     res_bind (read_size obj ''batch_size'' (model_batch_size fallback)) (\<lambda>batch_size.
     res_bind (json_value (get_signed 31) obj ''gpu_layers'' (model_gpu_layers fallback)) (\<lambda>gpu_layers.
     res_bind (json_value get_bool obj ''flash_attention'' (model_flash_attention fallback)) (\<lambda>flash.
     res_bind (read_chat_template obj key (model_chat_template fallback)) (\<lambda>template.
       Inr \<lparr>model_path = p, model_context_size = context_size, model_batch_size = batch_size,
         model_gpu_layers = gpu_layers, model_flash_attention = flash,
         model_chat_template = template\<rparr>)))))))"

definition read_index :: "json \<Rightarrow> IndexConfig res" where
  "read_index root = (let d = default_index in case json_find root ''index'' of
     None \<Rightarrow> Inr d
   | Some obj \<Rightarrow> if \<not> is_object obj then invalid ''index must be an object''
     else res_bind (read_string obj ''data_dir'' ''index.data_dir'' (index_data_dir d)) (\<lambda>data_dir.
     res_bind (read_size obj ''chunk_lines'' (index_chunk_lines d)) (\<lambda>chunk_lines.
     res_bind (read_size obj ''overlap_lines'' (index_overlap_lines d)) (\<lambda>overlap_lines.
     res_bind (read_size obj ''max_file_bytes'' (index_max_file_bytes d)) (\<lambda>max_file_bytes.
     res_bind (read_size obj ''top_k'' (index_top_k d)) (\<lambda>top_k.
     res_bind (read_bool obj ''hnsw_enabled'' (index_hnsw_enabled d)) (\<lambda>hnsw.
     res_bind (read_size obj ''hnsw_ef_search'' (index_hnsw_ef_search d)) (\<lambda>ef_search.
     res_bind (read_bool obj ''reranker_enabled'' (index_reranker_enabled d)) (\<lambda>reranker.
     res_bind (read_size obj ''rerank_candidates'' (index_rerank_candidates d)) (\<lambda>candidates.
     res_bind (read_bool obj ''semantic_index_enabled'' (index_semantic_index_enabled d)) (\<lambda>semantic.
     res_bind (read_string obj ''compilation_database_dir'' ''index.compilation_database_dir''
         (index_compilation_database_dir d)) (\<lambda>database_dir.
       Inr \<lparr>index_data_dir = data_dir, index_chunk_lines = chunk_lines,
         index_overlap_lines = overlap_lines, index_max_file_bytes = max_file_bytes,
         index_top_k = top_k, index_hnsw_enabled = hnsw, index_hnsw_ef_search = ef_search,
         index_reranker_enabled = reranker, index_rerank_candidates = candidates,
         index_semantic_index_enabled = semantic,
         index_compilation_database_dir = database_dir\<rparr>))))))))))))"

section \<open>Validation\<close>

definition validate_model :: "ModelConfig \<Rightarrow> string \<Rightarrow> unit res" where
  "validate_model c name = (
     if model_path c = [] then invalid (name @ ''.path must not be empty'')
     else if model_context_size c < 128 \<or> 1048576 < model_context_size c
       then invalid (name @ ''.context_size must be in [128, 1048576]'')
     else if model_batch_size c = 0 \<or> model_context_size c < model_batch_size c
       then invalid (name @ ''.batch_size must be in [1, context_size]'')
     else if model_gpu_layers c < - 1 \<or> 999 < model_gpu_layers c
       then invalid (name @ ''.gpu_layers must be in [-1, 999]'')
     else Inr ())"

definition validate_index :: "IndexConfig \<Rightarrow> unit res" where
  "validate_index c = (
     if index_data_dir c = [] then invalid ''index.data_dir must not be empty''
     else if index_chunk_lines c = 0 then invalid ''index.chunk_lines must be positive''
     else if index_chunk_lines c \<le> index_overlap_lines c
       then invalid ''index.overlap_lines must be smaller than chunk_lines''
     else if index_max_file_bytes c = 0 \<or> 67108864 < index_max_file_bytes c
       then invalid ''index.max_file_bytes must be in [1, 67108864]''
     else if index_top_k c = 0 \<or> 1000 < index_top_k c then invalid ''index.top_k must be in [1, 1000]''
     else if index_hnsw_ef_search c = 0 \<or> 10000 < index_hnsw_ef_search c
       then invalid ''index.hnsw_ef_search must be in [1, 10000]''
     else if index_rerank_candidates c < 20 \<or> 50 < index_rerank_candidates c
       then invalid ''index.rerank_candidates must be in [20, 50]''
     else if index_semantic_index_enabled c \<and> index_compilation_database_dir c = []
       then invalid ''index.compilation_database_dir must not be empty when semantic indexing is enabled''
     else Inr ())"

definition log_levels :: "string list" where
  "log_levels = [''trace'', ''debug'', ''info'', ''warn'', ''error'', ''critical'', ''off'']"

definition validate_config :: "AppConfig \<Rightarrow> unit res" where
  "validate_config c =
     res_bind (validate_model (app_generation_model c) ''generation_model'') (\<lambda>_.
     res_bind (validate_model (app_embedding_model c) ''embedding_model'') (\<lambda>_.
     res_bind (validate_index (app_index c)) (\<lambda>_.
     if app_log_level c \<in> set log_levels then Inr ()
     else invalid (''unsupported log_level: '' @ app_log_level c))))"

section \<open>Loading\<close>

text \<open>\<open>None\<close>: the file cannot be opened; \<open>Some (Inl m)\<close>: a parse error with its position and description.\<close>

definition load_config :: "path \<Rightarrow> (string + json) option \<Rightarrow> AppConfig res" where
  "load_config p parsed = (case parsed of
     None \<Rightarrow> Inl (Runtime_error (''cannot open config file: '' @ p))
   | Some (Inl m) \<Rightarrow> Inl (Runtime_error (''failed to parse config '' @ [CHR 0x27] @ p @ [CHR 0x27] @ '' at byte '' @ m))
   | Some (Inr root) \<Rightarrow>
       if \<not> is_object root then invalid (''config root must be a JSON object: '' @ p)
       else res_bind (read_model root ''generation_model'' default_model) (\<lambda>generation.
         res_bind (read_model root ''embedding_model'' generation) (\<lambda>embedding.
         res_bind (read_index root) (\<lambda>index.
         res_bind (json_value get_string root ''log_level'' ''info'') (\<lambda>log_level.
         let c = \<lparr>app_generation_model = generation, app_embedding_model = embedding,
           app_index = index, app_log_level = log_level\<rparr>
         in res_bind (validate_config c) (\<lambda>_. Inr c))))))"

section \<open>What validation guarantees\<close>

definition model_valid :: "ModelConfig \<Rightarrow> bool" where
  "model_valid c \<longleftrightarrow> model_path c \<noteq> [] \<and> 128 \<le> model_context_size c \<and> model_context_size c \<le> 1048576
     \<and> 1 \<le> model_batch_size c \<and> model_batch_size c \<le> model_context_size c
     \<and> - 1 \<le> model_gpu_layers c \<and> model_gpu_layers c \<le> 999"

definition index_valid :: "IndexConfig \<Rightarrow> bool" where
  "index_valid c \<longleftrightarrow> index_data_dir c \<noteq> [] \<and> index_overlap_lines c < index_chunk_lines c
     \<and> 1 \<le> index_max_file_bytes c \<and> index_max_file_bytes c \<le> 67108864
     \<and> 1 \<le> index_top_k c \<and> index_top_k c \<le> 1000
     \<and> 1 \<le> index_hnsw_ef_search c \<and> index_hnsw_ef_search c \<le> 10000
     \<and> 20 \<le> index_rerank_candidates c \<and> index_rerank_candidates c \<le> 50
     \<and> (index_semantic_index_enabled c \<longrightarrow> index_compilation_database_dir c \<noteq> [])"

lemma validate_model_iff: "validate_model c name = Inr () \<longleftrightarrow> model_valid c"
  by (auto simp: validate_model_def model_valid_def)

lemma validate_index_iff: "validate_index c = Inr () \<longleftrightarrow> index_valid c"
  by (auto simp: validate_index_def index_valid_def)

lemma validate_config_iff:
  "validate_config c = Inr () \<longleftrightarrow> model_valid (app_generation_model c) \<and> model_valid (app_embedding_model c)
     \<and> index_valid (app_index c) \<and> app_log_level c \<in> set log_levels"
  by (auto simp: validate_config_def res_simps validate_model_iff validate_index_iff)

lemma validate_errors:
  "validate_model c name = Inl e \<Longrightarrow> \<exists>m. e = Invalid_argument m"
  "validate_index i = Inl e \<Longrightarrow> \<exists>m. e = Invalid_argument m"
  by (auto simp: validate_model_def validate_index_def split: if_splits)

section \<open>What a configuration file says\<close>

text \<open>
  The documented meaning of a file, member by member, with the defaults written out. A missing section
  is an empty one. A size is an integer from 0 to \<open>2 ^ 63 - 1\<close>; \<open>gpu_layers\<close> is what the JSON library
  makes of the member as a 32-bit integer, the only member whose type is not checked.
\<close>

definition section_of :: "json \<Rightarrow> string \<Rightarrow> json \<Rightarrow> bool" where
  "section_of root key obj \<longleftrightarrow> (case json_find root key of
     None \<Rightarrow> obj = Json_object []
   | Some j \<Rightarrow> obj = j \<and> is_object j)"

definition size_member :: "json \<Rightarrow> string \<Rightarrow> nat \<Rightarrow> nat \<Rightarrow> bool" where
  "size_member obj key d v \<longleftrightarrow> (case json_find obj key of
     None \<Rightarrow> v = d
   | Some (Json_unsigned n) \<Rightarrow> v = n \<and> n < 2 ^ 63
   | Some (Json_integer z) \<Rightarrow> int v = z
   | Some _ \<Rightarrow> False)"

definition bool_member :: "json \<Rightarrow> string \<Rightarrow> bool \<Rightarrow> bool \<Rightarrow> bool" where
  "bool_member obj key d v \<longleftrightarrow> (case json_find obj key of None \<Rightarrow> v = d | Some j \<Rightarrow> j = Json_bool v)"

definition string_member :: "json \<Rightarrow> string \<Rightarrow> string \<Rightarrow> string \<Rightarrow> bool" where
  "string_member obj key d v \<longleftrightarrow> (case json_find obj key of None \<Rightarrow> v = d | Some j \<Rightarrow> j = Json_string v)"

definition template_member :: "json \<Rightarrow> string option \<Rightarrow> string option \<Rightarrow> bool" where
  "template_member obj d v \<longleftrightarrow> (case json_find obj ''chat_template'' of
     None \<Rightarrow> v = d
   | Some j \<Rightarrow> \<exists>s. s \<noteq> [] \<and> j = Json_string s \<and> v = Some s)"

definition layers_member :: "json \<Rightarrow> int \<Rightarrow> int \<Rightarrow> bool" where
  "layers_member obj d v \<longleftrightarrow> (case json_find obj ''gpu_layers'' of
     None \<Rightarrow> v = d
   | Some (Json_unsigned n) \<Rightarrow> v = to_signed 31 (int n)
   | Some (Json_integer z) \<Rightarrow> v = to_signed 31 z
   | Some j \<Rightarrow> get_signed 31 j = Inr v)"

definition model_members :: "json \<Rightarrow> path \<Rightarrow> nat \<Rightarrow> nat \<Rightarrow> int \<Rightarrow> bool \<Rightarrow> string option \<Rightarrow> ModelConfig \<Rightarrow> bool" where
  "model_members obj p context batch layers flash template c \<longleftrightarrow>
     string_member obj ''path'' p (model_path c)
     \<and> size_member obj ''context_size'' context (model_context_size c)
     \<and> size_member obj ''batch_size'' batch (model_batch_size c)
     \<and> layers_member obj layers (model_gpu_layers c)
     \<and> bool_member obj ''flash_attention'' flash (model_flash_attention c)
     \<and> template_member obj template (model_chat_template c)"

definition index_members :: "json \<Rightarrow> IndexConfig \<Rightarrow> bool" where
  "index_members obj c \<longleftrightarrow>
     string_member obj ''data_dir'' ''var/index'' (index_data_dir c)
     \<and> size_member obj ''chunk_lines'' 80 (index_chunk_lines c)
     \<and> size_member obj ''overlap_lines'' 16 (index_overlap_lines c)
     \<and> size_member obj ''max_file_bytes'' 1048576 (index_max_file_bytes c)
     \<and> size_member obj ''top_k'' 8 (index_top_k c)
     \<and> bool_member obj ''hnsw_enabled'' False (index_hnsw_enabled c)
     \<and> size_member obj ''hnsw_ef_search'' 256 (index_hnsw_ef_search c)
     \<and> bool_member obj ''reranker_enabled'' False (index_reranker_enabled c)
     \<and> size_member obj ''rerank_candidates'' 30 (index_rerank_candidates c)
     \<and> bool_member obj ''semantic_index_enabled'' False (index_semantic_index_enabled c)
     \<and> string_member obj ''compilation_database_dir'' ''build'' (index_compilation_database_dir c)"

definition configures :: "json \<Rightarrow> AppConfig \<Rightarrow> bool" where
  "configures root c \<longleftrightarrow> is_object root
     \<and> (\<exists>obj. section_of root ''generation_model'' obj
          \<and> model_members obj [] 4096 512 (- 1) True None (app_generation_model c))
     \<and> (\<exists>obj. section_of root ''embedding_model'' obj \<and> (let g = app_generation_model c in
          model_members obj (model_path g) (model_context_size g) (model_batch_size g)
            (model_gpu_layers g) (model_flash_attention g) (model_chat_template g)
            (app_embedding_model c)))
     \<and> (\<exists>obj. section_of root ''index'' obj \<and> index_members obj (app_index c))
     \<and> string_member root ''log_level'' ''info'' (app_log_level c)"

section \<open>Reading finds what the file says\<close>

named_theorems member_simps

lemma read_size_member [member_simps]:
  assumes "\<forall>j. json_find obj key = Some j \<longrightarrow> number_fits j"
  shows "read_size obj key d = Inr v \<longleftrightarrow> size_member obj key d v"
proof (cases "json_find obj key")
  case (Some j)
  with assms have fits: "number_fits j" by blast
  show ?thesis
  proof (cases j)
    case (Json_unsigned n)
    have "0 \<le> to_signed 63 (int n) \<longleftrightarrow> n < 2 ^ 63" "n < 2 ^ 63 \<Longrightarrow> to_signed 63 (int n) = int n"
      using fits Json_unsigned to_signed_high [of 63 "int n"] to_signed_id [of 63 "int n"]
      by (cases "n < 2 ^ 63"; simp)+
    with Some Json_unsigned show ?thesis
      by (cases "n < 2 ^ 63") (auto simp: read_size_def size_member_def)
  next
    case (Json_integer z)
    then have "to_signed 63 z = z" using fits by (intro to_signed_id) simp_all
    with Some Json_integer fits show ?thesis by (auto simp: read_size_def size_member_def)
  qed (use Some in \<open>auto simp: read_size_def size_member_def\<close>)
qed (auto simp: read_size_def size_member_def)

lemma read_bool_member [member_simps]: "read_bool obj key d = Inr v \<longleftrightarrow> bool_member obj key d v"
  by (auto simp: read_bool_def bool_member_def split: option.splits json.splits)

lemma value_bool_member [member_simps]:
  "is_object obj \<Longrightarrow> json_value get_bool obj key d = Inr v \<longleftrightarrow> bool_member obj key d v"
  by (auto simp: json_value_def bool_member_def elim!: get_bool.elims split: option.splits)

lemma read_string_member [member_simps]:
  "read_string obj key full d = Inr v \<longleftrightarrow> string_member obj key d v"
  by (auto simp: read_string_def string_member_def split: option.splits json.splits)

lemma value_string_member [member_simps]:
  "is_object obj \<Longrightarrow> json_value get_string obj key d = Inr v \<longleftrightarrow> string_member obj key d v"
  by (auto simp: json_value_def string_member_def elim!: get_string.elims split: option.splits)

lemma read_chat_template_member [member_simps]:
  "read_chat_template obj key d = Inr v \<longleftrightarrow> template_member obj d v"
  by (auto simp: read_chat_template_def template_member_def split: option.splits json.splits)

lemma value_layers_member [member_simps]:
  "is_object obj \<Longrightarrow> json_value (get_signed 31) obj ''gpu_layers'' d = Inr v \<longleftrightarrow> layers_member obj d v"
  by (auto simp: json_value_def layers_member_def split: option.splits json.splits)

lemma empty_members:
  "size_member (Json_object []) key d v \<longleftrightarrow> v = d" "bool_member (Json_object []) key e b \<longleftrightarrow> b = e"
  "string_member (Json_object []) key f s \<longleftrightarrow> s = f" "template_member (Json_object []) g t \<longleftrightarrow> t = g"
  "layers_member (Json_object []) n l \<longleftrightarrow> l = n"
  by (simp_all add: size_member_def bool_member_def string_member_def template_member_def layers_member_def)

lemma read_model_members:
  assumes "json_fits root"
  shows "read_model root key d = Inr c \<longleftrightarrow> (\<exists>obj. section_of root key obj \<and>
    model_members obj (model_path d) (model_context_size d) (model_batch_size d) (model_gpu_layers d)
      (model_flash_attention d) (model_chat_template d) c)"
proof (cases "json_find root key")
  case None
  then show ?thesis by (cases c; cases d) (auto simp: read_model_def section_of_def model_members_def empty_members)
next
  case (Some obj)
  have "json_find obj k = Some j \<Longrightarrow> number_fits j" for k j
    using json_fits_find [OF json_fits_find [OF assms Some]] json_fits_number by blast
  then show ?thesis using Some
    by (cases c) (auto simp: read_model_def section_of_def model_members_def res_simps member_simps)
qed

lemma read_index_members:
  assumes "json_fits root"
  shows "read_index root = Inr c \<longleftrightarrow> (\<exists>obj. section_of root ''index'' obj \<and> index_members obj c)"
proof (cases "json_find root ''index''")
  case None
  then show ?thesis
    by (cases c) (auto simp: read_index_def default_index_def section_of_def index_members_def empty_members)
next
  case (Some obj)
  have "json_find obj k = Some j \<Longrightarrow> number_fits j" for k j
    using json_fits_find [OF json_fits_find [OF assms Some]] json_fits_number by blast
  then show ?thesis using Some
    by (cases c) (auto simp: read_index_def default_index_def section_of_def index_members_def Let_def
      res_simps member_simps)
qed

section \<open>Properties\<close>


definition sample_root :: json where
  "sample_root = Json_object [(''generation_model'', Json_object [(''path'', Json_string ''m.gguf'')]),
     (''index'', Json_object [(''top_k'', Json_unsigned 5)])]"

lemma sample_load: "\<exists>c. load_config ''c.json'' (Some (Inr sample_root)) = Inr c"
  by (simp add: load_config_def sample_root_def read_model_def read_index_def read_string_def read_size_def
      read_bool_def read_chat_template_def json_value_def default_model_def default_index_def
      validate_config_def validate_model_def validate_index_def log_levels_def to_signed_def Let_def)


text \<open>
  The number of GPU layers is the one member whose conversion is not checked: the largest 32-bit
  unsigned number is taken for the default -1, and so is \<open>true\<close> for one layer.
\<close>

lemma gpu_layers_unchecked:
  "layers_member (Json_object [(''gpu_layers'', Json_unsigned 4294967295)]) 0 v \<longleftrightarrow> v = - 1"
  "layers_member (Json_object [(''gpu_layers'', Json_bool True)]) 0 v \<longleftrightarrow> v = 1"
  by (auto simp: layers_member_def to_signed_def)

end
