(* ===== verification/Retrieval.thy ===== *)
theory Retrieval
  imports Domain
begin

text \<open>
  The retrievers of \<^verbatim>\<open>src/application\<close>: reciprocal rank fusion
  (\<^verbatim>\<open>reciprocal_rank_fusion.cpp\<close>), the vector and the hybrid retriever
  (\<^verbatim>\<open>hybrid_retriever.cpp\<close>) and the symbol-graph retriever
  (\<^verbatim>\<open>symbol_graph_retriever.cpp\<close>). Scores are accumulated in a
  \<^verbatim>\<open>std::unordered_map\<close>, whose order of iteration is unspecified: it is the argument \<open>iterate\<close>,
  a permutation of the entries.
\<close>

type_synonym score_map = "(ChunkId \<times> float32) list"
type_synonym iteration = "score_map \<Rightarrow> score_map"

section \<open>Score maps\<close>

text \<open>\<open>scores[id] += x\<close>: an absent entry starts at zero.\<close>

fun add_score :: "ChunkId \<Rightarrow> float32 \<Rightarrow> score_map \<Rightarrow> score_map" where
  "add_score i x [] = [(i, f32_add 0 x)]"
| "add_score i x ((j, s) # m) = (if i = j then (j, f32_add s x) # m else (j, s) # add_score i x m)"

text \<open>The common tail of the retrievers: collect the entries, sort them, keep the first.\<close>

definition rank_scores :: "iteration \<Rightarrow> nat \<Rightarrow> score_map \<Rightarrow> SearchHit list" where
  "rank_scores iterate top_k scores =
     take top_k (sort_by better (map (\<lambda>(i, s). \<lparr>hit_chunk_id = i, hit_score = s\<rparr>) (iterate scores)))"

section \<open>Reciprocal rank fusion\<close>

definition rank_weight :: "nat \<Rightarrow> nat \<Rightarrow> float32" where
  "rank_weight rank_constant index =
     f32_div f32_one (f32_of_nat (sz_add (sz_add rank_constant index) 1))"

fun accumulate :: "nat \<Rightarrow> nat \<Rightarrow> SearchHit list \<Rightarrow> score_map \<Rightarrow> score_map" where
  "accumulate rank_constant index [] scores = scores"
| "accumulate rank_constant index (h # hs) scores =
     accumulate rank_constant (index + 1) hs
       (add_score (hit_chunk_id h) (rank_weight rank_constant index) scores)"

definition fused_scores :: "nat \<Rightarrow> SearchHit list list \<Rightarrow> score_map" where
  "fused_scores rank_constant ranked = fold (accumulate rank_constant 0) ranked []"

definition reciprocal_rank_fuse ::
  "iteration \<Rightarrow> SearchHit list list \<Rightarrow> nat \<Rightarrow> nat \<Rightarrow> SearchHit list res" where
  "reciprocal_rank_fuse iterate ranked_lists top_k rank_constant = (
     if top_k = 0 then Inr []
     else if rank_constant = 0
       then Inl (Invalid_argument ''RRF rank constant must be positive'')
     else Inr (rank_scores iterate top_k (fused_scores rank_constant ranked_lists)))"

definition reciprocal_rank_fuse_two ::
  "iteration \<Rightarrow> SearchHit list \<Rightarrow> SearchHit list \<Rightarrow> nat \<Rightarrow> nat \<Rightarrow> SearchHit list res" where
  "reciprocal_rank_fuse_two iterate vector_hits keyword_hits top_k rank_constant = (
     if top_k = 0 then Inr []
     else if rank_constant = 0
       then Inl (Invalid_argument ''RRF rank constant must be positive'')
     else reciprocal_rank_fuse iterate [vector_hits, keyword_hits] top_k rank_constant)"

section \<open>The vector and the hybrid retriever\<close>

type_synonym embed_function = "string \<Rightarrow> EmbeddingKind \<Rightarrow> Embedding res"
type_synonym vector_search = "Embedding \<Rightarrow> nat \<Rightarrow> SearchHit list res"
type_synonym text_search = "string \<Rightarrow> nat \<Rightarrow> SearchHit list res"

definition vector_retrieve ::
  "embed_function \<Rightarrow> vector_search \<Rightarrow> string \<Rightarrow> nat \<Rightarrow> SearchHit list res" where
  "vector_retrieve embedder search query top_k = (
     if query = [] \<or> top_k = 0
     then Inl (Invalid_argument ''retrieval query and top_k must be provided'')
     else res_bind (embedder query Embed_query) (\<lambda>v. search v top_k))"

record HybridRetrievalOptions =
  vector_candidates :: nat
  keyword_candidates :: nat
  rrf_rank_constant :: nat

record HybridRetriever =
  hybrid_embed :: embed_function
  hybrid_vector_search :: vector_search
  hybrid_keyword_search :: text_search
  hybrid_symbols :: "text_search option"
  hybrid_options :: HybridRetrievalOptions

definition make_hybrid :: "HybridRetriever \<Rightarrow> HybridRetriever res" where
  "make_hybrid h = (let opts = hybrid_options h in
     if vector_candidates opts = 0 \<or> keyword_candidates opts = 0 \<or> rrf_rank_constant opts = 0
     then Inl (Invalid_argument ''hybrid retrieval options must be positive'')
     else Inr h)"

definition hybrid_retrieve ::
  "iteration \<Rightarrow> HybridRetriever \<Rightarrow> string \<Rightarrow> nat \<Rightarrow> SearchHit list res" where
  "hybrid_retrieve iterate h query top_k = (
     if query = [] \<or> top_k = 0
     then Inl (Invalid_argument ''retrieval query and top_k must be provided'')
     else let opts = hybrid_options h;
         vector_limit = max top_k (vector_candidates opts);
         keyword_limit = max top_k (keyword_candidates opts) in
       res_bind (hybrid_embed h query Embed_query) (\<lambda>v.
       res_bind (hybrid_vector_search h v vector_limit) (\<lambda>vector_hits.
       res_bind (hybrid_keyword_search h query keyword_limit) (\<lambda>keyword_hits.
       res_bind (case hybrid_symbols h of None \<Rightarrow> Inr [] | Some r \<Rightarrow> r query top_k) (\<lambda>symbol_hits.
         reciprocal_rank_fuse iterate [vector_hits, keyword_hits, symbol_hits] top_k
           (rrf_rank_constant opts))))))"

section \<open>The symbol-graph retriever\<close>

datatype SymbolKind = Kind_namespace | Kind_class | Kind_struct | Kind_function | Kind_method
  | Kind_constructor | Kind_destructor | Kind_enum | Kind_variable

record Symbol =
  symbol_id :: "64 word"
  symbol_kind :: SymbolKind
  symbol_name :: string
  symbol_signature :: string
  symbol_declaration :: SourceRange
  symbol_definition :: "SourceRange option"

record SymbolEdge =
  edge_from :: "64 word"
  edge_to :: "64 word"
  edge_relation :: string

record SymbolQueries =
  find_exact :: "string \<Rightarrow> Symbol list res"
  outgoing :: "64 word \<Rightarrow> string \<Rightarrow> SymbolEdge list res"
  incoming :: "64 word \<Rightarrow> string \<Rightarrow> SymbolEdge list res"

definition flush_name :: "string \<Rightarrow> string list \<Rightarrow> string list" where
  "flush_name token names = (if contains token ''::'' then names @ [token] else names)"

fun scan_names :: "string \<Rightarrow> string \<Rightarrow> string list \<Rightarrow> string list" where
  "scan_names [] token names = flush_name token names"
| "scan_names (c # cs) token names = (
     if is_alnum c \<or> c = CHR ''_'' \<or> c = CHR '':'' then scan_names cs (token @ [c]) names
     else scan_names cs [] (flush_name token names))"

definition extract_qualified_names :: "string \<Rightarrow> string list" where
  "extract_qualified_names query = scan_names query [] []"

text \<open>The Chinese word for "call" in the source is these six UTF-8 bytes.\<close>

definition caller_query :: "string \<Rightarrow> bool" where
  "caller_query query = (contains query ''caller'' \<or> contains query ''calls''
     \<or> contains query [CHR 0xE8, CHR 0xB0, CHR 0x83, CHR 0xE7, CHR 0x94, CHR 0xA8])"

fun score_edges :: "bool \<Rightarrow> SymbolEdge list \<Rightarrow> score_map \<Rightarrow> score_map" where
  "score_edges caller [] scores = scores"
| "score_edges caller (e # es) scores =
     score_edges caller es (add_score (if caller then edge_from e else edge_to e) f32_one scores)"

fun score_symbols :: "SymbolQueries \<Rightarrow> bool \<Rightarrow> Symbol list \<Rightarrow> score_map \<Rightarrow> score_map res" where
  "score_symbols repo caller [] scores = Inr scores"
| "score_symbols repo caller (s # ss) scores =
     res_bind (if caller then incoming repo (symbol_id s) ''calls'' else outgoing repo (symbol_id s) [])
       (\<lambda>edges. score_symbols repo caller ss
         (score_edges caller edges (add_score (symbol_id s) f32_two scores)))"

fun score_names :: "SymbolQueries \<Rightarrow> bool \<Rightarrow> string list \<Rightarrow> score_map \<Rightarrow> score_map res" where
  "score_names repo caller [] scores = Inr scores"
| "score_names repo caller (n # ns) scores =
     res_bind (find_exact repo n) (\<lambda>ss.
     res_bind (score_symbols repo caller ss scores) (score_names repo caller ns))"

definition symbol_retrieve ::
  "iteration \<Rightarrow> SymbolQueries \<Rightarrow> string \<Rightarrow> nat \<Rightarrow> SearchHit list res" where
  "symbol_retrieve iterate repo query top_k =
     res_bind (score_names repo (caller_query query) (extract_qualified_names query) [])
       (\<lambda>scores. Inr (rank_scores iterate top_k scores))"

section \<open>Score maps keep one non-negative score per id\<close>

definition scores_ok :: "score_map \<Rightarrow> bool" where
  "scores_ok m \<longleftrightarrow> distinct (map fst m) \<and> (\<forall>(i, s) \<in> set m. f32_nonneg s)"

definition score_of :: "score_map \<Rightarrow> ChunkId \<Rightarrow> float32" where
  "score_of m i = (case map_of m i of Some s \<Rightarrow> s | None \<Rightarrow> 0)"

lemma add_score_ids: "fst ` set (add_score i x m) = insert i (fst ` set m)"
  by (induction i x m rule: add_score.induct) auto

lemma add_score_lookup:
  "map_of (add_score i x m) = (map_of m)(i \<mapsto> f32_add (score_of m i) x)"
  by (induction i x m rule: add_score.induct) (auto simp: score_of_def fun_eq_iff)

lemma score_of_add: "score_of (add_score i x m) j
    = (if i = j then f32_add (score_of m i) x else score_of m j)"
  by (simp add: score_of_def add_score_lookup)

lemma scores_ok_Nil [simp]: "scores_ok []"
  by (simp add: scores_ok_def)

lemma scores_ok_add: "scores_ok m \<Longrightarrow> f32_nonneg x \<Longrightarrow> scores_ok (add_score i x m)"
proof (induction i x m rule: add_score.induct)
  case (2 i x j s m)
  then have "scores_ok m" by (simp add: scores_ok_def)
  with 2 show ?case using add_score_ids [of i x m] by (auto simp: scores_ok_def)
qed (simp add: scores_ok_def)

lemma rank_weight_nonneg [simp]: "f32_nonneg (rank_weight rc i)"
  by (simp add: rank_weight_def)

lemma scores_ok_accumulate: "scores_ok m \<Longrightarrow> scores_ok (accumulate rc i hs m)"
  by (induction rc i hs m rule: accumulate.induct) (simp_all add: scores_ok_add)

lemma accumulate_ids: "fst ` set (accumulate rc i hs m) = fst ` set m \<union> hit_chunk_id ` set hs"
  by (induction rc i hs m rule: accumulate.induct) (auto simp: add_score_ids)

lemma scores_ok_fold: "scores_ok m \<Longrightarrow> scores_ok (fold (accumulate rc 0) ranked m)"
  by (induction ranked arbitrary: m) (simp_all add: scores_ok_accumulate)

lemma fold_accumulate_ids:
  "fst ` set (fold (accumulate rc 0) ranked m) = fst ` set m \<union> (\<Union>l \<in> set ranked. hit_chunk_id ` set l)"
  by (induction ranked arbitrary: m) (auto simp: accumulate_ids)

lemma scores_ok_fused: "scores_ok (fused_scores rc ranked)"
  by (simp add: fused_scores_def scores_ok_fold)

lemma fused_ids: "fst ` set (fused_scores rc ranked) = (\<Union>l \<in> set ranked. hit_chunk_id ` set l)"
  by (simp add: fused_scores_def fold_accumulate_ids)

lemma f32_nonneg_two [simp]: "f32_nonneg f32_two" "f32_nonneg f32_one"
  by (simp_all add: f32_nonneg_def binary32_def)

lemma scores_ok_edges: "scores_ok m \<Longrightarrow> scores_ok (score_edges caller es m)"
  by (induction caller es m rule: score_edges.induct) (simp_all add: scores_ok_add)

lemma scores_ok_symbols:
  "scores_ok m \<Longrightarrow> score_symbols repo caller ss m = Inr m' \<Longrightarrow> scores_ok m'"
  by (induction repo caller ss m rule: score_symbols.induct)
    (auto simp: res_simps scores_ok_edges scores_ok_add split: if_splits)

lemma scores_ok_names:
  "scores_ok m \<Longrightarrow> score_names repo caller ns m = Inr m' \<Longrightarrow> scores_ok m'"
  by (induction repo caller ns m rule: score_names.induct)
    (auto simp: res_simps dest: scores_ok_symbols)

section \<open>Ranked lists\<close>

definition permutes :: "iteration \<Rightarrow> bool" where
  "permutes iterate \<longleftrightarrow> (\<forall>m. mset (iterate m) = mset m)"

abbreviation entry_hit :: "ChunkId \<times> float32 \<Rightarrow> SearchHit" where
  "entry_hit \<equiv> \<lambda>(i, s). \<lparr>hit_chunk_id = i, hit_score = s\<rparr>"

lemma entries_ok:
  assumes "permutes iterate" and "scores_ok m"
  shows "list_all hit_ok (map entry_hit (iterate m))"
    "distinct (map hit_chunk_id (map entry_hit (iterate m)))"
proof -
  have set: "set (iterate m) = set m" using assms(1) by (metis permutes_def set_mset_mset)
  show "list_all hit_ok (map entry_hit (iterate m))"
    using assms(2) f32_nonneg_not_nan by (fastforce simp: set scores_ok_def list_all_iff)
  have "map hit_chunk_id (map entry_hit (iterate m)) = map fst (iterate m)"
    by (simp add: case_prod_unfold)
  moreover have "mset (map fst (iterate m)) = mset (map fst m)"
    using assms(1) by (simp add: permutes_def)
  ultimately show "distinct (map hit_chunk_id (map entry_hit (iterate m)))"
    using assms(2) by (metis mset_eq_imp_distinct_iff scores_ok_def)
qed

lemma rank_scores_order_independent:
  assumes "permutes iterate" and "permutes iterate'" and "scores_ok m"
  shows "rank_scores iterate k m = rank_scores iterate' k m"
proof -
  have "mset (map entry_hit (iterate m)) = mset (map entry_hit (iterate' m))"
    using assms(1,2) by (simp add: permutes_def)
  from sort_hits_unique [OF this entries_ok [OF assms(1,3)]] show ?thesis
    by (simp add: rank_scores_def)
qed

lemma rank_scores_props:
  assumes "permutes iterate" and "scores_ok m"
  shows "in_order better (rank_scores iterate k m)"
    "distinct (map hit_chunk_id (rank_scores iterate k m))"
    "length (rank_scores iterate k m) = min k (length m)"
    "\<And>h. h \<in> set (rank_scores iterate k m) \<Longrightarrow> map_of m (hit_chunk_id h) = Some (hit_score h)"
    "\<And>i s h. map_of m i = Some s \<Longrightarrow> i \<notin> hit_chunk_id ` set (rank_scores iterate k m) \<Longrightarrow>
       h \<in> set (rank_scores iterate k m) \<Longrightarrow> \<not> better \<lparr>hit_chunk_id = i, hit_score = s\<rparr> h"
proof -
  let ?all = "map entry_hit (iterate m)"
  let ?sorted = "sort_by better ?all"
  note ok = entries_ok [OF assms]
  have r: "rank_scores iterate k m = take k ?sorted" by (simp add: rank_scores_def)
  have set: "set (iterate m) = set m" and len: "length (iterate m) = length m"
    using assms(1) unfolding permutes_def by (metis set_mset_mset, metis size_mset)
  show "in_order better (rank_scores iterate k m)"
    unfolding r by (rule hit_order.take_sort_by_in_order [OF ok(1)])
  have "mset (map hit_chunk_id ?sorted) = mset (map hit_chunk_id ?all)"
    by (simp only: mset_map mset_sort_by)
  then have "distinct (map hit_chunk_id ?sorted)" using ok(2) by (metis mset_eq_imp_distinct_iff)
  then show "distinct (map hit_chunk_id (rank_scores iterate k m))"
    unfolding r take_map [symmetric] by (rule distinct_take)
  show "length (rank_scores iterate k m) = min k (length m)"
    unfolding r by (simp add: len min.commute)
  have mem: "h \<in> set ?all \<longleftrightarrow> map_of m (hit_chunk_id h) = Some (hit_score h)" for h
    using assms(2) unfolding scores_ok_def by (cases h) (force simp: set)
  show "map_of m (hit_chunk_id h) = Some (hit_score h)" if "h \<in> set (rank_scores iterate k m)" for h
    using that in_set_takeD [of h k ?sorted] mem [of h] unfolding r set_sort_by by blast
  show "\<not> better \<lparr>hit_chunk_id = i, hit_score = s\<rparr> h"
    if a: "map_of m i = Some s" "i \<notin> hit_chunk_id ` set (rank_scores iterate k m)"
      "h \<in> set (rank_scores iterate k m)" for i s h
  proof -
    let ?x = "\<lparr>hit_chunk_id = i, hit_score = s\<rparr>"
    have "?x \<in> set ?sorted" using a(1) mem [of ?x] unfolding set_sort_by by simp
    then have "?x \<in> set (take k ?sorted) \<union> set (drop k ?sorted)"
      unfolding set_append [symmetric] append_take_drop_id .
    moreover have "?x \<notin> set (take k ?sorted)" using a(2) unfolding r by force
    ultimately have "?x \<in> set (drop k ?sorted)" by blast
    with a(3) show ?thesis unfolding r by (intro hit_order.take_sort_by_best [OF ok(1)])
  qed
qed

section \<open>What fusion computes\<close>

text \<open>The contributions of a ranked list to the score of an id, in the order they are added.\<close>

definition contributions :: "nat \<Rightarrow> SearchHit list \<Rightarrow> ChunkId \<Rightarrow> float32 list" where
  "contributions rc l i = map (rank_weight rc) (filter (\<lambda>j. hit_chunk_id (l ! j) = i) [0..<length l])"

definition rrf_score :: "nat \<Rightarrow> SearchHit list list \<Rightarrow> ChunkId \<Rightarrow> float32" where
  "rrf_score rc ranked i = foldl f32_add 0 (concat (map (\<lambda>l. contributions rc l i) ranked))"

lemma accumulate_score:
  "score_of (accumulate rc k hs m) i = foldl f32_add (score_of m i)
     (map (\<lambda>j. rank_weight rc (k + j)) (filter (\<lambda>j. hit_chunk_id (hs ! j) = i) [0..<length hs]))"
proof (induction rc k hs m rule: accumulate.induct)
  case (2 rc k h hs m)
  have up: "[0..<length (h # hs)] = 0 # map Suc [0..<length hs]"
    by (simp add: map_Suc_upt upt_conv_Cons del: upt_Suc)
  show ?case
    unfolding up using 2 by (simp add: filter_map comp_def score_of_add)
qed simp

lemma fold_accumulate_score:
  "score_of (fold (accumulate rc 0) ranked m) i
     = foldl f32_add (score_of m i) (concat (map (\<lambda>l. contributions rc l i) ranked))"
  by (induction ranked arbitrary: m) (simp_all add: accumulate_score contributions_def)

lemma fused_score: "score_of (fused_scores rc ranked) i = rrf_score rc ranked i"
  by (simp add: fused_scores_def rrf_score_def fold_accumulate_score) (simp add: score_of_def)

lemma fused_lookup:
  "map_of (fused_scores rc ranked) i = (if i \<in> (\<Union>l \<in> set ranked. hit_chunk_id ` set l)
     then Some (rrf_score rc ranked i) else None)"
proof (cases "map_of (fused_scores rc ranked) i")
  case None
  then have "i \<notin> fst ` set (fused_scores rc ranked)" by (simp add: map_of_eq_None_iff)
  with None show ?thesis unfolding fused_ids by simp
next
  case (Some s)
  then have "i \<in> fst ` set (fused_scores rc ranked)" 
    by (metis image_eqI fst_conv map_of_SomeD)
  moreover have "rrf_score rc ranked i = s" using fused_score [of rc ranked i] Some
    by (simp add: score_of_def)
  ultimately show ?thesis using Some unfolding fused_ids by simp
qed

lemma fused_length:
  "length (fused_scores rc ranked) = card (\<Union>l \<in> set ranked. hit_chunk_id ` set l)"
  using scores_ok_fused [of rc ranked] distinct_card [of "map fst (fused_scores rc ranked)"]
  unfolding fused_ids [of rc ranked, symmetric] by (simp add: scores_ok_def)

section \<open>Dominance\<close>

text \<open>A chunk that is ranked at least as high as another in every list that ranks the other.\<close>

definition ranked_above :: "SearchHit list list \<Rightarrow> ChunkId \<Rightarrow> ChunkId \<Rightarrow> bool" where
  "ranked_above ranked a b \<longleftrightarrow> (\<forall>l \<in> set ranked. \<forall>j < length l. hit_chunk_id (l ! j) = b \<longrightarrow>
     (\<exists>k \<le> j. hit_chunk_id (l ! k) = a))"

lemma rank_weight_antimono:
  assumes "i \<le> j" and "rc + j + 1 \<le> size_max"
  shows "unat (rank_weight rc j) \<le> unat (rank_weight rc i)"
  unfolding rank_weight_def using assms
  by (intro f32_recip_antimono f32_of_nat_mono f32_nonneg_of_nat) simp_all

lemma filter_unique: "j < n \<Longrightarrow> (\<And>k. k < n \<Longrightarrow> P k \<longleftrightarrow> k = j) \<Longrightarrow> filter P [0..<n] = [j]"
proof -
  assume j: "j < n" and P: "\<And>k. k < n \<Longrightarrow> P k \<longleftrightarrow> k = j"
  have "filter P [0..<n] = filter (\<lambda>k. k = j) [0..<n]" using P by (intro filter_cong) auto
  also have "\<dots> = [j]" using j by (induction n) (auto simp: less_Suc_eq filter_empty_conv)
  finally show ?thesis .
qed

lemma contributions_ranked:
  assumes "distinct (map hit_chunk_id l)" and "j < length l"
  shows "contributions rc l (hit_chunk_id (l ! j)) = [rank_weight rc j]"
proof -
  have "filter (\<lambda>k. hit_chunk_id (l ! k) = hit_chunk_id (l ! j)) [0..<length l] = [j]"
    using assms by (intro filter_unique) (auto simp: distinct_conv_nth)
  then show ?thesis by (simp add: contributions_def)
qed

lemma contributions_absent: "i \<notin> hit_chunk_id ` set l \<Longrightarrow> contributions rc l i = []"
  by (auto simp: contributions_def filter_empty_conv)

lemma f32_nonneg_foldl:
  "f32_nonneg s \<Longrightarrow> f32_nonneg (foldl f32_add s (contributions rc l i))"
proof -
  have "f32_nonneg s \<Longrightarrow> f32_nonneg (foldl f32_add s (map (rank_weight rc) js))" for js
    by (induction js arbitrary: s) simp_all
  then show "f32_nonneg s \<Longrightarrow> ?thesis" by (simp add: contributions_def)
qed

lemma contribution_mono:
  assumes "distinct (map hit_chunk_id l)" and "rc + length l \<le> size_max" and "ranked_above [l] a b"
    and "f32_nonneg s" and "f32_nonneg t" and "unat t \<le> unat s"
  shows "unat (foldl f32_add t (contributions rc l b)) \<le> unat (foldl f32_add s (contributions rc l a))"
proof (cases "b \<in> hit_chunk_id ` set l")
  case True
  then obtain j where j: "j < length l" "hit_chunk_id (l ! j) = b" by (auto simp: in_set_conv_nth)
  then obtain k where k: "k \<le> j" "hit_chunk_id (l ! k) = a"
    using assms(3) by (auto simp: ranked_above_def)
  have "contributions rc l b = [rank_weight rc j]" "contributions rc l a = [rank_weight rc k]"
    using contributions_ranked [OF assms(1), of _ rc] j k by fastforce+
  moreover have "unat (rank_weight rc j) \<le> unat (rank_weight rc k)"
    using rank_weight_antimono [OF k(1)] j(1) assms(2) by simp
  ultimately show ?thesis using assms(4-6) by (simp add: f32_add_mono)
next
  case False
  show ?thesis
  proof (cases "a \<in> hit_chunk_id ` set l")
    case True
    then obtain k where "k < length l" "hit_chunk_id (l ! k) = a" by (auto simp: in_set_conv_nth)
    then have "contributions rc l a = [rank_weight rc k]" using contributions_ranked [OF assms(1)] by blast
    then show ?thesis
      using False assms(4-6) f32_add_increases [of s "rank_weight rc k"]
      by (simp add: contributions_absent)
  qed (use False assms(6) in \<open>simp add: contributions_absent\<close>)
qed

lemma foldl_dominance:
  assumes "\<forall>l \<in> set ranked. distinct (map hit_chunk_id l) \<and> rc + length l \<le> size_max"
    and "ranked_above ranked a b" and "f32_nonneg s" and "f32_nonneg t" and "unat t \<le> unat s"
  shows "unat (foldl f32_add t (concat (map (\<lambda>l. contributions rc l b) ranked)))
    \<le> unat (foldl f32_add s (concat (map (\<lambda>l. contributions rc l a) ranked)))"
  using assms
proof (induction ranked arbitrary: s t)
  case (Cons l ranked)
  then have "unat (foldl f32_add t (contributions rc l b)) \<le> unat (foldl f32_add s (contributions rc l a))"
    by (intro contribution_mono) (auto simp: ranked_above_def)
  with Cons show ?case
    by (auto simp: ranked_above_def f32_nonneg_foldl intro!: Cons.IH)
qed simp

lemma rrf_score_dominance:
  assumes "\<forall>l \<in> set ranked. distinct (map hit_chunk_id l) \<and> rc + length l \<le> size_max"
    and "ranked_above ranked a b"
  shows "unat (rrf_score rc ranked b) \<le> unat (rrf_score rc ranked a)"
  unfolding rrf_score_def using assms by (intro foldl_dominance) simp_all

lemma rrf_score_nonneg: "f32_nonneg (rrf_score rc ranked i)"
proof -
  have "f32_nonneg s \<Longrightarrow>
      f32_nonneg (foldl f32_add s (concat (map (\<lambda>l. contributions rc l i) ranked)))" for s
    by (induction ranked arbitrary: s) (simp_all add: f32_nonneg_foldl)
  then show ?thesis by (simp add: rrf_score_def)
qed

section \<open>The contract of a ranked retriever\<close>

text \<open>
  What a client of a fusing retriever may rely on: at most the number of hits asked for, one per
  chunk, with comparable scores and best first, for every order of iteration.
\<close>

locale ranked_retriever =
  fixes retrieve :: "iteration \<Rightarrow> string \<Rightarrow> nat \<Rightarrow> SearchHit list res"
  assumes ranked: "permutes it \<Longrightarrow> retrieve it query k = Inr hits \<Longrightarrow> length hits \<le> k
      \<and> distinct (map hit_chunk_id hits) \<and> list_all hit_ok hits \<and> in_order better hits"
    and iteration_free: "permutes it \<Longrightarrow> permutes it' \<Longrightarrow> retrieve it query k = retrieve it' query k"
begin

lemma strictly_ranked:
  assumes "permutes it" and "retrieve it query k = Inr hits" and "i < j" and "j < length hits"
  shows "better (hits ! i) (hits ! j)"
proof -
  note r = ranked [OF assms(1,2)]
  have "\<not> better (hits ! j) (hits ! i)"
    using r assms(3,4) by (auto simp: sorted_wrt_iff_nth_less)
  moreover have "hit_chunk_id (hits ! i) \<noteq> hit_chunk_id (hits ! j)"
    using r assms(3,4) by (auto simp: distinct_conv_nth)
  ultimately show ?thesis
    using r assms(3,4) better_total [of "hits ! i" "hits ! j"] by (auto simp: list_all_length)
qed

lemma hits_below_limit: "permutes it \<Longrightarrow> retrieve it query k = Inr hits \<Longrightarrow> length hits \<le> k"
  using ranked by blast

end

lemma rank_scores_ranked:
  assumes "permutes it" and "scores_ok m"
  shows "length (rank_scores it k m) \<le> k \<and> distinct (map hit_chunk_id (rank_scores it k m))
    \<and> list_all hit_ok (rank_scores it k m) \<and> in_order better (rank_scores it k m)"
proof -
  have "list_all hit_ok (rank_scores it k m)"
    using entries_ok(1) [OF assms] set_take_subset [of k "sort_by better (map entry_hit (it m))"]
    unfolding rank_scores_def list_all_iff set_sort_by by blast
  then show ?thesis using rank_scores_props [OF assms] by simp
qed

lemma fuse_ranked:
  "permutes it \<Longrightarrow> reciprocal_rank_fuse it ranked k rc = Inr hits \<Longrightarrow> length hits \<le> k
    \<and> distinct (map hit_chunk_id hits) \<and> list_all hit_ok hits \<and> in_order better hits"
  using rank_scores_ranked [OF _ scores_ok_fused, of it k rc ranked]
  by (auto simp: reciprocal_rank_fuse_def split: if_splits)

lemma fuse_iteration_free:
  "permutes it \<Longrightarrow> permutes it' \<Longrightarrow>
    reciprocal_rank_fuse it ranked k rc = reciprocal_rank_fuse it' ranked k rc"
  using rank_scores_order_independent [of it it' "fused_scores rc ranked" k] scores_ok_fused
  by (simp add: reciprocal_rank_fuse_def)

interpretation hybrid: ranked_retriever "\<lambda>it. hybrid_retrieve it h" for h
proof unfold_locales
  fix it query k hits
  assume "permutes it" "hybrid_retrieve it h query k = Inr hits"
  then show "length hits \<le> k \<and> distinct (map hit_chunk_id hits) \<and> list_all hit_ok hits
      \<and> in_order better hits"
    using fuse_ranked by (auto simp: hybrid_retrieve_def res_simps Let_def split: if_splits)
next
  fix it it' query k
  assume "permutes it" "permutes it'"
  from fuse_iteration_free [OF this] show "hybrid_retrieve it h query k = hybrid_retrieve it' h query k"
    by (simp add: hybrid_retrieve_def)
qed

interpretation symbol_graph: ranked_retriever "\<lambda>it. symbol_retrieve it repo" for repo
proof unfold_locales
  fix it query k hits
  assume "permutes it" "symbol_retrieve it repo query k = Inr hits"
  then show "length hits \<le> k \<and> distinct (map hit_chunk_id hits) \<and> list_all hit_ok hits
      \<and> in_order better hits"
    using rank_scores_ranked scores_ok_names [OF scores_ok_Nil]
    by (auto simp: symbol_retrieve_def res_simps)
next
  fix it it' query k
  assume p: "permutes it" "permutes it'"
  show "symbol_retrieve it repo query k = symbol_retrieve it' repo query k"
    using rank_scores_order_independent [OF p] scores_ok_names [OF scores_ok_Nil]
    by (cases "score_names repo (caller_query query) (extract_qualified_names query) []")
      (auto simp: symbol_retrieve_def)
qed

section \<open>Tokens of a query\<close>

abbreviation name_char :: "char \<Rightarrow> bool" where
  "name_char c \<equiv> is_alnum c \<or> c = CHR ''_'' \<or> c = CHR '':''"

text \<open>The maximal runs of name characters, in order.\<close>

fun name_runs :: "string \<Rightarrow> string \<Rightarrow> string list" where
  "name_runs [] token = [token]"
| "name_runs (c # cs) token = (if name_char c then name_runs cs (token @ [c])
     else token # name_runs cs [])"

lemma scan_names_runs:
  "scan_names cs token names = names @ filter (\<lambda>t. contains t ''::'') (name_runs cs token)"
  by (induction cs token names rule: scan_names.induct) (auto simp: flush_name_def)

lemma name_runs_run: "list_all name_char w \<Longrightarrow> name_runs (w @ cs) token = name_runs cs (token @ w)"
  by (induction w arbitrary: token) auto

lemma name_runs_chars:
  "list_all name_char token \<Longrightarrow> t \<in> set (name_runs cs token) \<Longrightarrow> list_all name_char t"
  by (induction cs token rule: name_runs.induct) (auto split: if_splits)

lemma name_runs_split:
  "t \<in> set (name_runs cs token) \<Longrightarrow> \<exists>pre post. token @ cs = pre @ t @ post
     \<and> (post = [] \<or> \<not> name_char (hd post))
     \<and> (pre = [] \<or> (pre \<noteq> [] \<and> \<not> name_char (last pre)))"
proof (induction cs token rule: name_runs.induct)
  case (1 token)
  then show ?case by (intro exI [of _ "[]"]) simp
next
  case (2 c cs token)
  show ?case
  proof (cases "name_char c \<or> t \<noteq> token \<or> t \<in> set (name_runs cs [])")
    case True
    show ?thesis
    proof (cases "name_char c")
      case True
      with 2 show ?thesis by simp
    next
      case False
      with 2 True have "t \<in> set (name_runs cs [])" by (auto split: if_splits)
      with 2(2) False obtain pre post where *: "cs = pre @ t @ post"
        "post = [] \<or> \<not> name_char (hd post)" "pre = [] \<or> (pre \<noteq> [] \<and> \<not> name_char (last pre))"
        by auto
      from * False show ?thesis
        by (intro exI [of _ "token @ [c] @ pre"] exI [of _ post]) auto
    qed
  next
    case False
    then show ?thesis by (intro exI [of _ "[]"] exI [of _ "c # cs"]) auto
  qed
qed

lemma name_runs_snoc_break:
  "\<not> name_char c \<Longrightarrow> set (name_runs cs2 []) \<subseteq> set (name_runs (cs1 @ c # cs2) token)"
  by (induction cs1 arbitrary: token) auto

lemma name_runs_complete:
  assumes "list_all name_char w" and "pre = [] \<or> \<not> name_char (last pre)"
    and "post = [] \<or> \<not> name_char (hd post)"
  shows "w \<in> set (name_runs (pre @ w @ post) [])"
proof -
  have w: "w \<in> set (name_runs (w @ post) [])"
    using name_runs_run [OF assms(1), of post "[]"] assms(3) by (cases post) auto
  show ?thesis
  proof (cases pre rule: rev_cases)
    case (snoc cs c)
    with w assms(2) name_runs_snoc_break [of c "w @ post" cs "[]"] show ?thesis by auto
  qed (use w in simp)
qed

section \<open>Properties\<close>

text \<open>
  Reciprocal rank fusion returns, best first, the smaller of \<open>k\<close> and the number of distinct
  chunks in the lists, each chunk once, with the score the reciprocal ranks add up to in the order of
  the lists, and leaves out no chunk better than one it returns; the order in which the hash map is
  iterated does not matter.
\<close>

lemma rrf_fuses:
  assumes "permutes it" and "0 < k" and "0 < rc"
  shows "\<exists>hits. reciprocal_rank_fuse it ranked k rc = Inr hits
    \<and> length hits = min k (card (\<Union>l \<in> set ranked. hit_chunk_id ` set l))
    \<and> distinct (map hit_chunk_id hits) \<and> in_order better hits
    \<and> (\<forall>h \<in> set hits. hit_chunk_id h \<in> (\<Union>l \<in> set ranked. hit_chunk_id ` set l)
         \<and> hit_score h = rrf_score rc ranked (hit_chunk_id h))
    \<and> (\<forall>i \<in> (\<Union>l \<in> set ranked. hit_chunk_id ` set l). i \<notin> hit_chunk_id ` set hits \<longrightarrow>
         (\<forall>h \<in> set hits. \<not> better \<lparr>hit_chunk_id = i, hit_score = rrf_score rc ranked i\<rparr> h))
    \<and> (\<forall>it'. permutes it' \<longrightarrow> reciprocal_rank_fuse it' ranked k rc = Inr hits)"
proof -
  let ?m = "fused_scores rc ranked"
  let ?hits = "rank_scores it k ?m"
  note props = rank_scores_props [OF assms(1) scores_ok_fused]
  have fuse: "reciprocal_rank_fuse it ranked k rc = Inr ?hits"
    using assms by (simp add: reciprocal_rank_fuse_def)
  have "\<forall>h \<in> set ?hits. hit_chunk_id h \<in> (\<Union>l \<in> set ranked. hit_chunk_id ` set l)
      \<and> hit_score h = rrf_score rc ranked (hit_chunk_id h)"
    using props(4) unfolding fused_lookup by (metis (no_types, lifting) option.distinct(1) option.inject)
  moreover have "\<forall>i \<in> (\<Union>l \<in> set ranked. hit_chunk_id ` set l). i \<notin> hit_chunk_id ` set ?hits \<longrightarrow>
      (\<forall>h \<in> set ?hits. \<not> better \<lparr>hit_chunk_id = i, hit_score = rrf_score rc ranked i\<rparr> h)"
  proof (intro ballI impI)
    fix i h
    assume i: "i \<in> (\<Union>l \<in> set ranked. hit_chunk_id ` set l)" "i \<notin> hit_chunk_id ` set ?hits"
      "h \<in> set ?hits"
    then have "map_of ?m i = Some (rrf_score rc ranked i)" unfolding fused_lookup by simp
    then show "\<not> better \<lparr>hit_chunk_id = i, hit_score = rrf_score rc ranked i\<rparr> h"
      using i(2,3) by (rule props(5))
  qed
  moreover have "\<forall>it'. permutes it' \<longrightarrow> reciprocal_rank_fuse it' ranked k rc = Inr ?hits"
    using fuse fuse_iteration_free [OF assms(1)] by metis
  moreover have "length ?hits = min k (card (\<Union>l \<in> set ranked. hit_chunk_id ` set l))"
    unfolding fused_length [of rc, symmetric] by (rule props(3))
  ultimately show ?thesis
    using fuse props(1) [of k rc ranked] props(2) [of k rc ranked]
    by - (intro exI [of _ ?hits] conjI; assumption)
qed

lemma permutes_id: "permutes (\<lambda>m. m)" and permutes_rev: "permutes rev"
  by (simp_all add: permutes_def)

abbreviation sample_hits :: "ChunkId list \<Rightarrow> SearchHit list" where
  "sample_hits ids \<equiv> map (\<lambda>i. \<lparr>hit_chunk_id = i, hit_score = 0\<rparr>) ids"

lemma rrf_fuses_example:
  "\<exists>hits. reciprocal_rank_fuse rev [sample_hits [1, 2], sample_hits [2, 3]] 2 60 = Inr hits
    \<and> length hits = 2 \<and> in_order better hits"
proof -
  have "(\<Union>l \<in> set [sample_hits [1, 2], sample_hits [2, 3]]. hit_chunk_id ` set l) = {1, 2, 3}"
    by auto
  then have "min 2 (card (\<Union>l \<in> set [sample_hits [1, 2], sample_hits [2, 3]]. hit_chunk_id ` set l)) = 2"
    by simp
  with rrf_fuses [OF permutes_rev, of 2 60 "[sample_hits [1, 2], sample_hits [2, 3]]"]
  show ?thesis by (metis (no_types, lifting) zero_less_numeral)
qed

text \<open>A hit of the fusion has its score and is ranked by a list; so is whatever is ranked above it.\<close>

lemma fused_hit:
  assumes "permutes it" and "h \<in> set (rank_scores it k (fused_scores rc ranked))"
  shows "hit_score h = rrf_score rc ranked (hit_chunk_id h)"
    "hit_chunk_id h \<in> (\<Union>l \<in> set ranked. hit_chunk_id ` set l)"
  using rank_scores_props(4) [OF assms(1) scores_ok_fused] assms(2) unfolding fused_lookup
  by (metis (no_types, lifting) option.distinct(1) option.inject)+

lemma ranked_above_ranked:
  assumes "ranked_above ranked a b" and "b \<in> (\<Union>l \<in> set ranked. hit_chunk_id ` set l)"
  shows "a \<in> (\<Union>l \<in> set ranked. hit_chunk_id ` set l)"
proof -
  from assms(2) obtain l x where "l \<in> set ranked" "x \<in> set l" "hit_chunk_id x = b" by auto
  then obtain n where l: "l \<in> set ranked" "n < length l" "hit_chunk_id (l ! n) = b" by (auto simp: in_set_conv_nth)
  with assms(1) obtain i where "i \<le> n" "hit_chunk_id (l ! i) = a" unfolding ranked_above_def by blast
  with l(1,2) show ?thesis by (meson UN_I image_eqI le_less_trans nth_mem)
qed

text \<open>
  C12. Fusion respects agreement: a chunk ranked at least as high as another by every list that ranks
  the other never gets the smaller score, in spite of rounding, and wherever the other is returned
  it stands before it. The only exception is a tie the rounding made: the two scores are then the same
  float and the other's id is the smaller one.
\<close>

theorem rrf_respects_dominance:
  assumes "permutes it" and "0 < k" and "0 < rc"
    and "\<forall>l \<in> set ranked. distinct (map hit_chunk_id l) \<and> rc + length l \<le> size_max"
    and "ranked_above ranked a b" and "a \<noteq> b" and "reciprocal_rank_fuse it ranked k rc = Inr hits"
  shows "\<not> f32_less (rrf_score rc ranked a) (rrf_score rc ranked b)
    \<and> (\<forall>j < length hits. hit_chunk_id (hits ! j) = b \<longrightarrow>
         (\<exists>i < j. hit_chunk_id (hits ! i) = a)
         \<or> rrf_score rc ranked a = rrf_score rc ranked b \<and> b < a)"
proof -
  let ?m = "fused_scores rc ranked"
  have le: "unat (rrf_score rc ranked b) \<le> unat (rrf_score rc ranked a)"
    by (rule rrf_score_dominance [OF assms(4,5)])
  note nn = rrf_score_nonneg [of rc ranked]
  note props = rank_scores_props [OF assms(1) scores_ok_fused]
  have hits: "hits = rank_scores it k ?m"
    using assms(2,3,7) by (simp add: reciprocal_rank_fuse_def)
  note score = fused_hit [OF assms(1), of _ k rc ranked, folded hits]
  have tie: "rrf_score rc ranked a = rrf_score rc ranked b \<and> b < a"
    if "\<not> better \<lparr>hit_chunk_id = a, hit_score = rrf_score rc ranked a\<rparr> h" "h \<in> set hits"
      "hit_chunk_id h = b" for h
  proof -
    have "b < a \<or> a < b" using assms(6) by auto
    then show ?thesis using that le score(1) [OF that(2)] nn
      by (auto simp: better_def f32_less_nonneg f32_equal_nonneg word_unat_eq_iff split: if_splits)
  qed
  have "(\<exists>i < j. hit_chunk_id (hits ! i) = a)
      \<or> rrf_score rc ranked a = rrf_score rc ranked b \<and> b < a"
    if j: "j < length hits" "hit_chunk_id (hits ! j) = b" for j
  proof (cases "a \<in> hit_chunk_id ` set hits")
    case True
    then obtain i where i: "i < length hits" "hit_chunk_id (hits ! i) = a" by (auto simp: in_set_conv_nth)
    show ?thesis
    proof (cases "i < j")
      case False
      then have "j < i" using i j assms(6) by (metis linorder_neqE_nat)
      with props(1) i(1) have "\<not> better (hits ! i) (hits ! j)"
        unfolding hits by (metis sorted_wrt_iff_nth_less)
      moreover have "hits ! i = \<lparr>hit_chunk_id = a, hit_score = rrf_score rc ranked a\<rparr>"
        using i score(1) [of "hits ! i"] by simp
      ultimately show ?thesis using tie [of "hits ! j"] j by simp
    qed (use i in blast)
  next
    case False
    have "a \<in> (\<Union>l \<in> set ranked. hit_chunk_id ` set l)"
      using ranked_above_ranked [OF assms(5)] score(2) [of "hits ! j"] j by simp
    then have "map_of ?m a = Some (rrf_score rc ranked a)" by (simp add: fused_lookup)
    then have "\<not> better \<lparr>hit_chunk_id = a, hit_score = rrf_score rc ranked a\<rparr> h" if "h \<in> set hits" for h
      using props(5) False that unfolding hits by blast
    then show ?thesis using tie [of "hits ! j"] j by simp
  qed
  with le nn show ?thesis by (auto simp: f32_less_nonneg)
qed

theorem rrf_respects_dominance_witness:
  "\<exists>hits. reciprocal_rank_fuse (\<lambda>m. m) [sample_hits [1, 2], sample_hits [1, 3, 2]] 3 60 = Inr hits
   \<and> (\<forall>j < length hits. hit_chunk_id (hits ! j) = 2 \<longrightarrow> (\<exists>i < j. hit_chunk_id (hits ! i) = 1))"
proof -
  let ?l = "[sample_hits [1, 2], sample_hits [1, 3, 2]]"
  have above: "ranked_above ?l 1 2" by (auto simp: ranked_above_def)
  have "\<exists>hits. reciprocal_rank_fuse (\<lambda>m. m) ?l 3 60 = Inr hits"
    by (simp add: reciprocal_rank_fuse_def)
  then obtain hits where hits: "reciprocal_rank_fuse (\<lambda>m. m) ?l 3 60 = Inr hits" by blast
  from rrf_respects_dominance [OF permutes_id _ _ _ above _ this] hits show ?thesis by auto
qed

text \<open>
  The names looked up in the symbol graph are exactly the maximal runs of letters, digits,
  underscores and colons of the query that contain a double colon.
\<close>

lemma extracts_qualified_names:
  "w \<in> set (extract_qualified_names query) \<longleftrightarrow> sublist ''::'' w \<and> list_all name_char w
     \<and> (\<exists>pre post. query = pre @ w @ post \<and> (pre = [] \<or> \<not> name_char (last pre))
          \<and> (post = [] \<or> \<not> name_char (hd post)))"
proof -
  have "w \<in> set (extract_qualified_names query) \<longleftrightarrow> w \<in> set (name_runs query []) \<and> sublist ''::'' w"
    by (auto simp: extract_qualified_names_def scan_names_runs contains_sublist)
  moreover have "list_all name_char w" if "w \<in> set (name_runs query [])"
    using name_runs_chars [OF _ that] by simp
  moreover have "\<exists>pre post. query = pre @ w @ post \<and> (pre = [] \<or> \<not> name_char (last pre))
      \<and> (post = [] \<or> \<not> name_char (hd post))" if "w \<in> set (name_runs query [])"
    using name_runs_split [OF that] by auto
  moreover have "w \<in> set (name_runs query [])"
    if "list_all name_char w" "query = pre @ w @ post" "pre = [] \<or> \<not> name_char (last pre)"
      "post = [] \<or> \<not> name_char (hd post)" for pre post
    using name_runs_complete [OF that(1,3,4)] that(2) by simp
  ultimately show ?thesis by blast
qed

lemma extracts_qualified_names_example:
  "''a::b'' \<in> set (extract_qualified_names ''see a::b()'') \<and> ''see'' \<notin> set (extract_qualified_names ''see a::b()'')"
proof
  have "sublist ''::'' ''a::b''" by code_simp
  moreover have "list_all name_char ''a::b''" by code_simp
  moreover have "\<exists>pre post. ''see a::b()'' = pre @ ''a::b'' @ post \<and> (pre = [] \<or> \<not> name_char (last pre))
      \<and> (post = [] \<or> \<not> name_char (hd post))"
  proof (intro exI conjI)
    show "''see a::b()'' = ''see '' @ ''a::b'' @ ''()''" by simp
    have "\<not> name_char (last ''see '')" and "\<not> name_char (hd ''()'')" by code_simp+
    then show "''see '' = [] \<or> \<not> name_char (last ''see '')" and "''()'' = [] \<or> \<not> name_char (hd ''()'')" by blast+
  qed
  ultimately show "''a::b'' \<in> set (extract_qualified_names ''see a::b()'')"
    unfolding extracts_qualified_names by blast
  have "\<not> sublist ''::'' ''see''" by code_simp
  then show "''see'' \<notin> set (extract_qualified_names ''see a::b()'')"
    unfolding extracts_qualified_names by blast
qed

end
