(* ===== verification/Index_Service.thy ===== *)
theory Index_Service
  imports Text_Chunker Sqlite_Chunks Vector_File Vector_Index File_Scanner Configuration Retrieval
begin

text \<open>
  \<^verbatim>\<open>src/application/index_service.cpp\<close>: one update of the persistent index. The state is what
  survives an update: the tables of the database, the files of the data directory, the published
  snapshot and the calls made to the symbol repository. What an update gets from outside (the scan,
  the contents and times of files, the parser, the order in which a hash map is iterated, failures of
  system calls and of database calls) is the record \<open>index_env\<close>: how its start ends, how each query of the
  database ends, and which of the calls that write fail.
\<close>

record IndexUpdateResult =
  res_added :: nat
  res_changed :: nat
  res_removed :: nat
  res_unchanged :: nat
  res_embedded :: nat
  res_generation :: nat

record ParsedCode =
  parsed_success :: bool
  parsed_chunks :: "Chunk list"
  parsed_symbols :: "Symbol list"
  parsed_edges :: "SymbolEdge list"

record symbol_replacement =
  symrep_path :: path
  symrep_symbols :: "Symbol list"
  symrep_edges :: "SymbolEdge list"

datatype repository_read = Read_metadata string | Read_documents | Read_chunks path

text \<open>
  \<open>ie_cleaning\<close> is the failure of the directory calls, with the temporaries removed before it;
  \<open>ie_open_fault\<close> and \<open>ie_symbol_open_fault\<close> are those of opening the two databases.
\<close>

record index_env =
  ie_dimension :: nat
  ie_embed_batch :: "string list \<Rightarrow> EmbeddingKind \<Rightarrow> Embedding list res"
  ie_scan :: "FileScanResult res"
  ie_read :: "path \<rightharpoonup> string"
  ie_modified :: "path \<Rightarrow> 64 word res"
  ie_parse :: "(ScannedFile \<Rightarrow> ParsedCode) option"
  ie_order :: "(ChunkId \<rightharpoonup> Embedding) \<Rightarrow> (ChunkId \<times> Embedding) list"
  ie_cleaning :: "(exn \<times> path list) option"
  ie_open_fault :: "exn option"
  ie_symbol_open_fault :: "exn option"
  ie_reads :: "repository_read \<Rightarrow> read_outcome"
  ie_write :: write_env
  ie_database_fault :: "nat \<Rightarrow> exn option"
  ie_symbol_fault :: "nat \<Rightarrow> exn option"

record 'i index_kind =
  kind_make :: "nat \<Rightarrow> nat \<Rightarrow> 'i res"
  kind_upsert :: "ChunkId \<Rightarrow> Embedding \<Rightarrow> 'i \<Rightarrow> 'i res"

record 'i index_state =
  st_tables :: "tables option"
  st_files :: file_tree
  st_handle :: "'i option"
  st_symbols :: "symbol_replacement list"

section \<open>Helpers of the service\<close>

definition content_hash :: "(path \<rightharpoonup> string) \<Rightarrow> path \<Rightarrow> string res" where
  "content_hash read p = (case read p of
     None \<Rightarrow> Inl (Runtime_error (''cannot read indexed file: '' @ p))
   | Some content \<Rightarrow> Inr (stable_hash_hex content))"

text \<open>
  \<^verbatim>\<open>std::stoull\<close>: white space, a sign, as many digits as there are; \<open>None\<close> stands for the exceptions.
\<close>

definition stoull :: "string \<Rightarrow> nat option" where
  "stoull s = (
     let s = dropWhile is_space s;
       negative = (s \<noteq> [] \<and> hd s = CHR ''-'');
       s = (if s \<noteq> [] \<and> (hd s = CHR ''-'' \<or> hd s = CHR ''+'') then tl s else s);
       digits = takeWhile is_digit s; v = digits_value 0 digits
     in if digits = [] \<or> size_max < v then None
        else Some (if negative then sz_sub 0 v else v))"

definition generation_of :: "string \<Rightarrow> nat res" where
  "generation_of v = (if v = [] then Inr 0 else case stoull v of
     None \<Rightarrow> Inl (Runtime_error ''invalid active_vector_generation metadata'')
   | Some n \<Rightarrow> Inr n)"

definition make_index_service :: "string \<Rightarrow> string res" where
  "make_index_service model_id =
     (if model_id = [] then Inl (Invalid_argument ''embedding model id must not be empty'') else Inr model_id)"

definition remove_temporaries :: "path \<Rightarrow> file_tree \<Rightarrow> file_tree" where
  "remove_temporaries data_dir fs = (\<lambda>p. if parent_path p = data_dir \<and> extension p = ''.tmp'' then None else fs p)"

definition vector_path :: "path \<Rightarrow> nat \<Rightarrow> path" where
  "vector_path data_dir generation = path_append data_dir (''vectors.'' @ string_of_nat generation @ ''.bin'')"

section \<open>What is stored\<close>

definition read_value :: "index_env \<Rightarrow> string \<Rightarrow> SqliteChunkRepository \<Rightarrow> string res" where
  "read_value env key r = metadata_read (ie_reads env (Read_metadata key)) key r"

definition check_metadata :: "index_env \<Rightarrow> string \<Rightarrow> SqliteChunkRepository \<Rightarrow> unit res" where
  "check_metadata env model_hash r =
     res_bind (read_value env ''embedding_model_sha256'' r) (\<lambda>existing_hash.
     if existing_hash \<noteq> [] \<and> existing_hash \<noteq> model_hash
     then Inl (Runtime_error ''embedding model changed; rebuild the persistent index before loading it'')
     else res_bind (read_value env ''embedding_dimension'' r) (\<lambda>existing_dimension.
       if existing_dimension \<noteq> [] \<and> existing_dimension \<noteq> string_of_nat (ie_dimension env)
       then Inl (Runtime_error ''embedding dimension changed; rebuild the persistent index before loading it'')
       else Inr ()))"

text \<open>The vectors of a file, the first one for an id (\<open>emplace\<close>).\<close>

definition vector_map :: "StoredVector list \<Rightarrow> ChunkId \<rightharpoonup> Embedding" where
  "vector_map vs = map_of (map (\<lambda>v. (stored_id v, stored_values v)) vs)"

definition load_old_vectors :: "index_env \<Rightarrow> path \<Rightarrow> string \<Rightarrow> nat \<Rightarrow> file_tree \<Rightarrow> (ChunkId \<rightharpoonup> Embedding) res" where
  "load_old_vectors env data_dir model_hash old_generation fs = (
     if old_generation = 0 then Inr Map.empty
     else res_bind (read_file (vector_path data_dir old_generation) fs) (\<lambda>(m, vs).
       if unat (meta_dimension m) \<noteq> ie_dimension env \<or> meta_model_hash m \<noteq> model_hash
       then Inl (Runtime_error ''persistent vector metadata does not match embedding model'')
       else Inr (vector_map vs)))"

section \<open>The files\<close>

record pending =
  pend_present :: "path list"
  pend_result :: IndexUpdateResult
  pend_vectors :: "ChunkId \<rightharpoonup> Embedding"
  pend_replacements :: "StoredDocument list"
  pend_symbols :: "symbol_replacement list"

definition erase_vectors :: "Chunk list \<Rightarrow> (ChunkId \<rightharpoonup> Embedding) \<Rightarrow> (ChunkId \<rightharpoonup> Embedding)" where
  "erase_vectors chunks vectors = (\<lambda>i. if i \<in> chunk_id ` set chunks then None else vectors i)"

fun assign_vectors :: "Chunk list \<Rightarrow> Embedding list \<Rightarrow> (ChunkId \<rightharpoonup> Embedding) \<Rightarrow> (ChunkId \<rightharpoonup> Embedding)" where
  "assign_vectors (c # cs) (v # vs) vectors = assign_vectors cs vs (vectors(chunk_id c \<mapsto> v))"
| "assign_vectors _ _ vectors = vectors"

text \<open>The chunks of a file: text chunks, or those of the parser for C++ where it succeeds.\<close>

definition chunks_of_file :: "index_env \<Rightarrow> IndexConfig \<Rightarrow> ScannedFile \<Rightarrow>
    (Chunk list \<times> string \<times> symbol_replacement list) res" where
  "chunks_of_file env cfg f = res_bind
     (chunk_file (ie_read env) (file_absolute_path f) (file_relative_path f) (file_language f)
       (default_chunking\<lparr>max_lines := index_chunk_lines cfg, overlap_lines := index_overlap_lines cfg\<rparr>))
     (\<lambda>chunks. Inr (case ie_parse env of
        None \<Rightarrow> (chunks, ''text-v1'', [])
      | Some parse \<Rightarrow>
          if index_semantic_index_enabled cfg \<and> file_language f = ''cpp'' then
            let parsed = parse f in
            if parsed_success parsed \<and> parsed_chunks parsed \<noteq> []
            then (parsed_chunks parsed, ''clang-ast-v1'', [\<lparr>symrep_path = file_relative_path f,
              symrep_symbols = parsed_symbols parsed, symrep_edges = parsed_edges parsed\<rparr>])
            else (chunks, ''text-v1'', [\<lparr>symrep_path = file_relative_path f, symrep_symbols = [],
              symrep_edges = []\<rparr>])
          else (chunks, ''text-v1'', [])))"

definition embed_chunks :: "index_env \<Rightarrow> Chunk list \<Rightarrow> Embedding list res" where
  "embed_chunks env chunks = res_bind (ie_embed_batch env (map chunk_content chunks) Embed_document) (\<lambda>vs.
     if length vs < length chunks then Inl (Other_exception ''embedding missing'') else Inr vs)"

text \<open>The counters of a file that is not unchanged; the vectors of its old chunks are dropped.\<close>

definition replace_previous :: "index_env \<Rightarrow> SqliteChunkRepository \<Rightarrow> path \<Rightarrow> bool \<Rightarrow> pending \<Rightarrow> pending res" where
  "replace_previous env r p added s = (let result = pend_result s in
     if added then Inr (s\<lparr>pend_result := result\<lparr>res_added := res_added result + 1\<rparr>\<rparr>)
     else res_bind (chunks_read (ie_reads env (Read_chunks p)) p r) (\<lambda>old_chunks.
       Inr (s\<lparr>pend_result := result\<lparr>res_changed := res_changed result + 1\<rparr>,
         pend_vectors := erase_vectors old_chunks (pend_vectors s)\<rparr>)))"

definition index_file :: "index_env \<Rightarrow> IndexConfig \<Rightarrow> SqliteChunkRepository \<Rightarrow> (path \<rightharpoonup> StoredDocument) \<Rightarrow>
    ScannedFile \<Rightarrow> pending \<Rightarrow> pending res" where
  "index_file env cfg r old_documents f s = (
     let p = file_relative_path f; s = s\<lparr>pend_present := p # pend_present s\<rparr> in
     res_bind (content_hash (ie_read env) (file_absolute_path f)) (\<lambda>hash.
     let previous = old_documents p; result = pend_result s in
     if previous \<noteq> None \<and> sdoc_hash (the previous) = hash
     then Inr (s\<lparr>pend_result := result\<lparr>res_unchanged := res_unchanged result + 1\<rparr>\<rparr>)
     else res_bind (replace_previous env r p (previous = None) s) (\<lambda>s.
       res_bind (chunks_of_file env cfg f) (\<lambda>(chunks, version, symbols).
       res_bind (embed_chunks env chunks) (\<lambda>embedded.
       res_bind (ie_modified env (file_absolute_path f)) (\<lambda>modified.
       let result = pend_result s in
       Inr (s\<lparr>pend_symbols := pend_symbols s @ symbols,
         pend_vectors := assign_vectors chunks embedded (pend_vectors s),
         pend_result := result\<lparr>res_embedded := res_embedded result + length chunks\<rparr>,
         pend_replacements := pend_replacements s @ [\<lparr>sdoc_path = p, sdoc_hash = hash,
           sdoc_size = of_nat (file_size_bytes f), sdoc_modified = modified,
           sdoc_parser = version, sdoc_chunks = chunks\<rparr>]\<rparr>)))))))"

fun index_files :: "index_env \<Rightarrow> IndexConfig \<Rightarrow> SqliteChunkRepository \<Rightarrow> (path \<rightharpoonup> StoredDocument) \<Rightarrow>
    ScannedFile list \<Rightarrow> pending \<Rightarrow> pending res" where
  "index_files env cfg r old_documents [] s = Inr s"
| "index_files env cfg r old_documents (f # fs) s =
     res_bind (index_file env cfg r old_documents f s) (index_files env cfg r old_documents fs)"

text \<open>The old documents whose file is gone.\<close>

fun remove_missing :: "index_env \<Rightarrow> SqliteChunkRepository \<Rightarrow> path list \<Rightarrow> pending \<Rightarrow> (path list \<times> pending) res" where
  "remove_missing env r [] s = Inr ([], s)"
| "remove_missing env r (p # ps) s = (
     if p \<in> set (pend_present s) then remove_missing env r ps s
     else res_bind (chunks_read (ie_reads env (Read_chunks p)) p r) (\<lambda>old_chunks.
       let result = pend_result s in
       res_bind (remove_missing env r ps (s\<lparr>pend_result := result\<lparr>res_removed := res_removed result + 1\<rparr>,
           pend_vectors := erase_vectors old_chunks (pend_vectors s)\<rparr>))
         (\<lambda>(removals, s'). Inr (p # removals, s'))))"

section \<open>The transaction\<close>

datatype repository_call = Erase_document path | Replace_document StoredDocument nat | Set_metadata string string

fun perform :: "repository_call \<Rightarrow> SqliteChunkRepository \<Rightarrow> unit res \<times> SqliteChunkRepository" where
  "perform (Erase_document p) r = (Inr (), erase_document p r)"
| "perform (Replace_document d g) r = replace_document d g r"
| "perform (Set_metadata k v) r = (Inr (), set_metadata k v r)"

text \<open>A call may also fail for reasons of the database's own (\<open>fault\<close>); a failed call ends the sequence.\<close>

fun perform_all :: "(nat \<Rightarrow> exn option) \<Rightarrow> nat \<Rightarrow> repository_call list \<Rightarrow> SqliteChunkRepository \<Rightarrow>
    unit res \<times> SqliteChunkRepository" where
  "perform_all fault n [] r = (Inr (), r)"
| "perform_all fault n (c # cs) r = (case fault n of
     Some e \<Rightarrow> (Inl e, r)
   | None \<Rightarrow> (case perform c r of
       (Inl e, r') \<Rightarrow> (Inl e, r')
     | (Inr _, r') \<Rightarrow> perform_all fault (n + 1) cs r'))"

definition transaction :: "(nat \<Rightarrow> exn option) \<Rightarrow> repository_call list \<Rightarrow> SqliteChunkRepository \<Rightarrow>
    unit res \<times> SqliteChunkRepository" where
  "transaction fault calls r = (case fault 0 of
     Some e \<Rightarrow> (Inl e, r)
   | None \<Rightarrow> (case begin_tx r of
       Inl e \<Rightarrow> (Inl e, r)
     | Inr r1 \<Rightarrow> (case perform_all fault 1 calls r1 of
         (Inl e, r2) \<Rightarrow> (Inl e, rollback_tx r2)
       | (Inr _, r2) \<Rightarrow> (case fault (length calls + 1) of
           Some e \<Rightarrow> (Inl e, rollback_tx r2)
         | None \<Rightarrow> (case commit_tx r2 of Inl e \<Rightarrow> (Inl e, rollback_tx r2) | Inr r3 \<Rightarrow> (Inr (), r3))))))"

definition update_calls :: "index_env \<Rightarrow> string \<Rightarrow> string \<Rightarrow> path list \<Rightarrow> StoredDocument list \<Rightarrow> nat \<Rightarrow>
    repository_call list" where
  "update_calls env model_id model_hash removals replacements generation =
     map Erase_document removals @ map (\<lambda>d. Replace_document d generation) replacements @
     [Set_metadata ''chunker_version'' ''text-v1'', Set_metadata ''embedding_model_id'' model_id,
      Set_metadata ''embedding_model_sha256'' model_hash,
      Set_metadata ''embedding_dimension'' (string_of_nat (ie_dimension env)),
      Set_metadata ''normalization'' ''l2'',
      Set_metadata ''active_vector_generation'' (string_of_nat generation)]"

section \<open>An update\<close>

text \<open>
  The start: the directory is created and listed, temporaries are removed and the databases opened. A database
  that cannot be opened is taken to be left as it was; what its opening executes only adds what is missing.
\<close>

definition open_index :: "index_env \<Rightarrow> IndexConfig \<Rightarrow> 'i index_state \<Rightarrow> SqliteChunkRepository res \<times> 'i index_state" where
  "open_index env cfg st = (let cleaned = remove_temporaries (index_data_dir cfg) (st_files st) in
     case ie_cleaning env of
       Some (e, removed) \<Rightarrow> (Inl e, st\<lparr>st_files := (\<lambda>p. if p \<in> set removed then cleaned p else st_files st p)\<rparr>)
     | None \<Rightarrow> (let st = st\<lparr>st_files := cleaned\<rparr> in case ie_open_fault env of
         Some e \<Rightarrow> (Inl e, st)
       | None \<Rightarrow> (let r = open_repository (st_tables st); st = st\<lparr>st_tables := Some (live r)\<rparr> in
           if index_semantic_index_enabled cfg \<and> ie_parse env \<noteq> None \<and> ie_symbol_open_fault env \<noteq> None
           then (Inl (the (ie_symbol_open_fault env)), st) else (Inr r, st))))"

text \<open>Everything before the new generation is written: nothing of it changes the state.\<close>

definition plan_update :: "index_env \<Rightarrow> IndexConfig \<Rightarrow> string \<Rightarrow> SqliteChunkRepository \<Rightarrow> file_tree \<Rightarrow>
    (nat \<times> path list \<times> pending) res" where
  "plan_update env cfg model_hash r fs =
     res_bind (check_metadata env model_hash r) (\<lambda>_.
     res_bind (read_value env ''active_vector_generation'' r) (\<lambda>stored_generation.
     res_bind (generation_of stored_generation) (\<lambda>old_generation.
     res_bind (load_old_vectors env (index_data_dir cfg) model_hash old_generation fs) (\<lambda>vectors.
     res_bind (ie_scan env) (\<lambda>scan.
     res_bind (documents_read (ie_reads env Read_documents) r) (\<lambda>docs.
     let old_documents = map_of (map (\<lambda>d. (sdoc_path d, d)) docs) in
     res_bind (index_files env cfg r old_documents (scan_files scan)
       \<lparr>pend_present = [], pend_result = \<lparr>res_added = 0, res_changed = 0, res_removed = 0,
          res_unchanged = 0, res_embedded = 0, res_generation = 0\<rparr>, pend_vectors = vectors,
        pend_replacements = [], pend_symbols = []\<rparr>) (\<lambda>s.
     res_bind (remove_missing env r (map sdoc_path docs) s) (\<lambda>(removals, s).
       Inr (old_generation, removals, s)))))))))"

text \<open>The calls to the symbol repository, each of which may fail.\<close>

fun replace_symbols :: "(nat \<Rightarrow> exn option) \<Rightarrow> nat \<Rightarrow> symbol_replacement list \<Rightarrow> symbol_replacement list \<times> exn option" where
  "replace_symbols fault n [] = ([], None)"
| "replace_symbols fault n (c # cs) = (case fault n of
     Some e \<Rightarrow> ([], Some e)
   | None \<Rightarrow> (case replace_symbols fault (n + 1) cs of (made, e) \<Rightarrow> (c # made, e)))"

definition symbol_calls :: "index_env \<Rightarrow> IndexConfig \<Rightarrow> path list \<Rightarrow> pending \<Rightarrow> symbol_replacement list" where
  "symbol_calls env cfg removals s = (if index_semantic_index_enabled cfg \<and> ie_parse env \<noteq> None
     then map (\<lambda>p. \<lparr>symrep_path = p, symrep_symbols = [], symrep_edges = []\<rparr>) removals @ pend_symbols s
     else [])"

definition stored_vectors :: "index_env \<Rightarrow> (ChunkId \<rightharpoonup> Embedding) \<Rightarrow> StoredVector list" where
  "stored_vectors env vectors = map (\<lambda>(i, v). \<lparr>stored_id = i, stored_values = v\<rparr>) (ie_order env vectors)"

text \<open>
  Writing a new generation: the vector file, with a check that it can be read, then the database, then the
  symbols. \<open>None\<close> is success.
\<close>

definition write_vectors :: "index_env \<Rightarrow> IndexConfig \<Rightarrow> string \<Rightarrow> nat \<Rightarrow> pending \<Rightarrow> 'i index_state \<Rightarrow>
    exn option \<times> 'i index_state" where
  "write_vectors env cfg model_hash generation s st = (
     let p = vector_path (index_data_dir cfg) generation in
     case write_atomic p \<lparr>meta_dimension = of_nat (ie_dimension env), meta_model_hash = model_hash\<rparr>
         (stored_vectors env (pend_vectors s)) (ie_write env) (st_files st) of
       (Inl e, fs) \<Rightarrow> (Some e, st\<lparr>st_files := fs\<rparr>)
     | (Inr _, fs) \<Rightarrow> (case read_file p fs of Inl e \<Rightarrow> Some e | Inr _ \<Rightarrow> None, st\<lparr>st_files := fs\<rparr>))"

definition commit_generation :: "index_env \<Rightarrow> string \<Rightarrow> string \<Rightarrow> nat \<Rightarrow> path list \<Rightarrow> pending \<Rightarrow>
    SqliteChunkRepository \<Rightarrow> 'i index_state \<Rightarrow> exn option \<times> 'i index_state" where
  "commit_generation env model_id model_hash generation removals s r st = (
     case transaction (ie_database_fault env)
         (update_calls env model_id model_hash removals (pend_replacements s) generation) r of
       (Inl e, r) \<Rightarrow> (Some e, st\<lparr>st_tables := Some (live r)\<rparr>)
     | (Inr _, r) \<Rightarrow> (None, st\<lparr>st_tables := Some (live r)\<rparr>))"

definition record_symbols :: "index_env \<Rightarrow> IndexConfig \<Rightarrow> path list \<Rightarrow> pending \<Rightarrow> 'i index_state \<Rightarrow>
    exn option \<times> 'i index_state" where
  "record_symbols env cfg removals s st = (
     case replace_symbols (ie_symbol_fault env) 0 (symbol_calls env cfg removals s) of
       (made, e) \<Rightarrow> (e, st\<lparr>st_symbols := st_symbols st @ made\<rparr>))"

definition write_generation :: "index_env \<Rightarrow> IndexConfig \<Rightarrow> string \<Rightarrow> string \<Rightarrow> nat \<Rightarrow> path list \<Rightarrow> pending \<Rightarrow>
    SqliteChunkRepository \<Rightarrow> 'i index_state \<Rightarrow> exn option \<times> 'i index_state" where
  "write_generation env cfg model_id model_hash generation removals s r st = (
     case write_vectors env cfg model_hash generation s st of
       (Some e, st) \<Rightarrow> (Some e, st)
     | (None, st) \<Rightarrow> (case commit_generation env model_id model_hash generation removals s r st of
         (Some e, st) \<Rightarrow> (Some e, st)
       | (None, st) \<Rightarrow> record_symbols env cfg removals s st))"

definition build_snapshot :: "index_env \<Rightarrow> 'i index_kind \<Rightarrow> (ChunkId \<rightharpoonup> Embedding) \<Rightarrow> 'i res" where
  "build_snapshot env kind vectors = (let vs = ie_order env vectors in
     res_bind (kind_make kind (ie_dimension env) (max 1 (length vs))) (load_vectors (kind_upsert kind) vs))"

definition publish_snapshot :: "index_env \<Rightarrow> 'i index_kind \<Rightarrow> nat \<Rightarrow> pending \<Rightarrow> 'i index_state \<Rightarrow>
    IndexUpdateResult res \<times> 'i index_state" where
  "publish_snapshot env kind generation s st = (case build_snapshot env kind (pend_vectors s) of
     Inl e \<Rightarrow> (Inl e, st)
   | Inr snapshot \<Rightarrow> (Inr ((pend_result s)\<lparr>res_generation := generation\<rparr>), st\<lparr>st_handle := Some snapshot\<rparr>))"

definition update :: "index_env \<Rightarrow> IndexConfig \<Rightarrow> 'i index_kind \<Rightarrow> string \<Rightarrow> 'i index_state \<Rightarrow>
    IndexUpdateResult res \<times> 'i index_state" where
  "update env cfg kind model_id st = (case open_index env cfg st of
     (Inl e, st) \<Rightarrow> (Inl e, st)
   | (Inr r, st) \<Rightarrow> (let model_hash = stable_hash_hex model_id in
       case plan_update env cfg model_hash r (st_files st) of
         Inl e \<Rightarrow> (Inl e, st)
       | Inr (old_generation, removals, s) \<Rightarrow>
           let unchanged = (pend_replacements s = [] \<and> removals = [] \<and> old_generation \<noteq> 0);
             generation = (if unchanged then old_generation else sz_add old_generation 1)
           in case (if unchanged then (None, st)
               else write_generation env cfg model_id model_hash generation removals s r st) of
             (Some e, st) \<Rightarrow> (Inl e, st)
           | (None, st) \<Rightarrow> publish_snapshot env kind generation s st))"

text \<open>The steps of \<open>write_generation\<close> written out.\<close>

lemma write_generation_steps:
  "write_generation env cfg model_id model_hash generation removals s r st = (
     let p = vector_path (index_data_dir cfg) generation in
     case write_atomic p \<lparr>meta_dimension = of_nat (ie_dimension env), meta_model_hash = model_hash\<rparr>
         (stored_vectors env (pend_vectors s)) (ie_write env) (st_files st) of
       (Inl e, fs) \<Rightarrow> (Some e, st\<lparr>st_files := fs\<rparr>)
     | (Inr _, fs) \<Rightarrow> (let st = st\<lparr>st_files := fs\<rparr> in
         case read_file p fs of
           Inl e \<Rightarrow> (Some e, st)
         | Inr _ \<Rightarrow> (case transaction (ie_database_fault env)
             (update_calls env model_id model_hash removals (pend_replacements s) generation) r of
               (Inl e, r) \<Rightarrow> (Some e, st\<lparr>st_tables := Some (live r)\<rparr>)
             | (Inr _, r) \<Rightarrow> (let st = st\<lparr>st_tables := Some (live r)\<rparr> in
                 case replace_symbols (ie_symbol_fault env) 0 (symbol_calls env cfg removals s) of
                   (made, e) \<Rightarrow> (e, st\<lparr>st_symbols := st_symbols st @ made\<rparr>)))))"
proof -
  obtain w fs where w: "write_atomic (vector_path (index_data_dir cfg) generation)
      \<lparr>meta_dimension = of_nat (ie_dimension env), meta_model_hash = model_hash\<rparr>
      (stored_vectors env (pend_vectors s)) (ie_write env) (st_files st) = (w, fs)" by fastforce
  obtain tx r' where tx: "transaction (ie_database_fault env)
      (update_calls env model_id model_hash removals (pend_replacements s) generation) r = (tx, r')" by fastforce
  show ?thesis
    by (cases w; cases "read_file (vector_path (index_data_dir cfg) generation) fs"; cases tx)
      (simp_all add: write_generation_def write_vectors_def commit_generation_def record_symbols_def Let_def w tx)
qed

text \<open>
  No query whose rows decide about vectors was cut short: those of the active generation, of the documents and of
  the old chunks of a file. (The other two values that are read are checked again against the vector file.)
\<close>

definition reads_complete :: "index_env \<Rightarrow> bool" where
  "reads_complete env \<longleftrightarrow> (\<forall>q n. ie_reads env q = Read_stopped n \<longrightarrow>
     (\<exists>key. q = Read_metadata key \<and> key \<noteq> ''active_vector_generation''))"

lemma reads_complete_cases:
  assumes "reads_complete env"
  shows "ie_reads env Read_documents \<noteq> Read_stopped n" "ie_reads env (Read_chunks p) \<noteq> Read_stopped n"
    "ie_reads env (Read_metadata ''active_vector_generation'') \<noteq> Read_stopped n"
  using assms by (auto simp: reads_complete_def)

lemma complete_readings:
  assumes "reads_complete env"
  shows "documents_read (ie_reads env Read_documents) r = Inr ds \<Longrightarrow> ds = documents r"
    "chunks_read (ie_reads env (Read_chunks p)) p r = Inr cs \<Longrightarrow> cs = chunks_for_document p r"
    "read_value env ''active_vector_generation'' r = Inr v \<Longrightarrow> v = metadata_value ''active_vector_generation'' r"
  using complete_reads reads_complete_cases [OF assms] unfolding read_value_def by blast+

section \<open>Transactions\<close>

lemma perform_saved: "perform c r = (res, r') \<Longrightarrow> saved r' = saved r"
  using replace_document_saved by (cases c) (auto simp: set_metadata_def, metis snd_conv)

lemma perform_all_saved: "perform_all fault n cs r = (res, r') \<Longrightarrow> saved r' = saved r"
proof (induction fault n cs r arbitrary: res r' rule: perform_all.induct)
  case (2 fault n c cs r)
  obtain res1 r1 where p: "perform c r = (res1, r1)" by fastforce
  note s = perform_saved [OF p]
  show ?case
  proof (cases "fault n = None \<and> (\<exists>u. res1 = Inr u)")
    case True
    then obtain u where u: "res1 = Inr u" by blast
    with 2(2) True p have "perform_all fault (n + 1) cs r1 = (res, r')" by simp
    from 2(1) [OF _ p [symmetric, unfolded u] refl this] True s show ?thesis by simp
  next
    case False
    with 2(2) p s show ?thesis by (cases res1) (auto split: option.splits)
  qed
qed simp

text \<open>A transaction does all of its calls or leaves the tables as they were.\<close>

lemma transaction_cases:
  assumes "saved r = None" and "transaction fault cs r = (res, r')"
  shows "saved r' = None \<and> (case res of
    Inl e \<Rightarrow> live r' = live r
  | Inr _ \<Rightarrow> \<exists>r2. perform_all fault 1 cs (r\<lparr>saved := Some (live r)\<rparr>) = (Inr (), r2) \<and> live r' = live r2)"
proof (cases "fault 0")
  case (Some e)
  with assms show ?thesis by (auto simp: transaction_def)
next
  case None
  have b: "begin_tx r = Inr (r\<lparr>saved := Some (live r)\<rparr>)" using assms(1) by (simp add: begin_tx_def)
  obtain res2 r2 where p: "perform_all fault 1 cs (r\<lparr>saved := Some (live r)\<rparr>) = (res2, r2)" by fastforce
  have s: "saved r2 = Some (live r)" using perform_all_saved [OF p] by simp
  show ?thesis
  proof (cases "res2")
    case (Inl e)
    with assms(2) None b p s show ?thesis by (auto simp: transaction_def rollback_tx_def)
  next
    case (Inr u)
    with assms(2) None b p s show ?thesis
      by (cases "fault (length cs + 1)") (auto simp: transaction_def rollback_tx_def commit_tx_def)
  qed
qed

fun document_effect :: "repository_call \<Rightarrow> (path \<rightharpoonup> StoredDocument) \<Rightarrow> (path \<rightharpoonup> StoredDocument)" where
  "document_effect (Erase_document p) m = m(p := None)"
| "document_effect (Replace_document d g) m = m(sdoc_path d \<mapsto> as_stored d)"
| "document_effect (Set_metadata k v) m = m"

fun metadata_effect :: "repository_call \<Rightarrow> (string \<rightharpoonup> string) \<Rightarrow> (string \<rightharpoonup> string)" where
  "metadata_effect (Erase_document p) m = m"
| "metadata_effect (Replace_document d g) m = m(''active_vector_generation'' \<mapsto> string_of_nat g)"
| "metadata_effect (Set_metadata k v) m = m(k \<mapsto> v)"

lemma perform_effect:
  assumes "db_inv (live r)" and "perform c r = (Inr u, r')"
  shows "db_inv (live r') \<and> document_map (live r') = document_effect c (document_map (live r))
    \<and> index_metadata (live r') = metadata_effect c (index_metadata (live r))"
proof (cases c)
  case (Erase_document p)
  with assms show ?thesis by (auto simp: erase_document_inv erase_document_map)
next
  case (Replace_document d g)
  with assms(2) have "replace_document d g r = (Inr (), r')" by simp
  from replace_document_cases(3) [OF assms(1) this refl] Replace_document show ?thesis by simp
next
  case (Set_metadata k v)
  with assms have "r' = set_metadata k v r" by simp
  with assms(1) Set_metadata show ?thesis by simp (simp add: set_metadata_def)
qed

lemma perform_all_effect:
  "perform_all fault n cs r = (Inr u, r') \<Longrightarrow> db_inv (live r) \<Longrightarrow>
    db_inv (live r') \<and> document_map (live r') = foldl (\<lambda>m c. document_effect c m) (document_map (live r)) cs
    \<and> index_metadata (live r') = foldl (\<lambda>m c. metadata_effect c m) (index_metadata (live r)) cs"
proof (induction fault n cs r rule: perform_all.induct)
  case (2 fault n c cs r)
  obtain res1 r1 where p: "perform c r = (res1, r1)" by fastforce
  have f: "fault n = None" using 2(2) by (auto split: option.splits)
  obtain v where v: "res1 = Inr v" using 2(2) p f by (cases res1) auto
  note e = perform_effect [OF 2(3) p [unfolded v]]
  have "perform_all fault (n + 1) cs r1 = (Inr u, r')" using 2(2) p f v by simp
  from 2(1) [OF f p [symmetric, unfolded v] refl this] e show ?case by simp
qed simp

lemma erase_effects:
  "foldl (\<lambda>m c. document_effect c m) m (map Erase_document ps) = (\<lambda>p. if p \<in> set ps then None else m p)"
  by (induction ps arbitrary: m) (auto simp: fun_eq_iff)

lemma replace_effects:
  "distinct (map sdoc_path ds) \<Longrightarrow>
    foldl (\<lambda>m c. document_effect c m) m (map (\<lambda>d. Replace_document d g) ds)
    = m ++ map_of (map (\<lambda>d. (sdoc_path d, as_stored d)) ds)"
proof (induction ds arbitrary: m)
  case (Cons d ds)
  have "map_of (map (\<lambda>d. (sdoc_path d, as_stored d)) ds) (sdoc_path d) = None"
    using Cons.prems by (auto simp: map_of_eq_None_iff)
  with Cons show ?case by (auto simp: map_add_def fun_eq_iff split: option.splits)
qed simp

lemma metadata_effects_last:
  "foldl (\<lambda>m c. metadata_effect c m) m (cs @ [Set_metadata k v]) k = Some v"
  by simp

lemma update_calls_effect:
  assumes "distinct (map sdoc_path ds)"
  shows "foldl (\<lambda>m c. document_effect c m) m (update_calls env mid mh ps ds g)
    = (\<lambda>p. if p \<in> set ps then None else m p) ++ map_of (map (\<lambda>d. (sdoc_path d, as_stored d)) ds)"
  by (simp add: update_calls_def erase_effects replace_effects [OF assms])

section \<open>The vectors an update leaves\<close>

definition old_ids :: "tables \<Rightarrow> path \<Rightarrow> ChunkId set" where
  "old_ids t p = (case document_map t p of None \<Rightarrow> {} | Some sd \<Rightarrow> document_chunk_ids sd)"

definition new_ids :: "StoredDocument list \<Rightarrow> ChunkId set" where
  "new_ids ds = (\<Union>d \<in> set ds. document_chunk_ids d)"

text \<open>
  No id of a new chunk is the id of an old chunk of another document: ids are hashes of the path, the
  lines and the content, so that this is a statement about collisions.
\<close>

definition no_collision :: "tables \<Rightarrow> StoredDocument list \<Rightarrow> bool" where
  "no_collision t ds \<longleftrightarrow> (\<forall>d \<in> set ds. \<forall>q. q \<noteq> sdoc_path d \<longrightarrow> document_chunk_ids d \<inter> old_ids t q = {})"

lemma dom_erase_vectors: "dom (erase_vectors cs v) = dom v - chunk_id ` set cs"
  by (auto simp: erase_vectors_def dom_def)

lemma dom_assign_vectors:
  "length cs \<le> length vs \<Longrightarrow> dom (assign_vectors cs vs v) = dom v \<union> chunk_id ` set cs"
proof (induction cs arbitrary: vs v)
  case (Cons c cs)
  then obtain e es where "vs = e # es" by (cases vs) auto
  with Cons show ?case by auto
qed simp

definition pending_ok :: "tables \<Rightarrow> ChunkId set \<Rightarrow> pending \<Rightarrow> bool" where
  "pending_ok t ids s \<longleftrightarrow> distinct (map sdoc_path (pend_replacements s))
     \<and> sdoc_path ` set (pend_replacements s) \<subseteq> set (pend_present s)
     \<and> (no_collision t (pend_replacements s) \<longrightarrow> dom (pend_vectors s)
          = (ids - (\<Union>d \<in> set (pend_replacements s). old_ids t (sdoc_path d))) \<union> new_ids (pend_replacements s))"

lemma pending_ok_replace:
  assumes ok: "pending_ok t ids s" and p: "sdoc_path d \<notin> set (pend_present s)"
    and s': "pend_present s' = sdoc_path d # pend_present s" "pend_replacements s' = pend_replacements s @ [d]"
      "dom (pend_vectors s') = dom (pend_vectors s) - old_ids t (sdoc_path d) \<union> document_chunk_ids d"
  shows "pending_ok t ids s'"
proof -
  have "dom (pend_vectors s') = (ids - (\<Union>d \<in> set (pend_replacements s'). old_ids t (sdoc_path d)))
      \<union> new_ids (pend_replacements s')" if nc: "no_collision t (pend_replacements s')"
  proof -
    have "no_collision t (pend_replacements s)" using nc by (simp add: no_collision_def s')
    then have dom: "dom (pend_vectors s) = (ids - (\<Union>d \<in> set (pend_replacements s). old_ids t (sdoc_path d)))
        \<union> new_ids (pend_replacements s)" using ok by (simp add: pending_ok_def)
    have "document_chunk_ids x \<inter> old_ids t (sdoc_path d) = {}" if x: "x \<in> set (pend_replacements s)" for x
    proof -
      have "sdoc_path d \<noteq> sdoc_path x" using ok p x by (auto simp: pending_ok_def)
      with nc x show ?thesis by (simp add: no_collision_def s')
    qed
    then have "new_ids (pend_replacements s) \<inter> old_ids t (sdoc_path d) = {}" by (auto simp: new_ids_def)
    with dom show ?thesis by (auto simp: s' new_ids_def)
  qed
  moreover have "sdoc_path d \<notin> sdoc_path ` set (pend_replacements s)" using ok p by (auto simp: pending_ok_def)
  ultimately show ?thesis using ok by (auto simp: pending_ok_def s')
qed

section \<open>The loop over the files\<close>

definition clean_tables :: "tables \<Rightarrow> bool" where
  "clean_tables t \<longleftrightarrow> (\<forall>p sd. document_map t p = Some sd \<longrightarrow> CHR 0x00 \<notin> set p \<and> CHR 0x00 \<notin> set (sdoc_hash sd))"

abbreviation old_documents :: "SqliteChunkRepository \<Rightarrow> path \<rightharpoonup> StoredDocument" where
  "old_documents r \<equiv> map_of (map (\<lambda>d. (sdoc_path d, d)) (documents r))"

lemma clean_rows:
  assumes "db_inv (live r)" and "clean_tables (live r)" and "d \<in> set (documents_table (live r))"
  shows "c_str (doc_path d) = doc_path d" "c_str (doc_hash d) = doc_hash d"
proof -
  have "CHR 0x00 \<notin> set (doc_path d) \<and> CHR 0x00 \<notin> set (sdoc_hash (raw_document (chunks_table (live r)) d))"
    using document_map_SomeI [OF assms(1,3)] assms(2) unfolding clean_tables_def by blast
  then show "c_str (doc_path d) = doc_path d" "c_str (doc_hash d) = doc_hash d"
    by (simp_all add: raw_document_def)
qed

lemma documents_paths:
  assumes "db_inv (live r)" and "clean_tables (live r)"
  shows "map sdoc_path (documents r) = map doc_path (documents_table (live r))"
  using clean_rows [OF assms] by (auto simp: documents_def)

lemma documents_paths_dom:
  assumes "db_inv (live r)" and "clean_tables (live r)"
  shows "set (map sdoc_path (documents r)) = dom (document_map (live r))"
  unfolding documents_paths [OF assms] using document_map_None [of "live r"] by (auto simp: dom_def)

lemma old_documents_None:
  assumes "db_inv (live r)" and "clean_tables (live r)"
  shows "old_documents r p = None \<longleftrightarrow> document_map (live r) p = None"
  using documents_paths_dom [OF assms] by (auto simp: map_of_eq_None_iff image_image domIff)

lemma old_documents_Some:
  assumes inv: "db_inv (live r)" and clean: "clean_tables (live r)" and d: "old_documents r p = Some d"
  shows "\<exists>sd. document_map (live r) p = Some sd \<and> sdoc_hash d = sdoc_hash sd"
proof -
  from map_of_SomeD [OF d] obtain row where row: "row \<in> set (documents_table (live r))"
    "p = c_str (doc_path row)" "sdoc_hash d = c_str (doc_hash row)" by (auto simp: documents_def)
  with clean_rows [OF inv clean row(1)] document_map_SomeI [OF inv row(1)] show ?thesis
    by (simp add: raw_document_def)
qed

definition synced :: "tables \<Rightarrow> index_env \<Rightarrow> StoredDocument list \<Rightarrow> ScannedFile \<Rightarrow> bool" where
  "synced t env ds f \<longleftrightarrow> (\<exists>content. ie_read env (file_absolute_path f) = Some content
     \<and> ((\<exists>d \<in> set ds. sdoc_path d = file_relative_path f \<and> sdoc_hash d = stable_hash_hex content)
       \<or> (file_relative_path f \<notin> sdoc_path ` set ds
          \<and> (\<exists>sd. document_map t (file_relative_path f) = Some sd \<and> sdoc_hash sd = stable_hash_hex content))))"

lemma synced_append:
  "synced t env ds f \<Longrightarrow> sdoc_path d \<noteq> file_relative_path f \<Longrightarrow> synced t env (ds @ [d]) f"
  by (auto simp: synced_def)

lemma content_hash_ok: "content_hash read p = Inr h \<Longrightarrow> \<exists>content. read p = Some content \<and> h = stable_hash_hex content"
  by (auto simp: content_hash_def split: option.splits)

lemma index_file_unchanged:
  assumes "index_file env cfg r (old_documents r) f s = Inr s'"
    and "old_documents r (file_relative_path f) = Some d" "content_hash (ie_read env) (file_absolute_path f) = Inr (sdoc_hash d)"
  shows "pend_present s' = file_relative_path f # pend_present s" "pend_replacements s' = pend_replacements s"
    "pend_vectors s' = pend_vectors s"
  using assms by (auto simp: index_file_def Let_def)

lemma index_file_replaced:
  assumes inv: "db_inv (live r)" and clean: "clean_tables (live r)" and reads: "reads_complete env"
    and ok: "index_file env cfg r (old_documents r) f s = Inr s'"
    and hash: "content_hash (ie_read env) (file_absolute_path f) = Inr h"
    and changed: "\<forall>d. old_documents r (file_relative_path f) = Some d \<longrightarrow> sdoc_hash d \<noteq> h"
  shows "\<exists>d. sdoc_path d = file_relative_path f \<and> sdoc_hash d = h
    \<and> pend_present s' = file_relative_path f # pend_present s \<and> pend_replacements s' = pend_replacements s @ [d]
    \<and> dom (pend_vectors s') = dom (pend_vectors s) - old_ids (live r) (file_relative_path f) \<union> document_chunk_ids d"
proof -
  let ?p = "file_relative_path f"
  define v1 where "v1 = (if old_documents r ?p = None then pend_vectors s
    else erase_vectors (chunks_for_document ?p r) (pend_vectors s))"
  have dom1: "dom v1 = dom (pend_vectors s) - old_ids (live r) ?p"
  proof (cases "old_documents r ?p")
    case None
    then have "document_map (live r) ?p = None" using old_documents_None [OF inv clean] by blast
    with None show ?thesis by (simp add: v1_def old_ids_def)
  next
    case (Some d)
    then show ?thesis
      by (simp add: v1_def dom_erase_vectors chunks_for_document_ids [OF inv] old_ids_def)
  qed
  let ?s = "s\<lparr>pend_present := ?p # pend_present s\<rparr>"
  have "\<not> (old_documents r ?p \<noteq> None \<and> sdoc_hash (the (old_documents r ?p)) = h)" using changed by auto
  then obtain s1 where s1: "replace_previous env r ?p (old_documents r ?p = None) ?s = Inr s1"
    using ok hash by (auto simp: index_file_def Let_def res_simps)
  have v1: "pend_vectors s1 = v1" "pend_present s1 = ?p # pend_present s" "pend_replacements s1 = pend_replacements s"
    using s1 complete_readings(2) [OF reads]
    by (auto simp: replace_previous_def v1_def Let_def res_simps split: if_splits)
  from s1 obtain chunks version symbols vs modified where
    cs: "chunks_of_file env cfg f = Inr (chunks, version, symbols)" "embed_chunks env chunks = Inr vs"
      "ie_modified env (file_absolute_path f) = Inr modified"
    and s': "pend_present s' = ?p # pend_present s" "pend_vectors s' = assign_vectors chunks vs v1"
      "pend_replacements s' = pend_replacements s @ [\<lparr>sdoc_path = ?p, sdoc_hash = h,
              sdoc_size = of_nat (file_size_bytes f), sdoc_modified = modified,
              sdoc_parser = version, sdoc_chunks = chunks\<rparr>]"
    using ok hash changed v1 by (cases "old_documents r ?p") (auto simp: index_file_def Let_def res_simps)
  have "length chunks \<le> length vs" using cs(2) by (auto simp: embed_chunks_def res_simps split: if_splits)
  from dom_assign_vectors [OF this, of v1] dom1 s' show ?thesis
    by (intro exI [of _ "\<lparr>sdoc_path = ?p, sdoc_hash = h, sdoc_size = of_nat (file_size_bytes f),
      sdoc_modified = modified, sdoc_parser = version, sdoc_chunks = chunks\<rparr>"])
      (simp add: document_chunk_ids_def)
qed

lemma index_file_step:
  assumes inv: "db_inv (live r)" and clean: "clean_tables (live r)" and reads: "reads_complete env"
    and ok: "index_file env cfg r (old_documents r) f s = Inr s'"
    and pend: "pending_ok (live r) ids s" and new: "file_relative_path f \<notin> set (pend_present s)"
  shows "pending_ok (live r) ids s' \<and> pend_present s' = file_relative_path f # pend_present s
    \<and> synced (live r) env (pend_replacements s') f
    \<and> (\<forall>g. file_relative_path g \<noteq> file_relative_path f \<longrightarrow> synced (live r) env (pend_replacements s) g \<longrightarrow>
         synced (live r) env (pend_replacements s') g)"
proof -
  let ?p = "file_relative_path f"
  obtain h where h: "content_hash (ie_read env) (file_absolute_path f) = Inr h"
    using ok by (auto simp: index_file_def Let_def res_simps)
  from content_hash_ok [OF h] obtain content where content: "ie_read env (file_absolute_path f) = Some content"
    "h = stable_hash_hex content" by blast
  show ?thesis
  proof (cases "\<exists>d. old_documents r ?p = Some d \<and> sdoc_hash d = h")
    case True
    then obtain d where d: "old_documents r ?p = Some d" "sdoc_hash d = h" by blast
    note s' = index_file_unchanged [OF ok d(1) h [folded d(2)]]
    have "?p \<notin> sdoc_path ` set (pend_replacements s)" using pend new by (auto simp: pending_ok_def)
    with content old_documents_Some [OF inv clean d(1)] d(2) have "synced (live r) env (pend_replacements s') f"
      by (auto simp: synced_def s')
    moreover have "pending_ok (live r) ids s'" using pend by (auto simp: pending_ok_def s')
    ultimately show ?thesis by (simp add: s')
  next
    case False
    then have "\<forall>d. old_documents r ?p = Some d \<longrightarrow> sdoc_hash d \<noteq> h" by blast
    from index_file_replaced [OF inv clean reads ok h this] obtain d where d: "sdoc_path d = ?p" "sdoc_hash d = h"
      and s': "pend_present s' = ?p # pend_present s" "pend_replacements s' = pend_replacements s @ [d]"
      "dom (pend_vectors s') = dom (pend_vectors s) - old_ids (live r) ?p \<union> document_chunk_ids d" by blast
    have "pending_ok (live r) ids s'"
      using pending_ok_replace [OF pend, of d s'] new d(1) s' by simp
    moreover have "synced (live r) env (pend_replacements s') f"
      using content d by (auto simp: synced_def s')
    ultimately show ?thesis using s' d(1) synced_append by metis
  qed
qed

lemma index_files_ok:
  "index_files env cfg r (old_documents r) fs s = Inr s' \<Longrightarrow> reads_complete env \<Longrightarrow> db_inv (live r) \<Longrightarrow> clean_tables (live r) \<Longrightarrow>
    pending_ok (live r) ids s \<Longrightarrow> distinct (map file_relative_path fs) \<Longrightarrow>
    set (map file_relative_path fs) \<inter> set (pend_present s) = {} \<Longrightarrow>
    pending_ok (live r) ids s' \<and> set (pend_present s') = set (map file_relative_path fs) \<union> set (pend_present s)
    \<and> (\<forall>f \<in> set fs. synced (live r) env (pend_replacements s') f)
    \<and> (\<forall>g. file_relative_path g \<notin> set (map file_relative_path fs) \<longrightarrow>
         synced (live r) env (pend_replacements s) g \<longrightarrow> synced (live r) env (pend_replacements s') g)"
proof (induction fs arbitrary: s)
  case (Cons f fs)
  obtain s1 where s1: "index_file env cfg r (old_documents r) f s = Inr s1"
    "index_files env cfg r (old_documents r) fs s1 = Inr s'" using Cons.prems(1) by (auto simp: res_simps)
  have new: "file_relative_path f \<notin> set (pend_present s)" using Cons.prems(7) by auto
  note step = index_file_step [OF Cons.prems(3,4,2) s1(1) Cons.prems(5) new]
  have "distinct (map file_relative_path fs)" "set (map file_relative_path fs) \<inter> set (pend_present s1) = {}"
    using Cons.prems(6,7) step by auto
  note ih = Cons.IH [OF s1(2) Cons.prems(2-4) conjunct1 [OF step] this]
  have nf: "file_relative_path f \<notin> set (map file_relative_path fs)" using Cons.prems(6) by simp
  with ih step have f: "synced (live r) env (pend_replacements s') f" by blast
  have others: "synced (live r) env (pend_replacements s') g"
    if "file_relative_path g \<notin> set (map file_relative_path (f # fs))" "synced (live r) env (pend_replacements s) g" for g
    using ih step that by auto
  have set': "set (pend_present s') = set (map file_relative_path (f # fs)) \<union> set (pend_present s)"
    using ih step by auto
  show ?case
    using ih f others set' by (metis (no_types, lifting) set_ConsD)
qed simp

lemma remove_missing_ok:
  "remove_missing env r ps s = Inr (removals, s') \<Longrightarrow> reads_complete env \<Longrightarrow> db_inv (live r) \<Longrightarrow>
    removals = filter (\<lambda>p. p \<notin> set (pend_present s)) ps \<and> pend_present s' = pend_present s
    \<and> pend_replacements s' = pend_replacements s
    \<and> dom (pend_vectors s') = dom (pend_vectors s) - (\<Union>p \<in> set removals. old_ids (live r) p)"
proof (induction ps arbitrary: s removals s')
  case (Cons p ps)
  show ?case
  proof (cases "p \<in> set (pend_present s)")
    case True
    with Cons.prems(1) have "remove_missing env r ps s = Inr (removals, s')" by simp
    from Cons.IH [OF this Cons.prems(2,3)] True show ?thesis by simp
  next
    case False
    obtain cs rs where cs: "chunks_read (ie_reads env (Read_chunks p)) p r = Inr cs" and
      rec: "remove_missing env r ps (s\<lparr>pend_result := (pend_result s)\<lparr>res_removed := res_removed (pend_result s) + 1\<rparr>,
           pend_vectors := erase_vectors cs (pend_vectors s)\<rparr>) = Inr (rs, s')" and eq: "removals = p # rs"
      using Cons.prems(1) False by (auto simp: res_simps Let_def split: prod.splits)
    have "chunk_id ` set cs = old_ids (live r) p"
      using complete_readings(2) [OF Cons.prems(2) cs] by (simp add: chunks_for_document_ids [OF Cons.prems(3)] old_ids_def)
    with Cons.IH [OF rec Cons.prems(2,3)] eq False show ?thesis by (auto simp: dom_erase_vectors)
  qed
qed simp

definition final_documents :: "(path \<rightharpoonup> StoredDocument) \<Rightarrow> path list \<Rightarrow> StoredDocument list \<Rightarrow> path \<rightharpoonup> StoredDocument" where
  "final_documents m removals ds = (\<lambda>p. if p \<in> set removals then None else m p)
     ++ map_of (map (\<lambda>d. (sdoc_path d, as_stored d)) ds)"

lemma final_documents_lookup:
  assumes "distinct (map sdoc_path ds)"
  shows "d \<in> set ds \<Longrightarrow> final_documents m ps ds (sdoc_path d) = Some (as_stored d)"
    "p \<notin> sdoc_path ` set ds \<Longrightarrow> final_documents m ps ds p = (if p \<in> set ps then None else m p)"
proof -
  assume "d \<in> set ds"
  then have "map_of (map (\<lambda>d. (sdoc_path d, as_stored d)) ds) (sdoc_path d) = Some (as_stored d)"
    using assms by (intro map_of_is_SomeI) (auto simp: comp_def)
  then show "final_documents m ps ds (sdoc_path d) = Some (as_stored d)"
    by (simp add: final_documents_def)
next
  assume "p \<notin> sdoc_path ` set ds"
  then have "map_of (map (\<lambda>d. (sdoc_path d, as_stored d)) ds) p = None"
    by (auto simp: map_of_eq_None_iff)
  then show "final_documents m ps ds p = (if p \<in> set ps then None else m p)"
    by (simp add: final_documents_def map_add_def)
qed

lemma final_documents_ids:
  assumes inv: "db_inv t" and ds: "distinct (map sdoc_path ds)" and disj: "set ps \<inter> sdoc_path ` set ds = {}"
  shows "(\<Union>sd \<in> ran (final_documents (document_map t) ps ds). document_chunk_ids sd)
    = (chunk_ids t - (\<Union>d \<in> set ds. old_ids t (sdoc_path d)) - (\<Union>p \<in> set ps. old_ids t p)) \<union> new_ids ds"
    (is "?l = ?r")
proof (intro equalityI subsetI)
  fix i assume "i \<in> ?l"
  then obtain p sd where sd: "final_documents (document_map t) ps ds p = Some sd" "i \<in> document_chunk_ids sd"
    by (auto simp: ran_def)
  show "i \<in> ?r"
  proof (cases "p \<in> sdoc_path ` set ds")
    case True
    then obtain d where "d \<in> set ds" "p = sdoc_path d" by blast
    with sd final_documents_lookup(1) [OF ds] show ?thesis by (auto simp: new_ids_def)
  next
    case False
    with sd(1) final_documents_lookup(2) [OF ds] have p: "p \<notin> set ps" "document_map t p = Some sd"
      by (auto split: if_splits)
    have "i \<in> chunk_ids t" using p(2) sd(2) by (auto simp: chunk_ids_documents [OF inv] ran_def)
    moreover have other: "i \<notin> old_ids t q" if "q \<noteq> p" for q
      using document_ids_disjoint [OF inv p(2), of q] that sd(2)
      by (auto simp: old_ids_def split: option.splits)
    have "\<forall>d \<in> set ds. i \<notin> old_ids t (sdoc_path d)" "\<forall>q \<in> set ps. i \<notin> old_ids t q"
      using False p(1) other by (metis imageI)+
    ultimately show ?thesis by simp
  qed
next
  fix i assume r: "i \<in> ?r"
  show "i \<in> ?l"
  proof (cases "i \<in> new_ids ds")
    case True
    then obtain d where "d \<in> set ds" "i \<in> document_chunk_ids d" by (auto simp: new_ids_def)
    moreover have "as_stored d \<in> ran (final_documents (document_map t) ps ds)"
      using final_documents_lookup(1) [OF ds \<open>d \<in> set ds\<close>] by (rule ranI)
    ultimately show ?thesis by (intro UN_I [of "as_stored d"]) simp_all
  next
    case False
    with r have i: "i \<in> chunk_ids t" "\<forall>d \<in> set ds. i \<notin> old_ids t (sdoc_path d)" "\<forall>p \<in> set ps. i \<notin> old_ids t p"
      by auto
    then obtain p sd where sd: "document_map t p = Some sd" "i \<in> document_chunk_ids sd"
      by (auto simp: chunk_ids_documents [OF inv] ran_def)
    then have "i \<in> old_ids t p" by (simp add: old_ids_def)
    with i(2,3) have "p \<notin> sdoc_path ` set ds" "p \<notin> set ps" by auto
    with final_documents_lookup(2) [OF ds] sd have "final_documents (document_map t) ps ds p = Some sd" by simp
    with sd(2) show ?thesis by (auto simp: ran_def)
  qed
qed

section \<open>Files of the data directory\<close>

lemma write_atomic_frame:
  assumes "write_atomic p m vs env fs = (res, fs')" and "q \<noteq> p" and "q \<noteq> p @ ''.tmp''"
  shows "fs' q = fs q"
  using assms by (auto simp: write_atomic_def split: if_splits option.splits prod.splits)

lemma split_on_dots: "split_on (CHR ''.'') (''vectors.'' @ string_of_nat g @ ''.bin'') = [''vectors'', string_of_nat g, ''bin'']"
proof -
  have "CHR ''.'' \<notin> set (string_of_nat g)" using string_of_nat_digits [of g] by (auto simp: is_digit_def)
  then have "split_on (CHR ''.'') (string_of_nat g @ CHR ''.'' # ''bin'') = [string_of_nat g, ''bin'']"
    by (simp add: split_on_append_sep)
  then show ?thesis by simp
qed

lemma vector_name_no_slash: "slash \<notin> set (''vectors.'' @ string_of_nat g @ ''.bin'')"
  using string_of_nat_digits [of g] by (auto simp: is_digit_def)

lemma vector_name_relative: "\<not> is_absolute (''vectors.'' @ string_of_nat g @ ''.bin'')"
  by (simp add: is_absolute_def)

lemma last_split_on_append:
  "sep \<notin> set t \<Longrightarrow> last (split_on sep (s @ sep # t)) = t"
proof (induction s)
  case (Cons c s)
  have "length (split_on sep (s @ sep # t)) \<noteq> 1"
    by (induction s) (auto split: list.splits)
  with Cons show ?case by (cases "split_on sep (s @ sep # t)") auto
qed (simp add: split_on_without)

lemma vector_path_extension: "extension (vector_path d g) = ''.bin''"
proof -
  let ?n = "''vectors.'' @ string_of_nat g @ ''.bin''"
  have "filename (vector_path d g) = ?n"
  proof (cases "d = [] \<or> last d = slash")
    case True
    then have "vector_path d g = d @ ?n" by (simp add: vector_path_def path_append_def is_absolute_def)
    moreover have "d = [] \<or> (\<exists>b. d = b @ [slash])" using True by (metis append_butlast_last_id)
    ultimately show ?thesis
      using last_split_on_append [OF vector_name_no_slash] split_on_without [OF vector_name_no_slash]
      by (auto simp: filename_def)
  next
    case False
    then have "vector_path d g = d @ slash # ?n" by (simp add: vector_path_def path_append_def is_absolute_def)
    then show ?thesis using last_split_on_append [OF vector_name_no_slash] by (simp add: filename_def)
  qed
  then show ?thesis using split_on_dots [of g] by (simp add: extension_def Let_def)
qed

lemma vector_path_neq:
  assumes "g \<noteq> h"
  shows "vector_path d g \<noteq> vector_path d h" "vector_path d g \<noteq> vector_path d h @ ''.tmp''"
proof -
  show "vector_path d g \<noteq> vector_path d h"
    using assms by (simp add: vector_path_def path_append_def is_absolute_def)
  have "last (vector_path d g) = CHR ''n''" "last (vector_path d h @ ''.tmp'') = CHR ''p''"
    by (simp_all add: vector_path_def path_append_def is_absolute_def)
  then show "vector_path d g \<noteq> vector_path d h @ ''.tmp''" by auto
qed

lemma remove_temporaries_vector [simp]: "remove_temporaries d fs (vector_path d g) = fs (vector_path d g)"
  by (simp add: remove_temporaries_def vector_path_extension)

section \<open>Consistency of the persistent index\<close>

lemma stable_hash_hex_no_nul: "CHR 0x00 \<notin> set (stable_hash_hex v)"
proof -
  have "length hex_digits = 16" by (simp add: hex_digits_def)
  then have "hex_digits ! unat (w AND 0xF :: 64 word) \<in> set hex_digits" for w
    using nibble_bound [of w] by (intro nth_mem) simp
  then have "set (stable_hash_hex v) \<subseteq> set hex_digits"
    by (auto simp: stable_hash_hex_def Let_def)
  moreover have "CHR 0x00 \<notin> set hex_digits" by (simp add: hex_digits_def)
  ultimately show ?thesis by blast
qed

lemma generation_round_trip:
  assumes "g \<le> size_max"
  shows "generation_of (string_of_nat g) = Inr g"
proof -
  have d: "\<forall>c \<in> set (string_of_nat g). is_digit c" by (rule string_of_nat_digits)
  obtain c cs where g: "string_of_nat g = c # cs" using string_of_nat_nonempty [of g] by (cases "string_of_nat g") auto
  have c: "\<not> is_space c" "c \<noteq> CHR ''-''" "c \<noteq> CHR ''+''"
    using d g by (auto simp: is_digit_def is_space_def Let_def)
  have "takeWhile is_digit (string_of_nat g) = string_of_nat g" using d by (simp add: takeWhile_eq_all_conv)
  moreover have "dropWhile is_space (string_of_nat g) = string_of_nat g" using c g by simp
  ultimately have "stoull (string_of_nat g) = Some g"
    using assms c g digits_value_string_of_nat [of g] by (simp add: stoull_def Let_def)
  then show ?thesis by (simp add: generation_of_def)
qed

definition stored_tables :: "'i index_state \<Rightarrow> tables" where
  "stored_tables st = (case st_tables st of None \<Rightarrow> no_tables | Some t \<Rightarrow> t)"

definition active_generation :: "tables \<Rightarrow> nat res" where
  "active_generation t = generation_of (metadata_value ''active_vector_generation'' \<lparr>live = t, saved = None\<rparr>)"

text \<open>
  The database and the active vector file agree: the file can be read and has a vector for exactly
  the chunks stored; before the first generation there are no chunks.
\<close>

definition disk_ok :: "path \<Rightarrow> tables \<Rightarrow> file_tree \<Rightarrow> bool" where
  "disk_ok d t fs \<longleftrightarrow> db_inv t \<and> clean_tables t \<and> (\<exists>g \<le> size_max. active_generation t = Inr g
     \<and> (if g = 0 then chunk_ids t = {}
        else \<exists>m vs. read_file (vector_path d g) fs = Inr (m, vs) \<and> stored_id ` set vs = chunk_ids t))"

definition index_consistent :: "path \<Rightarrow> 'i index_state \<Rightarrow> bool" where
  "index_consistent d st \<longleftrightarrow> disk_ok d (stored_tables st) (st_files st)"

lemma disk_okI:
  assumes "db_inv t" and "clean_tables t" and "g \<le> size_max" and "active_generation t = Inr g"
    and "g = 0 \<Longrightarrow> chunk_ids t = {}"
    and "g \<noteq> 0 \<Longrightarrow> \<exists>m vs. read_file (vector_path d g) fs = Inr (m, vs) \<and> stored_id ` set vs = chunk_ids t"
  shows "disk_ok d t fs"
  using assms unfolding disk_ok_def by auto

lemma disk_ok_frame:
  assumes "disk_ok d t fs" and "\<And>g. active_generation t = Inr g \<Longrightarrow> fs' (vector_path d g) = fs (vector_path d g)"
  shows "disk_ok d t fs'"
  using assms unfolding disk_ok_def by (auto simp: read_file_def)

lemma open_repository_tables:
  assumes "db_inv t" and "stored = None \<and> t = no_tables \<or> stored = Some t"
  shows "live (open_repository stored) = t\<lparr>index_metadata := (index_metadata t)(''schema_version'' \<mapsto> ''2'')\<rparr>"
proof -
  have t: "(case stored of None \<Rightarrow> no_tables | Some t \<Rightarrow> t) = t" using assms(2) by auto
  have "filter (\<lambda>f. fts_rowid f \<notin> fts_rowid ` set (chunk_fts t)) (chunk_fts t) = []"
    by (simp add: filter_empty_conv)
  then show ?thesis
    using assms(1) unfolding open_repository_def t Let_def by (simp add: set_metadata_def db_inv_def)
qed

lemma metadata_update_same [simp]:
  "document_map (t\<lparr>index_metadata := m\<rparr>) = document_map t" "chunk_ids (t\<lparr>index_metadata := m\<rparr>) = chunk_ids t"
  "db_inv (t\<lparr>index_metadata := m\<rparr>) = db_inv t" "clean_tables (t\<lparr>index_metadata := m\<rparr>) = clean_tables t"
  by (simp_all add: document_map_def chunk_ids_def db_inv_def clean_tables_def fun_eq_iff)

lemma active_generation_cong:
  "index_metadata t' ''active_vector_generation'' = index_metadata t ''active_vector_generation'' \<Longrightarrow>
    active_generation t' = active_generation t"
  by (simp add: active_generation_def metadata_value_def)

lemma open_repository_ok:
  assumes "disk_ok d (stored_tables st) fs"
  shows "disk_ok d (live (open_repository (st_tables st))) fs"
    "document_map (live (open_repository (st_tables st))) = document_map (stored_tables st)"
    "active_generation (live (open_repository (st_tables st))) = active_generation (stored_tables st)"
    "chunk_ids (live (open_repository (st_tables st))) = chunk_ids (stored_tables st)"
proof -
  let ?t = "stored_tables st"
  have "st_tables st = None \<and> ?t = no_tables \<or> st_tables st = Some ?t"
    by (auto simp: stored_tables_def split: option.splits)
  with assms have l: "live (open_repository (st_tables st))
      = ?t\<lparr>index_metadata := (index_metadata ?t)(''schema_version'' \<mapsto> ''2'')\<rparr>"
    by (intro open_repository_tables) (simp_all add: disk_ok_def)
  show "document_map (live (open_repository (st_tables st))) = document_map ?t"
    "chunk_ids (live (open_repository (st_tables st))) = chunk_ids ?t" by (simp_all add: l)
  show a: "active_generation (live (open_repository (st_tables st))) = active_generation ?t"
    by (rule active_generation_cong) (simp add: l)
  show "disk_ok d (live (open_repository (st_tables st))) fs"
    using assms unfolding disk_ok_def a by (simp only: l metadata_update_same)
qed

section \<open>What a plan is\<close>

definition order_ok :: "index_env \<Rightarrow> bool" where
  "order_ok env \<longleftrightarrow> (\<forall>m. finite (dom m) \<longrightarrow> distinct (map fst (ie_order env m)) \<and> map_of (ie_order env m) = m)"

definition scan_ok :: "index_env \<Rightarrow> bool" where
  "scan_ok env \<longleftrightarrow> (\<forall>sc. ie_scan env = Inr sc \<longrightarrow> distinct (map file_relative_path (scan_files sc))
     \<and> (\<forall>f \<in> set (scan_files sc). CHR 0x00 \<notin> set (file_relative_path f)))"

lemma plan_update_ok:
  assumes plan: "plan_update env cfg mh r fs = Inr (g, removals, s)"
    and disk: "disk_ok (index_data_dir cfg) (live r) fs" and scan: "scan_ok env" and reads: "reads_complete env"
  shows "active_generation (live r) = Inr g" "distinct (map sdoc_path (pend_replacements s))"
    "set removals = dom (document_map (live r)) - set (pend_present s)"
    "set removals \<inter> sdoc_path ` set (pend_replacements s) = {}"
    "\<exists>sc. ie_scan env = Inr sc \<and> set (pend_present s) = set (map file_relative_path (scan_files sc))
       \<and> (\<forall>f \<in> set (scan_files sc). synced (live r) env (pend_replacements s) f)"
    "sdoc_path ` set (pend_replacements s) \<subseteq> set (pend_present s)"
    "no_collision (live r) (pend_replacements s) \<Longrightarrow> dom (pend_vectors s)
       = (\<Union>sd \<in> ran (final_documents (document_map (live r)) removals (pend_replacements s)). document_chunk_ids sd)"
proof -
  have inv: "db_inv (live r)" and clean: "clean_tables (live r)" using disk by (simp_all add: disk_ok_def)
  obtain gv ds v sc s0 where gv: "read_value env ''active_vector_generation'' r = Inr gv" "generation_of gv = Inr g"
    and ds: "documents_read (ie_reads env Read_documents) r = Inr ds"
    and v: "load_old_vectors env (index_data_dir cfg) mh g fs = Inr v" and sc: "ie_scan env = Inr sc"
    and s0: "index_files env cfg r (map_of (map (\<lambda>d. (sdoc_path d, d)) ds)) (scan_files sc)
       \<lparr>pend_present = [], pend_result = \<lparr>res_added = 0, res_changed = 0, res_removed = 0,
          res_unchanged = 0, res_embedded = 0, res_generation = 0\<rparr>, pend_vectors = v,
        pend_replacements = [], pend_symbols = []\<rparr> = Inr s0"
    and rm: "remove_missing env r (map sdoc_path ds) s0 = Inr (removals, s)"
    using plan by (auto simp: plan_update_def res_simps Let_def split: prod.splits)
  have gen: "generation_of (metadata_value ''active_vector_generation'' r) = Inr g"
    using gv complete_readings(3) [OF reads gv(1)] by simp
  have docs: "ds = documents r" by (rule complete_readings(1) [OF reads ds])
  have "metadata_value ''active_vector_generation'' r
      = metadata_value ''active_vector_generation'' \<lparr>live = live r, saved = None\<rparr>"
    by (simp add: metadata_value_def)
  with gen show g: "active_generation (live r) = Inr g" by (simp add: active_generation_def)
  have dv: "dom v = chunk_ids (live r)"
  proof (cases "g = 0")
    case True
    with v disk g show ?thesis by (auto simp: load_old_vectors_def disk_ok_def)
  next
    case False
    then obtain m vs where f: "read_file (vector_path (index_data_dir cfg) g) fs = Inr (m, vs)"
      "stored_id ` set vs = chunk_ids (live r)" using disk g by (auto simp: disk_ok_def)
    then have "v = vector_map vs" using v False by (auto simp: load_old_vectors_def split: if_splits)
    then show ?thesis using f(2) by (simp add: vector_map_def dom_map_of_conv_image_fst image_image)
  qed
  have ok0: "pending_ok (live r) (chunk_ids (live r)) \<lparr>pend_present = [], pend_result = \<lparr>res_added = 0, res_changed = 0, res_removed = 0,
          res_unchanged = 0, res_embedded = 0, res_generation = 0\<rparr>, pend_vectors = v,
        pend_replacements = [], pend_symbols = []\<rparr>"
    using dv by (simp add: pending_ok_def new_ids_def)
  have "distinct (map file_relative_path (scan_files sc))" using scan sc by (simp add: scan_ok_def)
  note files = index_files_ok [OF s0 [unfolded docs] reads inv clean ok0 this, simplified]
  note removed = remove_missing_ok [OF rm [unfolded docs] reads inv]
  show d: "distinct (map sdoc_path (pend_replacements s))"
    using files removed by (simp add: pending_ok_def)
  show sub: "sdoc_path ` set (pend_replacements s) \<subseteq> set (pend_present s)"
    using files removed by (auto simp: pending_ok_def)
  show rem: "set removals = dom (document_map (live r)) - set (pend_present s)"
    using removed documents_paths_dom [OF inv clean] by auto
  then show disj: "set removals \<inter> sdoc_path ` set (pend_replacements s) = {}" using sub by auto
  show "\<exists>sc. ie_scan env = Inr sc \<and> set (pend_present s) = set (map file_relative_path (scan_files sc))
       \<and> (\<forall>f \<in> set (scan_files sc). synced (live r) env (pend_replacements s) f)"
    using sc files removed by auto
  assume nc: "no_collision (live r) (pend_replacements s)"
  have d0: "dom (pend_vectors s0) = (chunk_ids (live r) - (\<Union>d \<in> set (pend_replacements s). old_ids (live r) (sdoc_path d)))
      \<union> new_ids (pend_replacements s)"
    using files removed nc by (simp add: pending_ok_def)
  have d1: "dom (pend_vectors s) = dom (pend_vectors s0) - (\<Union>p \<in> set removals. old_ids (live r) p)"
    using removed by blast
  have "new_ids (pend_replacements s) \<inter> (\<Union>p \<in> set removals. old_ids (live r) p) = {}"
  proof -
    have "i \<notin> old_ids (live r) p" if "d \<in> set (pend_replacements s)" "i \<in> document_chunk_ids d" "p \<in> set removals" for d i p
    proof -
      have "p \<noteq> sdoc_path d" using disj that by (metis IntI emptyE imageI)
      then have "document_chunk_ids d \<inter> old_ids (live r) p = {}" using nc that(1) by (simp add: no_collision_def)
      with that(2) show ?thesis by auto
    qed
    then show ?thesis by (auto simp: new_ids_def)
  qed
  then show "dom (pend_vectors s)
       = (\<Union>sd \<in> ran (final_documents (document_map (live r)) removals (pend_replacements s)). document_chunk_ids sd)"
    unfolding final_documents_ids [OF inv d disj] d1 d0 by blast
qed

section \<open>Writing a generation\<close>

lemma stored_vectors_ids:
  assumes "order_ok env" and "finite (dom v)"
  shows "stored_id ` set (stored_vectors env v) = dom v"
proof -
  have "dom (map_of (ie_order env v)) = dom v" using assms by (simp add: order_ok_def)
  then have "fst ` set (ie_order env v) = dom v" by (simp add: dom_map_of_conv_image_fst)
  then show ?thesis by (simp add: stored_vectors_def image_image case_prod_beta)
qed

lemma final_documents_clean:
  assumes "distinct (map sdoc_path ds)" and "clean_tables t" and "document_map t' = final_documents (document_map t) ps ds"
    and "\<forall>d \<in> set ds. CHR 0x00 \<notin> set (sdoc_path d) \<and> CHR 0x00 \<notin> set (sdoc_hash d)"
  shows "clean_tables t'"
  unfolding clean_tables_def
proof (intro allI impI)
  fix p sd assume p: "document_map t' p = Some sd"
  show "CHR 0x00 \<notin> set p \<and> CHR 0x00 \<notin> set (sdoc_hash sd)"
  proof (cases "p \<in> sdoc_path ` set ds")
    case True
    then obtain d where "d \<in> set ds" "p = sdoc_path d" by blast
    with p assms(3,4) final_documents_lookup(1) [OF assms(1), of d] show ?thesis by auto
  next
    case False
    with p assms(3) final_documents_lookup(2) [OF assms(1)] have "document_map t p = Some sd"
      by (auto split: if_splits)
    with assms(2) show ?thesis by (simp add: clean_tables_def)
  qed
qed

text \<open>A transaction that succeeds makes the plan's documents the stored ones, under the new generation.\<close>

lemma generation_committed:
  assumes tx: "transaction fault (update_calls env mid mh removals ds G) r = (Inr u, r')" and "saved r = None"
    and "db_inv (live r)" and "clean_tables (live r)" and ds: "distinct (map sdoc_path ds)" and g: "G \<le> size_max"
    and clean: "\<forall>d \<in> set ds. CHR 0x00 \<notin> set (sdoc_path d) \<and> CHR 0x00 \<notin> set (sdoc_hash d)"
  shows "db_inv (live r')" "clean_tables (live r')" "active_generation (live r') = Inr G"
    "document_map (live r') = final_documents (document_map (live r)) removals ds"
proof -
  obtain r2 where r2: "perform_all fault 1 (update_calls env mid mh removals ds G) (r\<lparr>saved := Some (live r)\<rparr>) = (Inr (), r2)"
    "live r' = live r2" using transaction_cases [OF assms(2) tx] by auto
  have inv: "db_inv (live (r\<lparr>saved := Some (live r)\<rparr>))" using assms(3) by simp
  note eff = perform_all_effect [OF r2(1) inv, folded r2(2)]
  show "db_inv (live r')" using eff by blast
  show docs: "document_map (live r') = final_documents (document_map (live r)) removals ds"
    using eff update_calls_effect [OF ds] by (simp add: final_documents_def)
  show "clean_tables (live r')" by (rule final_documents_clean [OF ds assms(4) docs clean])
  have "index_metadata (live r') ''active_vector_generation'' = Some (string_of_nat G)"
    using eff by (simp add: update_calls_def)
  moreover have "c_str (string_of_nat G) = string_of_nat G" using string_of_nat_no_nul by (rule c_str_id)
  ultimately show "active_generation (live r') = Inr G"
    using generation_round_trip [OF g] by (simp add: active_generation_def metadata_value_def)
qed

lemma write_generation_ok:
  fixes st st' :: "'i index_state"
  assumes wg: "write_generation env cfg mid (stable_hash_hex mid) G removals s r st = (err, st')"
    and r: "saved r = None" "st_tables st = Some (live r)"
    and disk: "disk_ok (index_data_dir cfg) (live r) (st_files st)" and g: "active_generation (live r) = Inr g" "g < size_max" "G = g + 1"
    and ds: "distinct (map sdoc_path (pend_replacements s))"
    and dom: "dom (pend_vectors s)
       = (\<Union>sd \<in> ran (final_documents (document_map (live r)) removals (pend_replacements s)). document_chunk_ids sd)"
    and env: "order_ok env" "finite (dom (pend_vectors s))"
    and clean: "\<forall>d \<in> set (pend_replacements s). CHR 0x00 \<notin> set (sdoc_path d) \<and> CHR 0x00 \<notin> set (sdoc_hash d)"
  shows "disk_ok (index_data_dir cfg) (stored_tables st') (st_files st') \<and> st_handle st' = st_handle st
    \<and> (err \<noteq> None \<and> document_map (stored_tables st') = document_map (live r)
         \<and> active_generation (stored_tables st') = Inr g
       \<or> document_map (stored_tables st') = final_documents (document_map (live r)) removals (pend_replacements s)
         \<and> active_generation (stored_tables st') = Inr G)"
proof -
  let ?d = "index_data_dir cfg" and ?m = "\<lparr>meta_dimension = of_nat (ie_dimension env), meta_model_hash = stable_hash_hex mid\<rparr>"
  let ?p = "vector_path ?d G"
  obtain res fs where w: "write_atomic ?p ?m (stored_vectors env (pend_vectors s)) (ie_write env) (st_files st) = (res, fs)"
    by fastforce
  have frame: "fs (vector_path ?d g) = st_files st (vector_path ?d g)"
    using write_atomic_frame [OF w] vector_path_neq [of g G ?d] g(3) by simp
  have disk': "disk_ok ?d (live r) fs"
    using disk_ok_frame [OF disk, of fs] g(1) frame by simp
  obtain tres r' where tx: "transaction (ie_database_fault env)
      (update_calls env mid (stable_hash_hex mid) removals (pend_replacements s) G) r = (tres, r')" by fastforce
  note txc = transaction_cases [OF r(1) tx]
  show ?thesis
  proof (cases res)
    case (Inl e)
    with wg w have "err = Some e" "st' = st\<lparr>st_files := fs\<rparr>" by (simp_all add: write_generation_steps Let_def)
    with disk' r(2) g(1) show ?thesis by (simp add: stored_tables_def)
  next
    case (Inr u)
    then have read: "read_file ?p fs = Inr (?m, stored_vectors env (pend_vectors s))"
      using write_then_read [of ?p ?m _ _ _ fs] w stable_hash_hex_no_nul by simp
    note wg' = wg [unfolded write_generation_steps Let_def w Inr, simplified, unfolded read tx, simplified]
    show ?thesis
    proof (cases tres)
      case (Inl e)
      with wg' have "err = Some e" "st' = st\<lparr>st_files := fs, st_tables := Some (live r')\<rparr>" by (simp_all add: read tx)
      moreover have "live r' = live r" using txc Inl by simp
      ultimately show ?thesis using disk' g(1) by (simp add: stored_tables_def)
    next
      case (Inr v)
      have "db_inv (live r)" "clean_tables (live r)" using disk by (simp_all add: disk_ok_def)
      note committed = generation_committed [OF tx [unfolded Inr] r(1) this ds _ clean]
      have docs: "document_map (live r') = final_documents (document_map (live r)) removals (pend_replacements s)"
        and gen: "active_generation (live r') = Inr G" and inv: "db_inv (live r')" "clean_tables (live r')"
        using committed g(2,3) by simp_all
      have ids: "stored_id ` set (stored_vectors env (pend_vectors s)) = chunk_ids (live r')"
        using stored_vectors_ids [OF env] dom docs chunk_ids_documents [OF inv(1)] by simp
      have "disk_ok ?d (live r') fs"
        using inv gen g(2,3) read ids by (intro disk_okI [of _ G]) auto
      moreover obtain made e where "replace_symbols (ie_symbol_fault env) 0 (symbol_calls env cfg removals s) = (made, e)"
        by fastforce
      then have "st_tables st' = Some (live r')" "st_files st' = fs" "st_handle st' = st_handle st"
        using wg' Inr by (auto simp: read tx)
      ultimately show ?thesis using docs gen by (simp add: stored_tables_def)
    qed
  qed
qed

section \<open>Whole updates\<close>

lemma synced_final:
  assumes "distinct (map sdoc_path ds)" and "synced t env ds f" and "file_relative_path f \<notin> set ps"
  shows "\<exists>content sd. ie_read env (file_absolute_path f) = Some content
    \<and> final_documents (document_map t) ps ds (file_relative_path f) = Some sd \<and> sdoc_hash sd = stable_hash_hex content"
proof -
  from assms(2) obtain content where c: "ie_read env (file_absolute_path f) = Some content"
    and or: "(\<exists>d \<in> set ds. sdoc_path d = file_relative_path f \<and> sdoc_hash d = stable_hash_hex content)
       \<or> (file_relative_path f \<notin> sdoc_path ` set ds
          \<and> (\<exists>sd. document_map t (file_relative_path f) = Some sd \<and> sdoc_hash sd = stable_hash_hex content))"
    unfolding synced_def by blast
  from or show ?thesis
  proof (elim disjE bexE conjE exE)
    fix d assume "d \<in> set ds" "sdoc_path d = file_relative_path f" "sdoc_hash d = stable_hash_hex content"
    with c final_documents_lookup(1) [OF assms(1), of d] show ?thesis by auto
  next
    fix sd assume "file_relative_path f \<notin> sdoc_path ` set ds" "document_map t (file_relative_path f) = Some sd"
      "sdoc_hash sd = stable_hash_hex content"
    with c final_documents_lookup(2) [OF assms(1)] assms(3) show ?thesis by auto
  qed
qed

lemma final_documents_dom:
  assumes "distinct (map sdoc_path ds)" and "set ps = dom m - present" and "sdoc_path ` set ds \<subseteq> present"
    and "\<forall>p \<in> present. final_documents m ps ds p \<noteq> None"
  shows "dom (final_documents m ps ds) = present"
proof (intro equalityI subsetI)
  fix p assume p: "p \<in> dom (final_documents m ps ds)"
  show "p \<in> present"
  proof (cases "p \<in> sdoc_path ` set ds")
    case False
    with p final_documents_lookup(2) [OF assms(1) False] have "p \<notin> set ps" "p \<in> dom m" by (auto split: if_splits)
    with assms(2) show ?thesis by blast
  qed (use assms(3) in blast)
qed (use assms(4) in blast)

lemma no_collision_cong: "document_map t = document_map t' \<Longrightarrow> no_collision t ds = no_collision t' ds"
  by (simp add: no_collision_def old_ids_def)

lemma synced_clean:
  assumes "\<forall>f \<in> set fs. synced t env ds f" and "sdoc_path ` set ds \<subseteq> file_relative_path ` set fs"
    and "distinct (map sdoc_path ds)" and "\<forall>f \<in> set fs. CHR 0x00 \<notin> set (file_relative_path f)"
  shows "\<forall>d \<in> set ds. CHR 0x00 \<notin> set (sdoc_path d) \<and> CHR 0x00 \<notin> set (sdoc_hash d)"
proof
  fix d assume d: "d \<in> set ds"
  then obtain f where f: "f \<in> set fs" "sdoc_path d = file_relative_path f" using assms(2) by blast
  from assms(1) f(1) obtain content d' where "d' \<in> set ds" "sdoc_path d' = file_relative_path f"
    "sdoc_hash d' = stable_hash_hex content" using d f(2) unfolding synced_def by (metis imageI)
  moreover from this have "d' = d" using assms(3) d f(2) by (simp add: distinct_map inj_on_def)
  ultimately show "CHR 0x00 \<notin> set (sdoc_path d) \<and> CHR 0x00 \<notin> set (sdoc_hash d)"
    using assms(4) f stable_hash_hex_no_nul by auto
qed

definition brute_force_kind :: "BruteForceIndex index_kind" where
  "brute_force_kind = \<lparr>kind_make = (\<lambda>dimension elements. make_index dimension), kind_upsert = bf_upsert\<rparr>"

text \<open>The conditions under which updates are considered.\<close>

definition update_conditions :: "index_env \<Rightarrow> IndexConfig \<Rightarrow> string \<Rightarrow> 'i index_state \<Rightarrow> bool" where
  "update_conditions env cfg mid st \<longleftrightarrow> index_consistent (index_data_dir cfg) st \<and> order_ok env \<and> scan_ok env
     \<and> active_generation (stored_tables st) \<noteq> Inr size_max
     \<and> (\<forall>g removals s. plan_update env cfg (stable_hash_hex mid) (open_repository (st_tables st))
          (remove_temporaries (index_data_dir cfg) (st_files st)) = Inr (g, removals, s) \<longrightarrow>
          no_collision (stored_tables st) (pend_replacements s))"

text \<open>What is known of a plan when nothing else has changed the index since.\<close>

definition plan_ready :: "index_env \<Rightarrow> IndexConfig \<Rightarrow> tables \<Rightarrow> file_tree \<Rightarrow> nat \<Rightarrow> path list \<Rightarrow> pending \<Rightarrow> bool" where
  "plan_ready env cfg t fs g removals s \<longleftrightarrow> disk_ok (index_data_dir cfg) t fs \<and> order_ok env \<and> active_generation t = Inr g
     \<and> g < size_max \<and> distinct (map sdoc_path (pend_replacements s)) \<and> finite (dom (pend_vectors s))
     \<and> dom (pend_vectors s) = (\<Union>sd \<in> ran (final_documents (document_map t) removals (pend_replacements s)). document_chunk_ids sd)
     \<and> (\<forall>d \<in> set (pend_replacements s). CHR 0x00 \<notin> set (sdoc_path d) \<and> CHR 0x00 \<notin> set (sdoc_hash d))"

lemma planned_ready:
  fixes st :: "'i index_state"
  assumes cond: "update_conditions env cfg mid st" and reads: "reads_complete env"
    and plan: "plan_update env cfg (stable_hash_hex mid) (open_repository (st_tables st))
      (remove_temporaries (index_data_dir cfg) (st_files st)) = Inr (g, removals, s)"
  shows "plan_ready env cfg (live (open_repository (st_tables st))) (remove_temporaries (index_data_dir cfg) (st_files st))
    g removals s"
proof -
  let ?d = "index_data_dir cfg" and ?r = "open_repository (st_tables st)"
  let ?fs = "remove_temporaries ?d (st_files st)"
  have c: "disk_ok ?d (stored_tables st) (st_files st)" and env: "order_ok env" "scan_ok env"
    using cond by (simp_all add: update_conditions_def index_consistent_def)
  have "disk_ok ?d (stored_tables st) ?fs" by (rule disk_ok_frame [OF c]) simp
  note opened = open_repository_ok [OF this]
  note p = plan_update_ok [OF plan opened(1) env(2) reads]
  have "no_collision (live ?r) (pend_replacements s)"
    using cond plan no_collision_cong [OF opened(2)] by (simp add: update_conditions_def)
  note dom = p(7) [OF this]
  have inv: "db_inv (live ?r)" using opened(1) by (simp add: disk_ok_def)
  have fin: "finite (dom (pend_vectors s))"
    unfolding dom final_documents_ids [OF inv p(2,4)] by (simp add: chunk_ids_def new_ids_def document_chunk_ids_def)
  from p(5) obtain sc where sc: "ie_scan env = Inr sc" "set (pend_present s) = set (map file_relative_path (scan_files sc))"
    "\<forall>f \<in> set (scan_files sc). synced (live ?r) env (pend_replacements s) f" by blast
  have clean: "\<forall>d \<in> set (pend_replacements s). CHR 0x00 \<notin> set (sdoc_path d) \<and> CHR 0x00 \<notin> set (sdoc_hash d)"
    using synced_clean [OF sc(3) _ p(2)] p(6) sc(1,2) env(2) by (simp add: scan_ok_def)
  obtain g' where "active_generation (stored_tables st) = Inr g'" "g' \<le> size_max" using c by (auto simp: disk_ok_def)
  with p(1) opened(3) cond have "g < size_max" by (auto simp: update_conditions_def)
  with opened(1) env(1) p(1,2) fin dom clean show ?thesis unfolding plan_ready_def by blast
qed

text \<open>What the start leaves.\<close>

lemma open_index_ok:
  "open_index env cfg st = (Inr r, st1) \<Longrightarrow> r = open_repository (st_tables st) \<and>
     st1 = st\<lparr>st_files := remove_temporaries (index_data_dir cfg) (st_files st), st_tables := Some (live r)\<rparr>"
  by (auto simp: open_index_def Let_def split: option.splits if_splits prod.splits)

lemma open_index_failed:
  assumes "open_index env cfg st = (Inl e, st1)"
  shows "st_handle st1 = st_handle st"
    "index_consistent (index_data_dir cfg) st \<Longrightarrow> index_consistent (index_data_dir cfg) st1"
proof -
  let ?d = "index_data_dir cfg"
  show "st_handle st1 = st_handle st"
    using assms by (auto simp: open_index_def Let_def split: option.splits if_splits prod.splits)
  assume "index_consistent ?d st"
  then have c: "disk_ok ?d (stored_tables st) (st_files st)" by (simp add: index_consistent_def)
  have files: "disk_ok ?d (stored_tables st) (st_files st1)"
    by (rule disk_ok_frame [OF c]) (use assms in \<open>auto simp: open_index_def Let_def split: option.splits if_splits prod.splits\<close>)
  have "stored_tables st1 = stored_tables st \<or> stored_tables st1 = live (open_repository (st_tables st))"
    using assms by (auto simp: open_index_def stored_tables_def Let_def split: option.splits if_splits prod.splits)
  with files open_repository_ok(1) [OF files] show "index_consistent ?d st1" by (auto simp: index_consistent_def)
qed

text \<open>Only an update that succeeds publishes.\<close>

lemma write_generation_handle:
  "write_generation env cfg mid mh G removals s r st = (err, st') \<Longrightarrow> st_handle st' = st_handle st"
  by (auto simp: write_generation_steps Let_def split: prod.splits sum.splits)

lemma failed_update_handle:
  assumes "update env cfg kind mid st = (Inl e, st')"
  shows "st_handle st' = st_handle st"
proof -
  obtain o1 st1 where o: "open_index env cfg st = (o1, st1)" by fastforce
  show ?thesis
  proof (cases o1)
    case (Inl e)
    with assms o open_index_failed(1) [of env cfg st e st1] show ?thesis by (simp add: update_def)
  next
    case (Inr r)
    have "st_handle st1 = st_handle st" using open_index_ok [OF o [unfolded Inr]] by simp
    with assms o Inr show ?thesis
      by (auto simp: update_def publish_snapshot_def Let_def dest: write_generation_handle
        split: prod.splits sum.splits option.splits if_splits)
  qed
qed

lemma successful_update_handle:
  "update env cfg kind mid st = (Inr result, st') \<Longrightarrow> st_handle st' \<noteq> None"
  by (auto simp: update_def publish_snapshot_def Let_def split: prod.splits sum.splits option.splits if_splits)

text \<open>
  After an update the disk is consistent; the documents are those of before (then it failed) or the
  final ones of the plan, and only an update that succeeds publishes a snapshot, of the planned vectors.
\<close>

lemma update_outcome:
  fixes st st' :: "'i index_state"
  assumes cond: "update_conditions env cfg mid st" and reads: "reads_complete env"
    and up: "update env cfg kind mid st = (res, st')"
  shows "index_consistent (index_data_dir cfg) st'"
    "res = Inl e \<Longrightarrow> st_handle st' = st_handle st"
    "res = Inr result \<Longrightarrow> \<exists>g removals s snapshot.
       plan_update env cfg (stable_hash_hex mid) (open_repository (st_tables st))
         (remove_temporaries (index_data_dir cfg) (st_files st)) = Inr (g, removals, s)
       \<and> document_map (stored_tables st') = final_documents (document_map (stored_tables st)) removals (pend_replacements s)
       \<and> active_generation (stored_tables st') = Inr (res_generation result)
       \<and> build_snapshot env kind (pend_vectors s) = Inr snapshot \<and> st_handle st' = Some snapshot
       \<and> dom (pend_vectors s) = chunk_ids (stored_tables st') \<and> finite (dom (pend_vectors s))"
proof -
  let ?d = "index_data_dir cfg" and ?h = "stable_hash_hex mid"
  define r where "r = open_repository (st_tables st)"
  define st1 where "st1 = st\<lparr>st_files := remove_temporaries ?d (st_files st), st_tables := Some (live r)\<rparr>"
  have st1: "st_tables st1 = Some (live r)" "st_files st1 = remove_temporaries ?d (st_files st)"
    "st_handle st1 = st_handle st" "stored_tables st1 = live r" by (simp_all add: st1_def stored_tables_def)
  have consistent: "index_consistent ?d st" and env: "order_ok env" "scan_ok env"
    using cond by (simp_all add: update_conditions_def)
  then have c: "disk_ok ?d (stored_tables st) (st_files st)" by (simp add: index_consistent_def)
  have "disk_ok ?d (stored_tables st) (st_files st1)" by (rule disk_ok_frame [OF c]) (simp add: st1)
  note opened = open_repository_ok [OF this, folded r_def]
  have disk: "disk_ok ?d (live r) (st_files st1)" by (rule opened(1))
  have saved: "saved r = None" by (simp add: r_def)
  obtain ores st0 where o: "open_index env cfg st = (ores, st0)" by fastforce
  have "index_consistent ?d st' \<and> (\<forall>e. res = Inl e \<longrightarrow> st_handle st' = st_handle st) \<and>
    (\<forall>result. res = Inr result \<longrightarrow> (\<exists>g removals s snapshot. plan_update env cfg ?h r (st_files st1) = Inr (g, removals, s)
       \<and> document_map (stored_tables st') = final_documents (document_map (stored_tables st)) removals (pend_replacements s)
       \<and> active_generation (stored_tables st') = Inr (res_generation result)
       \<and> build_snapshot env kind (pend_vectors s) = Inr snapshot \<and> st_handle st' = Some snapshot
       \<and> dom (pend_vectors s) = chunk_ids (stored_tables st') \<and> finite (dom (pend_vectors s))))"
  proof (cases ores)
    case (Inl e)
    then have "res = Inl e" "st' = st0" using up o by (simp_all add: update_def)
    with open_index_failed [OF o [unfolded Inl]] consistent show ?thesis by simp
  next
    case start: (Inr r0)
    from open_index_ok [OF o [unfolded start]] have r0: "r0 = r" "st0 = st1" by (simp_all add: r_def st1_def)
    note u = up [unfolded update_def publish_snapshot_def o start prod.case sum.case Let_def, unfolded r0]
    show ?thesis
  proof (cases "plan_update env cfg ?h r (st_files st1)")
    case (Inl e)
    with u have "res = Inl e" "st' = st1" by (simp_all add: st1)
    with disk show ?thesis by (simp add: index_consistent_def st1)
  next
    case (Inr plan)
    obtain g removals s where plan: "plan = (g, removals, s)" by (cases plan) auto
    have p: "active_generation (live r) = Inr g" "distinct (map sdoc_path (pend_replacements s))" and g: "g < size_max"
      and dom: "dom (pend_vectors s)
        = (\<Union>sd \<in> ran (final_documents (document_map (live r)) removals (pend_replacements s)). document_chunk_ids sd)"
      and fin: "finite (dom (pend_vectors s))"
      and clean: "\<forall>d \<in> set (pend_replacements s). CHR 0x00 \<notin> set (sdoc_path d) \<and> CHR 0x00 \<notin> set (sdoc_hash d)"
      using planned_ready [OF cond reads, of g removals s] Inr plan unfolding plan_ready_def r_def st1(2) by blast+
    define unchanged where "unchanged \<longleftrightarrow> pend_replacements s = [] \<and> removals = [] \<and> g \<noteq> 0"
    define G where "G = (if unchanged then g else sz_add g 1)"
    define out where "out = (if unchanged then (None, st1) else write_generation env cfg mid ?h G removals s r st1)"
    obtain err st2 where o: "out = (err, st2)" by fastforce
    have st2: "disk_ok ?d (stored_tables st2) (st_files st2) \<and> st_handle st2 = st_handle st
      \<and> (err = None \<longrightarrow> document_map (stored_tables st2) = final_documents (document_map (live r)) removals (pend_replacements s)
         \<and> active_generation (stored_tables st2) = Inr G)"
    proof (cases unchanged)
      case True
      then have "st2 = st1" "G = g" using o by (simp_all add: out_def G_def)
      with True disk p(1) show ?thesis by (simp add: st1 unchanged_def final_documents_def)
    next
      case False
      then have G: "G = g + 1" using g by (simp add: G_def)
      from False o have "write_generation env cfg mid ?h G removals s r st1 = (err, st2)" by (simp add: out_def)
      from write_generation_ok [OF this saved st1(1) disk p(1) g G p(2) dom env(1) fin clean] st1(3)
      show ?thesis by auto
    qed
    have "(res, st') = (case out of (Some e, st) \<Rightarrow> (Inl e, st)
         | (None, st) \<Rightarrow> (case build_snapshot env kind (pend_vectors s) of
             Inl e \<Rightarrow> (Inl e, st)
           | Inr snapshot \<Rightarrow> (Inr ((pend_result s)\<lparr>res_generation := G\<rparr>), st\<lparr>st_handle := Some snapshot\<rparr>)))"
      unfolding out_def G_def unchanged_def
      by (rule u [unfolded Inr plan sum.case prod.case, symmetric])
    note u' = this [unfolded o, simplified]
    show ?thesis
    proof (cases "err = None \<and> (\<exists>snapshot. build_snapshot env kind (pend_vectors s) = Inr snapshot)")
      case True
      then obtain snapshot where snap: "build_snapshot env kind (pend_vectors s) = Inr snapshot" by blast
      with True u' have st': "res = Inr ((pend_result s)\<lparr>res_generation := G\<rparr>)" "st' = st2\<lparr>st_handle := Some snapshot\<rparr>" by simp_all
      have t': "stored_tables st' = stored_tables st2" "st_files st' = st_files st2" using st' by (simp_all add: stored_tables_def)
      have d2: "document_map (stored_tables st2) = final_documents (document_map (live r)) removals (pend_replacements s)"
        "db_inv (stored_tables st2)" using st2 True by (simp_all add: disk_ok_def)
      have "dom (pend_vectors s) = chunk_ids (stored_tables st')"
        using dom d2 chunk_ids_documents [OF d2(2)] by (simp add: t')
      with st2 True st' t' snap fin Inr plan d2 opened(2) show ?thesis
        by (simp add: index_consistent_def)
    next
      case False
      with u' st2 have "index_consistent ?d st'" "\<exists>e. res = Inl e" "st_handle st' = st_handle st"
        by (cases err; cases "build_snapshot env kind (pend_vectors s)"; simp add: index_consistent_def)+
      then show ?thesis by auto
    qed
  qed
  qed
  then show "index_consistent ?d st'" "res = Inl e \<Longrightarrow> st_handle st' = st_handle st"
    "res = Inr result \<Longrightarrow> \<exists>g removals s snapshot.
       plan_update env cfg ?h (open_repository (st_tables st)) (remove_temporaries ?d (st_files st)) = Inr (g, removals, s)
       \<and> document_map (stored_tables st') = final_documents (document_map (stored_tables st)) removals (pend_replacements s)
       \<and> active_generation (stored_tables st') = Inr (res_generation result)
       \<and> build_snapshot env kind (pend_vectors s) = Inr snapshot \<and> st_handle st' = Some snapshot
       \<and> dom (pend_vectors s) = chunk_ids (stored_tables st') \<and> finite (dom (pend_vectors s))"
    by (simp_all add: st1 r_def)
qed

section \<open>A first update of an empty repository\<close>

definition sample_env :: index_env where
  "sample_env = \<lparr>ie_dimension = 2, ie_embed_batch = (\<lambda>ts kind. Inr (map (\<lambda>t. [f32_one, f32_one]) ts)),
     ie_scan = Inr no_files, ie_read = Map.empty, ie_modified = (\<lambda>p. Inr 0), ie_parse = None,
     ie_order = (\<lambda>m. map (\<lambda>i. (i, the (m i))) (sorted_list_of_set (dom m))),
     ie_cleaning = None, ie_open_fault = None, ie_symbol_open_fault = None, ie_reads = (\<lambda>q. Read_all),
     ie_write = no_failures, ie_database_fault = (\<lambda>n. None), ie_symbol_fault = (\<lambda>n. None)\<rparr>"

definition empty_state :: "'i index_state" where
  "empty_state = \<lparr>st_tables = None, st_files = Map.empty, st_handle = None, st_symbols = []\<rparr>"

definition empty_pending :: pending where
  "empty_pending = \<lparr>pend_present = [], pend_result = \<lparr>res_added = 0, res_changed = 0, res_removed = 0,
     res_unchanged = 0, res_embedded = 0, res_generation = 0\<rparr>, pend_vectors = Map.empty,
     pend_replacements = [], pend_symbols = []\<rparr>"

lemma sample_order_ok: "order_ok sample_env"
proof -
  have "distinct (map fst (map (\<lambda>i. (i, the (m i))) (sorted_list_of_set (dom m))))
      \<and> map_of (map (\<lambda>i. (i, the (m i))) (sorted_list_of_set (dom m))) = m"
    if "finite (dom m)" for m :: "ChunkId \<rightharpoonup> Embedding"
    using that by (auto simp: comp_def map_of_map_restrict restrict_map_def fun_eq_iff dom_def)
  then show ?thesis by (simp add: order_ok_def sample_env_def)
qed

lemma sample_tables: "stored_tables empty_state = no_tables"
  "metadata_value k (open_repository None) = (if k = ''schema_version'' then ''2'' else [])"
  by (simp_all add: stored_tables_def empty_state_def metadata_value_def open_repository_def no_tables_def
      set_metadata_def Let_def)

lemma sample_reads: "ie_reads sample_env q = Read_all" "read_value sample_env key r = Inr (metadata_value key r)"
  by (simp_all add: read_value_def) (simp_all add: sample_env_def)

lemma sample_reads_complete: "reads_complete sample_env"
  by (simp add: reads_complete_def sample_reads)

lemma sample_no_faults: "ie_cleaning sample_env = None" "ie_open_fault sample_env = None" "ie_symbol_open_fault sample_env = None"
  by (simp_all add: sample_env_def)

lemma sample_open: "open_index sample_env cfg st = (Inr (open_repository (st_tables st)),
    st\<lparr>st_files := remove_temporaries (index_data_dir cfg) (st_files st),
      st_tables := Some (live (open_repository (st_tables st)))\<rparr>)"
  by (simp add: open_index_def sample_no_faults Let_def)

lemma sample_plan:
  "plan_update sample_env default_index h (open_repository None) fs = Inr (0, [], empty_pending)"
proof -
  have "documents (open_repository None) = []"
    by (simp add: documents_def open_repository_def no_tables_def set_metadata_def Let_def)
  then show ?thesis
    by (simp add: plan_update_def check_metadata_def sample_reads sample_tables generation_of_def load_old_vectors_def
        empty_pending_def) (simp add: sample_env_def no_files_def)
qed

lemma sample_conditions: "update_conditions sample_env default_index ''m'' empty_state"
proof -
  have "db_inv no_tables" "clean_tables no_tables" "chunk_ids no_tables = {}" "active_generation no_tables = Inr 0"
    by (simp_all add: db_inv_def clean_tables_def chunk_ids_def document_map_def no_tables_def
        active_generation_def metadata_value_def generation_of_def)
  then have "index_consistent (index_data_dir default_index) empty_state" "active_generation (stored_tables empty_state) \<noteq> Inr size_max"
    by (auto simp: index_consistent_def sample_tables intro!: disk_okI [where g = 0])
  moreover have "scan_ok sample_env" by (simp add: scan_ok_def sample_env_def no_files_def)
  ultimately show ?thesis
    using sample_order_ok sample_plan
    by (simp add: update_conditions_def empty_state_def no_collision_def empty_pending_def)
qed

lemma sample_update_kind:
  fixes kind :: "'i index_kind"
  assumes snap: "build_snapshot sample_env kind Map.empty = Inr snapshot"
  shows "\<exists>result st'. update sample_env default_index kind ''m'' empty_state = (Inr result, st')"
proof -
  let ?p = "vector_path (index_data_dir default_index) (sz_add 0 1)"
  let ?m = "\<lparr>meta_dimension = 2, meta_model_hash = stable_hash_hex ''m''\<rparr>"
  have v: "stored_vectors sample_env Map.empty = []" by (simp add: stored_vectors_def sample_env_def)
  have "stable_hash_hex ''m'' \<noteq> []" using length_stable_hash_hex [of "''m''"] by force
  then have "\<exists>fs'. write_atomic ?p ?m [] no_failures fs = (Inr (), fs')" for fs
    by (simp add: write_atomic_def no_failures_def write_content_def encode_hash_def kModelHashBytes_def Let_def)
  then obtain fs' where w: "write_atomic ?p ?m [] no_failures (remove_temporaries (index_data_dir default_index) Map.empty)
      = (Inr (), fs')" by blast
  have read: "read_file ?p fs' = Inr (?m, [])" using write_then_read [OF w] stable_hash_hex_no_nul by simp
  have tx: "fst (transaction (\<lambda>n. None) (update_calls sample_env ''m'' h [] [] g) (open_repository None)) = Inr ()" for h g
    by (simp add: transaction_def begin_tx_def commit_tx_def update_calls_def set_metadata_def)
  have s: "pend_replacements empty_pending = []" "pend_vectors empty_pending = Map.empty" by (simp_all add: empty_pending_def)
  have e: "ie_dimension sample_env = 2" "ie_write sample_env = no_failures" "ie_database_fault sample_env = (\<lambda>n. None)"
    "symbol_calls sample_env default_index [] empty_pending = []"
    by (simp_all add: sample_env_def symbol_calls_def default_index_def)
  obtain r' where r': "transaction (\<lambda>n. None) (update_calls sample_env ''m'' (stable_hash_hex ''m'') [] [] (sz_add 0 1)) (open_repository None)
      = (Inr (), r')" using tx by (metis prod.collapse)
  have "\<exists>st'. write_generation sample_env default_index ''m'' (stable_hash_hex ''m'') (sz_add 0 1) [] empty_pending
      (open_repository None) ((empty_state :: 'i index_state)\<lparr>st_files := remove_temporaries (index_data_dir default_index) Map.empty,
        st_tables := Some (live (open_repository None))\<rparr>) = (None, st')"
    unfolding write_generation_steps Let_def s v e of_nat_numeral using w read r' by simp
  then show ?thesis
    unfolding update_def Let_def publish_snapshot_def by (auto simp: sample_open empty_state_def sample_plan s snap)
qed

lemma sample_update:
  "\<exists>result st'. update sample_env default_index brute_force_kind ''m'' empty_state = (Inr result, st')"
  by (rule sample_update_kind) (simp add: build_snapshot_def brute_force_kind_def make_index_def sample_env_def)

section \<open>A first update of a repository with one file\<close>

definition new_file :: ScannedFile where
  "new_file = \<lparr>file_absolute_path = ''/r/a.c'', file_relative_path = ''a.c'', file_language = ''c'', file_size_bytes = 1\<rparr>"

definition later_env :: index_env where
  "later_env = sample_env\<lparr>ie_scan := Inr (no_files\<lparr>scan_files := [new_file]\<rparr>), ie_read := [''/r/a.c'' \<mapsto> ''x'']\<rparr>"

lemma new_file_chunk:
  "\<exists>c. chunk_file (ie_read later_env) ''/r/a.c'' ''a.c'' ''c''
    (default_chunking\<lparr>max_lines := 80, overlap_lines := 16\<rparr>) = Inr [c]"
proof -
  have lines: "split_lines ''x'' = [''x'']" by (subst split_lines.simps) (simp add: split_lines.simps pop_cr_def)
  have norm: "lexically_normal ''a.c'' = ''a.c''"
    by (simp add: lexically_normal_def path_names_def is_absolute_def has_trailing_slash_def)
  have till: "chunk_end (default_chunking\<lparr>max_lines := 80, overlap_lines := 16\<rparr>) [''x''] 0 = 1"
    by (simp add: chunk_end_def shrink_end.simps)
  have loop: "\<exists>c. chunk_loop ''a.c'' ''c'' (default_chunking\<lparr>max_lines := 80, overlap_lines := 16\<rparr>) [''x''] 0 = Inr [c]"
    by (subst chunk_loop.simps) (simp add: till line_number_def)
  have "validate_options (default_chunking\<lparr>max_lines := 80, overlap_lines := 16\<rparr>) = Inr ()"
    by (simp add: validate_options_def default_chunking_def)
  with loop have "\<exists>c. chunk_text ''a.c'' ''c'' ''x'' (default_chunking\<lparr>max_lines := 80, overlap_lines := 16\<rparr>) = Inr [c]"
    by (simp add: chunk_text_def lines norm is_absolute_def)
  then show ?thesis by (simp add: chunk_file_def later_env_def)
qed

definition new_document :: "Chunk \<Rightarrow> StoredDocument" where
  "new_document c = \<lparr>sdoc_path = ''a.c'', sdoc_hash = stable_hash_hex ''x'', sdoc_size = 1, sdoc_modified = 0,
     sdoc_parser = ''text-v1'', sdoc_chunks = [c]\<rparr>"

definition new_pending :: "Chunk \<Rightarrow> pending" where
  "new_pending c = empty_pending\<lparr>pend_present := [''a.c''],
     pend_result := (pend_result empty_pending)\<lparr>res_added := 1, res_embedded := 1\<rparr>,
     pend_vectors := [chunk_id c \<mapsto> [f32_one, f32_one]], pend_replacements := [new_document c]\<rparr>"

lemma later_fields: "ie_dimension later_env = 2" "ie_write later_env = no_failures" "ie_order later_env = ie_order sample_env"
  "ie_database_fault later_env = (\<lambda>n. None)" "ie_symbol_fault later_env = (\<lambda>n. None)" "ie_parse later_env = None"
  "ie_embed_batch later_env = ie_embed_batch sample_env" "ie_modified later_env = ie_modified sample_env"
  "ie_scan later_env = Inr (no_files\<lparr>scan_files := [new_file]\<rparr>)"
  "ie_cleaning later_env = None" "ie_open_fault later_env = None" "ie_symbol_open_fault later_env = None"
  "ie_reads later_env q = Read_all"
  by (simp_all add: later_env_def sample_env_def)

lemma later_reads: "read_value later_env key r = Inr (metadata_value key r)" "reads_complete later_env"
  by (simp_all add: read_value_def reads_complete_def later_fields)

lemma later_open: "open_index later_env cfg st = (Inr (open_repository (st_tables st)),
    st\<lparr>st_files := remove_temporaries (index_data_dir cfg) (st_files st),
      st_tables := Some (live (open_repository (st_tables st)))\<rparr>)"
  by (simp add: open_index_def later_fields Let_def)

lemma later_plan:
  assumes c: "chunk_file (ie_read later_env) ''/r/a.c'' ''a.c'' ''c''
    (default_chunking\<lparr>max_lines := 80, overlap_lines := 16\<rparr>) = Inr [c]"
  shows "plan_update later_env default_index h (open_repository None) fs = Inr (0, [], new_pending c)"
proof -
  have none: "documents (open_repository None) = []"
    by (simp add: documents_def open_repository_def no_tables_def set_metadata_def Let_def)
  have hash: "content_hash (ie_read later_env) ''/r/a.c'' = Inr (stable_hash_hex ''x'')"
    by (simp add: content_hash_def later_env_def)
  have chunks: "chunks_of_file later_env default_index new_file = Inr ([c], ''text-v1'', [])"
    using c by (simp add: chunks_of_file_def later_fields new_file_def default_index_def)
  have embed: "embed_chunks later_env [c] = Inr [[f32_one, f32_one]]"
    by (simp add: embed_chunks_def later_fields sample_env_def)
  have modified: "ie_modified later_env p = Inr 0" for p by (simp add: later_fields sample_env_def)
  have "index_file later_env default_index (open_repository None) Map.empty new_file empty_pending = Inr (new_pending c)"
    using hash by (simp add: index_file_def replace_previous_def Let_def chunks embed modified)
      (simp add: new_file_def new_pending_def new_document_def empty_pending_def)
  then show ?thesis
    by (simp add: plan_update_def check_metadata_def later_reads sample_tables generation_of_def load_old_vectors_def none
      later_fields(9,13) no_files_def empty_pending_def)
qed

lemma reopened: "open_repository (Some (live (open_repository None))) = open_repository None"
  by (simp add: open_repository_def no_tables_def set_metadata_def Let_def)

lemma first_write:
  assumes "set vs \<subseteq> {v. length (stored_values v) = 2}" and "length vs \<le> 1"
  shows "\<exists>fs'. write_atomic p \<lparr>meta_dimension = 2, meta_model_hash = stable_hash_hex ''m''\<rparr> vs no_failures fs = (Inr (), fs')"
proof -
  have "stable_hash_hex ''m'' \<noteq> []" using length_stable_hash_hex [of "''m''"] by force
  moreover have "\<not> (size_max - kHeaderBytes) div record_bytes 2 < length vs"
    using assms(2) by (simp add: record_bytes_def kHeaderBytes_def)
  moreover have "\<exists>out. write_content \<lparr>meta_dimension = 2, meta_model_hash = stable_hash_hex ''m''\<rparr> vs = (out, None)"
    using assms by (cases vs) (auto simp: write_content_def encode_hash_def kModelHashBytes_def Let_def)
  ultimately show ?thesis by (auto simp: write_atomic_def no_failures_def)
qed

lemma first_commit:
  assumes "documents_table t = []" and "chunks_table t = []"
  shows "\<exists>r. transaction (\<lambda>n. None) (update_calls env ''m'' h [] [] 1) \<lparr>live = t, saved = None\<rparr> = (Inr (), r) \<and>
      documents_table (live r) = [] \<and> chunks_table (live r) = []"
    "\<exists>r. transaction (\<lambda>n. None) (update_calls env ''m'' h [] [new_document c] 1) \<lparr>live = t, saved = None\<rparr> = (Inr (), r)"
  using assms by (simp_all add: transaction_def begin_tx_def commit_tx_def update_calls_def set_metadata_def
    replace_document_def erase_document_def insert_document_def new_document_def Let_def)

lemma two_pendings:
  "pend_replacements empty_pending = []" "pend_vectors empty_pending = Map.empty"
  "pend_replacements (new_pending c) = [new_document c]" "pend_vectors (new_pending c) = [chunk_id c \<mapsto> [f32_one, f32_one]]"
  by (simp_all add: empty_pending_def new_pending_def)

lemma two_environments:
  "ie_dimension sample_env = 2" "ie_write sample_env = no_failures" "ie_database_fault sample_env = (\<lambda>n. None)"
  "stored_vectors sample_env Map.empty = []"
  "stored_vectors later_env [i \<mapsto> v] = [\<lparr>stored_id = i, stored_values = v\<rparr>]"
  "ie_order sample_env [i \<mapsto> v] = [(i, v)]" "ie_order sample_env Map.empty = []"
  "symbol_calls env default_index [] x = []"
  by (simp_all add: stored_vectors_def later_fields) (simp_all add: sample_env_def symbol_calls_def default_index_def)

abbreviation first_meta :: VectorFileMetadata where
  "first_meta \<equiv> \<lparr>meta_dimension = 2, meta_model_hash = stable_hash_hex ''m''\<rparr>"

abbreviation first_vectors :: path where
  "first_vectors \<equiv> vector_path (index_data_dir default_index) 1"

lemma later_conditions: "update_conditions later_env default_index ''m'' (empty_state :: 'i index_state)"
proof -
  have "no_collision no_tables ds" for ds
    by (simp add: no_collision_def old_ids_def document_map_def no_tables_def)
  moreover have "order_ok later_env" using sample_order_ok by (simp add: order_ok_def later_fields)
  moreover have "scan_ok later_env" by (simp add: scan_ok_def later_fields new_file_def)
  ultimately show ?thesis
    using sample_conditions [where 'a = 'i] by (simp add: update_conditions_def sample_tables)
qed

lemma later_snapshot:
  "\<exists>n. build_snapshot later_env brute_force_kind [i \<mapsto> [f32_one, f32_one]] = Inr n"
proof -
  have "is_finite_embedding [f32_one, f32_one]"
    by (simp add: is_finite_embedding_def f32_isfinite_def fp_isfinite_def fp_mag_def binary32_def)
  then show ?thesis
    by (simp add: build_snapshot_def brute_force_kind_def make_index_def two_environments later_fields bf_upsert_def)
qed

lemma later_update_kind:
  fixes kind :: "'i index_kind"
  assumes snap: "\<And>i. \<exists>n. build_snapshot later_env kind [i \<mapsto> [f32_one, f32_one]] = Inr n"
  shows "\<exists>result st'. update later_env default_index kind ''m'' empty_state = (Inr result, st')"
proof -
  obtain c where c: "chunk_file (ie_read later_env) ''/r/a.c'' ''a.c'' ''c''
    (default_chunking\<lparr>max_lines := 80, overlap_lines := 16\<rparr>) = Inr [c]" using new_file_chunk by blast
  let ?st = "empty_state :: 'i index_state" and ?r = "open_repository None"
  define st1 where "st1 = ?st\<lparr>st_files := remove_temporaries (index_data_dir default_index) Map.empty,
    st_tables := Some (live ?r)\<rparr>"
  let ?vs = "[\<lparr>stored_id = chunk_id c, stored_values = [f32_one, f32_one]\<rparr>]"
  obtain fs' where w: "write_atomic first_vectors first_meta ?vs no_failures (st_files st1) = (Inr (), fs')"
    using first_write [of ?vs] by auto
  have read: "read_file first_vectors fs' = Inr (first_meta, ?vs)" using write_then_read [OF w] stable_hash_hex_no_nul by simp
  have rows: "documents_table (live ?r) = []" "chunks_table (live ?r) = []" "\<lparr>live = live ?r, saved = None\<rparr> = ?r"
    by (simp_all add: open_repository_def no_tables_def set_metadata_def Let_def)
  obtain r' where tx: "transaction (\<lambda>n. None) (update_calls later_env ''m'' (stable_hash_hex ''m'') [] [new_document c] 1) ?r
      = (Inr (), r')" using first_commit(2) [OF rows(1,2)] unfolding rows(3) by blast
  obtain n where n: "build_snapshot later_env kind [chunk_id c \<mapsto> [f32_one, f32_one]] = Inr n" using snap by blast
  have open': "open_index later_env default_index ?st = (Inr ?r, st1)"
    by (simp add: later_open st1_def empty_state_def)
  have "write_generation later_env default_index ''m'' (stable_hash_hex ''m'') 1 [] (new_pending c) ?r st1
      = (None, st1\<lparr>st_files := fs', st_tables := Some (live r')\<rparr>)"
    unfolding write_generation_steps Let_def two_pendings two_environments later_fields of_nat_numeral
    using w read tx by simp
  then show ?thesis
    by (simp add: update_def publish_snapshot_def open' later_plan [OF c] two_pendings n Let_def)
qed

lemma later_update:
  "\<exists>result st'. update later_env default_index brute_force_kind ''m'' empty_state = (Inr result, st')"
  by (rule later_update_kind) (rule later_snapshot)

section \<open>Properties\<close>

text \<open>
  C21. Whatever happens during an update, at whichever point an operation on files, the database or the
  symbols fails, the persistent index stays consistent: its tables satisfy their invariant, the active vector
  file can be read, and it holds a vector for exactly the chunks in the database. The one failure excluded is
  a query of the generation, the documents or a file's old chunks that is cut short by a failing step, which
  the code does not notice. A failed update never publishes anything.
\<close>

theorem update_keeps_index_consistent:
  assumes "update_conditions env cfg mid st" and "update env cfg kind mid st = (res, st')"
  shows "(reads_complete env \<longrightarrow> index_consistent (index_data_dir cfg) st')
    \<and> (\<forall>e. res = Inl e \<longrightarrow> st_handle st' = st_handle st)"
  using update_outcome(1) [OF assms(1) _ assms(2)] failed_update_handle assms(2) by blast

theorem update_keeps_index_consistent_witness:
  "index_consistent (index_data_dir default_index)
    (snd (update (later_env\<lparr>ie_database_fault := (\<lambda>n. Some (Runtime_error ''disk full''))\<rparr>) default_index
      brute_force_kind ''m'' empty_state))"
proof -
  let ?env = "later_env\<lparr>ie_database_fault := (\<lambda>n. Some (Runtime_error ''disk full''))\<rparr>"
  have "no_collision no_tables ds" for ds
    by (simp add: no_collision_def old_ids_def document_map_def no_tables_def)
  moreover have "order_ok ?env" "scan_ok ?env"
    using later_conditions [where 'i = BruteForceIndex] by (simp_all add: update_conditions_def order_ok_def scan_ok_def)
  ultimately have "update_conditions ?env default_index ''m'' (empty_state :: BruteForceIndex index_state)"
    using sample_conditions [where 'a = BruteForceIndex] by (simp add: update_conditions_def sample_tables)
  moreover have "reads_complete ?env" using later_reads(2) by (simp add: reads_complete_def)
  ultimately show ?thesis using update_keeps_index_consistent by (metis prod.collapse)
qed

text \<open>The brute-force index that is built holds the vectors it is built from.\<close>

lemma built_brute_force:
  assumes "build_snapshot env brute_force_kind v = Inr snapshot" and "order_ok env" and "finite (dom v)"
  shows "bf_contents snapshot = v"
proof -
  have o: "distinct (map fst (ie_order env v))" "map_of (ie_order env v) = v"
    using assms(2,3) by (auto simp: order_ok_def)
  obtain i0 where i0: "make_index (ie_dimension env) = Inr i0" "load_vectors bf_upsert (ie_order env v) i0 = Inr snapshot"
    using assms(1) by (auto simp: build_snapshot_def brute_force_kind_def Let_def res_simps)
  have "bf_valid i0" "bf_contents i0 = Map.empty"
    using i0(1) by (auto simp: make_index_def bf_valid_def bf_contents_def positions_ok_def fun_eq_iff split: if_splits)
  with brute_force.load_success [OF _ i0(2) o(1)] o(2) show ?thesis by simp
qed

text \<open>
  C22. A successful update synchronises the index with the repository: the documents stored are exactly
  the files scanned, each with the hash of its current content; the published snapshot has a vector for
  exactly the chunks stored; and the generation reported is the active one. This needs that no query of
  the database was cut short unnoticed.
\<close>

theorem update_synchronises:
  assumes "update_conditions env cfg mid st" and "reads_complete env"
    and "update env cfg brute_force_kind mid st = (Inr result, st')"
  shows "\<exists>sc snapshot. ie_scan env = Inr sc \<and> st_handle st' = Some snapshot
    \<and> dom (document_map (stored_tables st')) = set (map file_relative_path (scan_files sc))
    \<and> (\<forall>f \<in> set (scan_files sc). \<exists>content sd. ie_read env (file_absolute_path f) = Some content
         \<and> document_map (stored_tables st') (file_relative_path f) = Some sd
         \<and> sdoc_hash sd = stable_hash_hex content)
    \<and> dom (bf_contents snapshot) = chunk_ids (stored_tables st')
    \<and> active_generation (stored_tables st') = Inr (res_generation result)"
proof -
  let ?r = "open_repository (st_tables st)" and ?fs = "remove_temporaries (index_data_dir cfg) (st_files st)"
  obtain g removals s snapshot where
    plan: "plan_update env cfg (stable_hash_hex mid) ?r ?fs = Inr (g, removals, s)"
    and docs: "document_map (stored_tables st') = final_documents (document_map (stored_tables st)) removals (pend_replacements s)"
    and gen: "active_generation (stored_tables st') = Inr (res_generation result)"
    and snap: "build_snapshot env brute_force_kind (pend_vectors s) = Inr snapshot" "st_handle st' = Some snapshot"
    and dom: "dom (pend_vectors s) = chunk_ids (stored_tables st')" "finite (dom (pend_vectors s))"
    using update_outcome(3) [OF assms refl] by (elim exE conjE)
  have c: "disk_ok (index_data_dir cfg) (stored_tables st) (st_files st)" and env: "order_ok env" "scan_ok env"
    using assms(1) by (simp_all add: update_conditions_def index_consistent_def)
  have "disk_ok (index_data_dir cfg) (stored_tables st) ?fs" by (rule disk_ok_frame [OF c]) simp
  note opened = open_repository_ok [OF this]
  note p = plan_update_ok [OF plan opened(1) env(2) assms(2), unfolded opened(2)]
  from p(5) obtain sc where sc: "ie_scan env = Inr sc" "set (pend_present s) = set (map file_relative_path (scan_files sc))"
    "\<forall>f \<in> set (scan_files sc). synced (live ?r) env (pend_replacements s) f" by blast
  have files: "\<exists>content sd. ie_read env (file_absolute_path f) = Some content
      \<and> document_map (stored_tables st') (file_relative_path f) = Some sd \<and> sdoc_hash sd = stable_hash_hex content"
    if f: "f \<in> set (scan_files sc)" for f
  proof -
    have "file_relative_path f \<in> set (pend_present s)" using f sc(2) by simp
    then have gone: "file_relative_path f \<notin> set removals" using p(3) by blast
    have "synced (live ?r) env (pend_replacements s) f" using sc(3) f by (rule bspec)
    from synced_final [OF p(2) this gone] show ?thesis unfolding docs opened(2) .
  qed
  have "\<forall>q \<in> set (pend_present s). final_documents (document_map (stored_tables st)) removals (pend_replacements s) q \<noteq> None"
    using files unfolding sc(2) docs by (metis imageE list.set_map option.distinct(1))
  from final_documents_dom [OF p(2) p(3) p(6) this] sc(2) have
    dom_docs: "dom (document_map (stored_tables st')) = set (map file_relative_path (scan_files sc))"
    by (simp add: docs)
  have "bf_contents snapshot = pend_vectors s" by (rule built_brute_force [OF snap(1) env(1) dom(2)])
  then have "dom (bf_contents snapshot) = chunk_ids (stored_tables st')" using dom(1) by simp
  with sc(1) snap(2) dom_docs files gen show ?thesis by (intro exI [of _ sc] exI [of _ snapshot]) simp
qed

theorem update_synchronises_witness:
  "\<exists>result st'. update later_env default_index brute_force_kind ''m'' empty_state = (Inr result, st')
    \<and> dom (document_map (stored_tables st')) = {''a.c''}
    \<and> (\<exists>sd. document_map (stored_tables st') ''a.c'' = Some sd \<and> sdoc_hash sd = stable_hash_hex ''x'')"
proof -
  obtain result st' where u: "update later_env default_index brute_force_kind ''m'' empty_state = (Inr result, st')"
    using later_update by blast
  have "ie_read later_env ''/r/a.c'' = Some ''x''" by (simp add: later_env_def)
  with update_synchronises [OF later_conditions later_reads(2) u] u show ?thesis
    by (auto simp: later_fields no_files_def new_file_def)
qed

end
