(* ===== verification/Http_Server.thy ===== *)
theory Http_Server
  imports Json Ask_Service Utf8_Stream Generation_Queue Index_Service
begin

text \<open>
  \<^verbatim>\<open>src/adapters/http/http_server.cpp\<close>: the handlers of the HTTP server. A handler computes a
  response or lets an exception escape to the library (\<open>Inl\<close>). JSON text is parsed by the library:
  the request body is the argument \<open>parsed\<close>, a value or the library's exception. Printing a JSON
  value fails if one of its strings is not valid UTF-8.
\<close>

record SearchResult =
  result_hits :: "SearchHit list"
  result_chunks :: "Chunk list"

text \<open>
  The callbacks. \<open>cb_ask\<close> yields the tokens it passes to its token callback, in order, and its result.
  The token callback is given as the outcome of its \<open>n\<close>-th call: an exception, or whether it has
  requested a stop of the generation.
\<close>

record HttpCallbacks =
  cb_ready :: bool
  cb_model_name :: string
  cb_update_index :: "IndexUpdateResult res"
  cb_search :: "string \<Rightarrow> nat \<Rightarrow> SearchResult res"
  cb_ask :: "string \<Rightarrow> nat \<Rightarrow> (nat \<Rightarrow> string \<Rightarrow> bool res) \<Rightarrow> string list \<times> AskResult res"

text \<open>
  A stream is what its content provider writes, and the exception that ends the provider, if any.
\<close>

datatype http_body = Json_body json | Text_body string | Event_stream "(string \<times> json) list" "exn option"

record http_response =
  resp_status :: nat
  resp_request_id :: string
  resp_body :: http_body

section \<open>Responses\<close>

definition request_id :: "64 word \<Rightarrow> string \<times> 64 word" where
  "request_id nxt = (''llcl-'' @ string_of_nat (unat nxt), nxt + 1)"

definition utf8_valid :: "string \<Rightarrow> bool" where
  "utf8_valid s = (utf8_repair s = s)"

fun dumpable :: "json \<Rightarrow> bool" where
  "dumpable (Json_string s) = utf8_valid s"
| "dumpable (Json_array js) = list_all dumpable js"
| "dumpable (Json_object ms) = list_all (\<lambda>(k, j). utf8_valid k \<and> dumpable j) ms"
| "dumpable _ = True"

definition dump_error :: exn where
  "dump_error = Json_exception ''invalid UTF-8 byte''"

definition json_response :: "nat \<Rightarrow> json \<Rightarrow> string \<Rightarrow> http_response res" where
  "json_response status body rid = (if dumpable body
     then Inr \<lparr>resp_status = status, resp_request_id = rid, resp_body = Json_body body\<rparr>
     else Inl dump_error)"

definition error_response :: "nat \<Rightarrow> string \<Rightarrow> string \<Rightarrow> string \<Rightarrow> http_response res" where
  "error_response status code message rid = json_response status
     (Json_object [(''error'', Json_object [(''code'', Json_string code), (''message'', Json_string message),
        (''request_id'', Json_string rid)])]) rid"

text \<open>An event with its payload, if the payload can be printed.\<close>

definition sse_event :: "string \<Rightarrow> json \<Rightarrow> (string \<times> json) res" where
  "sse_event name payload = (if dumpable payload then Inr (name, payload) else Inl dump_error)"

definition what :: "exn \<Rightarrow> string" where
  "what e = (case e of Invalid_argument m \<Rightarrow> m | Runtime_error m \<Rightarrow> m | Logic_error m \<Rightarrow> m | Overflow_error m \<Rightarrow> m
     | System_error m \<Rightarrow> m | Json_exception m \<Rightarrow> m | Other_exception m \<Rightarrow> m)"

text \<open>The catch clauses of the two handlers that read a body.\<close>

definition catch_request :: "string \<Rightarrow> string \<Rightarrow> http_response res \<Rightarrow> http_response res" where
  "catch_request code rid r = (case r of
     Inr resp \<Rightarrow> Inr resp
   | Inl (Json_exception m) \<Rightarrow> error_response 400 ''invalid_json'' m rid
   | Inl (Invalid_argument m) \<Rightarrow> error_response 400 ''invalid_request'' m rid
   | Inl e \<Rightarrow> error_response 500 code (what e) rid)"

section \<open>Reading requests\<close>

text \<open>\<open>get<unsigned>\<close>: as for signed types, modulo \<open>2 ^ 32\<close>.\<close>

fun get_u32 :: "json \<Rightarrow> nat res" where
  "get_u32 (Json_unsigned n) = Inr (n mod 2 ^ 32)"
| "get_u32 (Json_integer z) = Inr (nat (z mod 2 ^ 32))"
| "get_u32 (Json_float x) = (case f64_trunc x of
     Some z \<Rightarrow> if 0 \<le> z \<and> z < 2 ^ 32 then Inr (nat z) else Inl (Other_exception ''undefined conversion'')
   | None \<Rightarrow> Inl (Other_exception ''undefined conversion''))"
| "get_u32 (Json_bool b) = Inr (if b then 1 else 0)"
| "get_u32 _ = Inl json_type_error"

definition top_k_from :: "json \<Rightarrow> nat res" where
  "top_k_from request = res_bind (json_value get_u32 request ''top_k'' 5) (\<lambda>top_k.
     if top_k = 0 \<or> 1000 < top_k then Inl (Invalid_argument ''top_k must be in [1, 1000]'') else Inr top_k)"

text \<open>The loop over the messages, last first.\<close>

fun last_user_message :: "json list \<Rightarrow> string res" where
  "last_user_message [] = Inl (Invalid_argument ''request must provide question or a user message'')"
| "last_user_message (m # ms) = res_bind (json_value get_string m ''role'' []) (\<lambda>role.
     case json_find m ''content'' of
       Some (Json_string s) \<Rightarrow> if role = ''user'' then Inr s else last_user_message ms
     | _ \<Rightarrow> last_user_message ms)"

definition question_from :: "json \<Rightarrow> string res" where
  "question_from request = (case json_find request ''question'' of
     Some (Json_string s) \<Rightarrow> Inr s
   | _ \<Rightarrow> (case json_find request ''messages'' of
       Some (Json_array ms) \<Rightarrow> last_user_message (rev ms)
     | _ \<Rightarrow> Inl (Invalid_argument ''request must provide question or a user message'')))"

definition json_of_score :: "float32 \<Rightarrow> json" where
  "json_of_score x = Json_float (f64_of_f32 x)"

definition json_of_range :: "SourceRange \<Rightarrow> (string \<times> json) list" where
  "json_of_range r = [(''path'', Json_string (range_path r)),
     (''start_line'', Json_unsigned (unat (range_start_line r))),
     (''end_line'', Json_unsigned (unat (range_end_line r)))]"

definition citations_json :: "Citation list \<Rightarrow> json" where
  "citations_json cs = Json_array (map (\<lambda>c. Json_object ((''id'', Json_string (cited_id c)) #
     json_of_range (cited_source c) @ [(''score'', json_of_score (retrieval_score c))])) cs)"

section \<open>Handlers\<close>

definition handle_healthz :: "string \<Rightarrow> http_response res" where
  "handle_healthz rid = json_response 200 (Json_object [(''status'', Json_string ''ok'')]) rid"

definition handle_readyz :: "HttpCallbacks \<Rightarrow> string \<Rightarrow> http_response res" where
  "handle_readyz cb rid = (if \<not> cb_ready cb
     then error_response 503 ''not_ready'' ''model or index is not ready'' rid
     else json_response 200 (Json_object [(''status'', Json_string ''ready'')]) rid)"

definition handle_models :: "HttpCallbacks \<Rightarrow> string \<Rightarrow> http_response res" where
  "handle_models cb rid = json_response 200 (Json_object [(''object'', Json_string ''list''),
     (''data'', Json_array [Json_object [(''id'', Json_string (cb_model_name cb)), (''object'', Json_string ''model'')]])]) rid"

definition newline :: string where
  "newline = [CHR 0x0A]"

text \<open>A metric with its type; of all of them only the queue depth is measured.\<close>

definition metric :: "string \<Rightarrow> string \<Rightarrow> nat \<Rightarrow> string" where
  "metric name kind v = ''# TYPE '' @ name @ '' '' @ kind @ newline @ name @ '' '' @ string_of_nat v @ newline"

definition handle_metrics :: "'t GenerationQueue \<Rightarrow> string \<Rightarrow> http_response res" where
  "handle_metrics q rid = Inr \<lparr>resp_status = 200, resp_request_id = rid, resp_body = Text_body (
     metric ''llcl_http_requests_total'' ''counter'' 0 @
     metric ''llcl_http_request_duration_seconds'' ''gauge'' 0 @
     metric ''llcl_generation_queue_depth'' ''gauge'' (depth q) @
     metric ''llcl_generation_ttft_seconds'' ''gauge'' 0 @
     metric ''llcl_generation_decode_tokens_total'' ''counter'' 0 @
     metric ''llcl_generation_decode_seconds'' ''gauge'' 0 @
     metric ''llcl_retrieval_duration_seconds'' ''gauge'' 0 @
     metric ''llcl_index_chunks'' ''gauge'' 0 @
     metric ''llcl_index_failures_total'' ''counter'' 0)\<rparr>"

definition handle_index :: "HttpCallbacks \<Rightarrow> string \<Rightarrow> http_response res" where
  "handle_index cb rid = (
     case res_bind (cb_update_index cb) (\<lambda>r. json_response 200 (Json_object
       [(''generation'', Json_unsigned (res_generation r)), (''files_added'', Json_unsigned (res_added r)),
        (''files_changed'', Json_unsigned (res_changed r)), (''files_removed'', Json_unsigned (res_removed r)),
        (''files_unchanged'', Json_unsigned (res_unchanged r)),
        (''chunks_embedded'', Json_unsigned (res_embedded r))]) rid) of
       Inr resp \<Rightarrow> Inr resp
     | Inl e \<Rightarrow> error_response 500 ''index_failed'' (what e) rid)"

text \<open>The loop over hits and chunks pairs them by position and ends with the shorter list.\<close>

fun search_items :: "SearchHit list \<Rightarrow> Chunk list \<Rightarrow> json list" where
  "search_items (h # hs) (c # cs) = Json_object ((''score'', json_of_score (hit_score h)) #
     json_of_range (chunk_source c) @ [(''content'', Json_string (chunk_content c))]) # search_items hs cs"
| "search_items _ _ = []"

definition handle_search :: "HttpCallbacks \<Rightarrow> json res \<Rightarrow> string \<Rightarrow> http_response res" where
  "handle_search cb parsed rid = catch_request ''search_failed'' rid (
     if \<not> cb_ready cb then error_response 503 ''index_not_ready'' ''repository index has not been built'' rid
     else res_bind parsed (\<lambda>body.
       res_bind (question_from body) (\<lambda>question.
       res_bind (top_k_from body) (\<lambda>top_k.
       res_bind (cb_search cb question top_k) (\<lambda>result.
         json_response 200 (Json_object
           [(''data'', Json_array (search_items (result_hits result) (result_chunks result)))]) rid)))))"

section \<open>Chat completions\<close>

text \<open>
  A task the queue accepts runs, or is destroyed before it runs, which breaks its promise. The model
  of the queue carries the id of the request as the task.
\<close>

definition broken_promise :: exn where
  "broken_promise = Logic_error ''broken promise''"

definition completion_json :: "HttpCallbacks \<Rightarrow> AskResult \<Rightarrow> string \<Rightarrow> json" where
  "completion_json cb r rid = Json_object [(''id'', Json_string rid), (''object'', Json_string ''chat.completion''),
     (''model'', Json_string (cb_model_name cb)),
     (''choices'', Json_array [Json_object [(''index'', Json_unsigned 0),
        (''message'', Json_object [(''role'', Json_string ''assistant''), (''content'', Json_string (answer r))]),
        (''finish_reason'', Json_string ''stop'')]]),
     (''citations'', citations_json (citations r))]"

definition complete_plain :: "HttpCallbacks \<Rightarrow> string GenerationQueue \<Rightarrow> bool \<Rightarrow> string \<Rightarrow> nat \<Rightarrow> string \<Rightarrow>
    http_response res \<times> string GenerationQueue" where
  "complete_plain cb q runs question top_k rid = (case try_submit (Some rid) q of
     Inl e \<Rightarrow> (Inl e, q)
   | Inr (False, q') \<Rightarrow> (error_response 429 ''queue_full'' ''generation queue is full'' rid, q')
   | Inr (True, q') \<Rightarrow>
       (res_bind (if runs then snd (cb_ask cb question top_k (\<lambda>n token. Inr False)) else Inl broken_promise)
         (\<lambda>r. json_response 200 (completion_json cb r rid) rid), q'))"

text \<open>
  The streaming content provider. The token callback writes an event if the client still reads (the
  answer may differ from call to call: \<open>writable\<close>), else requests a stop; an event that cannot be
  printed throws. The events are what was written.
\<close>

definition token_event :: "string \<Rightarrow> (string \<times> json) res" where
  "token_event token = sse_event ''token'' (Json_object [(''text'', Json_string token)])"

definition token_callback :: "(nat \<Rightarrow> bool) \<Rightarrow> nat \<Rightarrow> string \<Rightarrow> bool res" where
  "token_callback writable n token = (if \<not> writable n then Inr True
     else case token_event token of Inl e \<Rightarrow> Inl e | Inr ev \<Rightarrow> Inr False)"

fun token_events :: "(nat \<Rightarrow> bool) \<Rightarrow> nat \<Rightarrow> string list \<Rightarrow> (string \<times> json) list" where
  "token_events writable n [] = []"
| "token_events writable n (t # ts) = (if writable n
     then (case token_event t of Inl e \<Rightarrow> [] | Inr ev \<Rightarrow> [ev]) else []) @ token_events writable (n + 1) ts"

text \<open>The events after the generation: each printed one is written before the next is computed.\<close>

fun write_events :: "(string \<times> json) res list \<Rightarrow> (string \<times> json) list \<times> exn option" where
  "write_events [] = ([], None)"
| "write_events (Inl e # evs) = ([], Some e)"
| "write_events (Inr ev # evs) = (case write_events evs of (out, e) \<Rightarrow> (ev # out, e))"

definition final_events :: "AskResult res \<Rightarrow> (string \<times> json) list \<times> exn option" where
  "final_events r = (case r of
     Inl e \<Rightarrow> ([], Some e)
   | Inr a \<Rightarrow> write_events [
       sse_event ''citations'' (Json_object [(''items'', citations_json (citations a))]),
       sse_event ''metrics'' (Json_object [(''ttft_ms'', Json_integer (stat_time_to_first_token (generation a))),
         (''decode_tokens'', Json_unsigned (stat_generated_tokens (generation a)))]),
       sse_event ''done'' (Json_object [(''finish_reason'', Json_string ''stop'')])])"

definition error_event :: "(string \<times> json) list \<Rightarrow> (string \<times> json) list \<times> exn option" where
  "error_event payload = write_events [sse_event ''error'' (Json_object payload)]"

text \<open>The provider once it has waited for the result: the final events, or the error event of its handler.\<close>

definition finish_stream :: "AskResult res \<Rightarrow> (string \<times> json) list \<times> exn option" where
  "finish_stream r = (case final_events r of
     (evs, None) \<Rightarrow> (evs, None)
   | (evs, Some e) \<Rightarrow> (case error_event
         [(''code'', Json_string ''generation_failed''), (''message'', Json_string (what e))] of
       (err, escaped) \<Rightarrow> (evs @ err, escaped)))"

definition stream_events :: "HttpCallbacks \<Rightarrow> string GenerationQueue \<Rightarrow> bool \<Rightarrow> (nat \<Rightarrow> bool) \<Rightarrow> string \<Rightarrow> nat \<Rightarrow>
    string \<Rightarrow> ((string \<times> json) list \<times> exn option) \<times> string GenerationQueue" where
  "stream_events cb q runs writable question top_k rid = (case try_submit (Some rid) q of
     Inl e \<Rightarrow> (([], Some e), q)
   | Inr (False, q') \<Rightarrow> (error_event [(''code'', Json_string ''queue_full'')], q')
   | Inr (True, q') \<Rightarrow>
       ((case (if runs then cb_ask cb question top_k (token_callback writable) else ([], Inl broken_promise)) of
         (tokens, r) \<Rightarrow> (case finish_stream r of
           (evs, escaped) \<Rightarrow> (token_events writable 0 tokens @ evs, escaped))), q'))"

text \<open>What a request must contain, as the handlers read it.\<close>

definition read_completion :: "json res \<Rightarrow> (string \<times> nat \<times> bool) res" where
  "read_completion parsed = res_bind parsed (\<lambda>body. res_bind (question_from body) (\<lambda>question.
     res_bind (top_k_from body) (\<lambda>top_k. res_bind (json_value get_bool body ''stream'' False) (\<lambda>stream.
     Inr (question, top_k, stream)))))"

text \<open>
  The handler and the queue after its submission; the content provider of a stream runs after the
  handler has returned, outside its \<open>try\<close>.
\<close>

definition handle_completions :: "HttpCallbacks \<Rightarrow> string GenerationQueue \<Rightarrow> bool \<Rightarrow> (nat \<Rightarrow> bool) \<Rightarrow> json res \<Rightarrow>
    string \<Rightarrow> http_response res \<times> string GenerationQueue" where
  "handle_completions cb q runs writable parsed rid = (
     if \<not> cb_ready cb
     then (error_response 503 ''index_not_ready'' ''repository index has not been built'' rid, q)
     else case read_completion parsed of
       Inl e \<Rightarrow> (catch_request ''generation_failed'' rid (Inl e), q)
     | Inr (question, top_k, stream) \<Rightarrow> (if stream
         then (case stream_events cb q runs writable question top_k rid of ((evs, e), q') \<Rightarrow>
           (Inr \<lparr>resp_status = 200, resp_request_id = rid, resp_body = Event_stream evs e\<rparr>, q'))
         else (case complete_plain cb q runs question top_k rid of (r, q') \<Rightarrow>
           (catch_request ''generation_failed'' rid r, q'))))"

section \<open>Printing\<close>

lemma utf8_valid_iff: "utf8_valid s \<longleftrightarrow> well_formed s"
proof
  assume "utf8_valid s"
  with emit_loop_well_formed [of True s] show "well_formed s" by (simp add: utf8_valid_def utf8_repair_def)
next
  assume "well_formed s"
  then show "utf8_valid s" using emit_loop_identity by (auto simp: well_formed_def utf8_valid_def utf8_repair_def)
qed

lemma utf8_encode_ascii: "(of_char c :: nat) < 128 \<Longrightarrow> utf8_encode (of_char c) = [c]"
  by (simp add: utf8_encode_def)

lemma utf8_valid_ascii: "\<forall>c \<in> set s. (of_char c :: nat) < 128 \<Longrightarrow> utf8_valid s"
proof -
  assume a: "\<forall>c \<in> set s. (of_char c :: nat) < 128"
  then have "s = concat (map utf8_encode (map of_char s))"
    by (induction s) (simp_all add: utf8_encode_ascii)
  moreover have "list_all scalar_value (map of_char s)"
    using a by (auto simp: list_all_iff scalar_value_def)
  ultimately show ?thesis unfolding utf8_valid_iff well_formed_def by blast
qed

lemma error_response_status:
  "error_response status code message rid = Inr resp \<Longrightarrow> resp_status resp = status \<and> resp_request_id resp = rid"
  by (auto simp: error_response_def json_response_def split: if_splits)

lemma catch_request_status:
  assumes "catch_request code rid r = Inr resp" and "resp_status resp \<notin> {400, 500}"
  shows "r = Inr resp"
  using assms
  by (auto simp: catch_request_def dest: error_response_status split: sum.splits exn.splits)

lemma top_k_from_bounds: "top_k_from j = Inr k \<Longrightarrow> 1 \<le> k \<and> k \<le> 1000"
  by (auto simp: top_k_from_def res_simps split: if_splits)

section \<open>The shape of a stream\<close>

lemma sse_event_name: "sse_event name payload = Inr ev \<longleftrightarrow> ev = (name, payload) \<and> dumpable payload"
  by (auto simp: sse_event_def)

lemma token_events_names: "list_all (\<lambda>ev. fst ev = ''token'') (token_events writable n ts)"
proof (induction ts arbitrary: n)
  case (Cons t ts)
  show ?case
  proof (cases "token_event t")
    case (Inr ev)
    then have "fst ev = ''token''" by (simp only: token_event_def sse_event_name) simp
    with Inr Cons show ?thesis by simp
  qed (simp add: Cons)
qed simp

text \<open>The keys the server writes are ASCII.\<close>

lemma dumpable_keys:
  "utf8_valid ''code''" "utf8_valid ''message''" "utf8_valid ''queue_full''" "utf8_valid ''generation_failed''"
  "utf8_valid ''ttft_ms''" "utf8_valid ''decode_tokens''" "utf8_valid ''finish_reason''" "utf8_valid ''stop''"
  by (rule utf8_valid_ascii, simp)+

lemma final_events_cases:
  "(\<exists>a. r = Inr a \<and> snd (final_events r) = None \<and>
      map fst (fst (final_events r)) = [''citations'', ''metrics'', ''done''])
   \<or> (\<exists>e. r = Inl e \<and> final_events r = ([], Some e))
   \<or> (\<exists>a. r = Inr a \<and> final_events r = ([], Some dump_error))"
proof (cases r)
  case (Inr a)
  then show ?thesis by (simp add: final_events_def sse_event_def dumpable_keys)
qed (simp add: final_events_def)

lemma error_event_cases:
  "error_event payload = (if dumpable (Json_object payload) then ([(''error'', Json_object payload)], None)
     else ([], Some dump_error))"
  by (simp add: error_event_def sse_event_def)

lemma dump_error_valid: "utf8_valid (what dump_error)"
  by (rule utf8_valid_ascii) (simp add: dump_error_def what_def)

lemma broken_promise_valid: "utf8_valid (what broken_promise)"
  by (rule utf8_valid_ascii) (simp add: broken_promise_def what_def)

lemma generation_failed_dumpable:
  "dumpable (Json_object [(''code'', Json_string ''generation_failed''), (''message'', Json_string m)])
    \<longleftrightarrow> utf8_valid m"
  by (simp add: dumpable_keys)

text \<open>The ending of a stream whose result is \<open>r\<close>.\<close>

lemma finish_stream_cases:
  assumes "finish_stream r = (fin, escaped)"
  shows "if escaped = None then map fst fin \<in> {[''citations'', ''metrics'', ''done''], [''error'']}
    else fin = [] \<and> (\<exists>e. r = Inl e \<and> \<not> utf8_valid (what e))"
proof -
  consider (complete) "snd (final_events r) = None" "map fst (fst (final_events r)) = [''citations'', ''metrics'', ''done'']"
    | (failed) e where "r = Inl e" "final_events r = ([], Some e)"
    | (unprintable) "final_events r = ([], Some dump_error)" using final_events_cases [of r] by metis
  then show ?thesis
  proof cases
    case complete
    then have "finish_stream r = (fst (final_events r), None)"
      by (cases "final_events r") (simp add: finish_stream_def)
    with assms complete show ?thesis by auto
  next
    case failed
    then have "finish_stream r = error_event [(''code'', Json_string ''generation_failed''), (''message'', Json_string (what e))]"
      by (simp add: finish_stream_def split: prod.split)
    with assms failed show ?thesis unfolding error_event_cases generation_failed_dumpable by (auto split: if_splits)
  next
    case unprintable
    then have "finish_stream r = error_event [(''code'', Json_string ''generation_failed''), (''message'', Json_string (what dump_error))]"
      by (simp add: finish_stream_def split: prod.split)
    with assms show ?thesis unfolding error_event_cases generation_failed_dumpable
      by (auto simp: dump_error_valid)
  qed
qed

text \<open>
  C25. A streamed completion is a series of token events followed by exactly one ending: the events
  \<open>citations\<close>, \<open>metrics\<close>, \<open>done\<close> in this order, or a single \<open>error\<close> event. Without an ending the provider
  has thrown, and this happens only when the task ran and failed with a message that is not UTF-8.
\<close>

theorem stream_has_one_ending:
  assumes "stream_events cb q runs writable question top_k rid = ((evs, escaped), q')"
  shows "\<exists>ts fin. evs = ts @ fin \<and> list_all (\<lambda>ev. fst ev = ''token'') ts \<and>
    (if escaped = None then map fst fin \<in> {[''citations'', ''metrics'', ''done''], [''error'']}
     else fin = [] \<and> runs \<and> (\<exists>e. snd (cb_ask cb question top_k (token_callback writable)) = Inl e \<and>
       \<not> well_formed (what e)))"
proof (cases "\<not> accepting q \<or> capacity q \<le> length (tasks q)")
  case True
  with assms have "evs = [] @ [(''error'', Json_object [(''code'', Json_string ''queue_full'')])]" "escaped = None"
    by (auto simp: stream_events_def try_submit_def error_event_cases dumpable_keys)
  then show ?thesis by (intro exI [of _ "[]"] exI [of _ evs]) simp
next
  case False
  obtain tokens r where ask: "(if runs then cb_ask cb question top_k (token_callback writable)
      else ([], Inl broken_promise)) = (tokens, r)" by fastforce
  obtain fin where fin: "finish_stream r = (fin, escaped)" "evs = token_events writable 0 tokens @ fin"
    using assms False ask by (auto simp: stream_events_def try_submit_def split: prod.splits)
  have "runs \<and> snd (cb_ask cb question top_k (token_callback writable)) = Inl e"
    if "r = Inl e" "\<not> utf8_valid (what e)" for e
    using ask that broken_promise_valid by (cases runs) auto
  with finish_stream_cases [OF fin(1)] fin(2) token_events_names [of writable 0 tokens] show ?thesis
    by (intro exI [of _ "token_events writable 0 tokens"] exI [of _ fin])
      (auto simp: utf8_valid_iff split: if_splits)
qed

text \<open>A server whose model answers with one token.\<close>

definition sample_callbacks :: HttpCallbacks where
  "sample_callbacks = \<lparr>cb_ready = True, cb_model_name = ''m'', cb_update_index = Inl (Runtime_error ''busy''),
     cb_search = (\<lambda>question top_k. Inr \<lparr>result_hits = [], result_chunks = []\<rparr>),
     cb_ask = (\<lambda>question top_k on_token. ([question], Inr \<lparr>answer = question, citations = [],
       generation = empty_stats, prompt_tokens = 1, ask_skipped = 0, citations_valid = True\<rparr>))\<rparr>"

definition sample_queue :: "string GenerationQueue" where
  "sample_queue = \<lparr>capacity = 1, tasks = [], accepting = True, stop_requested = False\<rparr>"

theorem stream_has_one_ending_witness:
  "\<exists>evs escaped q'. stream_events sample_callbacks sample_queue True (\<lambda>n. True) ''hi'' 5 ''llcl-1'' = ((evs, escaped), q') \<and>
    (\<exists>ts fin. evs = ts @ fin \<and> list_all (\<lambda>ev. fst ev = ''token'') ts \<and>
    (if escaped = None then map fst fin \<in> {[''citations'', ''metrics'', ''done''], [''error'']}
     else fin = [] \<and> True \<and> (\<exists>e. snd (cb_ask sample_callbacks ''hi'' 5 (token_callback (\<lambda>n. True))) = Inl e \<and>
       \<not> well_formed (what e))))"
proof -
  obtain evs escaped q' where "stream_events sample_callbacks sample_queue True (\<lambda>n. True) ''hi'' 5 ''llcl-1'' = ((evs, escaped), q')"
    by (metis prod.exhaust)
  with stream_has_one_ending [OF this] show ?thesis by blast
qed

section \<open>Statuses\<close>

lemma json_response_status:
  "json_response status body rid = Inr resp \<Longrightarrow> resp_status resp = status \<and> resp_request_id resp = rid"
  by (auto simp: json_response_def split: if_splits)

lemma catch_request_cases:
  assumes "catch_request code rid r = Inr resp"
  shows "r = Inr resp \<or> resp_status resp \<in> {400, 500} \<and> resp_request_id resp = rid"
  using assms by (auto simp: catch_request_def dest: error_response_status split: sum.splits exn.splits)

lemma complete_plain_cases:
  assumes "complete_plain cb q runs question top_k rid = (Inr resp, q')"
  shows "resp_request_id resp = rid \<and>
    (if accepting q \<and> length (tasks q) < capacity q
     then resp_status resp = 200 \<and> q' = q\<lparr>tasks := tasks q @ [rid]\<rparr> else resp_status resp = 429 \<and> q' = q)"
proof (cases "accepting q \<and> length (tasks q) < capacity q")
  case True
  with assms show ?thesis by (auto simp: complete_plain_def try_submit_def res_simps dest: json_response_status)
next
  case False
  with assms show ?thesis by (auto simp: complete_plain_def try_submit_def dest: error_response_status)
qed

lemma submission_effect:
  "snd (complete_plain cb q runs question top_k rid) =
    (if accepting q \<and> length (tasks q) < capacity q then q\<lparr>tasks := tasks q @ [rid]\<rparr> else q)"
  "snd (stream_events cb q runs writable question top_k rid) =
    (if accepting q \<and> length (tasks q) < capacity q then q\<lparr>tasks := tasks q @ [rid]\<rparr> else q)"
  by (auto simp: complete_plain_def stream_events_def try_submit_def)

lemma read_completion_top_k: "read_completion parsed = Inr (question, k, stream) \<Longrightarrow> 1 \<le> k \<and> k \<le> 1000"
  by (auto simp: read_completion_def res_simps dest: top_k_from_bounds)

lemma completion_queue_effect:
  assumes "handle_completions cb q runs writable parsed rid = (r, q')" and "q' \<noteq> q"
  shows "q' = q\<lparr>tasks := tasks q @ [rid]\<rparr>" and "\<exists>req. read_completion parsed = Inr req"
  using assms submission_effect [of cb q runs]
  by (auto simp: handle_completions_def prod_eq_iff split: if_splits sum.splits prod.splits)

text \<open>The exceptions the handler blames on the client.\<close>

definition client_error :: "exn \<Rightarrow> bool" where
  "client_error e \<longleftrightarrow> (\<exists>m. e = Json_exception m \<or> e = Invalid_argument m)"

lemma catch_request_Inl:
  "catch_request code rid (Inl e) = Inr resp \<Longrightarrow>
    resp_status resp = (if client_error e then 400 else 500) \<and> resp_request_id resp = rid"
  by (cases e) (auto simp: catch_request_def client_error_def dest: error_response_status)

lemma catch_request_Inr [simp]: "catch_request code rid (Inr resp) = Inr resp"
  by (simp add: catch_request_def)

lemma client_error_simps [simp]: "client_error dump_error" "\<not> client_error broken_promise"
  by (simp_all add: client_error_def dump_error_def broken_promise_def)

text \<open>Whether an error can be reported at all depends on its strings.\<close>

lemma error_response_printable:
  "error_response status code message rid = (if utf8_valid code \<and> utf8_valid message \<and> utf8_valid rid
     then Inr \<lparr>resp_status = status, resp_request_id = rid, resp_body = Json_body
       (Json_object [(''error'', Json_object [(''code'', Json_string code), (''message'', Json_string message),
        (''request_id'', Json_string rid)])])\<rparr> else Inl dump_error)"
proof -
  have "utf8_valid ''error''" "utf8_valid ''code''" "utf8_valid ''message''" "utf8_valid ''request_id''"
    by (rule utf8_valid_ascii, simp)+
  then show ?thesis by (simp add: error_response_def json_response_def)
qed

lemma queue_full_valid: "utf8_valid ''queue_full''" "utf8_valid ''generation queue is full''"
  by (rule utf8_valid_ascii, simp)+

lemma catch_request_rid: "catch_request code rid (Inl e) = Inr resp \<Longrightarrow> utf8_valid rid"
  by (cases e) (auto simp: catch_request_def error_response_printable split: if_splits)

text \<open>The response to a request that does not stream.\<close>

lemma plain_response:
  assumes "handle_completions cb q runs writable parsed rid = (Inr resp, q')"
    and "cb_ready cb" and "read_completion parsed = Inr (question, k, False)"
  shows "resp_request_id resp = rid \<and> resp_status resp =
    (if \<not> (accepting q \<and> length (tasks q) < capacity q) then 429 else if \<not> runs then 500
     else case snd (cb_ask cb question k (\<lambda>n token. Inr False)) of
       Inl e \<Rightarrow> if client_error e then 400 else 500
     | Inr r \<Rightarrow> if dumpable (completion_json cb r rid) then 200 else 400)"
    "\<And>r. accepting q \<Longrightarrow> length (tasks q) < capacity q \<Longrightarrow> runs \<Longrightarrow>
      snd (cb_ask cb question k (\<lambda>n token. Inr False)) = Inr r \<Longrightarrow> dumpable (completion_json cb r rid) \<Longrightarrow>
      resp_body resp = Json_body (completion_json cb r rid)"
proof -
  let ?room = "accepting q \<and> length (tasks q) < capacity q"
  let ?answer = "snd (cb_ask cb question k (\<lambda>n token. Inr False))"
  obtain r where r: "complete_plain cb q runs question k rid = (r, q')"
      "catch_request ''generation_failed'' rid r = Inr resp"
    using assms by (auto simp: handle_completions_def split: prod.splits)
  consider (full) "\<not> ?room" | (lost) "?room" "\<not> runs" | (failed) e where "?room" "runs" "?answer = Inl e"
    | (answered) a where "?room" "runs" "?answer = Inr a" by (metis sum.exhaust)
  then have "resp_request_id resp = rid \<and> resp_status resp =
      (if \<not> ?room then 429 else if \<not> runs then 500 else case ?answer of
         Inl e \<Rightarrow> if client_error e then 400 else 500
       | Inr r \<Rightarrow> if dumpable (completion_json cb r rid) then 200 else 400)
    \<and> (\<forall>a. ?room \<longrightarrow> runs \<longrightarrow> ?answer = Inr a \<longrightarrow> dumpable (completion_json cb a rid) \<longrightarrow>
         resp_body resp = Json_body (completion_json cb a rid))"
  proof cases
    case full
    then have e: "r = error_response 429 ''queue_full'' ''generation queue is full'' rid"
      using r(1) by (auto simp: complete_plain_def try_submit_def)
    have "utf8_valid rid"
    proof (rule ccontr)
      assume "\<not> utf8_valid rid"
      then have "r = Inl dump_error" using e by (simp add: error_response_printable)
      with r(2) catch_request_rid \<open>\<not> utf8_valid rid\<close> show False by blast
    qed
    then have "r = Inr resp" using r(2) e by (simp add: error_response_printable queue_full_valid)
    with e error_response_status have "resp_status resp = 429 \<and> resp_request_id resp = rid" by metis
    with full show ?thesis by auto
  next
    case lost
    then have "r = Inl broken_promise" using r(1) by (auto simp: complete_plain_def try_submit_def)
    with r(2) lost catch_request_Inl [of "''generation_failed''" rid broken_promise resp] show ?thesis by simp
  next
    case failed
    then have "r = Inl e" using r(1) by (auto simp: complete_plain_def try_submit_def)
    with r(2) failed catch_request_Inl [of "''generation_failed''" rid e resp] show ?thesis by simp
  next
    case answered
    then have a: "r = json_response 200 (completion_json cb a rid) rid"
      using r(1) by (auto simp: complete_plain_def try_submit_def)
    show ?thesis
    proof (cases "dumpable (completion_json cb a rid)")
      case True
      with a r(2) answered show ?thesis by (auto simp: json_response_def)
    next
      case False
      with a r(2) answered catch_request_Inl [of "''generation_failed''" rid dump_error resp]
      show ?thesis by (simp add: json_response_def)
    qed
  qed
  then show "resp_request_id resp = rid \<and> resp_status resp =
      (if \<not> ?room then 429 else if \<not> runs then 500 else case ?answer of
         Inl e \<Rightarrow> if client_error e then 400 else 500
       | Inr r \<Rightarrow> if dumpable (completion_json cb r rid) then 200 else 400)"
    and "\<And>a. accepting q \<Longrightarrow> length (tasks q) < capacity q \<Longrightarrow> runs \<Longrightarrow> ?answer = Inr a \<Longrightarrow>
      dumpable (completion_json cb a rid) \<Longrightarrow> resp_body resp = Json_body (completion_json cb a rid)"
    by blast+
qed

text \<open>The queue after the handler.\<close>

lemma completion_queue:
  "snd (handle_completions cb q runs writable parsed rid) =
    (if cb_ready cb \<and> (\<exists>req. read_completion parsed = Inr req) \<and> accepting q \<and> length (tasks q) < capacity q
     then q\<lparr>tasks := tasks q @ [rid]\<rparr> else q)"
  using submission_effect [of cb q runs]
  by (auto simp: handle_completions_def split_beta split: sum.split)

lemma completion_request_cases:
  obtains (unready) "\<not> cb_ready cb"
    | (unreadable) e where "cb_ready cb" "read_completion parsed = Inl e"
    | (stream) question k where "cb_ready cb" "read_completion parsed = Inr (question, k, True)"
    | (plain) question k where "cb_ready cb" "read_completion parsed = Inr (question, k, False)"
  by (metis (full_types) prod.exhaust sum.exhaust)



section \<open>Searches\<close>

text \<open>
  The results are paired by position, so a hit is shown with its own chunk only if no chunk before it
  is missing; a missing chunk shifts the scores.
\<close>

lemma search_items_nth:
  "i < length hs \<Longrightarrow> i < length cs \<Longrightarrow> search_items hs cs ! i =
    Json_object ((''score'', json_of_score (hit_score (hs ! i))) #
      json_of_range (chunk_source (cs ! i)) @ [(''content'', Json_string (chunk_content (cs ! i)))])"
proof (induction hs cs arbitrary: i rule: search_items.induct)
  case (1 h hs c cs)
  then show ?case by (cases i) simp_all
qed simp_all

lemma search_items_length: "length (search_items hs cs) = min (length hs) (length cs)"
  by (induction hs cs rule: search_items.induct) simp_all

lemma search_items_dumpable:
  "c \<in> set cs \<Longrightarrow> length cs \<le> length hs \<Longrightarrow> \<not> utf8_valid (chunk_content c) \<Longrightarrow>
    \<not> list_all dumpable (search_items hs cs)"
  by (induction hs cs rule: search_items.induct) auto

text \<open>
  A chunk whose content is not UTF-8 makes the server blame the request: the exception of the printer is
  caught by the clause for malformed bodies.
\<close>

lemma search_blames_the_request:
  assumes "cb_ready cb" and "parsed = Inr body" and "question_from body = Inr question"
    and "top_k_from body = Inr k" and "cb_search cb question k = Inr result"
    and "length (result_chunks result) \<le> length (result_hits result)"
    and "c \<in> set (result_chunks result)" and "\<not> utf8_valid (chunk_content c)"
  shows "handle_search cb parsed rid = error_response 400 ''invalid_json'' ''invalid UTF-8 byte'' rid"
proof -
  have "json_response 200 (Json_object [(''data'', Json_array (search_items (result_hits result) (result_chunks result)))]) rid
      = Inl dump_error"
    using search_items_dumpable assms(6-8) by (simp add: json_response_def)
  with assms(1-5) show ?thesis by (simp add: handle_search_def catch_request_def dump_error_def res_simps)
qed

end
