(* ===== verification/Hnsw_Index.thy ===== *)
theory Hnsw_Index
  imports Vector_Index Vector_File Json "HOL-Library.Countable"
begin

text \<open>
  \<^verbatim>\<open>src/adapters/vector/hnsw_index.cpp\<close>: the approximate index. hnswlib is outside the repository: \<open>'g\<close> is its graph
  and a record of functions its interface; what is relied on is stated as \<open>library_ok\<close>, over the vectors that are
  live in a graph. JSON text, the file system and its failures are arguments.
\<close>

section \<open>The library\<close>

text \<open>
  Construction from dimension, capacity, \<open>m\<close> and \<open>ef_construction\<close>; \<^verbatim>\<open>addPoint\<close> with the flag that a deleted slot may be
  reused; \<^verbatim>\<open>searchKnn\<close> as the sequence its queue is emptied in, distances and labels; \<^verbatim>\<open>saveIndex\<close> as the bytes
  written and loading from bytes with the capacity.
\<close>

record 'g hnsw_library =
  lib_make :: "nat \<Rightarrow> nat \<Rightarrow> nat \<Rightarrow> nat \<Rightarrow> 'g res"
  lib_set_ef :: "nat \<Rightarrow> 'g \<Rightarrow> 'g"
  lib_add_point :: "Embedding \<Rightarrow> 64 word \<Rightarrow> bool \<Rightarrow> 'g \<Rightarrow> unit res \<times> 'g"
  lib_mark_delete :: "64 word \<Rightarrow> 'g \<Rightarrow> unit res \<times> 'g"
  lib_search_knn :: "'g \<Rightarrow> Embedding \<Rightarrow> nat \<Rightarrow> (float32 \<times> 64 word) list res"
  lib_save_index :: "'g \<Rightarrow> string"
  lib_load_index :: "nat \<Rightarrow> string \<Rightarrow> nat \<Rightarrow> 'g res"

section \<open>The index\<close>

record HnswOptions =
  max_elements :: nat
  hnsw_m :: nat
  ef_construction :: nat
  ef_search :: nat

definition default_hnsw :: HnswOptions where
  "default_hnsw = \<lparr>max_elements = 100000, hnsw_m = 16, ef_construction = 200, ef_search = 64\<rparr>"

record HnswFileMetadata =
  file_version :: "32 word"
  file_dimension :: nat
  file_max_elements :: nat
  file_model_hash :: string

definition format_version :: "32 word" where "format_version = 1"

definition metadata_path :: "path \<Rightarrow> path" where
  "metadata_path index_path = index_path @ ''.meta.json''"

definition validate_hnsw_options :: "HnswOptions \<Rightarrow> unit res" where
  "validate_hnsw_options opts = (
     if max_elements opts = 0 \<or> hnsw_m opts = 0 \<or> ef_construction opts = 0 \<or> ef_search opts = 0
     then Inl (Invalid_argument ''all HNSW options must be positive'') else Inr ())"

definition validate_metadata :: "HnswFileMetadata \<Rightarrow> unit res" where
  "validate_metadata m = (
     if file_version m \<noteq> format_version \<or> file_dimension m = 0 \<or> file_max_elements m = 0 \<or> file_model_hash m = []
     then Inl (Invalid_argument ''invalid HNSW file metadata'') else Inr ())"

record 'g HnswIndex =
  hnsw_dimension :: nat
  hnsw_options :: HnswOptions
  hnsw_graph :: 'g
  active_ids :: "64 word set"

definition make_hnsw :: "'g hnsw_library \<Rightarrow> nat \<Rightarrow> HnswOptions \<Rightarrow> 'g HnswIndex res" where
  "make_hnsw lib dimension opts = (
     if dimension = 0 then Inl (Invalid_argument ''HNSW dimension must be positive'')
     else res_bind (validate_hnsw_options opts) (\<lambda>_.
       res_bind (lib_make lib dimension (max_elements opts) (hnsw_m opts) (ef_construction opts)) (\<lambda>g.
         Inr \<lparr>hnsw_dimension = dimension, hnsw_options = opts, hnsw_graph = lib_set_ef lib (ef_search opts) g,
           active_ids = {}\<rparr>)))"

text \<open>A label is a \<^verbatim>\<open>size_t\<close>, as wide as an id.\<close>

definition hnsw_upsert :: "'g hnsw_library \<Rightarrow> ChunkId \<Rightarrow> Embedding \<Rightarrow> 'g HnswIndex \<Rightarrow> unit res \<times> 'g HnswIndex" where
  "hnsw_upsert lib i v s = (
     if length v \<noteq> hnsw_dimension s
       then (Inl (Invalid_argument ''embedding dimensions do not match HNSW index''), s)
     else if \<not> is_finite_embedding v then (Inl (Invalid_argument ''embedding must be finite''), s)
     else if - 1 < i then (Inl (Invalid_argument ''chunk id cannot be represented by HNSW''), s)
     else case lib_add_point lib v i (i \<notin> active_ids s) (hnsw_graph s) of
       (Inl e, g) \<Rightarrow> (Inl e, s\<lparr>hnsw_graph := g\<rparr>)
     | (Inr _, g) \<Rightarrow> (Inr (), s\<lparr>hnsw_graph := g, active_ids := insert i (active_ids s)\<rparr>))"

definition hnsw_erase :: "'g hnsw_library \<Rightarrow> ChunkId \<Rightarrow> 'g HnswIndex \<Rightarrow> unit res \<times> 'g HnswIndex" where
  "hnsw_erase lib i s = (if i \<notin> active_ids s then (Inr (), s) else
     case lib_mark_delete lib i (hnsw_graph s) of
       (Inl e, g) \<Rightarrow> (Inl e, s\<lparr>hnsw_graph := g\<rparr>)
     | (Inr _, g) \<Rightarrow> (Inr (), s\<lparr>hnsw_graph := g, active_ids := active_ids s - {i}\<rparr>))"

definition hnsw_search :: "'g hnsw_library \<Rightarrow> 'g HnswIndex \<Rightarrow> Embedding \<Rightarrow> nat \<Rightarrow> SearchHit list res" where
  "hnsw_search lib s q top_k = (
     if top_k = 0 \<or> active_ids s = {} then Inr []
     else if length q \<noteq> hnsw_dimension s then Inl (Invalid_argument ''query dimensions do not match HNSW index'')
     else if \<not> is_finite_embedding q then Inl (Invalid_argument ''query must be finite'')
     else res_bind (lib_search_knn lib (hnsw_graph s) q (min top_k (card (active_ids s)))) (\<lambda>nearest.
       Inr (sort_by better (map (\<lambda>(distance, label). \<lparr>hit_chunk_id = label, hit_score = f32_sub f32_one distance\<rparr>) nearest))))"

definition hnsw_size :: "'g HnswIndex \<Rightarrow> nat" where
  "hnsw_size s = card (active_ids s)"

definition set_ef_search :: "'g hnsw_library \<Rightarrow> nat \<Rightarrow> 'g HnswIndex \<Rightarrow> 'g HnswIndex res" where
  "set_ef_search lib ef s = (if ef = 0 then Inl (Invalid_argument ''HNSW ef_search must be positive'')
     else Inr (s\<lparr>hnsw_options := (hnsw_options s)\<lparr>ef_search := ef\<rparr>, hnsw_graph := lib_set_ef lib ef (hnsw_graph s)\<rparr>))"

section \<open>Saving\<close>

text \<open>
  The outcomes of the system calls in order: the directories, \<^verbatim>\<open>saveIndex\<close> (the exception and the number of bytes
  written before it), opening and writing the metadata, and for each publication whether the old file could be
  removed and the message of a failed renaming. The stream is checked after the text was put into its buffer, but
  neither flushed nor checked when it is closed: \<open>save_close_short\<close> is the number of bytes that reached the file
  when the rest is lost there, which the code does not notice.
\<close>

record save_env =
  save_directories :: "exn option"
  save_index :: "(exn \<times> nat) option"
  save_opens :: bool
  save_writes :: "nat option"
  save_close_short :: "nat option"
  save_removed :: bool
  save_rename :: "string option"
  save_removed_metadata :: bool
  save_rename_metadata :: "string option"

definition rename_replace :: "bool \<Rightarrow> string option \<Rightarrow> path \<Rightarrow> path \<Rightarrow> file_tree \<Rightarrow> unit res \<times> file_tree" where
  "rename_replace removed failed source destination fs = (
     let fs = (if removed then fs(destination := None) else fs) in
     case failed of
       Some message \<Rightarrow> (Inl (Runtime_error (''failed to publish HNSW index: '' @ message)), fs)
     | None \<Rightarrow> (Inr (), (fs(destination := fs source))(source := None)))"

definition metadata_json :: "HnswFileMetadata \<Rightarrow> 64 word list \<Rightarrow> json" where
  "metadata_json m ids = Json_object [(''format_version'', Json_unsigned (unat (file_version m))),
     (''dimension'', Json_unsigned (file_dimension m)), (''max_elements'', Json_unsigned (file_max_elements m)),
     (''embedding_model_hash'', Json_string (file_model_hash m)),
     (''active_ids'', Json_array (map (\<lambda>i. Json_unsigned (unat i)) ids))]"

definition hnsw_save :: "'g hnsw_library \<Rightarrow> (json \<Rightarrow> string res) \<Rightarrow> save_env \<Rightarrow> path \<Rightarrow> HnswFileMetadata \<Rightarrow>
    'g HnswIndex \<Rightarrow> file_tree \<Rightarrow> unit res \<times> file_tree" where
  "hnsw_save lib dump env p m s fs = (case validate_metadata m of Inl e \<Rightarrow> (Inl e, fs) | Inr _ \<Rightarrow>
     if file_dimension m \<noteq> hnsw_dimension s \<or> file_max_elements m \<noteq> max_elements (hnsw_options s)
     then (Inl (Invalid_argument ''HNSW metadata does not match the in-memory index''), fs)
     else case save_directories env of Some e \<Rightarrow> (Inl e, fs)
     | None \<Rightarrow> (let index_temporary = p @ ''.tmp''; metadata_file = metadata_path p;
           metadata_temporary = metadata_file @ ''.tmp''; bytes = lib_save_index lib (hnsw_graph s) in
         case save_index env of
           Some (e, n) \<Rightarrow> (Inl e, fs(index_temporary \<mapsto> take n bytes))
         | None \<Rightarrow> (let fs = fs(index_temporary \<mapsto> bytes) in
             if \<not> save_opens env then (Inl (Runtime_error ''failed to create HNSW metadata file''), fs)
             else case dump (metadata_json m (sorted_list_of_set (active_ids s))) of
               Inl e \<Rightarrow> (Inl e, fs(metadata_temporary \<mapsto> []))
             | Inr text \<Rightarrow> (case save_writes env of
                 Some n \<Rightarrow> (Inl (Runtime_error ''failed to write HNSW metadata file''), fs(metadata_temporary \<mapsto> take n text))
               | None \<Rightarrow> (let fs = fs(metadata_temporary \<mapsto> (case save_close_short env of None \<Rightarrow> text | Some n \<Rightarrow> take n text)) in
                   case rename_replace (save_removed env) (save_rename env) index_temporary p fs of
                     (Inl e, fs) \<Rightarrow> (Inl e, fs)
                   | (Inr _, fs) \<Rightarrow> rename_replace (save_removed_metadata env) (save_rename_metadata env)
                       metadata_temporary metadata_file fs)))))"

section \<open>Loading\<close>

text \<open>\<^verbatim>\<open>at\<close>, \<^verbatim>\<open>get\<close> of an unsigned type of \<open>w\<close> bits, and the elements iteration visits.\<close>

definition json_at :: "json \<Rightarrow> string \<Rightarrow> json res" where
  "json_at j key = (if \<not> is_object j then Inl json_type_error else case json_find j key of
     None \<Rightarrow> Inl (Json_exception ''out_of_range'') | Some v \<Rightarrow> Inr v)"

fun get_unsigned :: "nat \<Rightarrow> json \<Rightarrow> nat res" where
  "get_unsigned w (Json_unsigned n) = Inr (n mod 2 ^ w)"
| "get_unsigned w (Json_integer z) = Inr (nat (z mod 2 ^ w))"
| "get_unsigned w (Json_float x) = (case f64_trunc x of
     Some z \<Rightarrow> if 0 \<le> z \<and> z < 2 ^ w then Inr (nat z) else Inl (Other_exception ''undefined conversion'')
   | None \<Rightarrow> Inl (Other_exception ''undefined conversion''))"
| "get_unsigned w (Json_bool b) = Inr (if b then 1 else 0)"
| "get_unsigned w _ = Inl json_type_error"

fun json_elements :: "json \<Rightarrow> json list" where
  "json_elements (Json_array js) = js"
| "json_elements (Json_object ms) = map snd ms"
| "json_elements Json_null = []"
| "json_elements j = [j]"

definition read_metadata :: "json \<Rightarrow> HnswFileMetadata res" where
  "read_metadata stored = res_bind (res_bind (json_at stored ''format_version'') (get_unsigned 32)) (\<lambda>version.
     res_bind (res_bind (json_at stored ''dimension'') (get_unsigned 64)) (\<lambda>dimension.
     res_bind (res_bind (json_at stored ''max_elements'') (get_unsigned 64)) (\<lambda>elements.
     res_bind (res_bind (json_at stored ''embedding_model_hash'') get_string) (\<lambda>hash.
       Inr \<lparr>file_version = of_nat version, file_dimension = dimension, file_max_elements = elements, file_model_hash = hash\<rparr>))))"

definition hnsw_load :: "'g hnsw_library \<Rightarrow> (string \<Rightarrow> json res) \<Rightarrow> path \<Rightarrow> HnswFileMetadata \<Rightarrow> HnswOptions \<Rightarrow>
    file_tree \<Rightarrow> 'g HnswIndex res" where
  "hnsw_load lib parse p expected opts fs =
     res_bind (validate_metadata expected) (\<lambda>_. res_bind (validate_hnsw_options opts) (\<lambda>_.
     if file_max_elements expected \<noteq> max_elements opts
       then Inl (Invalid_argument ''HNSW options max_elements does not match expected metadata'')
     else case fs (metadata_path p) of
       None \<Rightarrow> Inl (Runtime_error ''HNSW metadata file does not exist'')
     | Some text \<Rightarrow> res_bind (parse text) (\<lambda>stored. res_bind (read_metadata stored) (\<lambda>actual.
         res_bind (validate_metadata actual) (\<lambda>_.
         if actual \<noteq> expected
           then Inl (Runtime_error ''HNSW index metadata does not match the expected vector space'')
         else res_bind (make_hnsw lib (file_dimension actual) opts) (\<lambda>loaded.
         res_bind (case fs p of
             None \<Rightarrow> Inl (Runtime_error ''Cannot open file'')
           | Some bytes \<Rightarrow> lib_load_index lib (file_dimension actual) bytes (file_max_elements actual)) (\<lambda>g.
         res_bind (json_at stored ''active_ids'') (\<lambda>ids.
         res_bind (res_map (get_unsigned 64) (json_elements ids)) (\<lambda>ids.
           Inr (loaded\<lparr>hnsw_graph := lib_set_ef lib (ef_search opts) g, active_ids := set (map of_nat ids)\<rparr>))))))))))"
section \<open>What is relied on of the library\<close>

text \<open>
  \<open>stored\<close> is the vectors that are live in a graph, by label, and \<open>capacity\<close> the number of elements it was made for.
  A new graph is empty; adding a point (reusing deleted slots for labels that are not live) succeeds exactly if the
  label is live or there is room, and a failed call changes nothing; live labels can be deleted; a search for no more
  points than there are returns at most that many, each once; a saved graph can be loaded.
\<close>

definition library_ok :: "'g hnsw_library \<Rightarrow> ('g \<Rightarrow> 64 word \<rightharpoonup> Embedding) \<Rightarrow> ('g \<Rightarrow> nat) \<Rightarrow> bool" where
  "library_ok lib stored capacity \<longleftrightarrow>
     (\<forall>d n m c g. lib_make lib d n m c = Inr g \<longrightarrow> stored g = Map.empty \<and> capacity g = n) \<and>
     (\<forall>ef g. stored (lib_set_ef lib ef g) = stored g \<and> capacity (lib_set_ef lib ef g) = capacity g) \<and>
     (\<forall>v i g r g'. lib_add_point lib v i (i \<notin> dom (stored g)) g = (r, g') \<longrightarrow>
        (r = Inr () \<longleftrightarrow> i \<in> dom (stored g) \<or> card (dom (stored g)) < capacity g) \<and>
        stored g' = (if r = Inr () then (stored g)(i \<mapsto> v) else stored g) \<and> capacity g' = capacity g) \<and>
     (\<forall>i g r g'. lib_mark_delete lib i g = (r, g') \<longrightarrow> i \<in> dom (stored g) \<longrightarrow>
        r = Inr () \<and> stored g' = (stored g)(i := None) \<and> capacity g' = capacity g) \<and>
     (\<forall>g q n. n \<le> card (dom (stored g)) \<longrightarrow> (\<exists>rs. lib_search_knn lib g q n = Inr rs \<and> distinct (map snd rs) \<and>
        snd ` set rs \<subseteq> dom (stored g) \<and> length rs \<le> n)) \<and>
     (\<forall>d g. (\<forall>v \<in> ran (stored g). length v = d) \<longrightarrow> (\<exists>g'. lib_load_index lib d (lib_save_index lib g) (capacity g) = Inr g' \<and>
        stored g' = stored g \<and> capacity g' = capacity g))"

lemma library_okD:
  assumes "library_ok lib stored capacity"
  shows "lib_make lib d n m c = Inr g \<Longrightarrow> stored g = Map.empty \<and> capacity g = n"
    and "stored (lib_set_ef lib ef g) = stored g" and "capacity (lib_set_ef lib ef g) = capacity g"
    and "lib_add_point lib v i (i \<notin> dom (stored g)) g = (r, g') \<Longrightarrow>
      (r = Inr () \<longleftrightarrow> i \<in> dom (stored g) \<or> card (dom (stored g)) < capacity g) \<and>
      stored g' = (if r = Inr () then (stored g)(i \<mapsto> v) else stored g) \<and> capacity g' = capacity g"
    and "lib_mark_delete lib i g = (r, g') \<Longrightarrow> i \<in> dom (stored g) \<Longrightarrow>
      r = Inr () \<and> stored g' = (stored g)(i := None) \<and> capacity g' = capacity g"
    and "n \<le> card (dom (stored g)) \<Longrightarrow> \<exists>rs. lib_search_knn lib g q n = Inr rs \<and> distinct (map snd rs) \<and>
      snd ` set rs \<subseteq> dom (stored g) \<and> length rs \<le> n"
    and "\<forall>v \<in> ran (stored g). length v = d \<Longrightarrow> \<exists>g'. lib_load_index lib d (lib_save_index lib g) (capacity g) = Inr g' \<and>
      stored g' = stored g \<and> capacity g' = capacity g"
proof -
  note laws = assms [unfolded library_ok_def]
  show "stored g = Map.empty \<and> capacity g = n"
    if "lib_make lib d n m c = Inr g"
    using laws [THEN conjunct1] that by blast
  show "stored (lib_set_ef lib ef g) = stored g" using laws [THEN conjunct2, THEN conjunct1] by blast
  show "capacity (lib_set_ef lib ef g) = capacity g" using laws [THEN conjunct2, THEN conjunct1] by blast
  show "(r = Inr () \<longleftrightarrow> i \<in> dom (stored g) \<or> card (dom (stored g)) < capacity g) \<and> stored g' = (if r = Inr () then (stored g)(i \<mapsto> v) else stored g) \<and> capacity g' = capacity g"
    if "lib_add_point lib v i (i \<notin> dom (stored g)) g = (r, g')"
    using laws [THEN conjunct2, THEN conjunct2, THEN conjunct1] that by blast
  show "r = Inr () \<and> stored g' = (stored g)(i := None) \<and> capacity g' = capacity g"
    if "lib_mark_delete lib i g = (r, g')" "i \<in> dom (stored g)"
    using laws [THEN conjunct2, THEN conjunct2, THEN conjunct2, THEN conjunct1] that by blast
  show "\<exists>rs. lib_search_knn lib g q n = Inr rs \<and> distinct (map snd rs) \<and> snd ` set rs \<subseteq> dom (stored g) \<and> length rs \<le> n"
    if "n \<le> card (dom (stored g))"
    using laws [THEN conjunct2, THEN conjunct2, THEN conjunct2, THEN conjunct2, THEN conjunct1] that by blast
  show "\<exists>g'. lib_load_index lib d (lib_save_index lib g) (capacity g) = Inr g' \<and> stored g' = stored g \<and> capacity g' = capacity g"
    if "\<forall>v \<in> ran (stored g). length v = d"
    using laws [THEN conjunct2, THEN conjunct2, THEN conjunct2, THEN conjunct2, THEN conjunct2] that by blast
qed

section \<open>The index as a bounded map\<close>

text \<open>The set of active ids is exactly what is live in the graph.\<close>

definition hnsw_ok :: "('g \<Rightarrow> 64 word \<rightharpoonup> Embedding) \<Rightarrow> ('g \<Rightarrow> nat) \<Rightarrow> 'g HnswIndex \<Rightarrow> bool" where
  "hnsw_ok stored capacity s \<longleftrightarrow> active_ids s = dom (stored (hnsw_graph s)) \<and>
     finite (dom (stored (hnsw_graph s))) \<and> card (dom (stored (hnsw_graph s))) \<le> max_elements (hnsw_options s) \<and> capacity (hnsw_graph s) = max_elements (hnsw_options s) \<and>
     (\<forall>v \<in> ran (stored (hnsw_graph s)). vector_ok (hnsw_dimension s) v)"

definition hnsw_call :: "'g hnsw_library \<Rightarrow> index_call \<Rightarrow> 'g HnswIndex \<Rightarrow> 'g HnswIndex" where
  "hnsw_call lib c s = (case c of Upsert i v \<Rightarrow> snd (hnsw_upsert lib i v s) | Erase i \<Rightarrow> snd (hnsw_erase lib i s))"

definition bounded_call :: "nat \<Rightarrow> nat \<Rightarrow> index_call \<Rightarrow> (ChunkId \<rightharpoonup> Embedding) \<Rightarrow> (ChunkId \<rightharpoonup> Embedding)" where
  "bounded_call d n c m = (case c of
     Upsert i v \<Rightarrow> if vector_ok d v \<and> (i \<in> dom m \<or> card (dom m) < n) then m(i \<mapsto> v) else m
   | Erase i \<Rightarrow> m(i := None))"

lemma hnsw_upsert_effect:
  assumes lib: "library_ok lib stored capacity" and ok: "hnsw_ok stored capacity s"
    and up: "hnsw_upsert lib i v s = (r, s')"
  shows "hnsw_ok stored capacity s' \<and> hnsw_dimension s' = hnsw_dimension s \<and> hnsw_options s' = hnsw_options s \<and>
    stored (hnsw_graph s') = bounded_call (hnsw_dimension s) (max_elements (hnsw_options s)) (Upsert i v) (stored (hnsw_graph s)) \<and>
    (r = Inr () \<longleftrightarrow> vector_ok (hnsw_dimension s) v \<and> (i \<in> active_ids s \<or> card (active_ids s) < max_elements (hnsw_options s)))"
proof (cases "vector_ok (hnsw_dimension s) v")
  case False
  then have "s' = s \<and> (\<exists>e. r = Inl e)" using up by (auto simp: hnsw_upsert_def vector_ok_def split: if_splits)
  with False ok show ?thesis by (auto simp: bounded_call_def)
next
  case True
  have act: "active_ids s = dom (stored (hnsw_graph s))" using ok by (simp add: hnsw_ok_def)
  obtain r' g where add: "lib_add_point lib v i (i \<notin> dom (stored (hnsw_graph s))) (hnsw_graph s) = (r', g)" by fastforce
  note law = library_okD(4) [OF lib add]
  have cap: "capacity (hnsw_graph s) = max_elements (hnsw_options s)" using ok by (simp add: hnsw_ok_def)
  have word: "\<not> - 1 < i" by (simp add: word_not_simps not_less)
  show ?thesis
  proof (cases "r' = Inr ()")
    case inr: True
    then have s': "s' = s\<lparr>hnsw_graph := g, active_ids := insert i (active_ids s)\<rparr>" "r = Inr ()"
      using up True add word by (auto simp: hnsw_upsert_def vector_ok_def act)
    have g: "stored g = (stored (hnsw_graph s))(i \<mapsto> v)" "capacity g = capacity (hnsw_graph s)"
      and room: "i \<in> dom (stored (hnsw_graph s)) \<or> card (dom (stored (hnsw_graph s))) < capacity (hnsw_graph s)"
      using law inr by simp_all
    have "card (insert i (dom (stored (hnsw_graph s)))) \<le> max_elements (hnsw_options s)"
      using room ok cap by (auto simp: hnsw_ok_def card_insert_if insert_absorb)
    moreover have "\<forall>w \<in> ran ((stored (hnsw_graph s))(i \<mapsto> v)). vector_ok (hnsw_dimension s) w"
      using ok True by (auto simp: hnsw_ok_def ran_def)
    ultimately have "hnsw_ok stored capacity s'" using ok g by (simp add: hnsw_ok_def s')
    moreover have "vector_ok (hnsw_dimension s) v \<and> (i \<in> dom (stored (hnsw_graph s)) \<or>
        card (dom (stored (hnsw_graph s))) < max_elements (hnsw_options s))" using True room cap by simp
    ultimately show ?thesis using g act s' by (simp add: bounded_call_def)
  next
    case False
    then obtain e where e: "r' = Inl e" by (cases r') simp_all
    then have s': "s' = s\<lparr>hnsw_graph := g\<rparr>" "r = Inl e"
      using up True add word by (auto simp: hnsw_upsert_def vector_ok_def act)
    have g: "stored g = stored (hnsw_graph s)" "capacity g = capacity (hnsw_graph s)"
      and full: "\<not> (i \<in> dom (stored (hnsw_graph s)) \<or> card (dom (stored (hnsw_graph s))) < max_elements (hnsw_options s))"
      using law e cap by simp_all
    have "hnsw_ok stored capacity s'" using ok g by (simp add: hnsw_ok_def s')
    then show ?thesis using g full act s' by (simp add: bounded_call_def)
  qed
qed

lemma hnsw_erase_effect:
  assumes lib: "library_ok lib stored capacity" and ok: "hnsw_ok stored capacity s"
    and er: "hnsw_erase lib i s = (r, s')"
  shows "r = Inr () \<and> hnsw_ok stored capacity s' \<and> hnsw_dimension s' = hnsw_dimension s \<and> hnsw_options s' = hnsw_options s \<and>
    stored (hnsw_graph s') = (stored (hnsw_graph s))(i := None)"
proof (cases "i \<in> active_ids s")
  case False
  then have "stored (hnsw_graph s) i = None" using ok by (auto simp: hnsw_ok_def)
  then have "(stored (hnsw_graph s))(i := None) = stored (hnsw_graph s)" by (simp add: fun_upd_idem)
  with False er ok show ?thesis by (simp add: hnsw_erase_def)
next
  case True
  obtain r' g where del: "lib_mark_delete lib i (hnsw_graph s) = (r', g)" by fastforce
  have "i \<in> dom (stored (hnsw_graph s))" using True ok by (simp add: hnsw_ok_def)
  with library_okD(5) [OF lib del] have g: "r' = Inr ()" "stored g = (stored (hnsw_graph s))(i := None)"
    "capacity g = capacity (hnsw_graph s)" by blast+
  then have s': "s' = s\<lparr>hnsw_graph := g, active_ids := active_ids s - {i}\<rparr>" "r = Inr ()"
    using er True del by (simp_all add: hnsw_erase_def)
  have "card (dom (stored (hnsw_graph s)) - {i}) \<le> max_elements (hnsw_options s)"
    using ok card_Diff1_le [of "dom (stored (hnsw_graph s))" i] by (simp add: hnsw_ok_def)
  moreover have "\<forall>w \<in> ran ((stored (hnsw_graph s))(i := None)). vector_ok (hnsw_dimension s) w"
    using ok by (auto simp: hnsw_ok_def ran_def split: if_splits)
  ultimately have "hnsw_ok stored capacity s'" using ok g(2,3) by (simp add: hnsw_ok_def s')
  then show ?thesis using g s' by simp
qed

lemma hnsw_call_effect:
  assumes "library_ok lib stored capacity" and "hnsw_ok stored capacity s"
  shows "hnsw_ok stored capacity (hnsw_call lib c s) \<and> hnsw_dimension (hnsw_call lib c s) = hnsw_dimension s \<and>
    hnsw_options (hnsw_call lib c s) = hnsw_options s \<and> stored (hnsw_graph (hnsw_call lib c s)) =
      bounded_call (hnsw_dimension s) (max_elements (hnsw_options s)) c (stored (hnsw_graph s))"
proof (cases c)
  case (Upsert i v)
  then show ?thesis using hnsw_upsert_effect [OF assms, of i v] by (simp add: hnsw_call_def) (metis prod.collapse)
next
  case (Erase i)
  then show ?thesis using hnsw_erase_effect [OF assms, of i]
    by (simp add: hnsw_call_def bounded_call_def) (metis prod.collapse)
qed

lemma make_hnsw_ok:
  assumes "library_ok lib stored capacity" and "make_hnsw lib d opts = Inr s"
  shows "hnsw_ok stored capacity s \<and> hnsw_dimension s = d \<and> hnsw_options s = opts \<and> stored (hnsw_graph s) = Map.empty"
proof -
  obtain g where g: "lib_make lib d (max_elements opts) (hnsw_m opts) (ef_construction opts) = Inr g"
    "s = \<lparr>hnsw_dimension = d, hnsw_options = opts, hnsw_graph = lib_set_ef lib (ef_search opts) g, active_ids = {}\<rparr>"
    using assms(2) by (auto simp: make_hnsw_def res_simps split: if_splits)
  show ?thesis using library_okD(1) [OF assms(1) g(1)] library_okD(2,3) [OF assms(1)] by (simp add: hnsw_ok_def g(2))
qed

lemma hnsw_calls_effect:
  assumes "library_ok lib stored capacity" and "hnsw_ok stored capacity s"
  shows "hnsw_ok stored capacity (fold (hnsw_call lib) calls s) \<and>
    hnsw_dimension (fold (hnsw_call lib) calls s) = hnsw_dimension s \<and>
    hnsw_options (fold (hnsw_call lib) calls s) = hnsw_options s \<and> stored (hnsw_graph (fold (hnsw_call lib) calls s)) =
      fold (bounded_call (hnsw_dimension s) (max_elements (hnsw_options s))) calls (stored (hnsw_graph s))"
  using assms(2)
proof (induction calls arbitrary: s)
  case (Cons c calls)
  from hnsw_call_effect [OF assms(1) Cons.prems, of c] Cons.IH [of "hnsw_call lib c s"] show ?case by simp
qed simp
text \<open>Filling a new index that has room for the vectors.\<close>

fun hnsw_fill :: "'g hnsw_library \<Rightarrow> (ChunkId \<times> Embedding) list \<Rightarrow> 'g HnswIndex \<Rightarrow> unit res \<times> 'g HnswIndex" where
  "hnsw_fill lib [] s = (Inr (), s)"
| "hnsw_fill lib ((i, v) # vs) s = (case hnsw_upsert lib i v s of
     (Inl e, s) \<Rightarrow> (Inl e, s) | (Inr _, s) \<Rightarrow> hnsw_fill lib vs s)"

lemma hnsw_fill_effect:
  assumes lib: "library_ok lib stored capacity" and "hnsw_ok stored capacity s"
    and "distinct (map fst vs)" and "\<forall>(i, v) \<in> set vs. vector_ok (hnsw_dimension s) v"
    and "card (dom (stored (hnsw_graph s))) + length vs \<le> max_elements (hnsw_options s)"
  shows "\<exists>s'. hnsw_fill lib vs s = (Inr (), s') \<and> hnsw_ok stored capacity s' \<and>
    stored (hnsw_graph s') = stored (hnsw_graph s) ++ map_of vs \<and> hnsw_dimension s' = hnsw_dimension s"
  using assms(2-5)
proof (induction vs arbitrary: s)
  case (Cons x vs)
  obtain i v where x: "x = (i, v)" by (cases x)
  obtain r t where up: "hnsw_upsert lib i v s = (r, t)" by fastforce
  note e = hnsw_upsert_effect [OF lib Cons.prems(1) up]
  have v: "vector_ok (hnsw_dimension s) v" using Cons.prems(3) x by simp
  have act: "active_ids s = dom (stored (hnsw_graph s))" "finite (dom (stored (hnsw_graph s)))"
    using Cons.prems(1) by (simp_all add: hnsw_ok_def)
  have room: "card (active_ids s) < max_elements (hnsw_options s)" using Cons.prems(4) act by simp
  then have t: "r = Inr ()" "hnsw_ok stored capacity t" "hnsw_dimension t = hnsw_dimension s"
    "hnsw_options t = hnsw_options s" using e v by blast+
  have g: "stored (hnsw_graph t) = (stored (hnsw_graph s))(i \<mapsto> v)"
    using e v room act by (simp add: bounded_call_def)
  have "card (dom (stored (hnsw_graph t))) + length vs \<le> max_elements (hnsw_options t)"
    using Cons.prems(4) act(2) by (simp add: g t(4) card_insert_if)
  with Cons.IH [OF t(2)] Cons.prems(2,3) t(3) obtain s' where
    s': "hnsw_fill lib vs t = (Inr (), s')" "hnsw_ok stored capacity s'"
    "stored (hnsw_graph s') = stored (hnsw_graph t) ++ map_of vs" "hnsw_dimension s' = hnsw_dimension t" by auto
  have "i \<notin> dom (map_of vs)" using Cons.prems(2) x by (simp add: dom_map_of_conv_image_fst)
  then have all: "stored (hnsw_graph s') = stored (hnsw_graph s) ++ map_of ((i, v) # vs)"
    using s'(3) g by (auto simp: map_add_def fun_eq_iff split: option.splits)
  have "hnsw_fill lib ((i, v) # vs) s = (Inr (), s')" using s'(1) up t(1) by simp
  with s'(2,4) t(3) all show ?case unfolding x by metis
qed simp

section \<open>Properties\<close>

text \<open>
  C35. Provided the library keeps its contract, the index implements a map of bounded size: after any sequence of
  calls on a new index the set of active ids is the domain of the graph and its size, and the graph holds the vectors
  the same calls leave in a map in which a vector of the wrong shape, or a new id once \<open>max_elements\<close> are active, is
  refused without effect. In particular an index made for as many elements as there are vectors, as the index
  service makes it, takes them all.
\<close>

theorem hnsw_implements_bounded_map:
  assumes "library_ok lib stored capacity" and "make_hnsw lib d opts = Inr s0"
    and "s = fold (hnsw_call lib) calls s0"
  shows "stored (hnsw_graph s) = fold (bounded_call d (max_elements opts)) calls Map.empty \<and>
    active_ids s = dom (stored (hnsw_graph s)) \<and> hnsw_size s = card (dom (stored (hnsw_graph s))) \<and>
    hnsw_size s \<le> max_elements opts \<and> (\<forall>v \<in> ran (stored (hnsw_graph s)). vector_ok d v) \<and>
    (\<forall>vs. distinct (map fst vs) \<and> (\<forall>(i, v) \<in> set vs. vector_ok d v) \<and> length vs \<le> max_elements opts \<longrightarrow>
      (\<exists>t. hnsw_fill lib vs s0 = (Inr (), t) \<and> stored (hnsw_graph t) = map_of vs \<and> active_ids t = fst ` set vs))"
proof -
  note new = make_hnsw_ok [OF assms(1,2)]
  have s: "hnsw_ok stored capacity s" "hnsw_dimension s = d" "hnsw_options s = opts"
    "stored (hnsw_graph s) = fold (bounded_call d (max_elements opts)) calls Map.empty"
    using hnsw_calls_effect [OF assms(1), of s0 calls] new by (simp_all add: assms(3))
  have "\<exists>t. hnsw_fill lib vs s0 = (Inr (), t) \<and> stored (hnsw_graph t) = map_of vs \<and> active_ids t = fst ` set vs"
    if "distinct (map fst vs)" "\<forall>(i, v) \<in> set vs. vector_ok d v" "length vs \<le> max_elements opts" for vs
    using hnsw_fill_effect [OF assms(1), of s0 vs] new that
    by (auto simp: hnsw_ok_def dom_map_of_conv_image_fst)
  with s show ?thesis by (simp add: hnsw_ok_def hnsw_size_def)
qed

lemma hnsw_search_lemma:
  assumes "library_ok lib stored capacity" and "hnsw_ok stored capacity s" and "vector_ok (hnsw_dimension s) q"
    and "\<forall>n rs. lib_search_knn lib (hnsw_graph s) q n = Inr rs \<longrightarrow> list_all (\<lambda>x. \<not> f32_isnan (f32_sub f32_one (fst x))) rs"
  shows "\<exists>hits. hnsw_search lib s q k = Inr hits \<and> length hits \<le> min k (hnsw_size s) \<and> in_order better hits \<and>
    distinct (map hit_chunk_id hits) \<and> hit_chunk_id ` set hits \<subseteq> active_ids s"
proof (cases "k = 0 \<or> active_ids s = {}")
  case True
  then show ?thesis by (simp add: hnsw_search_def)
next
  case False
  let ?n = "min k (card (active_ids s))"
  have act: "active_ids s = dom (stored (hnsw_graph s))" using assms(2) by (simp add: hnsw_ok_def)
  have "?n \<le> card (dom (stored (hnsw_graph s)))" by (simp add: act)
  then obtain rs where rs: "lib_search_knn lib (hnsw_graph s) q ?n = Inr rs" "distinct (map snd rs)"
    "snd ` set rs \<subseteq> dom (stored (hnsw_graph s))" "length rs \<le> ?n"
    using library_okD(6) [OF assms(1), of ?n] by blast
  define all where "all = map (\<lambda>(distance, label). \<lparr>hit_chunk_id = label, hit_score = f32_sub f32_one distance\<rparr>) rs"
  have ids: "map hit_chunk_id all = map snd rs" by (auto simp: all_def)
  have "list_all hit_ok all"
    using assms(4) rs(1) by (fastforce simp: all_def list_all_iff)
  then have "in_order better (sort_by better all)" by (rule hit_order.sort_by_in_order)
  moreover have "distinct (map hit_chunk_id (sort_by better all))"
    using rs(2) unfolding ids [symmetric] by (metis distinct_sort_by mset_map mset_sort_by mset_eq_imp_distinct_iff)
  moreover have "hit_chunk_id ` set (sort_by better all) \<subseteq> active_ids s"
    using rs(3) ids by (metis act set_map set_sort_by)
  moreover have "length (sort_by better all) \<le> min k (hnsw_size s)"
    using rs(4) by (simp add: all_def hnsw_size_def)
  moreover have "hnsw_search lib s q k = Inr (sort_by better all)"
    using False assms(3) rs(1) by (simp add: hnsw_search_def vector_ok_def all_def)
  ultimately show ?thesis by blast
qed
text \<open>
  A search of an index with any history returns, best first, at most \<open>k\<close> hits, each for a different active id; so
  an erased chunk is never returned, whatever the library approximates; provided no score is NaN.
\<close>

lemma hnsw_search_returns_active:
  assumes "library_ok lib stored capacity" and "make_hnsw lib d opts = Inr s0"
    and "s = fold (hnsw_call lib) calls s0" and "vector_ok d q"
    and "\<forall>n rs. lib_search_knn lib (hnsw_graph s) q n = Inr rs \<longrightarrow> list_all (\<lambda>x. \<not> f32_isnan (f32_sub f32_one (fst x))) rs"
  shows "\<exists>hits. hnsw_search lib s q k = Inr hits \<and> length hits \<le> min k (hnsw_size s) \<and> in_order better hits \<and>
    distinct (map hit_chunk_id hits) \<and>
    hit_chunk_id ` set hits \<subseteq> dom (fold (bounded_call d (max_elements opts)) calls Map.empty)"
proof -
  note new = make_hnsw_ok [OF assms(1,2)]
  have s: "hnsw_ok stored capacity s" "hnsw_dimension s = d"
    "stored (hnsw_graph s) = fold (bounded_call d (max_elements opts)) calls Map.empty"
    using hnsw_calls_effect [OF assms(1), of s0 calls] new by (simp_all add: assms(3))
  then have "active_ids s = dom (fold (bounded_call d (max_elements opts)) calls Map.empty)" by (simp add: hnsw_ok_def)
  with hnsw_search_lemma [OF assms(1) s(1), of q k] s(2) assms(4,5) show ?thesis by simp
qed

section \<open>Saving and loading\<close>

lemma temporary_paths [simp]:
  "p @ ''.tmp'' \<noteq> p" "metadata_path p \<noteq> p" "metadata_path p @ ''.tmp'' \<noteq> p" "metadata_path p @ ''.tmp'' \<noteq> metadata_path p"
  "metadata_path p \<noteq> p @ ''.tmp''" "metadata_path p @ ''.tmp'' \<noteq> p @ ''.tmp''"
  by (simp_all add: metadata_path_def)

lemma load_depends:
  assumes "fs' p = fs p" and "fs' (metadata_path p) = fs (metadata_path p)"
  shows "hnsw_load lib parse p expected opts fs' = hnsw_load lib parse p expected opts fs"
  unfolding hnsw_load_def assms ..

lemma load_without_index: "fs p = None \<Longrightarrow> \<exists>e. hnsw_load lib parse p expected opts fs = Inl e"
proof (cases "hnsw_load lib parse p expected opts fs")
  case (Inr s)
  assume "fs p = None"
  with Inr show ?thesis by (auto simp: hnsw_load_def res_simps split: if_splits option.splits)
qed simp

lemma load_without_metadata: "fs (metadata_path p) = None \<Longrightarrow> \<exists>e. hnsw_load lib parse p expected opts fs = Inl e"
proof (cases "hnsw_load lib parse p expected opts fs")
  case (Inr s)
  assume "fs (metadata_path p) = None"
  with Inr show ?thesis by (auto simp: hnsw_load_def res_simps split: if_splits)
qed simp

text \<open>
  A failed call leaves the old pair of files or an incomplete one; only if the old metadata can neither be
  removed nor replaced after the new index was published, the new index stands beside the old metadata.
\<close>

lemma failed_save:
  assumes "hnsw_save lib dump env p m s fs = (Inl e, fs')"
  shows "(fs' p = fs p \<and> fs' (metadata_path p) = fs (metadata_path p)) \<or> fs' p = None \<or> fs' (metadata_path p) = None
    \<or> fs' p = Some (lib_save_index lib (hnsw_graph s)) \<and> fs' (metadata_path p) = fs (metadata_path p)
      \<and> \<not> save_removed_metadata env \<and> save_rename_metadata env \<noteq> None"
proof -
  have other: "p \<noteq> p @ ''.tmp''" "p \<noteq> metadata_path p" "p \<noteq> metadata_path p @ ''.tmp''"
    "metadata_path p \<noteq> metadata_path p @ ''.tmp''" using temporary_paths [of p] by (simp_all add: eq_commute [of p])
  note [simp] = temporary_paths other
  show ?thesis using assms
    by (auto simp: hnsw_save_def Let_def rename_replace_def split: sum.splits if_splits option.splits prod.splits)
qed

text \<open>What a successful one leaves.\<close>

lemma successful_save:
  assumes "hnsw_save lib dump env p m s fs = (Inr (), fs')"
  shows "validate_metadata m = Inr () \<and> file_dimension m = hnsw_dimension s \<and>
    file_max_elements m = max_elements (hnsw_options s) \<and> fs' p = Some (lib_save_index lib (hnsw_graph s)) \<and>
    (\<exists>text. dump (metadata_json m (sorted_list_of_set (active_ids s))) = Inr text \<and>
      fs' (metadata_path p) = Some (case save_close_short env of None \<Rightarrow> text | Some n \<Rightarrow> take n text))"
proof -
  have other: "p \<noteq> p @ ''.tmp''" "p \<noteq> metadata_path p" "p \<noteq> metadata_path p @ ''.tmp''"
    "metadata_path p \<noteq> metadata_path p @ ''.tmp''" using temporary_paths [of p] by (simp_all add: eq_commute [of p])
  note [simp] = temporary_paths other
  show ?thesis using assms
    by (auto simp: hnsw_save_def Let_def rename_replace_def split: sum.splits if_splits option.splits prod.splits)
qed

lemma metadata_read_back:
  assumes "file_dimension m < 2 ^ 64" and "file_max_elements m < 2 ^ 64"
  shows "read_metadata (metadata_json m ids) = Inr m \<and> json_at (metadata_json m ids) ''active_ids'' =
    Inr (Json_array (map (\<lambda>i. Json_unsigned (unat i)) ids))"
proof -
  have v: "unat w mod 4294967296 = unat w" for w :: "32 word"
  proof -
    have "unat w < 2 ^ LENGTH(32)" by (rule unsigned_less)
    then show ?thesis by simp
  qed
  have "read_metadata (metadata_json m ids) = Inr \<lparr>file_version = of_nat (unat (file_version m)), file_dimension = file_dimension m,
      file_max_elements = file_max_elements m, file_model_hash = file_model_hash m\<rparr>"
    using assms by (simp add: read_metadata_def metadata_json_def json_at_def v)
  then show ?thesis by (simp add: metadata_json_def json_at_def)
qed

lemma ids_read_back:
  "res_map (get_unsigned 64) (map (\<lambda>i. Json_unsigned (unat i)) ids) = Inr (map unat (ids :: 64 word list))"
proof (induction ids)
  case (Cons i ids)
  have "unat i < 2 ^ LENGTH(64)" by (rule unsigned_less)
  with Cons show ?case by simp
qed simp

lemma load_saved:
  assumes lib: "library_ok lib stored capacity" and ok: "hnsw_ok stored capacity s"
    and saved: "hnsw_save lib dump env p m s fs = (Inr (), fs')"
    and dumped: "\<And>text. dump (metadata_json m (sorted_list_of_set (active_ids s))) = Inr text \<Longrightarrow>
      parse text = Inr (metadata_json m (sorted_list_of_set (active_ids s)))"
    and size: "file_dimension m < 2 ^ 64" "file_max_elements m < 2 ^ 64"
    and opts: "validate_hnsw_options opts = Inr ()" "max_elements opts = file_max_elements m"
    and new: "make_hnsw lib (file_dimension m) opts = Inr s0" 
    and whole: "\<And>text. dump (metadata_json m (sorted_list_of_set (active_ids s))) = Inr text \<Longrightarrow>
      fs' (metadata_path p) = Some text"
  shows "\<exists>t. hnsw_load lib parse p m opts fs' = Inr t \<and> hnsw_ok stored capacity t \<and> active_ids t = active_ids s \<and>
    stored (hnsw_graph t) = stored (hnsw_graph s) \<and> hnsw_dimension t = hnsw_dimension s"
proof -
  obtain written where s: "validate_metadata m = Inr ()" "file_dimension m = hnsw_dimension s"
    "file_max_elements m = max_elements (hnsw_options s)" "fs' p = Some (lib_save_index lib (hnsw_graph s))"
    "dump (metadata_json m (sorted_list_of_set (active_ids s))) = Inr written" "fs' (metadata_path p) = Some written"
    using successful_save [OF saved] whole by blast
  have cap: "capacity (hnsw_graph s) = file_max_elements m" using ok s(3) by (simp add: hnsw_ok_def)
  have "\<forall>v \<in> ran (stored (hnsw_graph s)). length v = file_dimension m"
    using ok s(2) by (simp add: hnsw_ok_def vector_ok_def)
  then obtain g where g: "lib_load_index lib (file_dimension m) (lib_save_index lib (hnsw_graph s)) (file_max_elements m) = Inr g"
    "stored g = stored (hnsw_graph s)" "capacity g = file_max_elements m"
    using library_okD(7) [OF lib, of "hnsw_graph s"] cap by metis
  define t where "t = s0\<lparr>hnsw_graph := lib_set_ef lib (ef_search opts) g, active_ids := active_ids s\<rparr>"
  have fin: "finite (active_ids s)" using ok by (simp add: hnsw_ok_def)
  have ids: "set (map (of_nat \<circ> unat) (sorted_list_of_set (active_ids s))) = active_ids s"
    using fin by (simp add: image_comp [symmetric] image_image)
  have "hnsw_load lib parse p m opts fs' = Inr t"
    using s(1) opts new by (simp add: hnsw_load_def s(4,6) dumped [OF s(5)] metadata_read_back [OF size] g(1) ids_read_back
      ids t_def del: set_map)
  moreover have "hnsw_dimension s0 = file_dimension m" "hnsw_options s0 = opts"
    using make_hnsw_ok [OF lib new] by simp_all
  moreover from this have "hnsw_ok stored capacity t"
    using ok s(2,3) opts(2) by (simp add: hnsw_ok_def t_def g library_okD(2,3) [OF lib])
  ultimately show ?thesis using s(2) g(2) library_okD(2) [OF lib] by (simp add: t_def)
qed

text \<open>A metadata file of which bytes were lost at its closing is not JSON, so loading fails.\<close>

lemma load_truncated:
  assumes "fs (metadata_path p) = Some text" and "\<exists>e. parse text = Inl e"
  shows "\<exists>e. hnsw_load lib parse p expected opts fs = Inl e"
proof (cases "hnsw_load lib parse p expected opts fs")
  case (Inr t)
  with assms show ?thesis by (auto simp: hnsw_load_def res_simps split: if_splits)
qed simp

text \<open>What a save that failed leaves to load.\<close>

lemma load_after_failed_save:
  assumes "hnsw_save lib dump env p m s fs = (Inl e, fs')"
  shows "(\<forall>expected opts'. hnsw_load lib parse p expected opts' fs' = hnsw_load lib parse p expected opts' fs \<or>
      (\<exists>e. hnsw_load lib parse p expected opts' fs' = Inl e)) \<or>
    \<not> save_removed_metadata env \<and> save_rename_metadata env \<noteq> None \<and>
      fs' p = Some (lib_save_index lib (hnsw_graph s)) \<and> fs' (metadata_path p) = fs (metadata_path p)"
  using failed_save [OF assms]
proof (elim disjE)
  assume "fs' p = fs p \<and> fs' (metadata_path p) = fs (metadata_path p)"
  then show ?thesis using load_depends by blast
next
  assume "fs' p = None"
  then show ?thesis using load_without_index by blast
next
  assume "fs' (metadata_path p) = None"
  then show ?thesis using load_without_metadata by blast
qed blast

text \<open>
  C36. An index with any history that was saved is loaded as an index with the same active ids and vectors, or
  loading fails because bytes of the metadata were lost when its stream was closed. After a save that fails, at
  whichever call, loading gives what was there before or fails (the old file is removed before the new one is
  renamed, so that the index can be lost), with one exception: when the old metadata can neither be removed nor
  replaced after the new index was published, the new index stands beside the old metadata. \<open>dump\<close> and \<open>parse\<close> are
  the printer and the parser of JSON: what was printed is read back, and a proper prefix of it is no document.
\<close>

theorem hnsw_save_load:
  assumes "library_ok lib stored capacity" and "make_hnsw lib d opts = Inr s0"
    and "s = fold (hnsw_call lib) calls s0" and "hnsw_save lib dump env p m s fs = (r, fs')"
    and "\<forall>text. dump (metadata_json m (sorted_list_of_set (active_ids s))) = Inr text \<longrightarrow>
      parse text = Inr (metadata_json m (sorted_list_of_set (active_ids s))) \<and>
      (\<forall>n < length text. \<exists>e. parse (take n text) = Inl e)"
    and "d < 2 ^ 64" and "max_elements opts < 2 ^ 64"
  shows "(r = Inr () \<longrightarrow>
      (\<exists>t. hnsw_load lib parse p m opts fs' = Inr t \<and> active_ids t = active_ids s \<and>
        stored (hnsw_graph t) = fold (bounded_call d (max_elements opts)) calls Map.empty) \<or>
      save_close_short env \<noteq> None \<and> (\<forall>expected opts'. \<exists>e. hnsw_load lib parse p expected opts' fs' = Inl e)) \<and>
    (r \<noteq> Inr () \<longrightarrow>
      (\<forall>expected opts'. hnsw_load lib parse p expected opts' fs' = hnsw_load lib parse p expected opts' fs \<or>
        (\<exists>e. hnsw_load lib parse p expected opts' fs' = Inl e)) \<or>
      \<not> save_removed_metadata env \<and> save_rename_metadata env \<noteq> None \<and>
        fs' p = Some (lib_save_index lib (hnsw_graph s)) \<and> fs' (metadata_path p) = fs (metadata_path p))"
proof (intro conjI impI)
  note new = make_hnsw_ok [OF assms(1,2)]
  have s: "hnsw_ok stored capacity s" "hnsw_dimension s = d" "hnsw_options s = opts"
    "stored (hnsw_graph s) = fold (bounded_call d (max_elements opts)) calls Map.empty"
    using hnsw_calls_effect [OF assms(1), of s0 calls] new by (simp_all add: assms(3))
  assume "r = Inr ()"
  then have saved: "hnsw_save lib dump env p m s fs = (Inr (), fs')" using assms(4) by simp
  note after = successful_save [OF saved]
  have m: "file_dimension m = d" "file_max_elements m = max_elements opts" using after s by simp_all
  have opts: "validate_hnsw_options opts = Inr ()" using assms(2) by (auto simp: make_hnsw_def res_simps split: if_splits)
  obtain written where written: "dump (metadata_json m (sorted_list_of_set (active_ids s))) = Inr written"
    "fs' (metadata_path p) = Some (case save_close_short env of None \<Rightarrow> written | Some n \<Rightarrow> take n written)"
    using after by blast
  note json = assms(5) [THEN spec, THEN mp, OF written(1)]
  show "(\<exists>t. hnsw_load lib parse p m opts fs' = Inr t \<and> active_ids t = active_ids s \<and>
        stored (hnsw_graph t) = fold (bounded_call d (max_elements opts)) calls Map.empty) \<or>
      save_close_short env \<noteq> None \<and> (\<forall>expected opts'. \<exists>e. hnsw_load lib parse p expected opts' fs' = Inl e)"
  proof (cases "\<exists>n. save_close_short env = Some n \<and> n < length written")
    case True
    then obtain n where n: "save_close_short env = Some n" "n < length written" by blast
    with written(2) have "fs' (metadata_path p) = Some (take n written)" by simp
    with n json load_truncated [of fs' p "take n written" parse] show ?thesis by blast
  next
    case False
    then have kept: "fs' (metadata_path p) = Some written"
      using written(2) by (auto simp: not_less split: option.splits)
    note loaded = load_saved [OF assms(1) s(1) saved _ _ _ opts, of parse s0]
    have "\<exists>t. hnsw_load lib parse p m opts fs' = Inr t \<and> hnsw_ok stored capacity t \<and> active_ids t = active_ids s \<and>
      stored (hnsw_graph t) = stored (hnsw_graph s) \<and> hnsw_dimension t = hnsw_dimension s"
      by (rule loaded) (use assms(2,6,7) in \<open>simp_all add: m written(1) json kept\<close>)
    then show ?thesis unfolding s(4) by blast
  qed
next
  assume "r \<noteq> Inr ()"
  then obtain e where "r = Inl e" by (cases r) simp_all
  with assms(4) have "hnsw_save lib dump env p m s fs = (Inl e, fs')" by simp
  from load_after_failed_save [OF this]
  show "(\<forall>expected opts'. hnsw_load lib parse p expected opts' fs' = hnsw_load lib parse p expected opts' fs \<or>
        (\<exists>e. hnsw_load lib parse p expected opts' fs' = Inl e)) \<or>
      \<not> save_removed_metadata env \<and> save_rename_metadata env \<noteq> None \<and>
        fs' p = Some (lib_save_index lib (hnsw_graph s)) \<and> fs' (metadata_path p) = fs (metadata_path p)" .
qed

section \<open>A library\<close>

text \<open>A list of points, for the examples; saving writes the number of the list.\<close>

definition list_library :: "(nat \<times> (64 word \<times> Embedding) list) hnsw_library" where
  "list_library = \<lparr>lib_make = (\<lambda>d n m c. Inr (n, [])), lib_set_ef = (\<lambda>ef g. g),
     lib_add_point = (\<lambda>v i fresh (n, xs). if i \<in> fst ` set xs \<or> card (fst ` set xs) < n
       then (Inr (), (n, (i, v) # xs)) else (Inl (Runtime_error ''full''), (n, xs))),
     lib_mark_delete = (\<lambda>i (n, xs). (Inr (), (n, filter (\<lambda>x. fst x \<noteq> i) xs))),
     lib_search_knn = (\<lambda>(n, xs) q k. Inr (map (\<lambda>i. (0, i)) (take k (sorted_list_of_set (fst ` set xs))))),
     lib_save_index = (\<lambda>(n, xs). replicate (to_nat xs) (CHR 0x20)),
     lib_load_index = (\<lambda>d bytes n. Inr (n, from_nat (length bytes)))\<rparr>"

abbreviation list_stored :: "nat \<times> (64 word \<times> Embedding) list \<Rightarrow> 64 word \<rightharpoonup> Embedding" where
  "list_stored g \<equiv> map_of (snd g)"

lemma list_library_ok: "library_ok list_library list_stored fst"
proof -
  have del: "map_of (filter (\<lambda>x. fst x \<noteq> i) xs) = (map_of xs)(i := None)" for i and xs :: "(64 word \<times> Embedding) list"
    by (induction xs) (auto simp: fun_eq_iff)
  show ?thesis
    unfolding library_ok_def list_library_def
    by (auto simp: dom_map_of_conv_image_fst del comp_def split: if_splits dest: in_set_takeD)
qed

definition sample_options :: HnswOptions where
  "sample_options = \<lparr>max_elements = 1, hnsw_m = 1, ef_construction = 1, ef_search = 1\<rparr>"

definition sample_index :: "(nat \<times> (64 word \<times> Embedding) list) HnswIndex" where
  "sample_index = \<lparr>hnsw_dimension = 1, hnsw_options = sample_options, hnsw_graph = (1, []), active_ids = {}\<rparr>"

lemma sample_made: "make_hnsw list_library 1 sample_options = Inr sample_index"
  by (simp add: make_hnsw_def list_library_def sample_options_def sample_index_def validate_hnsw_options_def)

lemma sample_vector: "vector_ok 1 [0]" "vector_ok (Suc 0) [0]"
  by (simp_all add: vector_ok_def is_finite_embedding_def f32_isfinite_def fp_isfinite_def fp_mag_def binary32_def)

lemma sample_bounded:
  "fold (bounded_call 1 1) [Upsert 5 [0], Upsert 6 [0]] Map.empty = [5 \<mapsto> [0]]"
  by (simp add: bounded_call_def sample_vector)

theorem hnsw_implements_bounded_map_witness:
  "hnsw_size (fold (hnsw_call list_library) [Upsert 5 [0], Upsert 6 [0]] sample_index) = 1"
  using hnsw_implements_bounded_map [OF list_library_ok sample_made refl, of "[Upsert 5 [0], Upsert 6 [0]]"]
  unfolding sample_options_def HnswOptions.simps sample_bounded by simp

lemma sample_score: "\<not> f32_isnan (f32_sub f32_one 0)"
proof -
  let ?one = "0x3F800000 :: nat"
  have one: "?one \<le> fp_inf binary32" by (simp add: binary32_def)
  note s = fp_nonneg_simps [OF fp_ok_formats(1) one]
  have minus: "fp_negate binary32 0 = fp_sgn binary32" "fp_mag binary32 (fp_sgn binary32) = 0"
    by (simp_all add: fp_negate_def fp_pack_def fp_neg_def fp_mag_def binary32_def)
  have zero: "fp_value binary32 (fp_sgn binary32) = 0" "\<not> fp_isnan binary32 (fp_sgn binary32)" "\<not> fp_isinf binary32 (fp_sgn binary32)"
    using minus(2) by (simp_all add: fp_value_def fp_isnan_def fp_isinf_def fp_units_def fp_neg_def) (simp add: binary32_def)
  have "\<not> fp_isinf binary32 ?one" "0 < fp_units binary32 ?one"
    using s(4) fp_units_pos [OF fp_ok_formats(1), of ?one] by (simp_all add: binary32_def)
  then have "fp_sub binary32 ?one 0 = ?one"
    using s zero by (simp add: fp_sub_def minus(1) fp_add_def Let_def fp_pack_def fp_round_exact [OF fp_ok_formats(1) one])
  then show ?thesis using s(3) by (simp add: f32_isnan_def f32_sub_def)
qed

lemma hnsw_search_returns_active_example:
  "\<exists>hits. hnsw_search list_library (fold (hnsw_call list_library) [Upsert 5 [0], Upsert 6 [0]] sample_index) [0] 3 = Inr hits \<and>
     hit_chunk_id ` set hits \<subseteq> {5}"
proof -
  have "\<forall>n rs. lib_search_knn list_library g q n = Inr rs \<longrightarrow> list_all (\<lambda>x. \<not> f32_isnan (f32_sub f32_one (fst x))) rs" for g q
    using sample_score by (auto simp: list_library_def list_all_iff split: prod.splits)
  from hnsw_search_returns_active [OF list_library_ok sample_made refl sample_vector(1) this,
      of "[Upsert 5 [0], Upsert 6 [0]]" 3]
  show ?thesis unfolding sample_options_def HnswOptions.simps sample_bounded by auto
qed

definition no_failure :: save_env where
  "no_failure = \<lparr>save_directories = None, save_index = None, save_opens = True, save_writes = None,
     save_close_short = None, save_removed = True,
     save_rename = None, save_removed_metadata = True, save_rename_metadata = None\<rparr>"

theorem hnsw_save_load_witness:
  "\<exists>fs' t. hnsw_save list_library (\<lambda>j. Inr ''m'') no_failure ''v'' \<lparr>file_version = 1, file_dimension = 1, file_max_elements = 1,
       file_model_hash = ''h''\<rparr> (fold (hnsw_call list_library) [Upsert 5 [0]] sample_index) Map.empty = (Inr (), fs') \<and>
     hnsw_load list_library (\<lambda>text. if text = ''m'' then Inr (metadata_json \<lparr>file_version = 1, file_dimension = 1,
       file_max_elements = 1, file_model_hash = ''h''\<rparr> [5]) else Inl json_type_error) ''v'' \<lparr>file_version = 1, file_dimension = 1, file_max_elements = 1,
       file_model_hash = ''h''\<rparr> sample_options fs' = Inr t \<and> active_ids t = {5}"
proof -
  let ?m = "\<lparr>file_version = 1, file_dimension = 1, file_max_elements = 1, file_model_hash = ''h''\<rparr>"
  let ?parse = "\<lambda>text. if text = ''m'' then Inr (metadata_json ?m [5]) else Inl json_type_error"
  define s where "s = fold (hnsw_call list_library) [Upsert 5 [0]] sample_index"
  have "s = sample_index\<lparr>hnsw_graph := (1, [(5, [0])]), active_ids := {5}\<rparr>"
    using sample_vector by (simp add: s_def hnsw_call_def hnsw_upsert_def list_library_def sample_index_def sample_options_def
      vector_ok_def word_not_simps)
  then have s: "active_ids s = {5}" "hnsw_dimension s = 1" "max_elements (hnsw_options s) = 1"
    by (simp_all add: sample_index_def sample_options_def)
  obtain r fs' where save: "hnsw_save list_library (\<lambda>j. Inr ''m'') no_failure ''v'' ?m s Map.empty = (r, fs')" by fastforce
  then have "r = Inr ()"
    by (simp add: hnsw_save_def validate_metadata_def format_version_def s no_failure_def rename_replace_def Let_def)
  then have "hnsw_save list_library (\<lambda>j. Inr ''m'') no_failure ''v'' ?m s Map.empty = (Inr (), fs') \<and>
      (\<exists>t. hnsw_load list_library ?parse ''v'' ?m sample_options fs' = Inr t \<and> active_ids t = {5})"
    using hnsw_save_load [OF list_library_ok sample_made s_def save, of ?parse] save s
    by (simp add: sample_options_def no_failure_def) blast
  then show ?thesis unfolding s_def by blast
qed

text \<open>A publication that fails after the removal loses the old index.\<close>

lemma failed_publication_loses_index:
  "snd (rename_replace True (Some message) (p @ ''.tmp'') p fs) p = None"
  by (simp add: rename_replace_def)

text \<open>
  Both removal and renaming of the metadata can fail after the new index was published; the files are then of
  different saves.
\<close>

lemma failed_publication_mixes:
  assumes "validate_metadata m = Inr ()" and "file_dimension m = hnsw_dimension s"
    and "file_max_elements m = max_elements (hnsw_options s)"
    and "dump (metadata_json m (sorted_list_of_set (active_ids s))) = Inr written"
    and "env = no_failure\<lparr>save_removed_metadata := False, save_rename_metadata := Some message\<rparr>"
  shows "\<exists>e fs'. hnsw_save lib dump env p m s fs = (Inl e, fs') \<and> fs' p = Some (lib_save_index lib (hnsw_graph s))
    \<and> fs' (metadata_path p) = fs (metadata_path p)"
proof -
  have other: "p \<noteq> p @ ''.tmp''" "p \<noteq> metadata_path p" "p \<noteq> metadata_path p @ ''.tmp''"
    "metadata_path p \<noteq> metadata_path p @ ''.tmp''" using temporary_paths [of p] by (simp_all add: eq_commute [of p])
  show ?thesis
    using assms by (simp add: hnsw_save_def no_failure_def Let_def rename_replace_def other temporary_paths)
qed

end
