(* ===== verification/Index_Snapshot.thy ===== *)
theory Index_Snapshot
  imports Index_Service Hnsw_Index
begin

text \<open>
  The index an update publishes: the choice of \<^verbatim>\<open>src/application/index_service.cpp\<close> between the exact and the approximate
  index, behind the interface \<^verbatim>\<open>IVectorIndex\<close>.
\<close>

datatype 'g snapshot = Brute_force_snapshot BruteForceIndex | Hnsw_snapshot "'g HnswIndex"

definition make_snapshot :: "'g hnsw_library \<Rightarrow> IndexConfig \<Rightarrow> nat \<Rightarrow> nat \<Rightarrow> 'g snapshot res" where
  "make_snapshot lib cfg dimension elements = (
     if index_hnsw_enabled cfg then res_bind (make_hnsw lib dimension
       \<lparr>max_elements = elements, hnsw_m = 16, ef_construction = 200, ef_search = index_hnsw_ef_search cfg\<rparr>)
       (\<lambda>h. Inr (Hnsw_snapshot h))
     else res_bind (make_index dimension) (\<lambda>b. Inr (Brute_force_snapshot b)))"

fun snapshot_upsert :: "'g hnsw_library \<Rightarrow> ChunkId \<Rightarrow> Embedding \<Rightarrow> 'g snapshot \<Rightarrow> 'g snapshot res" where
  "snapshot_upsert lib i v (Brute_force_snapshot b) = res_bind (bf_upsert i v b) (\<lambda>b. Inr (Brute_force_snapshot b))"
| "snapshot_upsert lib i v (Hnsw_snapshot h) = (case hnsw_upsert lib i v h of
     (Inl e, h) \<Rightarrow> Inl e | (Inr _, h) \<Rightarrow> Inr (Hnsw_snapshot h))"

definition configured_kind :: "'g hnsw_library \<Rightarrow> IndexConfig \<Rightarrow> 'g snapshot index_kind" where
  "configured_kind lib cfg = \<lparr>kind_make = make_snapshot lib cfg, kind_upsert = snapshot_upsert lib\<rparr>"

fun snapshot_search :: "'g hnsw_library \<Rightarrow> 'g snapshot \<Rightarrow> Embedding \<Rightarrow> nat \<Rightarrow> SearchHit list res" where
  "snapshot_search lib (Brute_force_snapshot b) q k = bf_search b q k"
| "snapshot_search lib (Hnsw_snapshot h) q k = hnsw_search lib h q k"

text \<open>The ids a snapshot holds vectors for.\<close>

fun snapshot_ids :: "'g snapshot \<Rightarrow> ChunkId set" where
  "snapshot_ids (Brute_force_snapshot b) = dom (bf_contents b)"
| "snapshot_ids (Hnsw_snapshot h) = active_ids h"

fun snapshot_ok :: "('g \<Rightarrow> 64 word \<rightharpoonup> Embedding) \<Rightarrow> ('g \<Rightarrow> nat) \<Rightarrow> 'g snapshot \<Rightarrow> bool" where
  "snapshot_ok stored capacity (Brute_force_snapshot b) = bf_valid b"
| "snapshot_ok stored capacity (Hnsw_snapshot h) = hnsw_ok stored capacity h"

section \<open>Building a snapshot\<close>

lemma make_snapshot_ok:
  assumes "library_ok lib stored capacity" and "make_snapshot lib cfg d n = Inr s"
  shows "snapshot_ok stored capacity s \<and> snapshot_ids s = {} \<and> ((\<exists>h. s = Hnsw_snapshot h) \<longleftrightarrow> index_hnsw_enabled cfg)"
  using assms(2) make_hnsw_ok [OF assms(1)] make_index_valid
  by (fastforce simp: make_snapshot_def res_simps hnsw_ok_def split: if_splits)

lemma snapshot_upsert_ok:
  assumes "library_ok lib stored capacity" and "snapshot_ok stored capacity s" and "snapshot_upsert lib i v s = Inr s'"
  shows "snapshot_ok stored capacity s' \<and> snapshot_ids s' = insert i (snapshot_ids s) \<and>
    ((\<exists>h. s' = Hnsw_snapshot h) \<longleftrightarrow> (\<exists>h. s = Hnsw_snapshot h))"
proof (cases s)
  case (Brute_force_snapshot b)
  then obtain b' where b': "bf_upsert i v b = Inr b'" "s' = Brute_force_snapshot b'" using assms(3) by (auto simp: res_simps)
  have b: "bf_valid b" using assms(2) Brute_force_snapshot by simp
  have "vector_ok (index_dimension b) v" using brute_force.upsert_bad [of b v i] b'(1) by fastforce
  from brute_force.upsert_ok [OF b this, of i] b' Brute_force_snapshot show ?thesis by auto
next
  case (Hnsw_snapshot h)
  then obtain r h' where h': "hnsw_upsert lib i v h = (r, h')" by fastforce
  have h: "hnsw_ok stored capacity h" using assms(2) Hnsw_snapshot by simp
  have s': "r = Inr ()" "s' = Hnsw_snapshot h'" using assms(3) h' Hnsw_snapshot by (auto split: sum.splits)
  note e = hnsw_upsert_effect [OF assms(1) h h']
  have act: "active_ids h = dom (stored (hnsw_graph h))" using h by (simp add: hnsw_ok_def)
  have ok: "hnsw_ok stored capacity h'" using e by blast
  then have act': "active_ids h' = dom (stored (hnsw_graph h'))" by (simp add: hnsw_ok_def)
  have "stored (hnsw_graph h') = (stored (hnsw_graph h))(i \<mapsto> v)" using e s'(1) act by (auto simp: bounded_call_def)
  then have "active_ids h' = insert i (active_ids h)" unfolding act act' by simp
  with ok s' Hnsw_snapshot show ?thesis by simp
qed

lemma load_snapshot_ok:
  assumes "library_ok lib stored capacity"
  shows "snapshot_ok stored capacity s \<Longrightarrow> load_vectors (snapshot_upsert lib) vs s = Inr s' \<Longrightarrow>
    snapshot_ok stored capacity s' \<and> snapshot_ids s' = snapshot_ids s \<union> fst ` set vs \<and>
    ((\<exists>h. s' = Hnsw_snapshot h) \<longleftrightarrow> (\<exists>h. s = Hnsw_snapshot h))"
proof (induction vs arbitrary: s)
  case (Cons x vs)
  obtain i v where x: "x = (i, v)" by (cases x)
  then obtain t where t: "snapshot_upsert lib i v s = Inr t" "load_vectors (snapshot_upsert lib) vs t = Inr s'"
    using Cons.prems(2) by (auto simp: res_simps)
  note u = snapshot_upsert_ok [OF assms Cons.prems(1) t(1)]
  with Cons.IH [OF _ t(2)] x show ?case by auto
qed simp

section \<open>Searching a snapshot\<close>

lemma bf_search_ids:
  assumes "bf_search b q k = Inr hits"
  shows "hit_chunk_id ` set hits \<subseteq> dom (bf_contents b)"
proof (cases "k = 0")
  case False
  have score: "hit_chunk_id ` set all = record_id ` set rs" if "score_records q rs = Inr all" for rs all
    using that
  proof (induction rs arbitrary: all)
    case (Cons r rs)
    then obtain x rest where "all = \<lparr>hit_chunk_id = record_id r, hit_score = x\<rparr> # rest" "score_records q rs = Inr rest"
      by (auto simp: res_simps)
    with Cons.IH show ?case by simp
  qed simp
  obtain all where all: "score_records q (records b) = Inr all" "hits = take k (sort_by better all)"
    using assms False by (auto simp: bf_search_def res_simps split: if_splits)
  have "dom (bf_contents b) = record_id ` set (records b)"
    by (simp add: bf_contents_def dom_map_of_conv_image_fst image_image)
  moreover have "set hits \<subseteq> set all" using set_take_subset [of k "sort_by better all"] by (simp add: all(2))
  ultimately show ?thesis unfolding score [OF all(1), symmetric] by (simp only: image_mono)
qed (use assms in \<open>simp add: bf_search_def\<close>)

lemma hnsw_search_ids:
  assumes "library_ok lib stored capacity" and "hnsw_ok stored capacity h" and "hnsw_search lib h q k = Inr hits"
  shows "hit_chunk_id ` set hits \<subseteq> active_ids h"
proof (cases "k = 0 \<or> active_ids h = {}")
  case False
  have act: "active_ids h = dom (stored (hnsw_graph h))" using assms(2) by (simp add: hnsw_ok_def)
  obtain rs where rs: "lib_search_knn lib (hnsw_graph h) q (min k (card (active_ids h))) = Inr rs"
    "hits = sort_by better (map (\<lambda>(distance, label). \<lparr>hit_chunk_id = label, hit_score = f32_sub f32_one distance\<rparr>) rs)"
    using assms(3) False by (auto simp: hnsw_search_def res_simps split: if_splits)
  have "min k (card (active_ids h)) \<le> card (dom (stored (hnsw_graph h)))" by (simp add: act)
  from library_okD(6) [OF assms(1) this, of q] rs(1) have "snd ` set rs \<subseteq> active_ids h" unfolding act by auto
  then show ?thesis by (auto simp: rs(2))
qed (use assms(3) in \<open>auto simp: hnsw_search_def split: if_splits\<close>)

lemma snapshot_search_ids:
  assumes "library_ok lib stored capacity" and "snapshot_ok stored capacity s" and "snapshot_search lib s q k = Inr hits"
  shows "hit_chunk_id ` set hits \<subseteq> snapshot_ids s"
  using assms bf_search_ids hnsw_search_ids [OF assms(1)] by (cases s) auto

section \<open>What an update publishes\<close>

lemma built_snapshot_ok:
  assumes lib: "library_ok lib stored capacity" and order: "order_ok env" and fin: "finite (dom v)"
    and snap: "build_snapshot env (configured_kind lib cfg) v = Inr snapshot"
  shows "snapshot_ok stored capacity snapshot \<and> snapshot_ids snapshot = dom v \<and>
    ((\<exists>h. snapshot = Hnsw_snapshot h) \<longleftrightarrow> index_hnsw_enabled cfg)"
proof -
  have "map_of (ie_order env v) = v" using order fin by (simp add: order_ok_def)
  then have ids: "fst ` set (ie_order env v) = dom v" by (metis dom_map_of_conv_image_fst)
  obtain s0 where s0: "make_snapshot lib cfg (ie_dimension env) (max 1 (length (ie_order env v))) = Inr s0"
    "load_vectors (snapshot_upsert lib) (ie_order env v) s0 = Inr snapshot"
    using snap by (auto simp: build_snapshot_def configured_kind_def Let_def res_simps)
  note m = make_snapshot_ok [OF lib s0(1)]
  with load_snapshot_ok [OF lib _ s0(2)] ids show ?thesis by simp
qed

lemma published_snapshot:
  assumes lib: "library_ok lib stored capacity" and cond: "update_conditions env cfg mid st"
    and reads: "reads_complete env"
    and up: "update env cfg (configured_kind lib cfg) mid st = (Inr result, st')"
  shows "\<exists>s. st_handle st' = Some s \<and> snapshot_ok stored capacity s \<and> snapshot_ids s = chunk_ids (stored_tables st') \<and>
    ((\<exists>h. s = Hnsw_snapshot h) \<longleftrightarrow> index_hnsw_enabled cfg)"
proof -
  obtain g removals s snapshot where
    "plan_update env cfg (stable_hash_hex mid) (open_repository (st_tables st))
       (remove_temporaries (index_data_dir cfg) (st_files st)) = Inr (g, removals, s)"
    and "document_map (stored_tables st') = final_documents (document_map (stored_tables st)) removals (pend_replacements s)"
    and "active_generation (stored_tables st') = Inr (res_generation result)"
    and snap: "build_snapshot env (configured_kind lib cfg) (pend_vectors s) = Inr snapshot" "st_handle st' = Some snapshot"
    and dom: "dom (pend_vectors s) = chunk_ids (stored_tables st')" "finite (dom (pend_vectors s))"
    using update_outcome(3) [OF cond reads up refl] by (elim exE conjE)
  have "order_ok env" using cond by (simp add: update_conditions_def)
  from built_snapshot_ok [OF lib this dom(2) snap(1)] snap(2) dom(1) show ?thesis by simp
qed

end
