(* ===== verification/Similarity.thy ===== *)
theory Similarity
  imports Domain
begin

text \<open>
  \<^verbatim>\<open>l2_normalize\<close> of \<^verbatim>\<open>src/domain/similarity.cpp\<close>: the norm is computed in double precision from
  single-precision components. The squares of single-precision values are exact in double precision
  and sums and roots are monotone, so that the norm is never below the magnitude of a component.
\<close>

section \<open>The function\<close>

definition f64_le :: "float64 \<Rightarrow> float64 \<Rightarrow> bool" where
  "f64_le a b = (\<not> fp_isnan binary64 (unat a) \<and> \<not> fp_isnan binary64 (unat b) \<and>
     fp_key binary64 (unat a) \<le> fp_key binary64 (unat b))"

text \<open>The constant \<open>1e-12\<close>.\<close>

definition smallest_norm :: float64 where
  "smallest_norm = 0x3D719799812DEA11"

definition squared_sum :: "float32 list \<Rightarrow> float64" where
  "squared_sum values = foldl (\<lambda>sum v. f64_add sum (f64_mul (f64_of_f32 v) (f64_of_f32 v))) 0 values"

definition l2_normalize :: "float32 list \<Rightarrow> float32 list res" where
  "l2_normalize values = (
     if values = [] \<or> \<not> is_finite_embedding values
       then Inl (Invalid_argument ''embedding must be non-empty and finite'')
     else let norm = f64_sqrt (squared_sum values) in
       if f64_le norm smallest_norm then Inl (Runtime_error ''cannot normalize a zero embedding'')
       else Inr (map (\<lambda>v. f32_of_f64 (f64_div (f64_of_f32 v) norm)) values))"

section \<open>Representable values\<close>

lemma fp_units_onto:
  assumes "fp_ok f" and "s < 2 ^ fp_prec f"
  shows "\<exists>M. fp_units f M = s * 2 ^ k"
  using assms(2)
proof (induction k arbitrary: s)
  case 0
  note h = fp_hidden_props [OF assms(1)]
  show ?case
  proof (cases "s < fp_hidden f")
    case True
    then show ?thesis by (intro exI [of _ s]) (simp add: fp_units_def)
  next
    case False
    with 0 h have "(fp_hidden f + (s - fp_hidden f)) div fp_hidden f = 1" "s mod fp_hidden f = s - fp_hidden f"
      by (simp_all add: div_nat_eqI mod_if)
    with False h show ?thesis by (intro exI [of _ s]) (simp add: fp_units_def Let_def)
  qed
next
  case (Suc k)
  note h = fp_hidden_props [OF assms(1)]
  show ?case
  proof (cases "s < fp_hidden f")
    case True
    with Suc.IH [of "2 * s"] h show ?thesis by (simp add: mult.assoc mult.left_commute)
  next
    case False
    define M where "M = (Suc k + 1) * fp_hidden f + (s - fp_hidden f)"
    have r: "s - fp_hidden f < fp_hidden f" using Suc.prems h(2) False by simp
    have "M div fp_hidden f = Suc k + 1" "M mod fp_hidden f = s - fp_hidden f"
      unfolding M_def using r h(1) by (simp_all only: div_mult_self3 mod_mult_self3 div_less mod_less)
    with False h show ?thesis by (intro exI [of _ M]) (simp add: fp_units_def Let_def)
  qed
qed

lemma fp_round_ratio:
  assumes "fp_ok f" and "0 < b" and "0 < d" and "a * d = c * b"
  shows "fp_round f a b = fp_round f c d"
  using fp_round_mono [of f b d a c] fp_round_mono [of f d b c a] assms by (simp add: le_antisym)

lemma fp_round_units:
  assumes "fp_ok f" and "m \<le> fp_inf f" and "0 < b" and "a * 2 ^ fp_scale f = fp_units f m * b"
  shows "fp_round f a b = m"
  using fp_round_ratio [OF assms(1,3) _ assms(4)] fp_round_exact [OF assms(1,2)] by simp

text \<open>A product that fits the significand and is below infinity is the value of some bits.\<close>

lemma fp_units_below:
  assumes "fp_ok f" and "s < 2 ^ fp_prec f" and "s * 2 ^ k < fp_units f (fp_inf f)"
  shows "\<exists>M < fp_inf f. fp_units f M = s * 2 ^ k"
proof -
  obtain M where M: "fp_units f M = s * 2 ^ k" using fp_units_onto [OF assms(1,2)] by blast
  moreover have "M < fp_inf f"
    using fp_units_mono [OF assms(1), of "fp_inf f" M] M assms(3) by (cases "M < fp_inf f") simp_all
  ultimately show ?thesis by blast
qed

lemma fp_inf_units: "fp_units binary32 (fp_inf binary32) = 2 ^ 277" "fp_units binary64 (fp_inf binary64) = 2 ^ 2098"
  by (simp_all add: fp_units_def fp_hidden_def binary32_def binary64_def)

text \<open>The significand and exponent of a single-precision magnitude.\<close>

lemma f32_units_split:
  assumes "m < fp_inf binary32"
  shows "\<exists>s k. fp_units binary32 m = s * 2 ^ k \<and> s < 2 ^ 24 \<and> k \<le> 253"
proof -
  let ?e = "m div 2 ^ 23"
  have e: "?e \<le> 254" using assms by (simp add: binary32_def div_le_mono [of m "2 ^ 23 * 255 - 1" "2 ^ 23", simplified])
  have r: "m mod 2 ^ 23 < (2 ^ 23 :: nat)" by simp
  have "fp_units binary32 m = (if ?e = 0 then m mod 2 ^ 23 else (2 ^ 23 + m mod 2 ^ 23) * 2 ^ (?e - 1))"
    by (simp add: fp_units_def fp_hidden_def binary32_def Let_def)
  then show ?thesis using e r
    by (cases "?e = 0") (rule exI [of _ "m mod 2 ^ 23"], rule exI [of _ 0], simp,
      rule exI [of _ "2 ^ 23 + m mod 2 ^ 23"], rule exI [of _ "?e - 1"], simp)
qed

section \<open>Conversions and squares are exact\<close>

lemma fp_binary_simps [simp]:
  "fp_prec binary32 = 24" "fp_scale binary32 = 149" "fp_prec binary64 = 53" "fp_scale binary64 = 1074"
  by (simp_all add: binary32_def binary64_def)

lemma widen_exact:
  assumes "m < fp_inf binary32"
  obtains M where "M < fp_inf binary64" and "fp_units binary64 M = fp_units binary32 m * 2 ^ 925"
    and "fp_round binary64 (fp_units binary32 m) (2 ^ 149) = M"
proof -
  obtain s k where u: "fp_units binary32 m = s * 2 ^ k" "s < 2 ^ 24" "k \<le> 253"
    using f32_units_split [OF assms] by blast
  have "s * 2 ^ (k + 925) < 2 ^ 24 * (2 ^ 1178 :: nat)"
    using u(2,3) by (intro mult_less_le_imp_less power_increasing) simp_all
  also have "\<dots> \<le> 2 ^ 2098" by (simp only: power_add [symmetric]) (rule power_increasing, simp_all)
  finally have "\<exists>M < fp_inf binary64. fp_units binary64 M = s * 2 ^ (k + 925)"
    using u(2) by (intro fp_units_below) (simp_all only: fp_ok_formats fp_inf_units fp_binary_simps, simp)
  then obtain M where M: "M < fp_inf binary64" "fp_units binary64 M = fp_units binary32 m * 2 ^ 925"
    by (auto simp only: u(1) power_add mult.assoc)
  moreover have "fp_round binary64 (fp_units binary32 m) (2 ^ 149) = M"
  proof (rule fp_round_units)
    have "(2::nat) ^ 1074 = 2 ^ 925 * 2 ^ 149" by (simp only: power_add [symmetric]) simp
    then show "fp_units binary32 m * 2 ^ fp_scale binary64 = fp_units binary64 M * 2 ^ 149"
      unfolding M(2) fp_binary_simps by (simp only: mult.assoc)
  qed (use M(1) in simp_all)
  ultimately show thesis by (rule that)
qed

lemma square_exact:
  assumes "m < fp_inf binary32" and "fp_units binary64 M = fp_units binary32 m * 2 ^ 925"
  obtains Q where "Q < fp_inf binary64" and "fp_units binary64 Q * 2 ^ 1074 = fp_units binary64 M * fp_units binary64 M"
    and "fp_round binary64 (fp_units binary64 M * fp_units binary64 M) (2 ^ (2 * 1074)) = Q"
proof -
  obtain s k where u: "fp_units binary32 m = s * 2 ^ k" "s < 2 ^ 24" "k \<le> 253"
    using f32_units_split [OF assms(1)] by blast
  have s: "s * s < 2 ^ 48"
    using mult_strict_mono [OF u(2) u(2)] by (simp only: power_add [symmetric]) simp
  have "s * s * 2 ^ (2 * k + 776) < 2 ^ 48 * (2 ^ 1282 :: nat)"
    using s u(3) by (intro mult_less_le_imp_less power_increasing) simp_all
  also have "\<dots> \<le> 2 ^ 2098" by (simp only: power_add [symmetric]) (rule power_increasing, simp_all)
  finally have "\<exists>Q < fp_inf binary64. fp_units binary64 Q = s * s * 2 ^ (2 * k + 776)"
    using s by (intro fp_units_below) (simp_all only: fp_ok_formats fp_inf_units fp_binary_simps, simp)
  then obtain Q where Q: "Q < fp_inf binary64" "fp_units binary64 Q = s * s * 2 ^ (2 * k + 776)" by blast
  have "2 * k + 776 + 1074 = (k + 925) + (k + 925)" by simp
  then have sq: "fp_units binary64 Q * 2 ^ 1074 = fp_units binary64 M * fp_units binary64 M"
    unfolding Q(2) assms(2) u(1) mult.assoc power_add [symmetric]
    by (metis (no_types, opaque_lifting) mult.assoc mult.left_commute power_add)
  moreover have "fp_round binary64 (fp_units binary64 M * fp_units binary64 M) (2 ^ (2 * 1074)) = Q"
  proof (rule fp_round_units)
    have "(2::nat) ^ (2 * 1074) = 2 ^ 1074 * 2 ^ 1074" by (simp only: power_add [symmetric] mult_2)
    then show "fp_units binary64 M * fp_units binary64 M * 2 ^ fp_scale binary64
        = fp_units binary64 Q * 2 ^ (2 * 1074)"
      unfolding sq [symmetric] fp_binary_simps by (simp only: mult.assoc)
  qed (use Q(1) in simp_all)
  ultimately show thesis using Q(1) that by blast
qed

section \<open>Words\<close>

lemma f64_small: "n \<le> fp_inf binary64 \<Longrightarrow> unat (of_nat n :: float64) = n"
  by (simp add: binary64_def unat_of_nat)

lemma f64_pack_unat:
  "m \<le> fp_inf binary64 \<Longrightarrow> unat (of_nat (fp_pack binary64 s m) :: float64) = fp_pack binary64 s m"
  by (simp add: fp_pack_def binary64_def unat_of_nat)

lemma fp_pack_simps:
  assumes "fp_ok f" and "m \<le> fp_inf f"
  shows "fp_mag f (fp_pack f s m) = m" "fp_neg f (fp_pack f s m) = s"
proof -
  have "m < fp_sgn f" using assms fp_hidden_props(1,3) [OF assms(1)] unfolding fp_ok_def by linarith
  then show "fp_mag f (fp_pack f s m) = m" "fp_neg f (fp_pack f s m) = s"
    by (simp_all add: fp_mag_def fp_neg_def fp_pack_def)
qed

abbreviation mag32 :: "float32 \<Rightarrow> nat" where
  "mag32 v \<equiv> fp_mag binary32 (unat v)"

text \<open>A finite single-precision value in double precision, and its square.\<close>

lemma widen_square:
  assumes "f32_isfinite v"
  obtains M Q where "M < fp_inf binary64" and "Q < fp_inf binary64"
    and "unat (f64_of_f32 v) = fp_pack binary64 (fp_neg binary32 (unat v)) M"
    and "unat (f64_mul (f64_of_f32 v) (f64_of_f32 v)) = Q"
    and "fp_units binary64 Q * 2 ^ 1074 = fp_units binary64 M * fp_units binary64 M"
proof -
  have fin: "mag32 v < fp_inf binary32" using assms by (simp add: f32_isfinite_def fp_isfinite_def)
  obtain M where M: "M < fp_inf binary64" "fp_units binary64 M = fp_units binary32 (mag32 v) * 2 ^ 925"
    "fp_round binary64 (fp_units binary32 (mag32 v)) (2 ^ 149) = M" by (rule widen_exact [OF fin])
  obtain Q where Q: "Q < fp_inf binary64" "fp_units binary64 Q * 2 ^ 1074 = fp_units binary64 M * fp_units binary64 M"
    "fp_round binary64 (fp_units binary64 M * fp_units binary64 M) (2 ^ (2 * 1074)) = Q"
    by (rule square_exact [OF fin M(2)])
  have "fp_convert binary32 binary64 (unat v) = fp_pack binary64 (fp_neg binary32 (unat v)) M"
    using fin M(3) by (simp add: fp_convert_def fp_isnan_def fp_isinf_def)
  then have w: "unat (f64_of_f32 v) = fp_pack binary64 (fp_neg binary32 (unat v)) M"
    using M(1) by (simp add: f64_of_f32_def f64_pack_unat)
  note p = fp_pack_simps [OF fp_ok_formats(2) less_imp_le [OF M(1)]]
  have "fp_mul binary64 (unat (f64_of_f32 v)) (unat (f64_of_f32 v)) = Q"
    unfolding w fp_mul_def Let_def fp_isnan_def fp_isinf_def p fp_binary_simps Q(3)
    using M(1) by (simp add: fp_pack_def)
  then have "unat (f64_mul (f64_of_f32 v) (f64_of_f32 v)) = Q"
    using Q(1) by (simp add: f64_mul_def f64_small)
  with M(1) Q(1,2) w show thesis by (intro that)
qed

section \<open>The norm is at least the magnitude of every component\<close>

lemma fp_add_ge:
  assumes "a \<le> fp_inf binary64" and "b \<le> fp_inf binary64"
  shows "a \<le> fp_add binary64 a b" "b \<le> fp_add binary64 a b"
proof -
  have "fp_add binary64 a 0 = fp_add binary64 0 a" using assms by (simp add: fp_add_nonneg add.commute)
  then show "a \<le> fp_add binary64 a b"
    using fp_add_mono [of binary64 a a 0 b] fp_add_0 [of binary64 a] assms by simp
  show "b \<le> fp_add binary64 a b"
    using fp_add_mono [of binary64 0 a b b] fp_add_0 [of binary64 b] assms by simp
qed

lemma sum_of_squares_ge:
  assumes "list_all f32_isfinite vs" and "unat acc \<le> fp_inf binary64"
  shows "unat (foldl (\<lambda>sum v. f64_add sum (f64_mul (f64_of_f32 v) (f64_of_f32 v))) acc vs) \<le> fp_inf binary64
    \<and> unat acc \<le> unat (foldl (\<lambda>sum v. f64_add sum (f64_mul (f64_of_f32 v) (f64_of_f32 v))) acc vs)
    \<and> (\<forall>v \<in> set vs. unat (f64_mul (f64_of_f32 v) (f64_of_f32 v))
        \<le> unat (foldl (\<lambda>sum v. f64_add sum (f64_mul (f64_of_f32 v) (f64_of_f32 v))) acc vs))"
  using assms
proof (induction vs arbitrary: acc)
  case (Cons v vs)
  let ?sq = "f64_mul (f64_of_f32 v) (f64_of_f32 v)"
  have q: "unat ?sq \<le> fp_inf binary64" using widen_square [of v] Cons.prems(1) by fastforce
  have s: "unat (f64_add acc ?sq) = fp_add binary64 (unat acc) (unat ?sq)"
    using Cons.prems(2) q by (simp add: f64_add_def f64_small fp_add_nonneg_le_inf)
  then have "unat (f64_add acc ?sq) \<le> fp_inf binary64"
    using Cons.prems(2) q by (simp add: fp_add_nonneg_le_inf)
  with Cons.IH [OF _ this] Cons.prems s fp_add_ge [OF Cons.prems(2) q] show ?case
    by (auto intro: order_trans)
qed simp

lemma squared_sum_ge:
  assumes "is_finite_embedding vs"
  shows "unat (squared_sum vs) \<le> fp_inf binary64"
    and "v \<in> set vs \<Longrightarrow> unat (f64_mul (f64_of_f32 v) (f64_of_f32 v)) \<le> unat (squared_sum vs)"
  using sum_of_squares_ge [of vs 0] assms by (simp_all add: squared_sum_def is_finite_embedding_def)

lemma isqrt_ge: "x * x \<le> n \<Longrightarrow> x \<le> isqrt n"
  using isqrt_spec [of n] by (metis add.commute le_less_trans less_Suc_eq_le plus_1_eq_Suc power2_eq_square power_less_imp_less_base zero_le)

lemma sqrt_ge:
  assumes "S \<le> fp_inf binary64" and "M < fp_inf binary64" and "Q \<le> S"
    and "fp_units binary64 Q * 2 ^ 1074 = fp_units binary64 M * fp_units binary64 M"
  shows "M \<le> fp_sqrt binary64 S \<and> fp_sqrt binary64 S \<le> fp_inf binary64"
proof -
  note S = fp_nonneg_simps [OF fp_ok_formats(2) assms(1)]
  consider "S = fp_inf binary64" | "S = 0" "S \<noteq> fp_inf binary64" | "0 < S" "S < fp_inf binary64"
    using assms(1) by linarith
  then show ?thesis
  proof cases
    case 1
    with S assms(2) show ?thesis by (simp add: fp_sqrt_def)
  next
    case 2
    with assms(3,4) have "fp_units binary64 M = 0" by (simp add: fp_units_def)
    with fp_units_pos [of binary64 M] have "M = 0" by fastforce
    with 2 S show ?thesis by (simp add: fp_sqrt_def)
  next
    case 3
    define n where "n = fp_units binary64 S * 2 ^ 1074"
    define t where "t = 2 * isqrt n + (if isqrt n * isqrt n = n then 0 else 1)"
    have "fp_units binary64 Q \<le> fp_units binary64 S" using assms(3) by (intro fp_units_mono) simp_all
    then have "fp_units binary64 M * fp_units binary64 M \<le> n" unfolding assms(4) [symmetric] n_def by simp
    from isqrt_ge [OF this] have "2 * fp_units binary64 M \<le> t" by (simp add: t_def)
    then have "fp_round binary64 (2 * fp_units binary64 M) (2 ^ 1075) \<le> fp_round binary64 t (2 ^ 1075)"
      by (intro fp_round_mono) simp_all
    moreover have "fp_round binary64 (2 * fp_units binary64 M) (2 ^ 1075) = M"
    proof (rule fp_round_units)
      have "(2::nat) ^ 1075 = 2 * 2 ^ 1074" by (simp only: power_Suc [symmetric]) simp
      then show "2 * fp_units binary64 M * 2 ^ fp_scale binary64 = fp_units binary64 M * 2 ^ 1075"
        unfolding fp_binary_simps by (simp only: mult.assoc mult.left_commute)
    qed (use assms(2) in simp_all)
    moreover have "fp_sqrt binary64 S = fp_round binary64 t (2 ^ 1075)"
      using 3 S unfolding fp_sqrt_def Let_def t_def n_def by (simp add: fp_pack_def)
    ultimately show ?thesis by simp
  qed
qed

section \<open>Normalised components\<close>

lemma fp_units_one:
  "fp_units binary64 0x3FF0000000000000 = 2 ^ 1074" "fp_units binary32 (unat f32_one) = 2 ^ 149"
  by (simp_all add: fp_units_def fp_hidden_def binary64_def binary32_def)

lemma fp_round_one:
  "fp_round binary64 (2 ^ k) (2 ^ k) = 0x3FF0000000000000" "fp_round binary32 (2 ^ k) (2 ^ k) = unat f32_one"
proof -
  have "0x3FF0000000000000 \<le> fp_inf binary64" "unat f32_one \<le> fp_inf binary32"
    by (simp_all add: binary64_def binary32_def)
  then show "fp_round binary64 (2 ^ k) (2 ^ k) = 0x3FF0000000000000" "fp_round binary32 (2 ^ k) (2 ^ k) = unat f32_one"
    by (intro fp_round_units; simp only: fp_units_one fp_ok_formats fp_binary_simps mult.commute zero_less_power zero_less_numeral)+
qed

lemma quotient_le_one:
  assumes "M < fp_inf binary64" and "N \<le> fp_inf binary64" and "0 < N" and "M \<le> N"
    and "unat a = fp_pack binary64 s M" and "unat b = N"
  shows "mag32 (f32_of_f64 (f64_div a b)) \<le> unat f32_one"
proof -
  note a = fp_pack_simps [OF fp_ok_formats(2) less_imp_le [OF assms(1)], of s]
  note b = fp_nonneg_simps [OF fp_ok_formats(2) assms(2)]
  define R where "R = (if N = fp_inf binary64 then 0 else fp_round binary64 (fp_units binary64 M) (fp_units binary64 N))"
  have "fp_round binary64 (fp_units binary64 M) (fp_units binary64 N) \<le> fp_round binary64 (2 ^ 1074) (2 ^ 1074)"
    using assms(3,4) by (intro fp_round_mono) (simp_all add: fp_units_pos fp_units_mono)
  then have R: "R \<le> 0x3FF0000000000000" unfolding fp_round_one by (simp add: R_def)
  then have R_inf: "R < fp_inf binary64" by (simp add: binary64_def)
  have "fp_div binary64 (unat a) (unat b) = fp_pack binary64 s R"
    using assms(1,3) b unfolding assms(5,6) fp_div_def Let_def fp_isnan_def fp_isinf_def a R_def
    by (auto simp: fp_isnan_def fp_isinf_def)
  then have d: "unat (f64_div a b) = fp_pack binary64 s R"
    using R_inf by (simp add: f64_div_def f64_pack_unat)
  note r = fp_pack_simps [OF fp_ok_formats(2) less_imp_le [OF R_inf], of s]
  have "fp_round binary32 (fp_units binary64 R) (2 ^ 1074) \<le> fp_round binary32 (2 ^ 1074) (2 ^ 1074)"
    using fp_units_mono [OF fp_ok_formats(2) R] unfolding fp_units_one by (intro fp_round_mono) simp_all
  also have "\<dots> = unat f32_one" by (rule fp_round_one)
  finally have c: "fp_round binary32 (fp_units binary64 R) (2 ^ 1074) \<le> unat f32_one" .
  have "fp_convert binary64 binary32 (unat (f64_div a b))
      = fp_pack binary32 s (fp_round binary32 (fp_units binary64 R) (2 ^ 1074))"
    using R_inf unfolding d fp_convert_def fp_isnan_def fp_isinf_def r fp_binary_simps by simp
  moreover have "unat (of_nat (fp_pack binary32 s m) :: float32) = fp_pack binary32 s m" if "m \<le> unat f32_one" for m
    using that by (simp add: fp_pack_def binary32_def unat_of_nat)
  ultimately show ?thesis using c fp_pack_simps(1) [OF fp_ok_formats(1) fp_round_le_inf]
    by (simp add: f32_of_f64_def)
qed

lemma small_is_finite: "mag32 v \<le> unat f32_one \<Longrightarrow> f32_isfinite v"
  by (simp add: f32_isfinite_def fp_isfinite_def binary32_def)

lemma component_le_norm:
  assumes "is_finite_embedding vs" and "v \<in> set vs"
  obtains M where "M < fp_inf binary64" and "unat (f64_of_f32 v) = fp_pack binary64 (fp_neg binary32 (unat v)) M"
    and "M \<le> unat (f64_sqrt (squared_sum vs))" and "unat (f64_sqrt (squared_sum vs)) \<le> fp_inf binary64"
proof -
  have "f32_isfinite v" using assms by (simp add: is_finite_embedding_def list_all_iff)
  then obtain M Q where MQ: "M < fp_inf binary64" "Q < fp_inf binary64"
    "unat (f64_of_f32 v) = fp_pack binary64 (fp_neg binary32 (unat v)) M"
    "unat (f64_mul (f64_of_f32 v) (f64_of_f32 v)) = Q"
    "fp_units binary64 Q * 2 ^ 1074 = fp_units binary64 M * fp_units binary64 M" by (rule widen_square)
  have "Q \<le> unat (squared_sum vs)" using squared_sum_ge(2) [OF assms] MQ(4) by simp
  from sqrt_ge [OF squared_sum_ge(1) [OF assms(1)] MQ(1) this MQ(5)] that [OF MQ(1,3)]
  show thesis by (simp add: f64_sqrt_def f64_small)
qed

lemma f64_le_nonneg:
  "unat a \<le> fp_inf binary64 \<Longrightarrow> unat b \<le> fp_inf binary64 \<Longrightarrow> f64_le a b \<longleftrightarrow> unat a \<le> unat b"
  by (simp add: f64_le_def fp_nonneg_simps word_le_def [symmetric] word_le_nat_alt)

lemma normalized_component:
  assumes "is_finite_embedding vs" and "v \<in> set vs" and "\<not> f64_le (f64_sqrt (squared_sum vs)) smallest_norm"
  shows "mag32 (f32_of_f64 (f64_div (f64_of_f32 v) (f64_sqrt (squared_sum vs)))) \<le> unat f32_one"
proof -
  obtain M where M: "M < fp_inf binary64" "unat (f64_of_f32 v) = fp_pack binary64 (fp_neg binary32 (unat v)) M"
    "M \<le> unat (f64_sqrt (squared_sum vs))" "unat (f64_sqrt (squared_sum vs)) \<le> fp_inf binary64"
    by (rule component_le_norm [OF assms(1,2)])
  have "unat smallest_norm \<le> fp_inf binary64" by (simp add: smallest_norm_def binary64_def)
  with assms(3) M(4) have "0 < unat (f64_sqrt (squared_sum vs))" by (simp add: f64_le_nonneg)
  then show ?thesis using quotient_le_one [OF M(1,4) _ M(3,2) refl] by simp
qed

lemma l2_normalize_sound:
  assumes "l2_normalize vs = Inr ws"
  shows "length ws = length vs \<and> is_finite_embedding ws \<and> list_all (\<lambda>w. mag32 w \<le> unat f32_one) ws"
proof -
  have "is_finite_embedding vs" "\<not> f64_le (f64_sqrt (squared_sum vs)) smallest_norm"
    and ws: "ws = map (\<lambda>v. f32_of_f64 (f64_div (f64_of_f32 v) (f64_sqrt (squared_sum vs)))) vs"
    using assms by (auto simp: l2_normalize_def Let_def split: if_splits)
  then have "list_all (\<lambda>w. mag32 w \<le> unat f32_one) ws"
    using normalized_component by (auto simp: list_all_iff)
  with ws show ?thesis using small_is_finite by (auto simp: is_finite_embedding_def list_all_iff)
qed

text \<open>
  Normalising succeeds exactly on a non-empty list of finite components whose norm exceeds
  \<open>1e-12\<close>. The result has as many components, all finite and of magnitude at most one: rounding never
  pushes a component beyond its norm, and no intermediate overflow reaches the result.
\<close>

lemma l2_normalize_bounded:
  "((\<exists>ws. l2_normalize vs = Inr ws) \<longleftrightarrow>
     vs \<noteq> [] \<and> is_finite_embedding vs \<and> \<not> f64_le (f64_sqrt (squared_sum vs)) smallest_norm) \<and>
   (\<forall>ws. l2_normalize vs = Inr ws \<longrightarrow> length ws = length vs \<and> is_finite_embedding ws \<and>
     list_all (\<lambda>w. mag32 w \<le> unat f32_one) ws)"
proof (intro conjI allI impI)
  show "(\<exists>ws. l2_normalize vs = Inr ws) \<longleftrightarrow>
     vs \<noteq> [] \<and> is_finite_embedding vs \<and> \<not> f64_le (f64_sqrt (squared_sum vs)) smallest_norm"
    by (simp add: l2_normalize_def Let_def)
  fix ws assume "l2_normalize vs = Inr ws"
  from l2_normalize_sound [OF this] show "length ws = length vs" "is_finite_embedding ws"
    "list_all (\<lambda>w. mag32 w \<le> unat f32_one) ws" by blast+
qed

lemma norm_of_one:
  assumes "is_finite_embedding vs" and "f32_one \<in> set vs"
  shows "\<not> f64_le (f64_sqrt (squared_sum vs)) smallest_norm"
proof -
  obtain M where M: "unat (f64_of_f32 f32_one) = fp_pack binary64 (fp_neg binary32 (unat f32_one)) M"
    "M \<le> unat (f64_sqrt (squared_sum vs))" "unat (f64_sqrt (squared_sum vs)) \<le> fp_inf binary64"
    by (rule component_le_norm [OF assms])
  have neg: "\<not> fp_neg binary32 (unat f32_one)" and mag: "mag32 f32_one = unat f32_one"
    and ord: "\<not> fp_isnan binary32 (unat f32_one)" "\<not> fp_isinf binary32 (unat f32_one)"
    by (simp_all add: fp_neg_def fp_mag_def fp_isnan_def fp_isinf_def binary32_def)
  then have "fp_convert binary32 binary64 (unat f32_one) = 0x3FF0000000000000"
    unfolding fp_convert_def mag fp_units_one fp_binary_simps fp_round_one by (simp add: fp_pack_def)
  then have "f64_of_f32 f32_one = 0x3FF0000000000000" by (simp add: f64_of_f32_def)
  with M(1) neg have "M = 0x3FF0000000000000" by (simp add: fp_pack_def)
  with M(2,3) show ?thesis by (subst f64_le_nonneg) (simp_all add: smallest_norm_def binary64_def)
qed

lemma l2_normalize_bounded_example:
  "\<exists>ws. l2_normalize [0x40400000, f32_one] = Inr ws \<and> length ws = 2 \<and> is_finite_embedding ws"
proof -
  let ?vs = "[0x40400000, f32_one] :: float32 list"
  have fin: "is_finite_embedding ?vs"
    by (simp add: is_finite_embedding_def f32_isfinite_def fp_isfinite_def fp_mag_def binary32_def)
  moreover have "\<not> f64_le (f64_sqrt (squared_sum ?vs)) smallest_norm" by (rule norm_of_one [OF fin]) simp
  ultimately show ?thesis using l2_normalize_bounded [of ?vs] by auto
qed

end
