(* ===== verification/Fts_Search.thy ===== *)
theory Fts_Search
  imports Sqlite_Chunks Similarity
begin

text \<open>
  \<^verbatim>\<open>src/adapters/sqlite/fts_search.cpp\<close>: full-text search in the table of
  \<^verbatim>\<open>sqlite_chunk_repository.cpp\<close>. The words of a query become a conjunction of quoted strings. The
  full-text engine is the parameter \<open>bm25\<close>: the rank of a row of a table for an expression, or \<open>None\<close> if the row does
  not match; ordering and limit are those of the SQL statement.
\<close>

section \<open>Expressions\<close>

definition word_char :: "char \<Rightarrow> bool" where
  "word_char c = (is_alnum c \<or> c = CHR ''_'')"

text \<open>The loop over the characters, with the current term and the terms so far.\<close>

fun fts_scan :: "string \<Rightarrow> string \<Rightarrow> string list \<Rightarrow> string list" where
  "fts_scan [] cur terms = (if cur = [] then terms else terms @ [cur])"
| "fts_scan (c # cs) cur terms = (
     if word_char c then fts_scan cs (cur @ [c]) terms
     else if cur \<noteq> [] then fts_scan cs [] (terms @ [cur])
     else fts_scan cs cur terms)"

definition fts_quote :: "string \<Rightarrow> string" where
  "fts_quote s = [CHR 0x22] @ s @ [CHR 0x22]"

fun fts_join :: "string list \<Rightarrow> string \<Rightarrow> string" where
  "fts_join [] acc = acc"
| "fts_join (t # ts) acc = fts_join ts ((if acc = [] then acc else acc @ '' AND '') @ fts_quote t)"

definition fts_query :: "string \<Rightarrow> string" where
  "fts_query query = fts_join (fts_scan query [] []) []"

section \<open>Search\<close>

type_synonym bm25_rank = "fts_row list \<Rightarrow> string \<Rightarrow> fts_row \<Rightarrow> float64 option"

definition f64_equal :: "float64 \<Rightarrow> float64 \<Rightarrow> bool" where
  "f64_equal a b = fp_equal binary64 (unat a) (unat b)"

definition f64_negate :: "float64 \<Rightarrow> float64" where
  "f64_negate a = of_nat (fp_negate binary64 (unat a))"

text \<open>\<^verbatim>\<open>ORDER BY bm25(chunk_fts), rowid\<close>; row ids are signed.\<close>

definition ranked_before :: "ChunkId \<times> float64 \<Rightarrow> ChunkId \<times> float64 \<Rightarrow> bool" where
  "ranked_before a b = (f64_less (snd a) (snd b) \<or> f64_equal (snd a) (snd b) \<and> fst a <s fst b)"

definition matching_rows :: "bm25_rank \<Rightarrow> fts_row list \<Rightarrow> string \<Rightarrow> (ChunkId \<times> float64) list" where
  "matching_rows bm25 rows expression = concat (map (\<lambda>r. case bm25 rows expression r of
     None \<Rightarrow> [] | Some s \<Rightarrow> [(fts_rowid r, s)]) rows)"

text \<open>An error of the database while the statement is prepared, bound or run is \<open>failure\<close>.\<close>

definition fts_search :: "bm25_rank \<Rightarrow> exn option \<Rightarrow> fts_row list \<Rightarrow> string \<Rightarrow> nat \<Rightarrow> SearchHit list res" where
  "fts_search bm25 failure rows query top_k = (
     if top_k = 0 then Inr []
     else let expression = fts_query query in
       if expression = [] then Inr []
       else if 2147483647 < top_k then Inl (Invalid_argument ''FTS top_k is too large'')
       else case failure of
         Some e \<Rightarrow> Inl e
       | None \<Rightarrow> Inr (map (\<lambda>(i, s). \<lparr>hit_chunk_id = i, hit_score = f32_of_f64 (f64_negate s)\<rparr>)
           (take top_k (sort_by ranked_before (matching_rows bm25 rows expression)))))"

section \<open>The expression is a conjunction of words\<close>

lemma fts_scan_append: "fts_scan cs cur terms = terms @ fts_scan cs cur []"
proof (induction cs arbitrary: cur terms)
  case (Cons c cs)
  have "fts_scan cs [] (terms @ [cur]) = terms @ [cur] @ fts_scan cs [] []" "fts_scan cs [] [cur] = [cur] @ fts_scan cs [] []"
    using Cons [of "[]" "terms @ [cur]"] Cons [of "[]" "[cur]"] by simp_all
  then show ?case using Cons [of "[]" terms] Cons [of "cur @ [c]" terms] by simp
qed simp

lemma fts_scan_words:
  assumes "list_all word_char cur"
  shows "concat (fts_scan cs cur []) = cur @ filter word_char cs \<and>
    list_all (\<lambda>t. t \<noteq> [] \<and> list_all word_char t) (fts_scan cs cur [])"
  using assms
proof (induction cs arbitrary: cur)
  case (Cons c cs)
  show ?case
    using Cons.IH [of "cur @ [c]"] Cons.IH [of "[]"] Cons.prems fts_scan_append [of cs "[]" "[cur]"]
    by (cases "word_char c"; cases "cur = []") simp_all
qed simp

lemma fts_join_acc: "acc \<noteq> [] \<Longrightarrow> fts_join ts acc = acc @ concat (map (\<lambda>t. '' AND '' @ fts_quote t) ts)"
  by (induction ts arbitrary: acc) simp_all

lemma fts_query_terms:
  "fts_query query = (case fts_scan query [] [] of [] \<Rightarrow> []
     | t # ts \<Rightarrow> fts_quote t @ concat (map (\<lambda>t. '' AND '' @ fts_quote t) ts))"
  by (simp add: fts_query_def fts_join_acc fts_quote_def split: list.split)

text \<open>
  Reading a conjunction of quoted strings: a string ends at the next quote, and is followed by the end or by
  the operator and another string.
\<close>

function read_conjunction :: "string \<Rightarrow> string list option" where
  "read_conjunction s = (case s of
     c # rest \<Rightarrow>
       if c \<noteq> CHR 0x22 then None
       else (let t = takeWhile (\<lambda>c. c \<noteq> CHR 0x22) rest; after = drop (length t + 1) rest in
         if length rest \<le> length t then None
         else if after = [] then Some [t]
         else if take 5 after = '' AND '' then map_option (Cons t) (read_conjunction (drop 5 after))
         else None)
   | [] \<Rightarrow> None)"
  by pat_completeness auto
termination by (relation "measure length") auto

declare read_conjunction.simps [simp del]

lemma read_conjunction_quoted:
  assumes "CHR 0x22 \<notin> set t"
  shows "read_conjunction (fts_quote t @ rest) = (if rest = [] then Some [t]
    else if take 5 rest = '' AND '' then map_option (Cons t) (read_conjunction (drop 5 rest)) else None)"
proof -
  have "takeWhile (\<lambda>c. c \<noteq> CHR 0x22) (t @ CHR 0x22 # rest) = t"
    using assms by (subst takeWhile_append2) auto
  then show ?thesis
    by (subst read_conjunction.simps) (simp add: fts_quote_def)
qed

lemma read_conjunction_join:
  "list_all (\<lambda>t. CHR 0x22 \<notin> set t) (t # ts) \<Longrightarrow>
    read_conjunction (fts_quote t @ concat (map (\<lambda>t. '' AND '' @ fts_quote t) ts)) = Some (t # ts)"
proof (induction ts arbitrary: t)
  case (Cons u us)
  then show ?case by (simp add: read_conjunction_quoted)
qed (use read_conjunction_quoted [of _ "[]"] in simp)

lemma quote_not_word: "\<not> word_char (CHR 0x22)"
  by (simp add: word_char_def is_alnum_def)

lemma words_unquoted: "list_all (\<lambda>t. t \<noteq> [] \<and> list_all word_char t) ts \<Longrightarrow> list_all (\<lambda>t. CHR 0x22 \<notin> set t) ts"
  using quote_not_word by (auto simp: list_all_iff)

text \<open>
  Whatever a user types, quotes and operators included, the expression is empty if the query has no
  letter, digit or underscore, and otherwise reads as a conjunction of quoted strings: non-empty words whose
  concatenation is exactly the word characters of the query, in order.
\<close>

lemma fts_query_is_conjunction:
  "if fts_query query = [] then filter word_char query = []
   else \<exists>terms. read_conjunction (fts_query query) = Some terms \<and> concat terms = filter word_char query \<and>
     list_all (\<lambda>t. t \<noteq> [] \<and> list_all word_char t) terms"
proof (cases "fts_scan query [] []")
  case Nil
  with fts_scan_words [of "[]" query] show ?thesis by (simp add: fts_query_terms)
next
  case (Cons t ts)
  note w = fts_scan_words [of "[]" query, unfolded Cons]
  have "read_conjunction (fts_query query) = Some (t # ts)"
    unfolding fts_query_terms Cons using w words_unquoted read_conjunction_join by fastforce
  moreover have "fts_query query \<noteq> []" by (simp add: fts_query_terms Cons fts_quote_def)
  ultimately show ?thesis using w by auto
qed

section \<open>The order of the hits\<close>

lemma fp_convert_key:
  assumes "fp_ok f" and "fp_ok g" and "\<not> fp_isnan f b"
  shows "\<not> fp_isnan g (fp_convert f g b)"
    and "fp_key g (fp_convert f g b) = (let m = (if fp_isinf f b then fp_inf g
      else fp_round g (fp_units f (fp_mag f b)) (2 ^ fp_scale f)) in if fp_neg f b then - int m else int m)"
proof -
  define m where "m = (if fp_isinf f b then fp_inf g else fp_round g (fp_units f (fp_mag f b)) (2 ^ fp_scale f))"
  have c: "fp_convert f g b = fp_pack g (fp_neg f b) m" using assms(3) by (simp add: fp_convert_def m_def)
  have "m \<le> fp_inf g" by (simp add: m_def)
  from fp_pack_simps [OF assms(2) this] this show "\<not> fp_isnan g (fp_convert f g b)"
    "fp_key g (fp_convert f g b) = (let m = (if fp_isinf f b then fp_inf g
      else fp_round g (fp_units f (fp_mag f b)) (2 ^ fp_scale f)) in if fp_neg f b then - int m else int m)"
    unfolding c m_def [symmetric] by (simp_all add: fp_isnan_def fp_key_def)
qed

text \<open>Conversion to single precision is monotone.\<close>

lemma fp_convert_mono:
  assumes "fp_ok f" and "fp_ok g" and "\<not> fp_isnan f a" and "\<not> fp_isnan f b" and "fp_key f a \<le> fp_key f b"
    and "0 < fp_inf f"
  shows "fp_key g (fp_convert f g a) \<le> fp_key g (fp_convert f g b)"
proof -
  define m where "m x = (if fp_isinf f x then fp_inf g
      else fp_round g (fp_units f (fp_mag f x)) (2 ^ fp_scale f))" for x
  have mono: "m x \<le> m y" if "fp_mag f x \<le> fp_mag f y" "\<not> fp_isnan f y" for x y
  proof (cases "fp_isinf f y")
    case True
    then show ?thesis by (simp add: m_def)
  next
    case False
    with that have "\<not> fp_isinf f x" by (auto simp: fp_isinf_def fp_isnan_def)
    with False that(1) show ?thesis
      using assms(1,2) by (auto simp: m_def intro!: fp_round_mono fp_units_mono)
  qed
  have zero: "m x = 0" if "fp_mag f x = 0" for x
    using that assms(6) by (simp add: m_def fp_units_def fp_isinf_def)
  have key: "fp_key g (fp_convert f g x) = (if fp_neg f x then - int (m x) else int (m x))" if "\<not> fp_isnan f x" for x
    using fp_convert_key(2) [OF assms(1,2) that] by (simp add: m_def Let_def)
  show ?thesis
    using assms(3-5) mono [of a b] mono [of b a] zero [of a] zero [of b] unfolding key [OF assms(3)] key [OF assms(4)]
    by (auto simp: fp_key_def split: if_splits)
qed

lemma fp_negate_key:
  assumes "\<not> fp_isnan binary64 b"
  shows "\<not> fp_isnan binary64 (fp_negate binary64 b)" "fp_key binary64 (fp_negate binary64 b) = - fp_key binary64 b"
    "unat (of_nat (fp_negate binary64 b) :: float64) = fp_negate binary64 b"
proof -
  have m: "fp_mag binary64 b \<le> fp_inf binary64" using assms by (simp add: fp_isnan_def)
  from fp_pack_simps [OF fp_ok_formats(2) this] m
  show "\<not> fp_isnan binary64 (fp_negate binary64 b)" "fp_key binary64 (fp_negate binary64 b) = - fp_key binary64 b"
    by (simp_all add: fp_negate_def fp_isnan_def fp_key_def)
  show "unat (of_nat (fp_negate binary64 b) :: float64) = fp_negate binary64 b"
    using m by (simp add: fp_negate_def f64_pack_unat)
qed

abbreviation ranked :: "ChunkId \<times> float64 \<Rightarrow> bool" where
  "ranked a \<equiv> \<not> fp_isnan binary64 (unat (snd a))"

lemma ranked_before_iff:
  assumes "ranked a" and "ranked b"
  shows "ranked_before a b \<longleftrightarrow> (let x = fp_key binary64 (unat (snd a)); y = fp_key binary64 (unat (snd b))
    in x < y \<or> x = y \<and> fst a <s fst b)"
  using assms by (simp add: ranked_before_def f64_less_def f64_equal_def fp_less_def fp_equal_def Let_def)

interpretation rank_order: comparator ranked_before ranked
proof
  fix x y assume "ranked x" "ranked y" "ranked_before x y"
  then show "\<not> ranked_before y x" by (auto simp: ranked_before_iff Let_def word_sless_alt)
next
  fix x y z assume "ranked x" "ranked y" "ranked z" "ranked_before x z"
  then show "ranked_before x y \<or> ranked_before y z" by (auto simp: ranked_before_iff Let_def word_sless_alt)
qed

text \<open>A row that is not ranked after another has no smaller score.\<close>

lemma negated_score_antimono:
  assumes "ranked a" and "ranked b" and "\<not> ranked_before b a"
  shows "\<not> f32_less (f32_of_f64 (f64_negate (snd a))) (f32_of_f64 (f64_negate (snd b)))"
proof -
  have le: "fp_key binary64 (unat (snd a)) \<le> fp_key binary64 (unat (snd b))"
    using assms by (auto simp: ranked_before_iff Let_def)
  note a = fp_negate_key [OF assms(1)] and b = fp_negate_key [OF assms(2)]
  have inf: "0 < fp_inf binary64" by (simp add: binary64_def)
  have small: "unat (of_nat (fp_convert binary64 binary32 n) :: float32) = fp_convert binary64 binary32 n" for n
    using fp_round_le_inf [of binary32 "fp_units binary64 (fp_mag binary64 n)" "2 ^ fp_scale binary64"]
    by (auto simp: fp_convert_def fp_pack_def fp_nan_def binary32_def unat_of_nat)
  have "fp_key binary32 (fp_convert binary64 binary32 (fp_negate binary64 (unat (snd b))))
      \<le> fp_key binary32 (fp_convert binary64 binary32 (fp_negate binary64 (unat (snd a))))"
    using a b le inf by (intro fp_convert_mono) simp_all
  then show ?thesis
    by (simp add: f32_less_def fp_less_def f32_of_f64_def f64_negate_def a(3) b(3) small)
qed

lemma matches_ids:
  "set (map fst (concat (map (\<lambda>r. case b r of None \<Rightarrow> [] | Some s \<Rightarrow> [(fts_rowid r, s)]) rs)))
    = fts_rowid ` {f \<in> set rs. b f \<noteq> None}"
proof (induction rs)
  case (Cons r rs)
  have "{f \<in> set (r # rs). b f \<noteq> None} = (if b r = None then {} else {r}) \<union> {f \<in> set rs. b f \<noteq> None}" by auto
  with Cons show ?case by (cases "b r") simp_all
qed simp

lemma matches_distinct:
  "distinct (map fts_rowid rs) \<Longrightarrow>
    distinct (map fst (concat (map (\<lambda>r. case b r of None \<Rightarrow> [] | Some s \<Rightarrow> [(fts_rowid r, s)]) rs)))"
proof (induction rs)
  case (Cons r rs)
  have "fts_rowid r \<notin> set (map fst (concat (map (\<lambda>r. case b r of None \<Rightarrow> [] | Some s \<Rightarrow> [(fts_rowid r, s)]) rs)))"
    using Cons.prems unfolding matches_ids by auto
  with Cons show ?case by (cases "b r") simp_all
qed simp

lemma matching_rows_ids:
  "set (map fst (matching_rows bm25 rows e)) = fts_rowid ` {f \<in> set rows. bm25 rows e f \<noteq> None}"
  unfolding matching_rows_def by (rule matches_ids)

lemma matching_rows_distinct: "distinct (map fts_rowid rows) \<Longrightarrow> distinct (map fst (matching_rows bm25 rows e))"
  unfolding matching_rows_def by (rule matches_distinct)

definition hit_of_row :: "ChunkId \<times> float64 \<Rightarrow> SearchHit" where
  "hit_of_row a = \<lparr>hit_chunk_id = fst a, hit_score = f32_of_f64 (f64_negate (snd a))\<rparr>"

lemma ranked_hits_sorted:
  assumes "list_all ranked m"
  shows "sorted_wrt (\<lambda>x y. \<not> f32_less (hit_score x) (hit_score y)) (map hit_of_row (take k (sort_by ranked_before m)))"
proof -
  have "sorted_wrt (\<lambda>x y. \<not> f32_less (hit_score (hit_of_row x)) (hit_score (hit_of_row y))) (take k (sort_by ranked_before m))"
  proof (rule sorted_wrt_mono_rel [OF _ rank_order.take_sort_by_in_order [OF assms]])
    fix x y assume "x \<in> set (take k (sort_by ranked_before m))" "y \<in> set (take k (sort_by ranked_before m))"
      "\<not> ranked_before y x"
    moreover have "ranked z" if "z \<in> set (take k (sort_by ranked_before m))" for z
      using in_set_takeD [OF that] assms by (simp add: list_all_iff)
    ultimately show "\<not> f32_less (hit_score (hit_of_row x)) (hit_score (hit_of_row y))"
      using negated_score_antimono [of x y] by (simp add: hit_of_row_def)
  qed
  then show ?thesis by (simp add: sorted_wrt_map)
qed

lemma fts_search_rows:
  assumes "fts_search bm25 failure rows query top_k = Inr hits" and "top_k \<noteq> 0" and "fts_query query \<noteq> []"
  shows "hits = map hit_of_row (take top_k (sort_by ranked_before (matching_rows bm25 rows (fts_query query))))"
  using assms by (auto simp: fts_search_def Let_def hit_of_row_def split_beta split: if_splits option.splits)

text \<open>
  C28. A search of the full-text table of a repository, however that has been used, returns at most
  \<open>top_k\<close> hits, each with the id of a stored chunk, none twice, in an order of non-increasing scores, and
  all matches if there are fewer than \<open>top_k\<close>.
\<close>

theorem fts_search_hits:
  assumes "reachable_repository r" and "fts_search bm25 failure (chunk_fts (live r)) query top_k = Inr hits"
    and "\<And>rows e f s. bm25 rows e f = Some s \<Longrightarrow> \<not> fp_isnan binary64 (unat s)"
  shows "length hits \<le> top_k \<and> distinct (map hit_chunk_id hits) \<and>
    sorted_wrt (\<lambda>x y. \<not> f32_less (hit_score x) (hit_score y)) hits \<and>
    (\<forall>h \<in> set hits. \<exists>p sd c. document_map (live r) p = Some sd \<and> c \<in> set (sdoc_chunks sd) \<and> chunk_id c = hit_chunk_id h) \<and>
    (length hits < top_k \<and> fts_query query \<noteq> [] \<longrightarrow> hit_chunk_id ` set hits =
      fts_rowid ` {f \<in> set (chunk_fts (live r)). bm25 (chunk_fts (live r)) (fts_query query) f \<noteq> None})"
proof (cases "top_k = 0 \<or> fts_query query = []")
  case True
  with assms(2) show ?thesis by (auto simp: fts_search_def Let_def split: if_splits)
next
  case False
  let ?rows = "chunk_fts (live r)"
  let ?m = "matching_rows bm25 ?rows (fts_query query)"
  let ?s = "sort_by ranked_before ?m"
  have hits: "hits = map hit_of_row (take top_k ?s)" using fts_search_rows [OF assms(2)] False by simp
  have ids: "map hit_chunk_id hits = take top_k (map fst ?s)"
    by (simp add: hits take_map o_def hit_of_row_def)
  have "list_all ranked ?m"
    using assms(3) by (auto simp: matching_rows_def list_all_iff split: option.splits)
  from ranked_hits_sorted [OF this] have "sorted_wrt (\<lambda>x y. \<not> f32_less (hit_score x) (hit_score y)) hits"
    unfolding hits .
  moreover have "distinct (map fts_rowid ?rows)" using fts_mirror [OF assms(1)] by blast
  from matching_rows_distinct [OF this, of bm25 "fts_query query"] have "distinct (map fst ?s)"
    by (simp add: distinct_map)
  then have "distinct (map hit_chunk_id hits)" unfolding ids by (rule distinct_take)
  moreover have "\<exists>p sd c. document_map (live r) p = Some sd \<and> c \<in> set (sdoc_chunks sd) \<and> chunk_id c = hit_chunk_id h"
    if "h \<in> set hits" for h
  proof -
    have "hit_chunk_id h \<in> set (take top_k (map fst ?s))" unfolding ids [symmetric] using that by simp
    from in_set_takeD [OF this] have "hit_chunk_id h \<in> set (map fst ?m)" by simp
    then obtain f where "f \<in> set ?rows" "fts_rowid f = hit_chunk_id h" unfolding matching_rows_ids by auto
    then show ?thesis using fts_mirror [OF assms(1), of "hit_chunk_id h" "fts_path f" "fts_content f"] by blast
  qed
  moreover have "hit_chunk_id ` set hits = fts_rowid ` {f \<in> set ?rows. bm25 ?rows (fts_query query) f \<noteq> None}"
    if "length hits < top_k"
  proof -
    have "map hit_chunk_id hits = map fst ?s" using that unfolding ids by (simp add: hits)
    from arg_cong [OF this, of set] show ?thesis unfolding matching_rows_ids [symmetric] by simp
  qed
  moreover have "length hits \<le> top_k" by (simp add: hits)
  ultimately show ?thesis by blast
qed

theorem fts_search_hits_witness:
  "\<exists>hits. fts_search (\<lambda>rows e f. Some 0) None (chunk_fts (live (snd (replace_document sample_document 1 (open_repository None)))))
      ''index'' 5 = Inr hits \<and> length hits \<le> 5 \<and> distinct (map hit_chunk_id hits)"
proof -
  let ?r = "snd (replace_document sample_document 1 (open_repository None))"
  have q: "fts_query ''index'' \<noteq> []" by (simp add: fts_query_terms word_char_def is_alnum_def fts_quote_def)
  obtain hits where h: "fts_search (\<lambda>rows e f. Some 0) None (chunk_fts (live ?r)) ''index'' 5 = Inr hits"
    using q by (simp add: fts_search_def Let_def)
  have nan: "\<not> fp_isnan binary64 (unat s)" if "Some 0 = Some s" for s :: float64
    using that by (simp add: fp_isnan_def fp_mag_def binary64_def)
  from fts_search_hits [OF replace_call [OF create, of sample_document 1] h nan] h show ?thesis by blast
qed

end
