(* ===== verification/Symbol_Repository.thy ===== *)
theory Symbol_Repository
  imports Retrieval
begin

text \<open>
  \<^verbatim>\<open>src/adapters/sqlite/sqlite_symbol_repository.cpp\<close>: the tables of symbols and of the edges between
  them, with their keys and cascading deletes, the replacement of the symbols of a file in one transaction, and
  the queries of the symbol-graph retriever. \<open>fault\<close> is the error the \<open>n\<close>-th statement of a transaction fails with for
  reasons of the database's own.
\<close>

record symbol_tables =
  symbols_table :: "Symbol list"
  edges_table :: "SymbolEdge list"

definition no_symbols :: symbol_tables where
  "no_symbols = \<lparr>symbols_table = [], edges_table = []\<rparr>"

text \<open>The unique index over name, path and line of the declaration.\<close>

definition symbol_identity :: "Symbol \<Rightarrow> string \<times> path \<times> 32 word" where
  "symbol_identity s = (symbol_name s, range_path (symbol_declaration s), range_start_line (symbol_declaration s))"

section \<open>Replacing a file\<close>

text \<open>Deleting symbols deletes the edges at either end of them.\<close>

definition delete_file_symbols :: "path \<Rightarrow> symbol_tables \<Rightarrow> symbol_tables" where
  "delete_file_symbols p t = (
     let gone = map symbol_id (filter (\<lambda>s. range_path (symbol_declaration s) = p) (symbols_table t)) in
     \<lparr>symbols_table = filter (\<lambda>s. range_path (symbol_declaration s) \<noteq> p) (symbols_table t),
      edges_table = filter (\<lambda>e. edge_from e \<notin> set gone \<and> edge_to e \<notin> set gone) (edges_table t)\<rparr>)"

definition insert_symbol :: "Symbol \<Rightarrow> symbol_tables \<Rightarrow> symbol_tables res" where
  "insert_symbol s t = (
     if symbol_id s \<in> set (map symbol_id (symbols_table t))
       then Inl (Runtime_error ''insert symbol: UNIQUE constraint failed: symbols.id'')
     else if symbol_identity s \<in> set (map symbol_identity (symbols_table t))
       then Inl (Runtime_error ''insert symbol: UNIQUE constraint failed: idx_symbols_identity'')
     else Inr (t\<lparr>symbols_table := symbols_table t @ [s]\<rparr>))"

text \<open>\<^verbatim>\<open>INSERT OR IGNORE\<close> skips an edge that is there already; a missing end is an error all the same.\<close>

definition insert_edge :: "SymbolEdge \<Rightarrow> symbol_tables \<Rightarrow> symbol_tables res" where
  "insert_edge e t = (
     if e \<in> set (edges_table t) then Inr t
     else if edge_from e \<notin> symbol_id ` set (symbols_table t) \<or> edge_to e \<notin> symbol_id ` set (symbols_table t)
       then Inl (Runtime_error ''insert symbol edge: FOREIGN KEY constraint failed'')
     else Inr (t\<lparr>edges_table := edges_table t @ [e]\<rparr>))"

text \<open>A sequence of statements, each of which may fail; \<open>n\<close> counts them.\<close>

fun run_statements :: "(nat \<Rightarrow> exn option) \<Rightarrow> nat \<Rightarrow> (symbol_tables \<Rightarrow> symbol_tables res) list \<Rightarrow>
    symbol_tables \<Rightarrow> symbol_tables res" where
  "run_statements fault n [] t = Inr t"
| "run_statements fault n (f # fs) t = (case fault n of
     Some e \<Rightarrow> Inl e
   | None \<Rightarrow> res_bind (f t) (run_statements fault (n + 1) fs))"

text \<open>The statements between \<^verbatim>\<open>BEGIN\<close> and \<^verbatim>\<open>COMMIT\<close>, these included.\<close>

definition replacement_statements :: "path \<Rightarrow> Symbol list \<Rightarrow> SymbolEdge list \<Rightarrow>
    (symbol_tables \<Rightarrow> symbol_tables res) list" where
  "replacement_statements p symbols edges = [\<lambda>t. Inr t, \<lambda>t. Inr (delete_file_symbols p t)] @ map insert_symbol symbols @
     map insert_edge edges @ [\<lambda>t. Inr t]"

definition replace_file :: "(nat \<Rightarrow> exn option) \<Rightarrow> path \<Rightarrow> Symbol list \<Rightarrow> SymbolEdge list \<Rightarrow>
    symbol_tables \<Rightarrow> unit res \<times> symbol_tables" where
  "replace_file fault p symbols edges t = (
     case run_statements fault 0 (replacement_statements p symbols edges) t of
       Inl e \<Rightarrow> (Inl e, t)
     | Inr t' \<Rightarrow> (Inr (), t'))"

section \<open>Queries\<close>

definition read_range :: "SourceRange \<Rightarrow> SourceRange" where
  "read_range r = r\<lparr>range_path := c_str (range_path r)\<rparr>"

definition read_symbol :: "Symbol \<Rightarrow> Symbol" where
  "read_symbol s = s\<lparr>symbol_name := c_str (symbol_name s), symbol_signature := c_str (symbol_signature s),
     symbol_declaration := read_range (symbol_declaration s),
     symbol_definition := map_option read_range (symbol_definition s)\<rparr>"

text \<open>\<^verbatim>\<open>ORDER BY declaration_path, declaration_start_line\<close>; lines are signed columns.\<close>

definition declared_before :: "Symbol \<Rightarrow> Symbol \<Rightarrow> bool" where
  "declared_before a b = (let p = range_path (symbol_declaration a); q = range_path (symbol_declaration b) in
     p < q \<or> p = q \<and> range_start_line (symbol_declaration a) <s range_start_line (symbol_declaration b))"

text \<open>The loops end at the first step that is not a row: an error after \<open>n\<close> rows is taken for the end.\<close>

definition until_error :: "nat option \<Rightarrow> 'a list \<Rightarrow> 'a list" where
  "until_error failed rows = (case failed of None \<Rightarrow> rows | Some n \<Rightarrow> take n rows)"

definition symbols_named :: "nat option \<Rightarrow> symbol_tables \<Rightarrow> string \<Rightarrow> Symbol list" where
  "symbols_named failed t name = until_error failed (map read_symbol
     (sort_by declared_before (filter (\<lambda>s. symbol_name s = name) (symbols_table t))))"

text \<open>An empty relation selects all; the order of the rows is the order of insertion.\<close>

definition read_edge :: "SymbolEdge \<Rightarrow> SymbolEdge" where
  "read_edge e = e\<lparr>edge_relation := c_str (edge_relation e)\<rparr>"

definition edges_out :: "nat option \<Rightarrow> symbol_tables \<Rightarrow> 64 word \<Rightarrow> string \<Rightarrow> SymbolEdge list" where
  "edges_out failed t i relation = until_error failed (map read_edge
     (filter (\<lambda>e. edge_from e = i \<and> (relation = [] \<or> edge_relation e = relation)) (edges_table t)))"

definition edges_in :: "nat option \<Rightarrow> symbol_tables \<Rightarrow> 64 word \<Rightarrow> string \<Rightarrow> SymbolEdge list" where
  "edges_in failed t i relation = until_error failed (map read_edge
     (filter (\<lambda>e. edge_to e = i \<and> (relation = [] \<or> edge_relation e = relation)) (edges_table t)))"

section \<open>The invariant\<close>

text \<open>Ids and identities are unique, edges are unique and connect stored symbols.\<close>

definition symbol_tables_ok :: "symbol_tables \<Rightarrow> bool" where
  "symbol_tables_ok t \<longleftrightarrow> distinct (map symbol_id (symbols_table t)) \<and>
     distinct (map symbol_identity (symbols_table t)) \<and> distinct (edges_table t) \<and>
     (\<forall>e \<in> set (edges_table t). edge_from e \<in> symbol_id ` set (symbols_table t) \<and>
       edge_to e \<in> symbol_id ` set (symbols_table t))"

lemma delete_file_symbols_ok:
  assumes "symbol_tables_ok t"
  shows "symbol_tables_ok (delete_file_symbols p t)"
proof -
  have "symbol_id s \<in> symbol_id ` set (filter (\<lambda>s. range_path (symbol_declaration s) \<noteq> p) (symbols_table t))"
    if "s \<in> set (symbols_table t)"
      "symbol_id s \<notin> set (map symbol_id (filter (\<lambda>s. range_path (symbol_declaration s) = p) (symbols_table t)))" for s
    using that by auto
  with assms show ?thesis
    unfolding symbol_tables_ok_def delete_file_symbols_def Let_def
    by (fastforce simp: distinct_map_filter)
qed

text \<open>Statements that keep the invariant, and sequences of them.\<close>

definition keeps_ok :: "(symbol_tables \<Rightarrow> symbol_tables res) \<Rightarrow> bool" where
  "keeps_ok f \<longleftrightarrow> (\<forall>t t'. symbol_tables_ok t \<longrightarrow> f t = Inr t' \<longrightarrow> symbol_tables_ok t')"

lemma keeps_okD: "keeps_ok f \<Longrightarrow> f t = Inr t' \<Longrightarrow> symbol_tables_ok t \<Longrightarrow> symbol_tables_ok t'"
  by (simp add: keeps_ok_def)

lemma keeps_ok_statements [simp]:
  "keeps_ok (insert_symbol s)" "keeps_ok (insert_edge e)" "keeps_ok (\<lambda>t. Inr t)" "keeps_ok Inr"
  "keeps_ok (\<lambda>t. Inr (delete_file_symbols p t))"
  by (auto simp: keeps_ok_def delete_file_symbols_ok)
    (auto simp: symbol_tables_ok_def insert_symbol_def insert_edge_def split: if_splits)

lemma run_statements_ok:
  "list_all keeps_ok fs \<Longrightarrow> keeps_ok (run_statements fault n fs)"
proof (induction fs arbitrary: n)
  case (Cons f fs)
  show ?case unfolding keeps_ok_def
  proof (intro allI impI)
    fix t t' assume t: "symbol_tables_ok t" "run_statements fault n (f # fs) t = Inr t'"
    then obtain u where u: "f t = Inr u" "run_statements fault (n + 1) fs u = Inr t'"
      by (auto simp: res_simps split: option.splits)
    have "keeps_ok f" "list_all keeps_ok fs" using Cons.prems by simp_all
    with Cons.IH [OF this(2), of "n + 1"] show "symbol_tables_ok t'" using keeps_okD t(1) u by blast
  qed
qed (simp add: keeps_ok_def)

lemma replace_file_ok:
  assumes "symbol_tables_ok t" and "replace_file fault p symbols edges t = (r, t')"
  shows "symbol_tables_ok t'"
proof -
  let ?fs = "replacement_statements p symbols edges"
  have "list_all keeps_ok ?fs" by (auto simp: list_all_iff replacement_statements_def)
  from run_statements_ok [OF this] have k: "keeps_ok (run_statements fault 0 ?fs)" .
  show ?thesis
  proof (cases "run_statements fault 0 ?fs t")
    case (Inl e)
    with assms show ?thesis by (simp add: replace_file_def)
  next
    case (Inr u)
    with assms(2) have "u = t'" by (simp add: replace_file_def)
    with keeps_okD [OF k Inr assms(1)] show ?thesis by simp
  qed
qed

section \<open>The effect of a replacement\<close>

lemma run_statements_append:
  "run_statements fault n (fs @ gs) t = res_bind (run_statements fault n fs t) (run_statements fault (n + length fs) gs)"
proof (induction fs arbitrary: n t)
  case (Cons f fs)
  show ?case
  proof (cases "fault n")
    case None
    then show ?thesis by (cases "f t") (simp_all add: Cons)
  qed simp
qed simp

lemma run_statements_no_fault:
  "run_statements fault n fs t = Inr t' \<Longrightarrow> run_statements (\<lambda>n. None) m fs t = Inr t'"
proof (induction fs arbitrary: n m t)
  case (Cons f fs)
  then show ?case by (auto simp: res_simps split: option.splits)
qed simp

lemma insert_symbols_effect:
  "run_statements (\<lambda>n. None) n (map insert_symbol ss) t = Inr t' \<longleftrightarrow>
     distinct (map symbol_id ss) \<and> symbol_id ` set ss \<inter> symbol_id ` set (symbols_table t) = {} \<and>
     distinct (map symbol_identity ss) \<and> symbol_identity ` set ss \<inter> symbol_identity ` set (symbols_table t) = {} \<and>
     t' = t\<lparr>symbols_table := symbols_table t @ ss\<rparr>"
proof (induction ss arbitrary: n t)
  case (Cons s ss)
  show ?case
  proof (cases "symbol_id s \<in> symbol_id ` set (symbols_table t) \<or> symbol_identity s \<in> symbol_identity ` set (symbols_table t)")
    case True
    then show ?thesis by (auto simp: insert_symbol_def)
  next
    case False
    then have "insert_symbol s t = Inr (t\<lparr>symbols_table := symbols_table t @ [s]\<rparr>)"
      by (simp add: insert_symbol_def)
    with False show ?thesis by (simp add: Cons.IH) auto
  qed
qed auto

lemma insert_edges_effect:
  assumes "\<forall>e \<in> set (edges_table t). edge_from e \<in> symbol_id ` set (symbols_table t) \<and> edge_to e \<in> symbol_id ` set (symbols_table t)"
  shows "(\<exists>t'. run_statements (\<lambda>n. None) n (map insert_edge es) t = Inr t') \<longleftrightarrow>
     (\<forall>e \<in> set es. edge_from e \<in> symbol_id ` set (symbols_table t) \<and> edge_to e \<in> symbol_id ` set (symbols_table t))"
  using assms
proof (induction es arbitrary: n t)
  case (Cons e es)
  consider "e \<in> set (edges_table t)" | "e \<notin> set (edges_table t)"
      "edge_from e \<notin> symbol_id ` set (symbols_table t) \<or> edge_to e \<notin> symbol_id ` set (symbols_table t)"
    | "e \<notin> set (edges_table t)" "edge_from e \<in> symbol_id ` set (symbols_table t)" "edge_to e \<in> symbol_id ` set (symbols_table t)"
    by blast
  then show ?case
  proof cases
    case 1
    then show ?thesis using Cons.IH [OF Cons.prems, of "n + 1"] Cons.prems by (simp add: insert_edge_def)
  next
    case 2
    then show ?thesis by (auto simp: insert_edge_def)
  next
    case 3
    then show ?thesis using Cons.IH [of "t\<lparr>edges_table := edges_table t @ [e]\<rparr>" "n + 1"] Cons.prems
      by (auto simp: insert_edge_def)
  qed
qed simp

lemma insert_edges_result:
  "run_statements (\<lambda>n. None) n (map insert_edge es) t = Inr t' \<Longrightarrow>
     symbols_table t' = symbols_table t \<and> set (edges_table t') = set (edges_table t) \<union> set es"
proof (induction es arbitrary: n t)
  case (Cons e es)
  from Cons.prems obtain u where u: "insert_edge e t = Inr u" "run_statements (\<lambda>n. None) (n + 1) (map insert_edge es) u = Inr t'"
    by (auto simp: res_simps)
  from u(1) have "symbols_table u = symbols_table t \<and> set (edges_table u) = insert e (set (edges_table t))"
    by (auto simp: insert_edge_def split: if_splits)
  with Cons.IH [OF u(2)] show ?case by auto
qed simp

text \<open>The symbols of the other files, and what makes a replacement possible.\<close>

abbreviation other_symbols :: "path \<Rightarrow> symbol_tables \<Rightarrow> Symbol list" where
  "other_symbols p t \<equiv> filter (\<lambda>s. range_path (symbol_declaration s) \<noteq> p) (symbols_table t)"

definition replaceable :: "path \<Rightarrow> Symbol list \<Rightarrow> SymbolEdge list \<Rightarrow> symbol_tables \<Rightarrow> bool" where
  "replaceable p symbols edges t \<longleftrightarrow>
     distinct (map symbol_id symbols) \<and> symbol_id ` set symbols \<inter> symbol_id ` set (other_symbols p t) = {} \<and>
     distinct (map symbol_identity symbols) \<and>
     symbol_identity ` set symbols \<inter> symbol_identity ` set (other_symbols p t) = {} \<and>
     (\<forall>e \<in> set edges. edge_from e \<in> symbol_id ` set (other_symbols p t @ symbols) \<and>
       edge_to e \<in> symbol_id ` set (other_symbols p t @ symbols))"

lemma replacement_runs:
  assumes "symbol_tables_ok t"
  shows "(\<exists>t'. run_statements (\<lambda>n. None) 0 (replacement_statements p symbols edges) t = Inr t') \<longleftrightarrow>
      replaceable p symbols edges t"
    and "run_statements (\<lambda>n. None) 0 (replacement_statements p symbols edges) t = Inr t' \<Longrightarrow>
      symbols_table t' = other_symbols p t @ symbols \<and>
      set (edges_table t') = set (edges_table (delete_file_symbols p t)) \<union> set edges"
proof -
  define d where "d = delete_file_symbols p t"
  have d: "symbol_tables_ok d" "symbols_table d = other_symbols p t"
    using delete_file_symbols_ok [OF assms] by (simp_all add: d_def delete_file_symbols_def Let_def)
  define s where "s = d\<lparr>symbols_table := symbols_table d @ symbols\<rparr>"
  have ends: "\<forall>e \<in> set (edges_table s). edge_from e \<in> symbol_id ` set (symbols_table s) \<and> edge_to e \<in> symbol_id ` set (symbols_table s)"
    using d(1) by (auto simp: s_def symbol_tables_ok_def)
  have run: "run_statements (\<lambda>n. None) 0 (replacement_statements p symbols edges) t = Inr t' \<longleftrightarrow>
      (\<exists>u. run_statements (\<lambda>n. None) 2 (map insert_symbol symbols) d = Inr u \<and>
        run_statements (\<lambda>n. None) (2 + length symbols) (map insert_edge edges) u = Inr t')" for t'
    by (simp add: replacement_statements_def run_statements_append res_simps d_def numeral_2_eq_2)
  show "(\<exists>t'. run_statements (\<lambda>n. None) 0 (replacement_statements p symbols edges) t = Inr t') \<longleftrightarrow> replaceable p symbols edges t"
    unfolding run insert_symbols_effect replaceable_def d(2) [symmetric]
    using insert_edges_effect [OF ends, of "2 + length symbols" edges] by (auto simp: s_def)
  show "symbols_table t' = other_symbols p t @ symbols \<and>
      set (edges_table t') = set (edges_table (delete_file_symbols p t)) \<union> set edges"
    if "run_statements (\<lambda>n. None) 0 (replacement_statements p symbols edges) t = Inr t'"
    using that unfolding run insert_symbols_effect
    by (auto dest!: insert_edges_result simp: d(2)) (simp_all add: d_def)
qed

section \<open>Properties\<close>

text \<open>The repositories that replacements, failed ones included, lead to.\<close>

inductive reachable_symbols :: "symbol_tables \<Rightarrow> bool" where
  create: "reachable_symbols no_symbols"
| replace_call: "reachable_symbols t \<Longrightarrow> replace_file fault p symbols edges t = (r, t') \<Longrightarrow> reachable_symbols t'"

lemma reachable_symbols_ok: "reachable_symbols t \<Longrightarrow> symbol_tables_ok t"
proof (induction rule: reachable_symbols.induct)
  case create
  then show ?case by (simp add: no_symbols_def symbol_tables_ok_def)
next
  case (replace_call t fault p symbols edges r t')
  then show ?case using replace_file_ok by blast
qed

lemma other_ids:
  assumes "distinct (map symbol_id ss)" and "i \<in> symbol_id ` set ss"
  shows "i \<in> set (map symbol_id (filter P ss)) \<longleftrightarrow> i \<notin> symbol_id ` set (filter (\<lambda>s. \<not> P s) ss)"
proof -
  obtain s where s: "s \<in> set ss" "i = symbol_id s" using assms(2) by blast
  have unique: "s' = s" if "s' \<in> set ss" "symbol_id s' = i" for s'
    using assms(1) that s by (metis distinct_map inj_onD)
  have char: "i \<in> symbol_id ` set (filter Q ss) \<longleftrightarrow> Q s" for Q
  proof
    assume "i \<in> symbol_id ` set (filter Q ss)"
    then obtain s' where "s' \<in> set ss" "Q s'" "symbol_id s' = i" by auto
    with unique show "Q s" by blast
  next
    assume "Q s"
    with s show "i \<in> symbol_id ` set (filter Q ss)" by (intro image_eqI [of _ _ s]) simp_all
  qed
  show ?thesis unfolding char set_map by simp
qed

lemma other_edges:
  assumes "symbol_tables_ok t"
  shows "e \<in> set (edges_table (delete_file_symbols p t)) \<longleftrightarrow> e \<in> set (edges_table t) \<and>
    edge_from e \<in> symbol_id ` set (other_symbols p t) \<and> edge_to e \<in> symbol_id ` set (other_symbols p t)"
proof -
  have d: "distinct (map symbol_id (symbols_table t))" using assms by (simp add: symbol_tables_ok_def)
  have "edge_from e \<in> symbol_id ` set (symbols_table t) \<and> edge_to e \<in> symbol_id ` set (symbols_table t)"
    if "e \<in> set (edges_table t)" using assms that by (simp add: symbol_tables_ok_def)
  moreover have "i \<notin> set (map symbol_id (filter (\<lambda>s. range_path (symbol_declaration s) = p) (symbols_table t))) \<longleftrightarrow>
      i \<in> symbol_id ` set (other_symbols p t)" if "i \<in> symbol_id ` set (symbols_table t)" for i
    using other_ids [OF d that, of "\<lambda>s. range_path (symbol_declaration s) = p"] by blast
  ultimately show ?thesis unfolding delete_file_symbols_def Let_def
    by (simp only: symbol_tables.simps set_filter mem_Collect_eq) blast
qed

text \<open>
  C29. Replacing the symbols of a file is all or nothing: a call that fails, at whichever statement, leaves
  the tables as they were. It succeeds, barring errors of the database, exactly if the new symbols clash with no
  symbol of another file and every edge ends at stored symbols. Then the symbols of the other files
  stay and the new ones are added; of the old edges exactly those between two symbols of other files
  stay, so that edges from other files into the replaced one are lost. Ids and identities stay unique
  and no edge dangles.
\<close>

theorem replace_file_effect:
  assumes "reachable_symbols t" and "replace_file fault p symbols edges t = (r, t')"
  shows "symbol_tables_ok t' \<and> (\<forall>e. r = Inl e \<longrightarrow> t' = t) \<and>
    (r = Inr () \<longrightarrow> replaceable p symbols edges t \<and> symbols_table t' = other_symbols p t @ symbols \<and>
      (\<forall>e. e \<in> set (edges_table t') \<longleftrightarrow> e \<in> set edges \<or> e \<in> set (edges_table t) \<and>
        edge_from e \<in> symbol_id ` set (other_symbols p t) \<and> edge_to e \<in> symbol_id ` set (other_symbols p t))) \<and>
    ((\<forall>n. fault n = None) \<longrightarrow> replaceable p symbols edges t \<longrightarrow> r = Inr ())"
proof -
  let ?fs = "replacement_statements p symbols edges"
  have ok: "symbol_tables_ok t" by (rule reachable_symbols_ok [OF assms(1)])
  have "\<forall>e. r = Inl e \<longrightarrow> t' = t" using assms(2) by (auto simp: replace_file_def split: sum.splits)
  moreover have "replaceable p symbols edges t \<and> symbols_table t' = other_symbols p t @ symbols \<and>
      (\<forall>e. e \<in> set (edges_table t') \<longleftrightarrow> e \<in> set edges \<or> e \<in> set (edges_table t) \<and>
        edge_from e \<in> symbol_id ` set (other_symbols p t) \<and> edge_to e \<in> symbol_id ` set (other_symbols p t))"
    if "r = Inr ()"
  proof -
    have "run_statements fault 0 ?fs t = Inr t'"
      using that assms(2) by (auto simp: replace_file_def split: sum.splits)
    from run_statements_no_fault [OF this, of 0] have "run_statements (\<lambda>n. None) 0 ?fs t = Inr t'" .
    from replacement_runs(2) [OF ok this] this have
      "symbols_table t' = other_symbols p t @ symbols"
      "set (edges_table t') = set (edges_table (delete_file_symbols p t)) \<union> set edges"
      "replaceable p symbols edges t" using replacement_runs(1) [OF ok, of p symbols edges] by blast+
    with other_edges [OF ok, of _ p] show ?thesis by blast
  qed
  moreover have "r = Inr ()" if "\<forall>n. fault n = None" "replaceable p symbols edges t"
  proof -
    have "fault = (\<lambda>n. None)" using that(1) by blast
    with replacement_runs(1) [OF ok, of p symbols edges] that(2) assms(2) show ?thesis
      by (auto simp: replace_file_def)
  qed
  ultimately show ?thesis using replace_file_ok [OF ok assms(2)] by blast
qed

text \<open>Two files, a call between them, and the same replacement of the callee's file once more.\<close>

definition sample_symbol :: "64 word \<Rightarrow> path \<Rightarrow> Symbol" where
  "sample_symbol i p = \<lparr>symbol_id = i, symbol_kind = Kind_function, symbol_name = ''f'', symbol_signature = ''void()'',
     symbol_declaration = \<lparr>range_path = p, range_start_line = 1, range_end_line = 1\<rparr>, symbol_definition = None\<rparr>"

lemma sample_replacement:
  "replace_file (\<lambda>n. None) ''a.cpp'' [sample_symbol 1 ''a.cpp''] [] no_symbols =
    (Inr (), \<lparr>symbols_table = [sample_symbol 1 ''a.cpp''], edges_table = []\<rparr>)"
  by (simp add: replace_file_def replacement_statements_def no_symbols_def delete_file_symbols_def insert_symbol_def sample_symbol_def)

theorem replace_file_effect_witness:
  "symbols_table (snd (replace_file (\<lambda>n. None) ''a.cpp'' [sample_symbol 1 ''a.cpp''] [] no_symbols)) = [sample_symbol 1 ''a.cpp''] \<and>
   replaceable ''a.cpp'' [sample_symbol 1 ''a.cpp''] [] no_symbols"
  using replace_file_effect [OF reachable_symbols.create sample_replacement] by (simp add: sample_replacement)

lemma replacement_loses_callers:
  assumes "distinct (map symbol_id [s1, s2])" and "range_path (symbol_declaration s1) \<noteq> ''b.hpp''"
    and "range_path (symbol_declaration s2) = ''b.hpp''" and "edge_to e = symbol_id s2"
  shows "replace_file (\<lambda>n. None) ''b.hpp'' [s2] [] \<lparr>symbols_table = [s1, s2], edges_table = [e]\<rparr> =
    (Inr (), \<lparr>symbols_table = [s1, s2], edges_table = []\<rparr>)"
  using assms by (auto simp: replace_file_def replacement_statements_def delete_file_symbols_def insert_symbol_def
    symbol_identity_def)

end
