(* ===== verification/Reranker.thy ===== *)
theory Reranker
  imports Ask_Service Similarity
begin

text \<open>
  \<^verbatim>\<open>src/adapters/llama/llama_reranker.cpp\<close>: every candidate is rated by one generation; the score is
  the rating plus a bonus that decreases with the position of the candidate.
\<close>

definition maximum_document_characters :: nat where
  "maximum_document_characters = 3000"

definition newline_char :: char where
  "newline_char = CHR 0x0A"

definition relevance_prompt :: "string \<Rightarrow> string \<Rightarrow> string" where
  "relevance_prompt query content =
     ''Rate whether the untrusted document answers the query. Output one digit only: 0 for '' @
     ''irrelevant, 1 for weakly relevant, 2 for relevant, 3 for directly relevant.'' @ [newline_char] @
     ''Query:'' @ [newline_char] @ query @ [newline_char] @ ''Untrusted document:'' @ [newline_char] @
     ''<document>'' @ [newline_char] @ take maximum_document_characters content @ [newline_char] @
     ''</document>'' @ [newline_char] @ ''Rating:''"

text \<open>The value of the first digit of the response, zero if there is none.\<close>

fun rating_of :: "string \<Rightarrow> nat" where
  "rating_of [] = 0"
| "rating_of (c # cs) = (if is_digit c then of_char c - 48 else rating_of cs)"

text \<open>The bits of \<open>0.001F\<close>.\<close>

definition position_bonus :: float32 where
  "position_bonus = 0x3A83126F"

definition rerank_score :: "string \<Rightarrow> nat \<Rightarrow> float32" where
  "rerank_score response index = f32_add (f32_of_nat (rating_of response))
     (f32_div position_bonus (f32_of_nat (index + 1)))"

definition rerank_options :: GenerationOptions where
  "rerank_options = \<lparr>opt_max_tokens = 1, opt_temperature = 0, opt_top_k = 1, opt_top_p = f32_one,
     opt_repeat_penalty = f32_one, opt_seed = 42\<rparr>"

text \<open>The response is what the generator passed to its callback, unless it throws.\<close>

definition ask_rating :: "text_generator \<Rightarrow> string \<Rightarrow> string \<Rightarrow> string res" where
  "ask_rating gen query content = (case gen (relevance_prompt query content) rerank_options False of
     (pieces, outcome) \<Rightarrow> res_bind outcome (\<lambda>stats. Inr (concat pieces)))"

fun rate_candidates :: "text_generator \<Rightarrow> string \<Rightarrow> (ChunkId \<rightharpoonup> Chunk) \<Rightarrow> nat \<Rightarrow> SearchHit list \<Rightarrow>
    SearchHit list res" where
  "rate_candidates gen query content_by_id index [] = Inr []"
| "rate_candidates gen query content_by_id index (h # hs) = (case content_by_id (hit_chunk_id h) of
     None \<Rightarrow> rate_candidates gen query content_by_id (index + 1) hs
   | Some c \<Rightarrow> res_bind (ask_rating gen query (chunk_content c)) (\<lambda>response.
       res_bind (rate_candidates gen query content_by_id (index + 1) hs) (\<lambda>ranked.
       Inr (\<lparr>hit_chunk_id = hit_chunk_id h, hit_score = rerank_score response index\<rparr> # ranked))))"

definition llama_rerank :: "text_generator \<Rightarrow> reranker" where
  "llama_rerank gen query candidates chunks top_k = (
     if query = [] \<or> top_k = 0 then Inl (Invalid_argument ''rerank query and top_k must be provided'')
     else res_bind (rate_candidates gen query (index_chunks chunks) 0 candidates) (\<lambda>ranked.
       Inr (take (min top_k (length ranked)) (sort_by better ranked))))"

section \<open>A rating outweighs every bonus\<close>

lemma f32_of_nat_units: "n < 2 ^ 24 \<Longrightarrow> fp_units binary32 (unat (f32_of_nat n)) = n * 2 ^ 149"
proof -
  assume n: "n < 2 ^ 24"
  have "n * 2 ^ 149 < 2 ^ 24 * (2 ^ 149 :: nat)" using n by (intro mult_strict_right_mono) simp_all
  also have "\<dots> \<le> fp_units binary32 (fp_inf binary32)"
    unfolding fp_inf_units by (simp only: power_add [symmetric]) (rule power_increasing, simp_all)
  finally have "\<exists>M < fp_inf binary32. fp_units binary32 M = n * 2 ^ 149"
    using n by (intro fp_units_below) simp_all
  then obtain M where M: "M < fp_inf binary32" "fp_units binary32 M = n * 2 ^ 149" by blast
  have "fp_round binary32 n 1 = M" using M by (intro fp_round_units) simp_all
  with M show ?thesis by (simp add: f32_of_nat_def inf32_bound)
qed

lemma bonus_bits: "unat position_bonus < fp_inf binary32" "0 < unat position_bonus"
  by (simp_all add: position_bonus_def binary32_def)

lemma one_bits: "unat f32_one \<le> fp_inf binary32" "unat f32_one \<noteq> fp_inf binary32" "unat f32_one \<noteq> 0"
  by (simp_all add: binary32_def)

lemma bonus_small:
  "unat (f32_div position_bonus (f32_of_nat (index + 1))) \<le> unat position_bonus"
  "f32_nonneg (f32_div position_bonus (f32_of_nat (index + 1)))"
proof -
  have one: "unat (f32_of_nat 1) = unat f32_one"
    using fp_round_one(2) [of 0] by (simp add: f32_of_nat_def)
  have "fp_div binary32 (unat position_bonus) (unat f32_one)
      = fp_round binary32 (fp_units binary32 (unat position_bonus)) (fp_units binary32 (unat f32_one))"
    using bonus_bits one_bits by (simp add: fp_div_nonneg)
  also have "\<dots> = unat position_bonus"
    using fp_round_exact [of binary32 "unat position_bonus"] bonus_bits unfolding fp_units_one by simp
  finally have unit: "fp_div binary32 (unat position_bonus) (unat f32_one) = unat position_bonus" .
  have le: "unat f32_one \<le> unat (f32_of_nat (index + 1))" using f32_of_nat_mono [of 1 "index + 1"] one by simp
  have "unat (f32_of_nat (index + 1)) \<le> fp_inf binary32"
    using f32_nonneg_of_nat by (simp add: f32_nonneg_def)
  then have d: "fp_div binary32 (unat position_bonus) (unat (f32_of_nat (index + 1))) \<le> unat position_bonus"
    using fp_div_antimono [OF _ bonus_bits(2,1) le] unit by simp
  then have "unat (f32_div position_bonus (f32_of_nat (index + 1)))
      = fp_div binary32 (unat position_bonus) (unat (f32_of_nat (index + 1)))"
    using bonus_bits by (simp add: f32_div_def inf32_bound)
  with d bonus_bits show "unat (f32_div position_bonus (f32_of_nat (index + 1))) \<le> unat position_bonus"
    "f32_nonneg (f32_div position_bonus (f32_of_nat (index + 1)))" by (simp_all add: f32_nonneg_def)
qed

lemma rating_of_le: "rating_of s \<le> 9"
  by (induction s rule: rating_of.induct) (auto simp: is_digit_def)

text \<open>The score of a candidate lies between its rating and the next one.\<close>

lemma score_below_next:
  assumes "r \<le> 9" and "f32_nonneg b" and "unat b \<le> unat position_bonus"
  shows "unat (f32_add (f32_of_nat r) b) < unat (f32_of_nat (r + 1))"
proof -
  have half: "fp_units binary32 0x3F000000 = 2 ^ 148" by (simp add: fp_units_def fp_hidden_def binary32_def)
  have "unat b \<le> 0x3F000000" using assms(3) by (simp add: position_bonus_def)
  from fp_units_mono [OF fp_ok_formats(1) this] have ub: "fp_units binary32 (unat b) \<le> 2 ^ 148" by (simp only: half)
  have ur: "fp_units binary32 (unat (f32_of_nat r)) = r * 2 ^ 149" using assms(1) by (intro f32_of_nat_units) simp
  have fin: "unat (f32_of_nat r) < fp_inf binary32" "unat b < fp_inf binary32"
  proof -
    have "r * 2 ^ 149 < (2 ^ 277 :: nat)" using assms(1) by (intro le_less_trans [OF mult_le_mono1 [of r 9]]) simp_all
    then show "unat (f32_of_nat r) < fp_inf binary32"
      using fp_units_mono [OF fp_ok_formats(1), of "fp_inf binary32" "unat (f32_of_nat r)"] ur
      unfolding fp_inf_units by (cases "unat (f32_of_nat r) < fp_inf binary32") simp_all
    show "unat b < fp_inf binary32" using assms(3) bonus_bits by linarith
  qed
  have "\<exists>M < fp_inf binary32. fp_units binary32 M = (2 * r + 1) * 2 ^ 148"
    using assms(1) unfolding fp_inf_units by (intro fp_units_below)
      (simp_all add: fp_inf_units le_less_trans [OF mult_le_mono1 [of "2 * r + 1" 19 "2 ^ 148"]])
  then obtain M where M: "M < fp_inf binary32" "fp_units binary32 M = (2 * r + 1) * 2 ^ 148" by blast
  have "unat (f32_add (f32_of_nat r) b) = fp_round binary32 (r * 2 ^ 149 + fp_units binary32 (unat b)) (2 ^ 149)"
    using fin by (simp add: f32_add_def inf32_bound fp_add_nonneg ur)
  also have "\<dots> \<le> fp_round binary32 (fp_units binary32 M) (2 ^ 149)"
    using ub unfolding M(2) by (intro fp_round_mono) simp_all
  also have "\<dots> = M" using fp_round_exact [of binary32 M] M(1) by simp
  also have "M < unat (f32_of_nat (r + 1))"
  proof (rule ccontr)
    assume "\<not> M < unat (f32_of_nat (r + 1))"
    then have "fp_units binary32 (unat (f32_of_nat (r + 1))) \<le> fp_units binary32 M" by (intro fp_units_mono) simp_all
    with f32_of_nat_units [of "r + 1"] assms(1) M(2) show False by simp
  qed
  finally show ?thesis .
qed

lemma rerank_score_order:
  assumes "rating_of r2 < rating_of r1"
  shows "unat (rerank_score r2 j) < unat (rerank_score r1 i)"
proof -
  have "unat (rerank_score r2 j) < unat (f32_of_nat (rating_of r2 + 1))"
    unfolding rerank_score_def using rating_of_le bonus_small by (intro score_below_next)
  also have "\<dots> \<le> unat (f32_of_nat (rating_of r1))" using assms by (intro f32_of_nat_mono) simp
  also have "\<dots> \<le> unat (rerank_score r1 i)"
    unfolding rerank_score_def by (intro f32_add_increases f32_nonneg_of_nat bonus_small)
  finally show ?thesis .
qed

lemma rerank_score_nonneg: "f32_nonneg (rerank_score r i)"
  unfolding rerank_score_def by (intro f32_nonneg_add f32_nonneg_of_nat bonus_small)

section \<open>The order of the result\<close>

text \<open>The rating of a hit: that of the first chunk with its id; \<open>None\<close> if there is none or the generator throws.\<close>

definition rating :: "text_generator \<Rightarrow> string \<Rightarrow> Chunk list \<Rightarrow> ChunkId \<Rightarrow> nat option" where
  "rating gen query chunks cid = (case index_chunks chunks cid of
     None \<Rightarrow> None
   | Some c \<Rightarrow> (case ask_rating gen query (chunk_content c) of Inl e \<Rightarrow> None | Inr s \<Rightarrow> Some (rating_of s)))"

lemma rate_candidates_sound:
  "rate_candidates gen query (index_chunks chunks) index hs = Inr ranked \<Longrightarrow>
    map hit_chunk_id ranked = filter (\<lambda>cid. cid \<in> dom (index_chunks chunks)) (map hit_chunk_id hs) \<and>
    (\<forall>h \<in> set ranked. \<exists>response i. rating gen query chunks (hit_chunk_id h) = Some (rating_of response) \<and>
      hit_score h = rerank_score response i)"
proof (induction hs arbitrary: index ranked)
  case (Cons h hs)
  show ?case
  proof (cases "index_chunks chunks (hit_chunk_id h)")
    case None
    then show ?thesis using Cons.IH Cons.prems by (simp add: domIff)
  next
    case (Some c)
    with Cons.prems obtain response rest where
      r: "ask_rating gen query (chunk_content c) = Inr response"
      "rate_candidates gen query (index_chunks chunks) (index + 1) hs = Inr rest"
      "ranked = \<lparr>hit_chunk_id = hit_chunk_id h, hit_score = rerank_score response index\<rparr> # rest"
      by (auto simp: res_simps)
    have "rating gen query chunks (hit_chunk_id h) = Some (rating_of response)"
      using Some r(1) by (simp add: rating_def)
    with Cons.IH [OF r(2)] r(3) Some show ?thesis by (auto simp: domIff)
  qed
qed simp

lemma better_by_rating:
  assumes "hit_score x = rerank_score r1 i" and "hit_score y = rerank_score r2 j" and "\<not> better y x"
  shows "rating_of r2 \<le> rating_of r1"
proof (rule ccontr)
  assume "\<not> rating_of r2 \<le> rating_of r1"
  then have "unat (hit_score x) < unat (hit_score y)" using rerank_score_order assms(1,2) by simp
  with assms rerank_score_nonneg show False by (simp add: better_def f32_less_nonneg)
qed

text \<open>
  Reranking keeps exactly the candidates whose chunk is present, each as often as it occurs, and
  returns the first \<open>top_k\<close> of them in an order of non-increasing rating: the bonus for the position and its
  rounding never lift a candidate above a better rated one.
\<close>

lemma rerank_by_rating:
  assumes "llama_rerank gen query candidates chunks top_k = Inr ranked"
  shows "\<exists>all. ranked = take top_k all \<and>
    mset (map hit_chunk_id all) = mset (filter (\<lambda>cid. cid \<in> dom (index_chunks chunks)) (map hit_chunk_id candidates)) \<and>
    sorted_wrt (\<lambda>x y. the (rating gen query chunks (hit_chunk_id y)) \<le> the (rating gen query chunks (hit_chunk_id x))) all"
proof -
  obtain rated where rated: "rate_candidates gen query (index_chunks chunks) 0 candidates = Inr rated"
    "ranked = take top_k (sort_by better rated)"
    using assms by (auto simp: llama_rerank_def res_simps min_def split: if_splits)
  let ?all = "sort_by better rated"
  note sound = rate_candidates_sound [OF rated(1)]
  have ok: "list_all hit_ok rated"
    using sound rerank_score_nonneg f32_nonneg_not_nan by (metis list_all_iff)
  have "mset (map hit_chunk_id ?all) = mset (map hit_chunk_id rated)" by simp
  moreover have "sorted_wrt (\<lambda>x y. the (rating gen query chunks (hit_chunk_id y))
      \<le> the (rating gen query chunks (hit_chunk_id x))) ?all"
  proof (rule sorted_wrt_mono_rel [OF _ hit_order.sort_by_in_order [OF ok]])
    fix x y assume "x \<in> set ?all" "y \<in> set ?all" "\<not> better y x"
    moreover from this(1,2) obtain r1 i r2 j where
      "rating gen query chunks (hit_chunk_id x) = Some (rating_of r1)" "hit_score x = rerank_score r1 i"
      "rating gen query chunks (hit_chunk_id y) = Some (rating_of r2)" "hit_score y = rerank_score r2 j"
      using sound by (metis set_sort_by)
    ultimately show "the (rating gen query chunks (hit_chunk_id y)) \<le> the (rating gen query chunks (hit_chunk_id x))"
      using better_by_rating by simp
  qed
  ultimately show ?thesis using rated(2) sound by (intro exI [of _ ?all]) simp
qed

lemma rerank_by_rating_example:
  "\<exists>ranked all. llama_rerank (\<lambda>prompt opts stop. ([''2''], Inr empty_stats)) ''q''
      [\<lparr>hit_chunk_id = 7, hit_score = 0\<rparr>, \<lparr>hit_chunk_id = 8, hit_score = 0\<rparr>] [sample_chunk] 5 = Inr ranked \<and>
    ranked = take 5 all \<and> mset (map hit_chunk_id all) = {#7#}"
proof -
  let ?hits = "[\<lparr>hit_chunk_id = 7, hit_score = 0\<rparr>, \<lparr>hit_chunk_id = 8, hit_score = 0\<rparr>] :: SearchHit list"
  obtain ranked where r: "llama_rerank (\<lambda>prompt opts stop. ([''2''], Inr empty_stats)) ''q'' ?hits [sample_chunk] 5 = Inr ranked"
    by (simp add: llama_rerank_def ask_rating_def index_chunks_def sample_chunk_def)
  have "dom (index_chunks [sample_chunk]) = {7}" by (simp add: index_chunks_def sample_chunk_def)
  with rerank_by_rating [OF r] r show ?thesis by auto
qed

end
