(* ===== verification/Server.thy ===== *)
theory Server
  imports Http_Server Index_Snapshot Fts_Search Symbol_Repository Reranker
begin

text \<open>
  \<^verbatim>\<open>apps/server/main.cpp\<close>: the server put together. Its five callbacks are defined over the configuration, the
  published snapshot, the tables of the chunk repository and of the symbol repository, and the adapters outside the
  model (embedding and generation models, the full-text engine, the iteration order of hash maps).
\<close>

record 'g server =
  srv_config :: AppConfig
  srv_library :: "'g hnsw_library"
  srv_embed :: embed_function
  srv_generate :: text_generator
  srv_count_tokens :: token_counter
  srv_bm25 :: bm25_rank
  srv_fts_failure :: "exn option"
  srv_iterate :: iteration
  srv_symbols :: symbol_tables

definition default_hybrid :: HybridRetrievalOptions where
  "default_hybrid = \<lparr>vector_candidates = 30, keyword_candidates = 30, rrf_rank_constant = 60\<rparr>"

definition symbol_queries :: "symbol_tables \<Rightarrow> SymbolQueries" where
  "symbol_queries t = \<lparr>find_exact = (\<lambda>name. Inr (symbols_named None t name)),
     outgoing = (\<lambda>i relation. Inr (edges_out None t i relation)),
     incoming = (\<lambda>i relation. Inr (edges_in None t i relation))\<rparr>"

definition server_retriever :: "'g server \<Rightarrow> 'g snapshot index_state \<Rightarrow> 'g snapshot \<Rightarrow> HybridRetriever res" where
  "server_retriever srv st snapshot = make_hybrid
     \<lparr>hybrid_embed = srv_embed srv, hybrid_vector_search = snapshot_search (srv_library srv) snapshot,
      hybrid_keyword_search = fts_search (srv_bm25 srv) (srv_fts_failure srv) (chunk_fts (stored_tables st)),
      hybrid_symbols = (if index_semantic_index_enabled (app_index (srv_config srv))
        then Some (symbol_retrieve (srv_iterate srv) (symbol_queries (srv_symbols srv))) else None),
      hybrid_options = default_hybrid\<rparr>"

text \<open>The connection of the callbacks reads what has been committed.\<close>

definition server_chunks :: "'g snapshot index_state \<Rightarrow> ChunkId list \<Rightarrow> Chunk list" where
  "server_chunks st = sqlite_get_many \<lparr>live = stored_tables st, saved = None\<rparr>"

definition not_built :: exn where
  "not_built = Runtime_error ''repository index has not been built''"

section \<open>The callbacks\<close>

text \<open>A repository that has been opened is healthy.\<close>

definition server_ready :: "'g snapshot index_state \<Rightarrow> bool" where
  "server_ready st = (st_handle st \<noteq> None)"

definition server_model_name :: "'g server \<Rightarrow> string" where
  "server_model_name srv = filename (model_path (app_generation_model (srv_config srv)))"

definition server_update :: "index_env \<Rightarrow> 'g server \<Rightarrow> 'g snapshot index_state \<Rightarrow>
    IndexUpdateResult res \<times> 'g snapshot index_state" where
  "server_update env srv st = (let cfg = app_index (srv_config srv) in
     case make_index_service (filename (model_path (app_embedding_model (srv_config srv)))) of
       Inl e \<Rightarrow> (Inl e, st)
     | Inr model_id \<Rightarrow> update env cfg (configured_kind (srv_library srv) cfg) model_id st)"

definition server_search :: "'g server \<Rightarrow> 'g snapshot index_state \<Rightarrow> string \<Rightarrow> nat \<Rightarrow> SearchResult res" where
  "server_search srv st question top_k = (case st_handle st of
     None \<Rightarrow> Inl not_built
   | Some snapshot \<Rightarrow> res_bind (server_retriever srv st snapshot) (\<lambda>retriever.
       res_bind (hybrid_retrieve (srv_iterate srv) retriever question top_k) (\<lambda>hits.
         Inr \<lparr>result_hits = hits, result_chunks = server_chunks st (map hit_chunk_id hits)\<rparr>)))"

definition server_budget :: "'g server \<Rightarrow> RagPromptBudget" where
  "server_budget srv = \<lparr>model_context = model_context_size (app_generation_model (srv_config srv)),
     reserved_output_tokens = 512, safety_margin_tokens = 64\<rparr>"

definition server_ask_service :: "'g server \<Rightarrow> 'g snapshot index_state \<Rightarrow> HybridRetriever \<Rightarrow> AskService res" where
  "server_ask_service srv st retriever = make_ask_service
     \<lparr>retrieve = hybrid_retrieve (srv_iterate srv) retriever, get_chunks = (\<lambda>ids. Inr (server_chunks st ids)),
      count_tokens = srv_count_tokens srv, generate = srv_generate srv, options = default_generation,
      budget = server_budget srv,
      rerank = (if index_reranker_enabled (app_index (srv_config srv)) then Some (llama_rerank (srv_generate srv)) else None),
      rerank_candidates = index_rerank_candidates (app_index (srv_config srv))\<rparr>"

definition server_ask :: "'g server \<Rightarrow> 'g snapshot index_state \<Rightarrow> string \<Rightarrow> nat \<Rightarrow> (string \<Rightarrow> exn option) option \<Rightarrow> bool \<Rightarrow>
    string list \<times> AskResult res" where
  "server_ask srv st question top_k on_token stop = (case st_handle st of
     None \<Rightarrow> ([], Inl not_built)
   | Some snapshot \<Rightarrow> (case res_bind (server_retriever srv st snapshot) (server_ask_service srv st) of
       Inl e \<Rightarrow> ([], Inl e)
     | Inr svc \<Rightarrow> ask svc question top_k on_token stop))"

text \<open>
  The callbacks as the server gets them. The one that asks is left to the caller: a stop that is requested while
  tokens are written reaches the generator, which \<open>ask\<close> sees as a function.
\<close>

definition server_callbacks :: "index_env \<Rightarrow> 'g server \<Rightarrow> 'g snapshot index_state \<Rightarrow>
    (string \<Rightarrow> nat \<Rightarrow> (nat \<Rightarrow> string \<Rightarrow> bool res) \<Rightarrow> string list \<times> AskResult res) \<Rightarrow> HttpCallbacks" where
  "server_callbacks env srv st asking = \<lparr>cb_ready = server_ready st, cb_model_name = server_model_name srv,
     cb_update_index = fst (server_update env srv st), cb_search = server_search srv st, cb_ask = asking\<rparr>"

section \<open>What is served\<close>

text \<open>A snapshot is published, and it has a vector for exactly the chunks of the database.\<close>

definition serving :: "('g \<Rightarrow> 64 word \<rightharpoonup> Embedding) \<Rightarrow> ('g \<Rightarrow> nat) \<Rightarrow> 'g snapshot index_state \<Rightarrow> bool" where
  "serving stored cap st \<longleftrightarrow> db_inv (stored_tables st) \<and>
     (\<exists>s. st_handle st = Some s \<and> snapshot_ok stored cap s \<and> snapshot_ids s = chunk_ids (stored_tables st))"

lemma updated_serving:
  assumes "library_ok lib stored cap" and "update_conditions env cfg mid st" and "reads_complete env"
    and "update env cfg (configured_kind lib cfg) mid st = (Inr result, st')"
  shows "serving stored cap st'"
proof -
  have "db_inv (stored_tables st')"
    using update_outcome(1) [OF assms(2-4)] by (simp add: index_consistent_def disk_ok_def)
  with published_snapshot [OF assms] show ?thesis by (auto simp: serving_def)
qed

lemma stored_chunk_found:
  assumes "db_inv (live r)"
  shows "sqlite_find r i \<noteq> None \<longleftrightarrow> i \<in> chunk_ids (live r)"
proof (cases "find (\<lambda>c. crow_id c = i) (chunks_table (live r))")
  case None
  then have "i \<notin> chunk_ids (live r)" by (simp add: find_None_image chunk_ids_def)
  with None show ?thesis by (simp add: sqlite_find_def)
next
  case (Some c)
  then have c: "c \<in> set (chunks_table (live r))" "crow_id c = i" using find_SomeD by fastforce+
  then have "crow_document c \<in> doc_id ` set (documents_table (live r))" using assms by (simp add: db_inv_def)
  then have "find (\<lambda>d. doc_id d = crow_document c) (documents_table (live r)) \<noteq> None" by (simp add: find_None_image)
  with Some c show ?thesis by (auto simp: sqlite_find_def chunk_ids_def)
qed

lemma fts_search_ids:
  assumes "db_inv t" and "fts_search bm25 failure (chunk_fts t) query k = Inr hits"
  shows "hit_chunk_id ` set hits \<subseteq> chunk_ids t"
proof (cases "k = 0 \<or> fts_query query = []")
  case False
  define m where "m = matching_rows bm25 (chunk_fts t) (fts_query query)"
  have "hits = map hit_of_row (take k (sort_by ranked_before m))"
    using fts_search_rows [OF assms(2)] False by (simp add: m_def)
  then have "hit_chunk_id ` set hits = fst ` set (take k (sort_by ranked_before m))"
    by (simp add: image_image hit_of_row_def)
  also have "\<dots> \<subseteq> set (map fst m)" using set_take_subset [of k "sort_by ranked_before m"] by (auto simp: image_mono)
  also have "\<dots> \<subseteq> fts_rowid ` set (chunk_fts t)" unfolding m_def matching_rows_ids by blast
  also have "\<dots> \<subseteq> chunk_ids t" using assms(1) fts_rows_of_rowid by (fastforce simp: db_inv_def chunk_ids_def)
  finally show ?thesis .
qed (use assms(2) in \<open>auto simp: fts_search_def Let_def split: if_splits\<close>)

text \<open>Without the symbol graph every hit of the retriever is a stored chunk.\<close>

lemma fused_hit_ids:
  assumes "permutes it" and "reciprocal_rank_fuse it rankings k rc = Inr hits"
  shows "hit_chunk_id ` set hits \<subseteq> (\<Union>l \<in> set rankings. hit_chunk_id ` set l)"
proof (cases "k = 0")
  case False
  then have hits: "hits = rank_scores it k (fused_scores rc rankings)"
    using assms(2) by (auto simp: reciprocal_rank_fuse_def split: if_splits)
  have "hit_chunk_id h \<in> (\<Union>l \<in> set rankings. hit_chunk_id ` set l)" if "h \<in> set hits" for h
    using rank_scores_props(4) [OF assms(1) scores_ok_fused that [unfolded hits]] unfolding fused_lookup
    by (metis option.distinct(1))
  then show ?thesis by blast
qed (use assms(2) in \<open>simp add: reciprocal_rank_fuse_def\<close>)

lemma server_retriever_eq: "server_retriever srv st snapshot = Inr h \<longleftrightarrow>
    h = \<lparr>hybrid_embed = srv_embed srv, hybrid_vector_search = snapshot_search (srv_library srv) snapshot,
      hybrid_keyword_search = fts_search (srv_bm25 srv) (srv_fts_failure srv) (chunk_fts (stored_tables st)),
      hybrid_symbols = (if index_semantic_index_enabled (app_index (srv_config srv))
        then Some (symbol_retrieve (srv_iterate srv) (symbol_queries (srv_symbols srv))) else None),
      hybrid_options = default_hybrid\<rparr>"
  by (auto simp: server_retriever_def make_hybrid_def default_hybrid_def Let_def)

lemma retrieved_ids_stored:
  assumes "library_ok (srv_library srv) stored cap" and "db_inv (stored_tables st)"
    and "snapshot_ok stored cap s" and "snapshot_ids s = chunk_ids (stored_tables st)"
    and "permutes (srv_iterate srv)" and "\<not> index_semantic_index_enabled (app_index (srv_config srv))"
    and "server_retriever srv st s = Inr h" and "hybrid_retrieve (srv_iterate srv) h q k = Inr hits"
  shows "hit_chunk_id ` set hits \<subseteq> chunk_ids (stored_tables st)"
proof -
  note h = assms(7) [unfolded server_retriever_eq]
  obtain v vs ks n m where r: "snapshot_search (srv_library srv) s v n = Inr vs"
    "fts_search (srv_bm25 srv) (srv_fts_failure srv) (chunk_fts (stored_tables st)) q m = Inr ks"
    "reciprocal_rank_fuse (srv_iterate srv) [vs, ks, []] k (rrf_rank_constant default_hybrid) = Inr hits"
    using assms(6,8) by (auto simp: h hybrid_retrieve_def res_simps Let_def split: if_splits)
  have "(\<Union>l \<in> set [vs, ks, []]. hit_chunk_id ` set l) \<subseteq> chunk_ids (stored_tables st)"
    using snapshot_search_ids [OF assms(1,3) r(1)] fts_search_ids [OF assms(2) r(2)] assms(4) by simp
  with fused_hit_ids [OF assms(5) r(3)] show ?thesis by (rule subset_trans)
qed

section \<open>Searches\<close>

lemma server_search_cases:
  assumes "server_search srv st q k = Inr r"
  obtains s h where "st_handle st = Some s" "server_retriever srv st s = Inr h"
    "hybrid_retrieve (srv_iterate srv) h q k = Inr (result_hits r)"
    "result_chunks r = server_chunks st (map hit_chunk_id (result_hits r))"
  using assms that by (auto simp: server_search_def res_simps split: option.splits)

lemma server_chunks_ids:
  assumes "db_inv (stored_tables st)"
  shows "map chunk_id (server_chunks st ids) = filter (\<lambda>i. i \<in> chunk_ids (stored_tables st)) ids"
  using sqlite.get_many_ids [of "\<lparr>live = stored_tables st, saved = None\<rparr>" ids] assms
    stored_chunk_found [of "\<lparr>live = stored_tables st, saved = None\<rparr>"]
  by (simp add: server_chunks_def)

lemma searched_chunks:
  assumes "library_ok (srv_library srv) stored cap" and "serving stored cap st" and "permutes (srv_iterate srv)"
    and "server_search srv st q k = Inr r"
  shows "length (result_hits r) \<le> k \<and> distinct (map hit_chunk_id (result_hits r)) \<and> in_order better (result_hits r) \<and>
    map chunk_id (result_chunks r) = filter (\<lambda>i. i \<in> chunk_ids (stored_tables st)) (map hit_chunk_id (result_hits r)) \<and>
    (\<not> index_semantic_index_enabled (app_index (srv_config srv)) \<longrightarrow>
      map chunk_id (result_chunks r) = map hit_chunk_id (result_hits r))"
proof -
  obtain s h where s: "st_handle st = Some s" "server_retriever srv st s = Inr h"
    "hybrid_retrieve (srv_iterate srv) h q k = Inr (result_hits r)"
    "result_chunks r = server_chunks st (map hit_chunk_id (result_hits r))"
    by (rule server_search_cases [OF assms(4)])
  have inv: "db_inv (stored_tables st)" "snapshot_ok stored cap s" "snapshot_ids s = chunk_ids (stored_tables st)"
    using assms(2) s(1) by (auto simp: serving_def)
  have "filter (\<lambda>i. i \<in> chunk_ids (stored_tables st)) (map hit_chunk_id (result_hits r)) = map hit_chunk_id (result_hits r)"
    if "\<not> index_semantic_index_enabled (app_index (srv_config srv))"
    using retrieved_ids_stored [OF assms(1) inv assms(3) that s(2,3)] by (auto simp: filter_id_conv)
  with hybrid.ranked [OF assms(3) s(3)] server_chunks_ids [OF inv(1)] s(4) show ?thesis by simp
qed

section \<open>Questions\<close>

lemma server_ask_cases:
  assumes "server_ask srv st q k on_token stop = (calls, Inr r)"
  obtains svc where "ask svc q k on_token stop = (calls, Inr r)" "budget svc = server_budget srv"
    "get_chunks svc = (\<lambda>ids. Inr (server_chunks st ids))"
proof -
  obtain s h svc where "server_retriever srv st s = Inr h" "server_ask_service srv st h = Inr svc"
    "ask svc q k on_token stop = (calls, Inr r)"
    using assms by (auto simp: server_ask_def res_simps split: option.splits sum.splits)
  moreover from this(2) have "budget svc = server_budget srv" "get_chunks svc = (\<lambda>ids. Inr (server_chunks st ids))"
    by (auto simp: server_ask_service_def make_ask_service_def split: if_splits)
  ultimately show ?thesis using that by blast
qed

lemma answered_budget:
  assumes "ask svc q k on_token stop = (calls, Inr r)" and "budget svc = server_budget srv"
    and "model_context_size (app_generation_model (srv_config srv)) \<le> size_max"
  shows "answer r = concat calls \<and> 576 < model_context_size (app_generation_model (srv_config srv)) \<and>
    prompt_tokens r + 576 \<le> model_context_size (app_generation_model (srv_config srv))"
proof -
  from ask_result [OF assms(1)] obtain sources prompt where
    a: "build_rag q sources (count_tokens svc) (budget svc) = Inr prompt" "answer r = concat calls"
      "prompt_tokens r = rag_token_count prompt" by (metis AskResult.select_convs(1,4))
  have "576 < model_context_size (app_generation_model (srv_config srv))"
    using a(1) assms(2) by (auto simp: build_rag_def server_budget_def sz_add_def split: if_splits)
  moreover have "rag_token_count prompt + 512 + 64 \<le> model_context_size (app_generation_model (srv_config srv))"
    by (rule build_rag_sound [OF a(1)]) (use assms(2,3) in \<open>simp_all add: server_budget_def\<close>)
  ultimately show ?thesis using a(2,3) by simp
qed
section \<open>A server\<close>

text \<open>Two stored chunks and their vectors, a query that is embedded as one of them, and an answer that cites it.\<close>

definition sample_tables :: tables where
  "sample_tables = live (snd (replace_document Sqlite_Chunks.sample_document 1 (open_repository None)))"

definition sample_vectors :: BruteForceIndex where
  "sample_vectors = \<lparr>index_dimension = 1, records = [\<lparr>record_id = 7, record_values = [0]\<rparr>, \<lparr>record_id = 5, record_values = [0]\<rparr>],
     positions = [7 \<mapsto> 0, 5 \<mapsto> 1]\<rparr>"

definition sample_state :: "(nat \<times> (64 word \<times> Embedding) list) snapshot index_state" where
  "sample_state = \<lparr>st_tables = Some sample_tables, st_files = Map.empty, st_handle = Some (Brute_force_snapshot sample_vectors),
     st_symbols = []\<rparr>"

definition sample_config :: AppConfig where
  "sample_config = \<lparr>app_generation_model = default_model, app_embedding_model = default_model, app_index = default_index,
     app_log_level = ''info''\<rparr>"

definition sample_server :: "(nat \<times> (64 word \<times> Embedding) list) server" where
  "sample_server = \<lparr>srv_config = sample_config, srv_library = list_library, srv_embed = (\<lambda>q kind. Inr [0]),
     srv_generate = (\<lambda>p opts stop. ([''[S1]''], Inr empty_stats)), srv_count_tokens = (\<lambda>t. Inr 3),
     srv_bm25 = (\<lambda>rows e f. None), srv_fts_failure = None, srv_iterate = rev, srv_symbols = no_symbols\<rparr>"

lemma sample_chunk_ids: "chunk_ids sample_tables = {7, 5}" "db_inv sample_tables"
proof -
  show "chunk_ids sample_tables = {7, 5}"
    by (simp add: sample_tables_def chunk_ids_def replace_document_def erase_document_def open_repository_def no_tables_def
      Let_def set_metadata_def insert_document_def Sqlite_Chunks.sample_document_def Sqlite_Chunks.sample_chunk_def
      row_of_chunk_def fts_rows_of_def path_of_document_def next_rowid_def)
  have "reachable_repository (snd (replace_document Sqlite_Chunks.sample_document 1 (open_repository None)))"
    by (rule reachable_repository.replace_call [OF reachable_repository.create])
  then show "db_inv sample_tables" using reachable_repository_inv unfolding sample_tables_def by blast
qed

lemma sample_serving: "serving list_stored fst sample_state"
proof -
  have t: "stored_tables sample_state = sample_tables" by (simp add: stored_tables_def sample_state_def)
  have "bf_valid sample_vectors"
    using sample_vector(1) by (auto simp: bf_valid_def positions_ok_def sample_vectors_def less_Suc_eq nth_Cons' split: if_splits)
  moreover have "dom (bf_contents sample_vectors) = {7, 5}" by (auto simp: bf_contents_def sample_vectors_def split: if_splits)
  ultimately show ?thesis by (simp add: serving_def t sample_chunk_ids) (simp add: sample_state_def)
qed

text \<open>A query is embedded, the vectors are found, and the fusion keeps them.\<close>

lemma fused_hits_nonempty:
  assumes "permutes it" and "0 < k" and "0 < rc" and "l \<in> set rankings" and "l \<noteq> []"
    and "reciprocal_rank_fuse it rankings k rc = Inr hits"
  shows "hits \<noteq> []"
proof -
  have hits: "hits = rank_scores it k (fused_scores rc rankings)" using assms(2,3,6) by (simp add: reciprocal_rank_fuse_def)
  have "(\<Union>l \<in> set rankings. hit_chunk_id ` set l) \<noteq> {}" using assms(4,5) by auto
  then have "0 < card (\<Union>l \<in> set rankings. hit_chunk_id ` set l)" by (simp add: card_gt_0_iff)
  with rank_scores_props(3) [OF assms(1) scores_ok_fused, of k rc rankings] assms(2) show ?thesis
    unfolding hits fused_length by auto
qed

lemma sample_retrieval:
  "\<exists>h hits. server_retriever sample_server sample_state (Brute_force_snapshot sample_vectors) = Inr h \<and>
     hybrid_retrieve rev h ''q'' 3 = Inr hits \<and> hits \<noteq> []"
proof -
  obtain h where h: "server_retriever sample_server sample_state (Brute_force_snapshot sample_vectors) = Inr h"
    using server_retriever_eq by blast
  have "\<forall>r \<in> set (records sample_vectors). vector_ok (length [0 :: float32]) (record_values r)" "is_finite_embedding [0 :: float32]"
    using sample_vector by (simp_all add: sample_vectors_def vector_ok_def)
  note score = score_records_eq [OF this]
  obtain vs where vs: "snapshot_search list_library (Brute_force_snapshot sample_vectors) [0] 30 = Inr vs" "vs \<noteq> []"
    using sample_vector(2) score by (simp add: bf_search_def vector_ok_def sample_vectors_def take_eq_Nil)
  have ks: "\<exists>ks. fts_search (\<lambda>rows e f. None) None rows ''q'' 30 = Inr ks" for rows by (simp add: fts_search_def Let_def)
  obtain ks where ks: "fts_search (\<lambda>rows e f. None) None (chunk_fts (stored_tables sample_state)) ''q'' 30 = Inr ks" using ks by blast
  have "\<exists>hits. reciprocal_rank_fuse rev [vs, ks, []] 3 60 = Inr hits" by (simp add: reciprocal_rank_fuse_def)
  then obtain hits where hits: "reciprocal_rank_fuse rev [vs, ks, []] 3 60 = Inr hits" by blast
  have "hits \<noteq> []" by (rule fused_hits_nonempty [OF permutes_rev _ _ _ vs(2) hits]) simp_all
  moreover have "hybrid_retrieve rev h ''q'' 3 = Inr hits"
    using h hits vs(1) ks by (simp add: server_retriever_eq hybrid_retrieve_def default_hybrid_def sample_server_def
      sample_config_def default_index_def Let_def del: snapshot_search.simps)
  ultimately show ?thesis using h by blast
qed

lemma sample_search: "\<exists>r. server_search sample_server sample_state ''q'' 3 = Inr r \<and> result_hits r \<noteq> []"
proof -
  have "st_handle sample_state = Some (Brute_force_snapshot sample_vectors)" "srv_iterate sample_server = rev"
    by (simp_all add: sample_state_def sample_server_def)
  with sample_retrieval show ?thesis by (auto simp: server_search_def)
qed

lemma cheap_prompt:
  assumes "q \<noteq> []"
  shows "\<exists>prompt. build_rag q sources (\<lambda>t. Inr 3) \<lparr>model_context = 4096, reserved_output_tokens = 512, safety_margin_tokens = 64\<rparr>
    = Inr prompt"
proof -
  have "\<exists>x. add_sources (\<lambda>t. Inr 3) m sfx ss body ret n = Inr x" for m sfx ss body ret n
    by (induction ss arbitrary: body ret n) (auto simp: res_simps)
  from this [of 3520 "render_suffix q" sources kSystem "[]" 0] assms show ?thesis
    by (auto simp: build_rag_def Let_def max_prompt_def sz_add_def sz_sub_def split_beta)
qed

section \<open>Properties\<close>

text \<open>
  After a successful update of the server's index that read the database completely, under whichever configuration, there is a published snapshot of
  the configured kind, and the exact or approximate index in it has a vector for exactly the chunks in the database.
\<close>

lemma updated_index_is_served:
  assumes "library_ok (srv_library srv) stored cap"
    and "update_conditions env (app_index (srv_config srv)) (filename (model_path (app_embedding_model (srv_config srv)))) st"
    and "reads_complete env" and "server_update env srv st = (Inr result, st')"
  shows "server_ready st' \<and> (\<exists>s. st_handle st' = Some s \<and> snapshot_ids s = chunk_ids (stored_tables st') \<and>
    snapshot_ok stored cap s \<and> ((\<exists>h. s = Hnsw_snapshot h) \<longleftrightarrow> index_hnsw_enabled (app_index (srv_config srv))))"
proof -
  have "update env (app_index (srv_config srv)) (configured_kind (srv_library srv) (app_index (srv_config srv)))
      (filename (model_path (app_embedding_model (srv_config srv)))) st = (Inr result, st')"
    using assms(4) by (auto simp: server_update_def make_index_service_def Let_def split: if_splits)
  from published_snapshot [OF assms(1-3) this] show ?thesis by (auto simp: server_ready_def)
qed

lemma updated_index_is_served_example:
  "\<exists>result st'. server_update sample_env (sample_server\<lparr>srv_config := sample_config\<lparr>app_embedding_model :=
      default_model\<lparr>model_path := ''m''\<rparr>\<rparr>\<rparr>) empty_state = (Inr result, st') \<and> server_ready st'"
proof -
  let ?srv = "sample_server\<lparr>srv_config := sample_config\<lparr>app_embedding_model := default_model\<lparr>model_path := ''m''\<rparr>\<rparr>\<rparr>"
  have c: "app_index (srv_config ?srv) = default_index" "srv_library ?srv = list_library"
    "filename (model_path (app_embedding_model (srv_config ?srv))) = ''m''"
    by (simp_all add: sample_config_def sample_server_def filename_def)
  obtain snapshot where "build_snapshot sample_env (configured_kind list_library default_index) Map.empty = Inr snapshot"
    by (simp add: build_snapshot_def configured_kind_def make_snapshot_def make_index_def sample_env_def default_index_def)
  from sample_update_kind [OF this] obtain result st' where
    "update sample_env default_index (configured_kind list_library default_index) ''m'' empty_state = (Inr result, st')" by blast
  then have u: "server_update sample_env ?srv empty_state = (Inr result, st')"
    unfolding server_update_def Let_def c by (simp add: make_index_service_def)
  have "update_conditions sample_env (app_index (srv_config ?srv)) (filename (model_path (app_embedding_model (srv_config ?srv)))) empty_state"
    unfolding c by (rule sample_conditions)
  from updated_index_is_served [OF _ this sample_reads_complete u, unfolded c, OF list_library_ok] u show ?thesis by blast
qed

text \<open>
  C32. While an index is served, a search returns at most \<open>k\<close> hits, best first and none twice, and the chunks it
  returns with them are, in this order, those of the hits that are stored. Without the symbol graph these are all:
  the \<open>n\<close>-th chunk is that of the \<open>n\<close>-th hit, whose score it is shown with.
\<close>

theorem server_search_finds_stored_chunks:
  assumes "library_ok (srv_library srv) stored cap" and "serving stored cap st" and "permutes (srv_iterate srv)"
    and "server_search srv st q k = Inr r"
  shows "length (result_hits r) \<le> k \<and> distinct (map hit_chunk_id (result_hits r)) \<and> in_order better (result_hits r) \<and>
    map chunk_id (result_chunks r) = filter (\<lambda>i. i \<in> chunk_ids (stored_tables st)) (map hit_chunk_id (result_hits r)) \<and>
    (\<not> index_semantic_index_enabled (app_index (srv_config srv)) \<longrightarrow>
      map chunk_id (result_chunks r) = map hit_chunk_id (result_hits r))"
  by (rule searched_chunks [OF assms])

theorem server_search_finds_stored_chunks_witness:
  "\<exists>r. server_search sample_server sample_state ''q'' 3 = Inr r \<and> result_chunks r \<noteq> [] \<and>
     map chunk_id (result_chunks r) = map hit_chunk_id (result_hits r)"
proof -
  obtain r where r: "server_search sample_server sample_state ''q'' 3 = Inr r" "result_hits r \<noteq> []" using sample_search by blast
  have "library_ok (srv_library sample_server) list_stored fst" "permutes (srv_iterate sample_server)"
    "\<not> index_semantic_index_enabled (app_index (srv_config sample_server))"
    using list_library_ok permutes_rev by (simp_all add: sample_server_def sample_config_def default_index_def)
  then have "map chunk_id (result_chunks r) = map hit_chunk_id (result_hits r)"
    using server_search_finds_stored_chunks [OF _ sample_serving _ r(1)] by blast
  with r show ?thesis by (metis map_is_Nil_conv)
qed

text \<open>
  C33. A question is answered only if the context of the generation model has more than 576 tokens; the prompt leaves
  these to the answer and the margin, the answer is what the caller's callback saw, and every citation names the source
  range of a chunk stored in the database.
\<close>

theorem server_answers_are_grounded:
  assumes "server_ask srv st q k on_token stop = (calls, Inr r)"
    and "model_context_size (app_generation_model (srv_config srv)) \<le> size_max"
  shows "576 < model_context_size (app_generation_model (srv_config srv)) \<and>
    prompt_tokens r + 576 \<le> model_context_size (app_generation_model (srv_config srv)) \<and> answer r = concat calls \<and>
    (\<forall>c \<in> set (citations r). \<exists>i ch. sqlite_find \<lparr>live = stored_tables st, saved = None\<rparr> i = Some ch \<and>
       cited_source c = chunk_source ch)"
proof -
  obtain svc where svc: "ask svc q k on_token stop = (calls, Inr r)" "budget svc = server_budget srv"
    "get_chunks svc = (\<lambda>ids. Inr (server_chunks st ids))" by (rule server_ask_cases [OF assms(1)])
  have "\<exists>i ch. sqlite_find \<lparr>live = stored_tables st, saved = None\<rparr> i = Some ch \<and> cited_source c = chunk_source ch"
    if "c \<in> set (citations r)" for c
    using cited_chunk_found [OF svc(1) that] by (auto simp: svc(3) server_chunks_def sqlite.get_many_set)
  with answered_budget [OF svc(1,2) assms(2)] show ?thesis by blast
qed

theorem server_answers_are_grounded_witness:
  "\<exists>r. server_ask sample_server sample_state ''q'' 3 (Some (\<lambda>t. None)) False = ([''[S1]''], Inr r) \<and>
     prompt_tokens r + 576 \<le> 4096 \<and> answer r = ''[S1]''"
proof -
  obtain h hits where h: "server_retriever sample_server sample_state (Brute_force_snapshot sample_vectors) = Inr h"
    "hybrid_retrieve rev h ''q'' 3 = Inr hits" "hits \<noteq> []" using sample_retrieval by blast
  have semantic: "\<not> index_semantic_index_enabled (app_index (srv_config sample_server))" "srv_iterate sample_server = rev"
    "library_ok (srv_library sample_server) list_stored fst" and
    state: "stored_tables sample_state = sample_tables" "st_handle sample_state = Some (Brute_force_snapshot sample_vectors)"
    using list_library_ok by (simp_all add: sample_server_def sample_config_def default_index_def stored_tables_def sample_state_def)
  have s: "snapshot_ok list_stored fst (Brute_force_snapshot sample_vectors)"
    "snapshot_ids (Brute_force_snapshot sample_vectors) = chunk_ids (stored_tables sample_state)"
    using sample_serving state(2) unfolding serving_def by auto
  have inv: "db_inv (stored_tables sample_state)" by (simp add: state(1) sample_chunk_ids(2))
  have "hit_chunk_id ` set hits \<subseteq> chunk_ids (stored_tables sample_state)"
    using retrieved_ids_stored [OF semantic(3) inv s _ semantic(1) h(1), of "''q''" 3 hits] h(2) permutes_rev
    by (simp add: semantic(2))
  moreover obtain x where x: "x \<in> set hits" using h(3) by (cases hits) auto
  ultimately have "sqlite_find \<lparr>live = stored_tables sample_state, saved = None\<rparr> (hit_chunk_id x) \<noteq> None"
    using stored_chunk_found [of "\<lparr>live = stored_tables sample_state, saved = None\<rparr>"] inv by auto
  moreover have "index_chunks (server_chunks sample_state (map hit_chunk_id hits)) (hit_chunk_id x) =
      sqlite_find \<lparr>live = stored_tables sample_state, saved = None\<rparr> (hit_chunk_id x)"
    using sqlite.map_of_get_many [of "\<lparr>live = stored_tables sample_state, saved = None\<rparr>" "hit_chunk_id x" "map hit_chunk_id hits"]
      inv x by (simp add: index_chunks_def server_chunks_def)
  ultimately have "filter (\<lambda>h. index_chunks (server_chunks sample_state (map hit_chunk_id hits)) (hit_chunk_id h) \<noteq> None) hits \<noteq> []"
    using x unfolding filter_empty_conv by metis
  then have sources: "number_sources (index_chunks (server_chunks sample_state (map hit_chunk_id hits))) hits [] \<noteq> []"
    using number_sources_length [of "index_chunks (server_chunks sample_state (map hit_chunk_id hits))" hits "[]"] by fastforce
  obtain svc where svc: "server_ask_service sample_server sample_state h = Inr svc"
    by (simp add: server_ask_service_def make_ask_service_def sample_server_def sample_config_def default_index_def)
  then have fields: "retrieve svc = hybrid_retrieve rev h" "get_chunks svc = (\<lambda>ids. Inr (server_chunks sample_state ids))"
    "count_tokens svc = (\<lambda>t. Inr 3)" "generate svc = (\<lambda>p opts stop. ([''[S1]''], Inr empty_stats))" "rerank svc = None"
    "budget svc = \<lparr>model_context = 4096, reserved_output_tokens = 512, safety_margin_tokens = 64\<rparr>"
    by (auto simp: server_ask_service_def make_ask_service_def sample_server_def sample_config_def default_index_def
      default_model_def server_budget_def)
  have found: "find_sources svc ''q'' 3 = Inr (number_sources (index_chunks (server_chunks sample_state (map hit_chunk_id hits))) hits [])"
    using h(2,3) sources by (simp add: find_sources_def fields)
  obtain prompt where prompt: "build_rag ''q'' (number_sources (index_chunks (server_chunks sample_state (map hit_chunk_id hits))) hits [])
      (\<lambda>t. Inr 3) \<lparr>model_context = 4096, reserved_output_tokens = 512, safety_margin_tokens = 64\<rparr> = Inr prompt"
    using cheap_prompt [of "''q''"] by blast
  have "\<exists>r. ask svc ''q'' 3 (Some (\<lambda>t. None)) False = ([''[S1]''], Inr r)"
    by (simp add: ask_def found fields prompt Let_def)
  then obtain r where "ask svc ''q'' 3 (Some (\<lambda>t. None)) False = ([''[S1]''], Inr r)" by blast
  then have r: "server_ask sample_server sample_state ''q'' 3 (Some (\<lambda>t. None)) False = ([''[S1]''], Inr r)"
    using h(1) svc by (simp add: server_ask_def state(2))
  have "model_context_size (app_generation_model (srv_config sample_server)) = 4096"
    by (simp add: sample_server_def sample_config_def default_model_def)
  with server_answers_are_grounded [OF r] r show ?thesis by simp
qed

text \<open>
  The smallest contexts the configuration allows are too small for the server: every question fails, before a token.
\<close>

lemma server_needs_context:
  assumes "model_context_size (app_generation_model (srv_config srv)) \<le> 576"
  shows "\<exists>e. server_ask srv st q k on_token stop = ([], Inl e)"
proof -
  have "\<exists>e. ask svc q k on_token stop = ([], Inl e)" if "budget svc = server_budget srv" for svc
  proof -
    have "\<exists>e. build_rag q sources (count_tokens svc) (budget svc) = Inl e" for sources
      using assms that by (simp add: build_rag_def server_budget_def sz_add_def)
    then show ?thesis by (auto simp: ask_def split: sum.split) (metis sum.distinct(1))+
  qed
  moreover have "budget svc = server_budget srv" if "server_ask_service srv st h = Inr svc" for h svc
    using that by (auto simp: server_ask_service_def make_ask_service_def split: if_splits)
  ultimately show ?thesis
    by (auto simp: server_ask_def res_simps split: option.split sum.split)
qed

lemma small_context_is_valid:
  "validate_model (default_model\<lparr>model_path := ''m'', model_context_size := 512\<rparr>) ''generation_model'' = Inr ()"
  by (simp add: validate_model_def default_model_def)

end
