(* ===== verification/Sqlite_Calls.thy ===== *)
theory Sqlite_Calls
  imports Fts_Search Symbol_Repository
begin

text \<open>
  How the adapters of \<^verbatim>\<open>src/adapters/sqlite\<close> treat the result codes of the database: each of the three files has the same
  small helpers, which are modelled once. A call is the code it returns; a statement that is stepped is the sequence
  of codes of its steps, each with the row it delivers.
\<close>

abbreviation SQLITE_OK :: int where "SQLITE_OK \<equiv> 0"
abbreviation SQLITE_ROW :: int where "SQLITE_ROW \<equiv> 100"
abbreviation SQLITE_DONE :: int where "SQLITE_DONE \<equiv> 101"

definition check_code :: "string \<Rightarrow> string \<Rightarrow> int \<Rightarrow> unit res" where
  "check_code errmsg operation code = (
     if code \<noteq> SQLITE_OK \<and> code \<noteq> SQLITE_DONE \<and> code \<noteq> SQLITE_ROW
     then Inl (Runtime_error (operation @ '': '' @ errmsg)) else Inr ())"

text \<open>\<open>error\<close> is the message of \<^verbatim>\<open>sqlite3_exec\<close>, if it has one.\<close>

definition execute_code :: "string \<Rightarrow> string option \<Rightarrow> int \<Rightarrow> unit res" where
  "execute_code errmsg error code = (
     if code \<noteq> SQLITE_OK then Inl (Runtime_error (case error of None \<Rightarrow> errmsg | Some m \<Rightarrow> m)) else Inr ())"

definition prepare_code :: "string \<Rightarrow> int \<Rightarrow> unit res" where
  "prepare_code errmsg code = check_code errmsg ''prepare SQL'' code"

text \<open>
  Opening a database: for reading, and that of the symbols, where the directory is created first and two scripts are
  executed, the pragmas and the creation of the tables. \<open>errmsg\<close> is \<open>None\<close> if there is no connection.
\<close>

definition open_fts_code :: "string option \<Rightarrow> int \<Rightarrow> unit res" where
  "open_fts_code errmsg code = (
     if code \<noteq> SQLITE_OK then Inl (Runtime_error (case errmsg of None \<Rightarrow> ''open FTS database failed'' | Some m \<Rightarrow> m)) else Inr ())"

definition open_symbols_code :: "unit res \<Rightarrow> string \<Rightarrow> int \<Rightarrow> string option \<times> int \<Rightarrow> string option \<times> int \<Rightarrow> unit res" where
  "open_symbols_code directories errmsg opened pragmas tables = res_bind directories (\<lambda>_.
     res_bind (check_code errmsg ''open SQLite database'' opened) (\<lambda>_.
     res_bind (execute_code errmsg (fst pragmas) (snd pragmas)) (\<lambda>_.
       execute_code errmsg (fst tables) (snd tables))))"

text \<open>The length of a text is converted to an \<^verbatim>\<open>int\<close> for the database.\<close>

definition bound_length :: "string \<Rightarrow> int" where
  "bound_length v = sint (of_nat (length v) :: 32 word)"

definition bind_text_code :: "(int \<Rightarrow> string \<Rightarrow> int) \<Rightarrow> string \<Rightarrow> unit res" where
  "bind_text_code bind v = (if bind (bound_length v) v \<noteq> SQLITE_OK then Inl (Runtime_error ''bind text failed'') else Inr ())"

section \<open>Stepping through a statement\<close>

text \<open>The rows delivered, and the code of the step that ended the loop. What is after the list are steps that are done.\<close>

fun step_rows :: "(int \<times> 'a) list \<Rightarrow> 'a list \<times> int" where
  "step_rows [] = ([], SQLITE_DONE)"
| "step_rows ((code, row) # steps) = (
     if code = SQLITE_ROW then (case step_rows steps of (rows, last_code) \<Rightarrow> (row # rows, last_code)) else ([], code))"

text \<open>The loop of the full-text search checks the last code, those of the symbol and chunk repositories do not.\<close>

definition checked_rows :: "string \<Rightarrow> (int \<times> 'a) list \<Rightarrow> 'a list res" where
  "checked_rows errmsg steps = (case step_rows steps of (rows, code) \<Rightarrow>
     res_bind (check_code errmsg ''run FTS query'' code) (\<lambda>_. Inr rows))"

definition unchecked_rows :: "(int \<times> 'a) list \<Rightarrow> 'a list" where
  "unchecked_rows steps = fst (step_rows steps)"

text \<open>The statement of the full-text search: prepared, bound twice, stepped. \<open>None\<close> is success.\<close>

definition fts_statement :: "string \<Rightarrow> int \<Rightarrow> int \<Rightarrow> int \<Rightarrow> int \<Rightarrow> exn option" where
  "fts_statement errmsg prepared bound_query bound_limit final = (
     case res_bind (check_code errmsg ''prepare FTS query'' prepared) (\<lambda>_.
       res_bind (check_code errmsg ''bind FTS query'' bound_query) (\<lambda>_.
       res_bind (check_code errmsg ''bind FTS limit'' bound_limit) (\<lambda>_.
         check_code errmsg ''run FTS query'' final))) of Inl e \<Rightarrow> Some e | Inr _ \<Rightarrow> None)"

text \<open>The value of a key of the metadata: nothing, if the step does not deliver a row.\<close>

definition metadata_code :: "int \<Rightarrow> string \<Rightarrow> string" where
  "metadata_code code value = (if code = SQLITE_ROW then value else [])"

section \<open>Errors\<close>

definition succeeded :: "int \<Rightarrow> bool" where
  "succeeded code \<longleftrightarrow> code \<in> {SQLITE_OK, SQLITE_ROW, SQLITE_DONE}"

lemma check_code_iff: "check_code errmsg operation code = Inr () \<longleftrightarrow> succeeded code"
  by (auto simp: check_code_def succeeded_def)

lemma check_code_Inl: "check_code errmsg operation code = Inl e \<longleftrightarrow> \<not> succeeded code \<and> e = Runtime_error (operation @ '': '' @ errmsg)"
  by (auto simp: check_code_def succeeded_def)

lemma fts_statement_None:
  "fts_statement errmsg p q l f = None \<longleftrightarrow> succeeded p \<and> succeeded q \<and> succeeded l \<and> succeeded f"
  by (auto simp: fts_statement_def check_code_def succeeded_def split: sum.split)

lemma step_rows_all:
  "step_rows (map (\<lambda>r. (SQLITE_ROW, r)) rows @ (code, x) # rest) = (if code = SQLITE_ROW
     then (rows @ x # fst (step_rows rest), snd (step_rows rest)) else (rows, code))"
  by (induction rows) (auto split: prod.split)

lemma step_rows_shape:
  "\<exists>rest. steps = map (\<lambda>r. (SQLITE_ROW, r)) (fst (step_rows steps)) @ rest \<and>
     (rest = [] \<and> snd (step_rows steps) = SQLITE_DONE \<or>
      (\<exists>x t. rest = (snd (step_rows steps), x) # t \<and> snd (step_rows steps) \<noteq> SQLITE_ROW))"
proof (induction steps)
  case (Cons s steps)
  show ?case
  proof (cases "fst s = SQLITE_ROW")
    case True
    with Cons show ?thesis by (cases s) (auto split: prod.split)
  next
    case False
    then show ?thesis by (cases s) auto
  qed
qed simp

text \<open>A checked loop delivers every row or fails; an unchecked one delivers what came before the first failure.\<close>

lemma checked_rows_complete:
  assumes "checked_rows errmsg steps = Inr rows"
  shows "succeeded (snd (step_rows steps)) \<and> rows = unchecked_rows steps"
  using assms check_code_iff by (auto simp: checked_rows_def unchecked_rows_def res_simps split: prod.splits)

lemma unchecked_rows_truncate:
  assumes "\<not> succeeded code"
  shows "unchecked_rows (map (\<lambda>r. (SQLITE_ROW, r)) rows @ (code, x) # rest) = rows"
    and "\<exists>e. checked_rows errmsg (map (\<lambda>r. (SQLITE_ROW, r)) rows @ (code, x) # rest) = Inl e"
proof -
  have "code \<noteq> SQLITE_ROW" using assms by (auto simp: succeeded_def)
  then have s: "step_rows (map (\<lambda>r. (SQLITE_ROW, r)) rows @ (code, x) # rest) = (rows, code)" by (simp add: step_rows_all)
  show "unchecked_rows (map (\<lambda>r. (SQLITE_ROW, r)) rows @ (code, x) # rest) = rows" by (simp add: unchecked_rows_def s)
  show "\<exists>e. checked_rows errmsg (map (\<lambda>r. (SQLITE_ROW, r)) rows @ (code, x) # rest) = Inl e"
    using assms by (simp add: checked_rows_def s check_code_def succeeded_def)
qed

text \<open>A text of half the address space of an \<^verbatim>\<open>int\<close> is bound with its length; a longer one with a negative length.\<close>

lemma bound_length_small: "length v < 2 ^ 31 \<Longrightarrow> bound_length v = int (length v)"
  by (simp add: bound_length_def sint_uint unsigned_of_nat signed_take_bit_int_eq_self_iff take_bit_nat_eq_self)

lemma bound_length_wraps: "length v = 2 ^ 31 \<Longrightarrow> bound_length v < 0"
  by (simp add: bound_length_def)

text \<open>Whatever call of the statement fails, a search reports it; it never returns the hits up to the failure.\<close>

lemma fts_search_reports:
  assumes "top_k \<noteq> 0" and "fts_query query \<noteq> []" and "top_k \<le> 2147483647"
  shows "(\<exists>hits. fts_search bm25 (fts_statement errmsg p q l f) rows query top_k = Inr hits) \<longleftrightarrow>
    succeeded p \<and> succeeded q \<and> succeeded l \<and> succeeded f"
  using assms fts_statement_None [of errmsg p q l f]
  by (cases "fts_statement errmsg p q l f") (auto simp: fts_search_def Let_def)

end
