(* ===== verification/Update_Runs.thy ===== *)
theory Update_Runs
  imports Server Sqlite_Calls
begin

text \<open>
  Updates of \<^verbatim>\<open>src/application/index_service.cpp\<close> as sequences of steps. Updates are requested over HTTP and run in
  the threads of the HTTP library, so that several of them, and the end of the process, may come between any two steps.
  The steps are the parts of the index service's \<open>update\<close> that have an effect on what updates share: opening the
  database and reading it, the new vector file, the commit, the symbols, the publication. A step calls the very function
  \<open>update\<close> calls for that part; only the phase between two parts is added.
\<close>

datatype update_phase =
    Starting
  | Planned nat "path list" pending
  | Written nat "path list" pending
  | Committed nat "path list" pending
  | Building nat pending
  | Returned "IndexUpdateResult res"

fun update_step :: "index_env \<Rightarrow> IndexConfig \<Rightarrow> 'i index_kind \<Rightarrow> string \<Rightarrow> update_phase \<Rightarrow> 'i index_state \<Rightarrow>
    update_phase \<times> 'i index_state" where
  "update_step env cfg kind model_id Starting st = (case open_index env cfg st of
     (Inl e, st) \<Rightarrow> (Returned (Inl e), st)
   | (Inr r, st) \<Rightarrow> (case plan_update env cfg (stable_hash_hex model_id) r (st_files st) of
       Inl e \<Rightarrow> (Returned (Inl e), st)
     | Inr (old_gen, removals, s) \<Rightarrow>
         (if pend_replacements s = [] \<and> removals = [] \<and> old_gen \<noteq> 0 then Building old_gen s
          else Planned (sz_add old_gen 1) removals s, st)))"
| "update_step env cfg kind model_id (Planned gen removals s) st = (
     case write_vectors env cfg (stable_hash_hex model_id) gen s st of
       (Some e, st) \<Rightarrow> (Returned (Inl e), st)
     | (None, st) \<Rightarrow> (Written gen removals s, st))"
| "update_step env cfg kind model_id (Written gen removals s) st = (
     case commit_generation env model_id (stable_hash_hex model_id) gen removals s
         \<lparr>live = stored_tables st, saved = None\<rparr> st of
       (Some e, st) \<Rightarrow> (Returned (Inl e), st)
     | (None, st) \<Rightarrow> (Committed gen removals s, st))"
| "update_step env cfg kind model_id (Committed gen removals s) st = (
     case record_symbols env cfg removals s st of
       (Some e, st) \<Rightarrow> (Returned (Inl e), st)
     | (None, st) \<Rightarrow> (Building gen s, st))"
| "update_step env cfg kind model_id (Building gen s) st = (
     case publish_snapshot env kind gen s st of (r, st) \<Rightarrow> (Returned r, st))"
| "update_step env cfg kind model_id (Returned r) st = (Returned r, st)"

fun update_steps :: "nat \<Rightarrow> index_env \<Rightarrow> IndexConfig \<Rightarrow> 'i index_kind \<Rightarrow> string \<Rightarrow> update_phase \<times> 'i index_state \<Rightarrow>
    update_phase \<times> 'i index_state" where
  "update_steps 0 env cfg kind model_id x = x"
| "update_steps (Suc n) env cfg kind model_id (phase, st) =
     update_steps n env cfg kind model_id (update_step env cfg kind model_id phase st)"

section \<open>The steps of an update\<close>

lemma update_steps_Returned [simp]: "update_steps n env cfg kind mid (Returned r, st) = (Returned r, st)"
  by (induction n) simp_all

lemma building_steps:
  "update_steps (Suc n) env cfg kind mid (Building g s, st) =
    (Returned (fst (publish_snapshot env kind g s st)), snd (publish_snapshot env kind g s st))"
  by (simp add: split_beta)

lemma write_vectors_tables: "write_vectors env cfg mh g s st = (e, st') \<Longrightarrow> st_tables st' = st_tables st"
  by (auto simp: write_vectors_def Let_def split: prod.splits sum.splits)

text \<open>The three steps of \<open>write_generation\<close>, and the building of the snapshot.\<close>

lemma writing_steps:
  assumes "st_tables st = Some (live r)" and "saved r = None"
  shows "update_steps (Suc (Suc (Suc (Suc n)))) env cfg kind mid (Planned g removals s, st) =
    (case write_generation env cfg mid (stable_hash_hex mid) g removals s r st of
       (Some e, st) \<Rightarrow> (Returned (Inl e), st)
     | (None, st) \<Rightarrow> (Returned (fst (publish_snapshot env kind g s st)), snd (publish_snapshot env kind g s st)))"
proof -
  have r: "\<lparr>live = live r, saved = None\<rparr> = r" using assms(2) by (cases r) simp
  obtain e1 st1 where w: "write_vectors env cfg (stable_hash_hex mid) g s st = (e1, st1)" by fastforce
  have "\<lparr>live = stored_tables st1, saved = None\<rparr> = r"
    using write_vectors_tables [OF w] assms(1) r by (simp add: stored_tables_def)
  then show ?thesis
    by (cases e1) (auto simp: write_generation_def w split_beta split: prod.split option.split)
qed

text \<open>Run alone, five of the steps make the whole update.\<close>

lemma update_in_five_steps:
  "update_steps 5 env cfg kind mid (Starting, st) =
    (Returned (fst (update env cfg kind mid st)), snd (update env cfg kind mid st))"
proof -
  have five: "(5 :: nat) = Suc (Suc (Suc (Suc (Suc 0))))" by simp
  obtain o1 st1 where o: "open_index env cfg st = (o1, st1)" by fastforce
  show ?thesis
  proof (cases o1)
    case (Inl e)
    then show ?thesis unfolding five by (simp add: update_def o)
  next
    case start: (Inr r)
    have st1: "st_tables st1 = Some (live r)" "saved r = None" using open_index_ok [OF o [unfolded start]] by simp_all
    show ?thesis
    proof (cases "plan_update env cfg (stable_hash_hex mid) r (st_files st1)")
      case (Inl e)
      then show ?thesis unfolding five by (simp add: update_def o start Let_def)
    next
      case (Inr plan)
      obtain g removals s where plan: "plan = (g, removals, s)" by (cases plan) auto
      define unchanged where "unchanged \<longleftrightarrow> pend_replacements s = [] \<and> removals = [] \<and> g \<noteq> 0"
      have up: "update env cfg kind mid st = (let G = (if unchanged then g else sz_add g 1) in
          case (if unchanged then (None, st1) else write_generation env cfg mid (stable_hash_hex mid) G removals s r st1) of
            (Some e, st) \<Rightarrow> (Inl e, st)
          | (None, st) \<Rightarrow> publish_snapshot env kind G s st)"
        unfolding update_def o start prod.case sum.case Let_def Inr plan unchanged_def ..
      have "update_step env cfg kind mid Starting st =
          (if unchanged then Building g s else Planned (sz_add g 1) removals s, st1)"
        using Inr by (simp add: o start plan unchanged_def)
      then have steps: "update_steps 5 env cfg kind mid (Starting, st) =
          update_steps (Suc (Suc (Suc (Suc 0)))) env cfg kind mid
            (if unchanged then Building g s else Planned (sz_add g 1) removals s, st1)"
        unfolding five update_steps.simps(2) by simp
      show ?thesis
      proof (cases unchanged)
        case True
        then show ?thesis unfolding steps up by (simp only: if_True building_steps Let_def) simp
      next
        case False
        then show ?thesis unfolding steps up
          by (simp only: if_False writing_steps [OF st1] Let_def) (simp split: prod.split option.split)
      qed
    qed
  qed
qed

section \<open>Updates beside each other\<close>

text \<open>
  The updates called since the process was started, in the order of their calls, each with what it gets from outside.
  The process may end at any moment; what it leaves of a file it was writing is a temporary file. With \<open>exclusive\<close> an
  update is called only when no other is under way; the source has no such exclusion. The updates considered (\<open>acceptable\<close>)
  may fail anywhere, but none of their queries is cut short unnoticed: what becomes of one that is, is shown below.
\<close>

record 'i system =
  sys_index :: "'i index_state"
  sys_updates :: "(index_env \<times> update_phase) list"

fun returned :: "update_phase \<Rightarrow> bool" where
  "returned (Returned r) = True"
| "returned _ = False"

definition acceptable :: "index_env \<Rightarrow> IndexConfig \<Rightarrow> string \<Rightarrow> 'i index_state \<Rightarrow> bool" where
  "acceptable env cfg model_id st \<longleftrightarrow> order_ok env \<and> scan_ok env \<and> active_generation (stored_tables st) \<noteq> Inr size_max
     \<and> reads_complete env
     \<and> (\<forall>g removals s. plan_update env cfg (stable_hash_hex model_id) (open_repository (st_tables st))
          (remove_temporaries (index_data_dir cfg) (st_files st)) = Inr (g, removals, s) \<longrightarrow>
          no_collision (stored_tables st) (pend_replacements s))"

inductive system_step :: "bool \<Rightarrow> IndexConfig \<Rightarrow> 'i index_kind \<Rightarrow> string \<Rightarrow> 'i system \<Rightarrow> 'i system \<Rightarrow> bool"
  for exclusive :: bool and cfg :: IndexConfig and kind :: "'i index_kind" and model_id :: string where
  call: "acceptable env cfg model_id (sys_index s) \<Longrightarrow>
    (exclusive \<Longrightarrow> \<forall>(e, phase) \<in> set (sys_updates s). returned phase) \<Longrightarrow>
    system_step exclusive cfg kind model_id s (s\<lparr>sys_updates := sys_updates s @ [(env, Starting)]\<rparr>)"
| advance: "i < length (sys_updates s) \<Longrightarrow> sys_updates s ! i = (env, phase) \<Longrightarrow>
    update_step env cfg kind model_id phase (sys_index s) = (phase', st') \<Longrightarrow>
    system_step exclusive cfg kind model_id s \<lparr>sys_index = st', sys_updates = (sys_updates s)[i := (env, phase')]\<rparr>"
| crash: "(\<And>p. extension p \<noteq> ''.tmp'' \<Longrightarrow> fs p = st_files (sys_index s) p) \<Longrightarrow>
    system_step exclusive cfg kind model_id s
      \<lparr>sys_index = (sys_index s)\<lparr>st_files := fs, st_handle := None\<rparr>, sys_updates = []\<rparr>"

abbreviation system_run :: "bool \<Rightarrow> IndexConfig \<Rightarrow> 'i index_kind \<Rightarrow> string \<Rightarrow> 'i system \<Rightarrow> 'i system \<Rightarrow> bool" where
  "system_run exclusive cfg kind model_id \<equiv> (system_step exclusive cfg kind model_id)\<^sup>*\<^sup>*"

inductive_cases system_stepE: "system_step exclusive cfg kind mid s s'"

definition idle :: "'i index_state \<Rightarrow> 'i system" where
  "idle st = \<lparr>sys_index = st, sys_updates = []\<rparr>"

section \<open>One update at a time\<close>

text \<open>What holds before each step of an update that nothing else interferes with.\<close>

fun phase_ok :: "IndexConfig \<Rightarrow> string \<Rightarrow> 'i index_state \<Rightarrow> index_env \<Rightarrow> update_phase \<Rightarrow> bool" where
  "phase_ok cfg mid st env Starting = (update_conditions env cfg mid st \<and> reads_complete env)"
| "phase_ok cfg mid st env (Planned g removals s) =
     (\<exists>old. g = old + 1 \<and> plan_ready env cfg (stored_tables st) (st_files st) old removals s)"
| "phase_ok cfg mid st env (Written g removals s) =
     (\<exists>old. g = old + 1 \<and> plan_ready env cfg (stored_tables st) (st_files st) old removals s \<and>
       (\<exists>m. read_file (vector_path (index_data_dir cfg) g) (st_files st) = Inr (m, stored_vectors env (pend_vectors s))))"
| "phase_ok cfg mid st env (Committed g removals s) =
     (order_ok env \<and> finite (dom (pend_vectors s)) \<and> dom (pend_vectors s) = chunk_ids (stored_tables st))"
| "phase_ok cfg mid st env (Building g s) =
     (order_ok env \<and> finite (dom (pend_vectors s)) \<and> dom (pend_vectors s) = chunk_ids (stored_tables st))"
| "phase_ok cfg mid st env (Returned r) = True"

lemma plan_readyD:
  assumes "plan_ready env cfg t fs g removals s"
  shows "disk_ok (index_data_dir cfg) t fs" "order_ok env" "active_generation t = Inr g" "g < size_max"
    "distinct (map sdoc_path (pend_replacements s))" "finite (dom (pend_vectors s))"
    "dom (pend_vectors s) = (\<Union>sd \<in> ran (final_documents (document_map t) removals (pend_replacements s)). document_chunk_ids sd)"
    "\<forall>d \<in> set (pend_replacements s). CHR 0x00 \<notin> set (sdoc_path d) \<and> CHR 0x00 \<notin> set (sdoc_hash d)"
  using assms unfolding plan_ready_def by blast+

lemma plan_ready_frame:
  assumes "plan_ready env cfg t fs g removals s" and "disk_ok (index_data_dir cfg) t fs'"
  shows "plan_ready env cfg t fs' g removals s"
  using assms unfolding plan_ready_def by blast

text \<open>If nothing has to be written the plan leaves the documents as they are.\<close>

lemma unchanged_plan_ids:
  assumes "plan_ready env cfg t fs g [] s" and "pend_replacements s = []"
  shows "dom (pend_vectors s) = chunk_ids t"
proof -
  have "db_inv t" using plan_readyD(1) [OF assms(1)] by (simp add: disk_ok_def)
  then show ?thesis
    using plan_readyD(7) [OF assms(1)] chunk_ids_documents by (simp add: assms(2) final_documents_def)
qed

lemma starting_step:
  assumes "phase_ok cfg mid st env Starting" and "update_step env cfg kind mid Starting st = (phase', st')"
  shows "index_consistent (index_data_dir cfg) st' \<and> phase_ok cfg mid st' env phase'"
proof -
  let ?r = "open_repository (st_tables st)" and ?fs = "remove_temporaries (index_data_dir cfg) (st_files st)"
  have cond: "update_conditions env cfg mid st" and reads: "reads_complete env" using assms(1) by simp_all
  then have consistent: "index_consistent (index_data_dir cfg) st" by (simp add: update_conditions_def)
  obtain o1 st1 where o: "open_index env cfg st = (o1, st1)" by fastforce
  show ?thesis
  proof (cases o1)
    case (Inl e)
    with assms(2) o open_index_failed(2) [OF o [unfolded Inl] consistent] show ?thesis by auto
  next
    case start: (Inr r)
    from open_index_ok [OF o [unfolded start]] have r: "r = ?r" "st1 = st\<lparr>st_files := ?fs, st_tables := Some (live ?r)\<rparr>"
      by simp_all
    have st1: "stored_tables st1 = live ?r" "st_files st1 = ?fs" by (simp_all add: r stored_tables_def)
    have "disk_ok (index_data_dir cfg) (stored_tables st) (st_files st)" using consistent by (simp add: index_consistent_def)
    then have "disk_ok (index_data_dir cfg) (stored_tables st) ?fs" by (rule disk_ok_frame) simp
    from open_repository_ok(1) [OF this] have ok: "index_consistent (index_data_dir cfg) st1"
      by (simp add: index_consistent_def st1)
    show ?thesis
    proof (cases "plan_update env cfg (stable_hash_hex mid) ?r ?fs")
      case (Inl e)
      then have "phase' = Returned (Inl e)" "st' = st1" using assms(2) o start st1 r(1) by simp_all
      with ok show ?thesis by simp
    next
      case (Inr plan)
      obtain g removals s where plan: "plan = (g, removals, s)" by (cases plan) auto
      note p = planned_ready [OF cond reads Inr [unfolded plan]]
      have g: "g < size_max" by (rule plan_readyD(4) [OF p])
      have step: "st' = st1" "phase' = (if pend_replacements s = [] \<and> removals = [] \<and> g \<noteq> 0 then Building g s
          else Planned (sz_add g 1) removals s)"
        using assms(2) o start Inr st1 r(1) by (simp_all add: plan)
      show ?thesis
      proof (cases "pend_replacements s = [] \<and> removals = [] \<and> g \<noteq> 0")
        case True
        with unchanged_plan_ids [of env cfg "live ?r" ?fs g s] plan_readyD(2,6) [OF p] p ok step st1
        show ?thesis by auto
      next
        case False
        with p ok step st1 g show ?thesis by auto
      qed
    qed
  qed
qed

lemma planned_step:
  assumes "phase_ok cfg mid st env (Planned g removals s)"
    and "update_step env cfg kind mid (Planned g removals s) st = (phase', st')"
  shows "index_consistent (index_data_dir cfg) st' \<and> phase_ok cfg mid st' env phase'"
proof -
  let ?d = "index_data_dir cfg"
    and ?m = "\<lparr>meta_dimension = of_nat (ie_dimension env), meta_model_hash = stable_hash_hex mid\<rparr>"
  obtain old where old: "g = old + 1" "plan_ready env cfg (stored_tables st) (st_files st) old removals s"
    using assms(1) by auto
  obtain res fs where w: "write_atomic (vector_path ?d g) ?m (stored_vectors env (pend_vectors s)) (ie_write env) (st_files st)
      = (res, fs)" by fastforce
  have "fs (vector_path ?d old) = st_files st (vector_path ?d old)"
    using write_atomic_frame [OF w] vector_path_neq [of old g ?d] old(1) by simp
  then have disk: "disk_ok ?d (stored_tables st) fs"
    using disk_ok_frame [OF plan_readyD(1) [OF old(2)], of fs] plan_readyD(3) [OF old(2)] by simp
  then have ok: "index_consistent ?d (st\<lparr>st_files := fs\<rparr>)" by (simp add: index_consistent_def stored_tables_def)
  show ?thesis
  proof (cases res)
    case (Inl e)
    with assms(2) w ok show ?thesis by (auto simp: write_vectors_def Let_def)
  next
    case (Inr u)
    then have read: "read_file (vector_path ?d g) fs = Inr (?m, stored_vectors env (pend_vectors s))"
      using write_then_read [of "vector_path ?d g" ?m _ _ _ fs] w stable_hash_hex_no_nul by simp
    with assms(2) w Inr have step: "phase' = Written g removals s" "st' = st\<lparr>st_files := fs\<rparr>" by (auto simp: write_vectors_def Let_def)
    have "plan_ready env cfg (stored_tables st') (st_files st') old removals s"
      using plan_ready_frame [OF old(2) disk] by (simp add: step stored_tables_def)
    with ok read old(1) step show ?thesis by auto
  qed
qed

lemma written_step:
  assumes "phase_ok cfg mid st env (Written g removals s)"
    and "update_step env cfg kind mid (Written g removals s) st = (phase', st')"
  shows "index_consistent (index_data_dir cfg) st' \<and> phase_ok cfg mid st' env phase'"
proof -
  let ?d = "index_data_dir cfg" and ?r = "\<lparr>live = stored_tables st, saved = None\<rparr>"
  obtain old m where old: "g = old + 1" "plan_ready env cfg (stored_tables st) (st_files st) old removals s"
    and read: "read_file (vector_path ?d g) (st_files st) = Inr (m, stored_vectors env (pend_vectors s))"
    using assms(1) by auto
  note ready = plan_readyD [OF old(2)]
  obtain res r where tx: "transaction (ie_database_fault env)
      (update_calls env mid (stable_hash_hex mid) removals (pend_replacements s) g) ?r = (res, r)" by fastforce
  show ?thesis
  proof (cases res)
    case (Inl e)
    with transaction_cases [OF _ tx] have "live r = stored_tables st" by simp
    with assms(2) tx Inl ready(1) show ?thesis by (auto simp: commit_generation_def index_consistent_def stored_tables_def)
  next
    case (Inr u)
    have inv: "db_inv (live ?r)" "clean_tables (live ?r)" using ready(1) by (simp_all add: disk_ok_def)
    have "g \<le> size_max" using old(1) ready(4) by simp
    note c = generation_committed [OF tx [unfolded Inr] _ inv ready(5) this ready(8), simplified]
    have dom: "dom (pend_vectors s) = chunk_ids (live r)"
      using ready(7) c(4) chunk_ids_documents [OF c(1)] by simp
    then have "stored_id ` set (stored_vectors env (pend_vectors s)) = chunk_ids (live r)"
      using stored_vectors_ids [OF ready(2,6)] by simp
    with c(1,2,3) read \<open>g \<le> size_max\<close> old(1) have "disk_ok ?d (live r) (st_files st)" by (intro disk_okI [of _ g]) auto
    moreover have "phase' = Committed g removals s" "st' = st\<lparr>st_tables := Some (live r)\<rparr>" using assms(2) tx Inr by (auto simp: commit_generation_def)
    ultimately show ?thesis using dom ready(2,6) by (simp add: index_consistent_def stored_tables_def)
  qed
qed

lemma later_steps:
  assumes "phase_ok cfg mid st env phase" and "index_consistent (index_data_dir cfg) st"
    and "update_step env cfg kind mid phase st = (phase', st')"
    and "phase = Committed g removals s \<or> phase = Building g s \<or> phase = Returned r"
  shows "index_consistent (index_data_dir cfg) st' \<and> phase_ok cfg mid st' env phase'"
  using assms by (auto simp: record_symbols_def publish_snapshot_def index_consistent_def stored_tables_def split: option.splits sum.splits prod.splits)

lemma update_step_ok:
  assumes "phase_ok cfg mid st env phase" and "index_consistent (index_data_dir cfg) st"
    and "update_step env cfg kind mid phase st = (phase', st')"
  shows "index_consistent (index_data_dir cfg) st' \<and> phase_ok cfg mid st' env phase'"
proof (cases phase)
  case Starting
  with assms show ?thesis using starting_step by blast
next
  case Planned
  with assms show ?thesis using planned_step by blast
next
  case Written
  with assms show ?thesis using written_step by blast
qed (use assms later_steps in blast)+

text \<open>Every update but the last one called has returned, and the last one is where its phase says.\<close>

definition one_at_a_time :: "IndexConfig \<Rightarrow> string \<Rightarrow> 'i system \<Rightarrow> bool" where
  "one_at_a_time cfg mid s \<longleftrightarrow> index_consistent (index_data_dir cfg) (sys_index s) \<and>
     (\<forall>(e, phase) \<in> set (butlast (sys_updates s)). returned phase) \<and>
     (\<forall>(e, phase) \<in> set (sys_updates s). phase_ok cfg mid (sys_index s) e phase)"

lemma returned_phase_ok: "returned phase \<Longrightarrow> phase_ok cfg mid st env phase"
  by (cases phase) simp_all

lemma returned_step: "returned phase \<Longrightarrow> update_step env cfg kind mid phase st = (phase, st)"
  by (cases phase) simp_all

lemma called_alone:
  assumes "one_at_a_time cfg mid s" and "acceptable env cfg mid (sys_index s)"
    and "\<forall>(e, phase) \<in> set (sys_updates s). returned phase"
  shows "one_at_a_time cfg mid (s\<lparr>sys_updates := sys_updates s @ [(env, Starting)]\<rparr>)"
  using assms by (auto simp: one_at_a_time_def acceptable_def update_conditions_def)

lemma last_unless_returned:
  assumes "\<forall>(e, phase) \<in> set (butlast us). returned phase" and "i < length us" and "us ! i = (env, phase)" and "\<not> returned phase"
  shows "us = butlast us @ [(env, phase)] \<and> i = length (butlast us)"
proof -
  have ne: "us \<noteq> []" using assms(2) by auto
  have "\<not> i < length (butlast us)"
  proof
    assume i: "i < length (butlast us)"
    then have "butlast us ! i \<in> set (butlast us)" by simp
    moreover have "butlast us ! i = (env, phase)" using i assms(3) by (simp add: nth_butlast)
    ultimately show False using assms(1,4) by auto
  qed
  then have "i = length (butlast us)" using assms(2) by simp
  moreover have "last us = (env, phase)" using assms(3) ne calculation by (simp add: last_conv_nth)
  ultimately show ?thesis using ne by (metis append_butlast_last_id)
qed

lemma advanced_alone:
  assumes "one_at_a_time cfg mid s" and "i < length (sys_updates s)" and "sys_updates s ! i = (env, phase)"
    and step: "update_step env cfg kind mid phase (sys_index s) = (phase', st')"
  shows "one_at_a_time cfg mid \<lparr>sys_index = st', sys_updates = (sys_updates s)[i := (env, phase')]\<rparr>"
proof (cases "returned phase")
  case True
  then have "phase' = phase" "st' = sys_index s" using step by (simp_all add: returned_step)
  with assms(1-3) show ?thesis by (metis list_update_id system.surjective unit.exhaust)
next
  case False
  let ?b = "butlast (sys_updates s)"
  have old: "\<forall>(e, phase) \<in> set ?b. returned phase" using assms(1) by (simp add: one_at_a_time_def)
  from last_unless_returned [OF old assms(2,3) False]
  have u: "sys_updates s = ?b @ [(env, phase)]" "i = length ?b" by simp_all
  have "phase_ok cfg mid (sys_index s) env phase" "index_consistent (index_data_dir cfg) (sys_index s)"
    using assms(1-3) nth_mem [OF assms(2)] by (auto simp: one_at_a_time_def)
  note ok = update_step_ok [OF this step]
  have "(sys_updates s)[i := (env, phase')] = ?b @ [(env, phase')]" by (metis u list_update_length)
  with ok old show ?thesis by (auto simp: one_at_a_time_def intro: returned_phase_ok)
qed

lemma crashed_alone:
  assumes "one_at_a_time cfg mid s" and "\<And>p. extension p \<noteq> ''.tmp'' \<Longrightarrow> fs p = st_files (sys_index s) p"
  shows "one_at_a_time cfg mid \<lparr>sys_index = (sys_index s)\<lparr>st_files := fs, st_handle := None\<rparr>, sys_updates = []\<rparr>"
proof -
  have "disk_ok (index_data_dir cfg) (stored_tables (sys_index s)) (st_files (sys_index s))"
    using assms(1) by (simp add: one_at_a_time_def index_consistent_def)
  then have "disk_ok (index_data_dir cfg) (stored_tables (sys_index s)) fs"
    by (rule disk_ok_frame) (simp add: assms(2) vector_path_extension)
  then show ?thesis by (simp add: one_at_a_time_def index_consistent_def stored_tables_def)
qed

text \<open>The index a finished update has published is that of the database.\<close>

definition last_update_served :: "('g \<Rightarrow> 64 word \<rightharpoonup> Embedding) \<Rightarrow> ('g \<Rightarrow> nat) \<Rightarrow> 'g snapshot system \<Rightarrow> bool" where
  "last_update_served stored cap s \<longleftrightarrow>
     (\<forall>us env result. sys_updates s = us @ [(env, Returned (Inr result))] \<longrightarrow> serving stored cap (sys_index s))"

lemma building_serves:
  assumes "library_ok lib stored cap" and "index_consistent (index_data_dir cfg) st" and "phase_ok cfg mid st env phase"
    and "\<not> returned phase" and "update_step env cfg (configured_kind lib cfg) mid phase st = (Returned (Inr result), st')"
  shows "serving stored cap st'"
proof -
  obtain g s snapshot where p: "phase = Building g s" "build_snapshot env (configured_kind lib cfg) (pend_vectors s) = Inr snapshot"
    "st' = st\<lparr>st_handle := Some snapshot\<rparr>"
    using assms(4,5) by (cases phase) (auto simp: publish_snapshot_def Let_def split: sum.splits prod.splits option.splits if_splits)
  then have "order_ok env" "finite (dom (pend_vectors s))" "dom (pend_vectors s) = chunk_ids (stored_tables st)"
    using assms(3) by simp_all
  with built_snapshot_ok [OF assms(1) this(1,2) p(2)] assms(2) p(3) show ?thesis
    by (simp add: serving_def stored_tables_def index_consistent_def disk_ok_def)
qed

lemma serving_step:
  assumes lib: "library_ok lib stored cap" and "system_step True cfg (configured_kind lib cfg) mid s s'"
    and "one_at_a_time cfg mid s" and "last_update_served stored cap s"
  shows "one_at_a_time cfg mid s' \<and> last_update_served stored cap s'"
  using assms(2)
proof (cases rule: system_step.cases)
  case (call env)
  then show ?thesis using called_alone [OF assms(3)] by (simp add: last_update_served_def)
next
  case (advance i env phase phase' st')
  note one = advanced_alone [OF assms(3) advance(2-4)]
  have "serving stored cap st'" if us: "(sys_updates s)[i := (env, phase')] = us @ [(e, Returned (Inr result))]" for us e result
  proof (cases "returned phase")
    case True
    with advance(3,4) have "phase' = phase" "st' = sys_index s" by (simp_all add: returned_step)
    with us advance(3) assms(4) show ?thesis unfolding last_update_served_def by (metis list_update_id)
  next
    case False
    have "\<forall>(e, phase) \<in> set (butlast (sys_updates s)). returned phase" using assms(3) by (simp add: one_at_a_time_def)
    from last_unless_returned [OF this advance(2,3) False]
    have "(sys_updates s)[i := (env, phase')] = butlast (sys_updates s) @ [(env, phase')]" by (metis list_update_length)
    then have "phase' = Returned (Inr result)" using us by simp
    moreover have "phase_ok cfg mid (sys_index s) env phase" "index_consistent (index_data_dir cfg) (sys_index s)"
      using assms(3) advance(3) nth_mem [OF advance(2)] by (auto simp: one_at_a_time_def)
    ultimately show ?thesis using building_serves [OF lib] False advance(4) by blast
  qed
  with one advance(1) show ?thesis by (auto simp: last_update_served_def)
next
  case (crash fs)
  then show ?thesis using crashed_alone [OF assms(3)] by (simp add: last_update_served_def)
qed

lemma exclusive_run_ok:
  assumes "system_run True cfg (configured_kind lib cfg) mid s s'" and "library_ok lib stored cap"
    and "one_at_a_time cfg mid s" and "last_update_served stored cap s"
  shows "one_at_a_time cfg mid s' \<and> last_update_served stored cap s'"
  using assms by (induction rule: rtranclp_induct) (use serving_step in blast)+

section \<open>Two updates at a time\<close>

text \<open>
  Two updates of an empty index; between their scans a file appears. Both write the first generation.
\<close>

text \<open>Steps of the first and of the second of two updates.\<close>

lemma first_advances:
  assumes "update_step e cfg kind mid p st = (p', st')"
  shows "system_step x cfg kind mid \<lparr>sys_index = st, sys_updates = [(e, p), u]\<rparr> \<lparr>sys_index = st', sys_updates = [(e, p'), u]\<rparr>"
  using system_step.advance [of 0 "\<lparr>sys_index = st, sys_updates = [(e, p), u]\<rparr>" e p] assms by simp

lemma second_advances:
  assumes "update_step e cfg kind mid p st = (p', st')"
  shows "system_step x cfg kind mid \<lparr>sys_index = st, sys_updates = [u, (e, p)]\<rparr> \<lparr>sys_index = st', sys_updates = [u, (e, p')]\<rparr>"
  using system_step.advance [of 1 "\<lparr>sys_index = st, sys_updates = [u, (e, p)]\<rparr>" e p] assms by simp

lemma both_acceptable:
  fixes st :: "'i index_state"
  assumes "st = empty_state"
  shows "acceptable sample_env default_index ''m'' st" "acceptable later_env default_index ''m'' st"
  using sample_conditions [where 'a = 'i] later_conditions [where 'i = 'i] sample_reads_complete later_reads(2)
  by (auto simp: assms acceptable_def update_conditions_def)

lemma both_called:
  "system_run False default_index kind ''m'' (idle empty_state)
    \<lparr>sys_index = empty_state, sys_updates = [(sample_env, Starting), (later_env, Starting)]\<rparr>"
proof -
  have "system_step False default_index kind ''m'' (idle empty_state) ((idle empty_state)\<lparr>sys_updates := [(sample_env, Starting)]\<rparr>)"
    using system_step.call [of sample_env default_index "''m''" "idle empty_state" False] both_acceptable(1) [OF refl] by (simp add: idle_def)
  moreover have "system_step False default_index kind ''m'' ((idle empty_state)\<lparr>sys_updates := [(sample_env, Starting)]\<rparr>)
      \<lparr>sys_index = empty_state, sys_updates = [(sample_env, Starting), (later_env, Starting)]\<rparr>"
    using system_step.call [of later_env default_index "''m''" "(idle empty_state)\<lparr>sys_updates := [(sample_env, Starting)]\<rparr>" False]
      both_acceptable(2) [OF refl] by (simp add: idle_def)
  ultimately show ?thesis by (meson converse_rtranclp_into_rtranclp r_into_rtranclp)
qed

text \<open>Both scan; the second writes its vectors, the first overwrites the file with its own.\<close>

lemma both_written:
  assumes c: "chunk_file (ie_read later_env) ''/r/a.c'' ''a.c'' ''c''
    (default_chunking\<lparr>max_lines := 80, overlap_lines := 16\<rparr>) = Inr [c]"
  shows "\<exists>st. system_run False default_index kind ''m'' (idle empty_state)
      \<lparr>sys_index = st, sys_updates = [(sample_env, Written 1 [] empty_pending), (later_env, Written 1 [] (new_pending c))]\<rparr> \<and>
    read_file first_vectors (st_files st) = Inr (first_meta, []) \<and> stored_tables st = live (open_repository None)"
proof -
  let ?d = "index_data_dir default_index" and ?r = "open_repository None"
  let ?step = "\<lambda>env. update_step env default_index kind ''m''"
  define st1 where "st1 = (empty_state :: 'a index_state)\<lparr>st_files := remove_temporaries ?d Map.empty, st_tables := Some (live ?r)\<rparr>"
  define st2 where "st2 = st1\<lparr>st_files := remove_temporaries ?d (st_files st1)\<rparr>"
  have a1: "?step sample_env Starting empty_state = (Planned 1 [] empty_pending, st1)"
    by (simp add: sample_open empty_state_def sample_plan two_pendings st1_def)
  have b1: "?step later_env Starting st1 = (Planned 1 [] (new_pending c), st2)"
    by (simp add: later_open st1_def st2_def reopened later_plan [OF c] two_pendings)
  obtain fs3 where fs3: "write_atomic first_vectors first_meta [\<lparr>stored_id = chunk_id c, stored_values = [f32_one, f32_one]\<rparr>]
      no_failures (st_files st2) = (Inr (), fs3)"
    using first_write [of "[\<lparr>stored_id = chunk_id c, stored_values = [f32_one, f32_one]\<rparr>]"] by auto
  have b2: "?step later_env (Planned 1 [] (new_pending c)) st2 = (Written 1 [] (new_pending c), st2\<lparr>st_files := fs3\<rparr>)"
    using fs3 write_then_read [OF fs3] stable_hash_hex_no_nul
    by (simp add: write_vectors_def Let_def later_fields two_pendings two_environments)
  obtain fs4 where fs4: "write_atomic first_vectors first_meta [] no_failures fs3 = (Inr (), fs4)" using first_write [of "[]"] by auto
  have read: "read_file first_vectors fs4 = Inr (first_meta, [])" using write_then_read [OF fs4] stable_hash_hex_no_nul by simp
  have a2: "?step sample_env (Planned 1 [] empty_pending) (st2\<lparr>st_files := fs3\<rparr>) = (Written 1 [] empty_pending, st2\<lparr>st_files := fs4\<rparr>)"
    using fs4 read by (simp add: write_vectors_def Let_def two_pendings two_environments)
  have "system_run False default_index kind ''m'' (idle empty_state) \<lparr>sys_index = st2\<lparr>st_files := fs4\<rparr>,
      sys_updates = [(sample_env, Written 1 [] empty_pending), (later_env, Written 1 [] (new_pending c))]\<rparr>"
    using both_called [of kind] first_advances [OF a1, of False "(later_env, Starting)"]
      second_advances [OF b1, of False "(sample_env, Planned 1 [] empty_pending)"]
      second_advances [OF b2, of False "(sample_env, Planned 1 [] empty_pending)"]
      first_advances [OF a2, of False "(later_env, Written 1 [] (new_pending c))"]
    by (meson rtranclp.rtrancl_into_rtrancl)
  moreover have "stored_tables (st2\<lparr>st_files := fs4\<rparr>) = live ?r" by (simp add: st2_def st1_def stored_tables_def)
  ultimately show ?thesis using read by (intro exI [of _ "st2\<lparr>st_files := fs4\<rparr>"]) simp
qed

text \<open>Then both commit: the database has a chunk that the active vector file does not know.\<close>

lemma both_committed:
  assumes read: "read_file first_vectors (st_files st) = Inr (first_meta, [])" and t: "stored_tables st = live (open_repository None)"
  shows "\<exists>st'. system_run False default_index kind ''m''
      \<lparr>sys_index = st, sys_updates = [(sample_env, Written 1 [] empty_pending), (later_env, Written 1 [] (new_pending c))]\<rparr>
      \<lparr>sys_index = st', sys_updates = [(sample_env, Committed 1 [] empty_pending), (later_env, Committed 1 [] (new_pending c))]\<rparr> \<and>
    \<not> index_consistent (index_data_dir default_index) st'"
proof -
  let ?d = "index_data_dir default_index" and ?r = "open_repository None" and ?h = "stable_hash_hex ''m''"
  have "disk_ok ?d (stored_tables (empty_state :: 'a index_state)) (st_files (empty_state :: 'a index_state))"
    using sample_conditions [where 'a = 'a] by (simp add: update_conditions_def index_consistent_def)
  from open_repository_ok(1) [OF this] have opened: "disk_ok ?d (live ?r) Map.empty" by (simp add: empty_state_def)
  have rows: "documents_table (live ?r) = []" "chunks_table (live ?r) = []" "db_inv (live ?r)" "clean_tables (live ?r)"
    using opened by (simp_all add: open_repository_def no_tables_def set_metadata_def Let_def disk_ok_def)
  obtain r4 where r4: "transaction (\<lambda>n. None) (update_calls sample_env ''m'' ?h [] [] 1) \<lparr>live = live ?r, saved = None\<rparr> = (Inr (), r4)"
    "documents_table (live r4) = []" "chunks_table (live r4) = []" using first_commit(1) [OF rows(1,2)] by blast
  obtain r5 where r5: "transaction (\<lambda>n. None) (update_calls later_env ''m'' ?h [] [new_document c] 1) \<lparr>live = live r4, saved = None\<rparr>
      = (Inr (), r5)" using first_commit(2) [OF r4(2,3)] by blast
  define st5 where "st5 = st\<lparr>st_tables := Some (live r5)\<rparr>"
  have a3: "update_step sample_env default_index kind ''m'' (Written 1 [] empty_pending) st
      = (Committed 1 [] empty_pending, st\<lparr>st_tables := Some (live r4)\<rparr>)"
    using r4(1) t by (simp add: commit_generation_def two_environments two_pendings)
  have b3: "update_step later_env default_index kind ''m'' (Written 1 [] (new_pending c)) (st\<lparr>st_tables := Some (live r4)\<rparr>)
      = (Committed 1 [] (new_pending c), st5)"
    using r5 by (simp add: commit_generation_def later_fields two_pendings st5_def stored_tables_def)
  have clean: "\<forall>d \<in> set [new_document c]. CHR 0x00 \<notin> set (sdoc_path d) \<and> CHR 0x00 \<notin> set (sdoc_hash d)"
    by (simp add: new_document_def stable_hash_hex_no_nul)
  note c4 = generation_committed [OF r4(1), simplified, OF rows(3,4)]
  note c5 = generation_committed [OF r5, simplified, OF c4(1,2) clean [simplified]]
  have "document_map (live r5) ''a.c'' = Some (as_stored (new_document c))"
    unfolding c5(4) by (simp add: final_documents_def new_document_def)
  then have "as_stored (new_document c) \<in> ran (document_map (live r5))" by (rule ranI)
  moreover have "chunk_id c \<in> document_chunk_ids (as_stored (new_document c))"
    by (simp add: document_chunk_ids_def as_stored_def new_document_def)
  ultimately have "chunk_ids (live r5) \<noteq> {}" unfolding chunk_ids_documents [OF c5(1)] by blast
  then have "\<not> index_consistent ?d st5" using c5(3) read by (simp add: disk_ok_def index_consistent_def st5_def stored_tables_def)
  moreover note first_advances [OF a3, of False "(later_env, Written 1 [] (new_pending c))"]
    second_advances [OF b3, of False "(sample_env, Committed 1 [] empty_pending)"]
  ultimately show ?thesis by (meson rtranclp.rtrancl_into_rtrancl rtranclp.rtrancl_refl)
qed

text \<open>Both succeed.\<close>

lemma both_returned:
  "\<exists>st' r1 r2. system_run False default_index brute_force_kind ''m''
      \<lparr>sys_index = st, sys_updates = [(sample_env, Committed 1 [] empty_pending), (later_env, Committed 1 [] (new_pending c))]\<rparr>
      \<lparr>sys_index = st', sys_updates = [(sample_env, Returned (Inr r1)), (later_env, Returned (Inr r2))]\<rparr> \<and>
    stored_tables st' = stored_tables st \<and> st_files st' = st_files st"
proof -
  let ?step = "\<lambda>env. update_step env default_index brute_force_kind ''m''"
  obtain n5 n6 where n: "build_snapshot sample_env brute_force_kind Map.empty = Inr n5"
    "build_snapshot later_env brute_force_kind [chunk_id c \<mapsto> [f32_one, f32_one]] = Inr n6"
    using later_snapshot [of "chunk_id c"] that
    by (simp add: build_snapshot_def [of sample_env] brute_force_kind_def make_index_def two_environments) blast
  define st6 where "st6 = st\<lparr>st_handle := Some n5\<rparr>"
  define st7 where "st7 = st6\<lparr>st_handle := Some n6\<rparr>"
  have steps: "?step sample_env (Committed 1 [] empty_pending) st = (Building 1 empty_pending, st)"
    "?step later_env (Committed 1 [] (new_pending c)) st = (Building 1 (new_pending c), st)"
    by (simp_all add: record_symbols_def two_environments)
  obtain r1 where a: "?step sample_env (Building 1 empty_pending) st = (Returned (Inr r1), st6)"
    using n(1) by (simp add: publish_snapshot_def two_pendings st6_def)
  obtain r2 where b: "?step later_env (Building 1 (new_pending c)) st6 = (Returned (Inr r2), st7)"
    using n(2) by (simp add: publish_snapshot_def two_pendings st7_def)
  have "system_run False default_index brute_force_kind ''m''
      \<lparr>sys_index = st, sys_updates = [(sample_env, Committed 1 [] empty_pending), (later_env, Committed 1 [] (new_pending c))]\<rparr>
      \<lparr>sys_index = st7, sys_updates = [(sample_env, Returned (Inr r1)), (later_env, Returned (Inr r2))]\<rparr>"
    using first_advances [OF steps(1), of False "(later_env, Committed 1 [] (new_pending c))"]
      second_advances [OF steps(2), of False "(sample_env, Building 1 empty_pending)"]
      first_advances [OF a, of False "(later_env, Building 1 (new_pending c))"]
      second_advances [OF b, of False "(sample_env, Returned (Inr r1))"]
    by (meson rtranclp.rtrancl_into_rtrancl rtranclp.rtrancl_refl)
  moreover have "stored_tables st7 = stored_tables st" "st_files st7 = st_files st"
    by (simp_all add: st7_def st6_def stored_tables_def)
  ultimately show ?thesis by blast
qed

lemma overlapping_updates_lose_vectors:
  "\<exists>st r1 r2. system_run False default_index brute_force_kind ''m'' (idle empty_state)
      \<lparr>sys_index = st, sys_updates = [(sample_env, Returned (Inr r1)), (later_env, Returned (Inr r2))]\<rparr> \<and>
    \<not> index_consistent (index_data_dir default_index) st"
proof -
  obtain c where c: "chunk_file (ie_read later_env) ''/r/a.c'' ''a.c'' ''c''
    (default_chunking\<lparr>max_lines := 80, overlap_lines := 16\<rparr>) = Inr [c]" using new_file_chunk by blast
  obtain st where w: "system_run False default_index brute_force_kind ''m'' (idle empty_state)
      \<lparr>sys_index = st, sys_updates = [(sample_env, Written 1 [] empty_pending), (later_env, Written 1 [] (new_pending c))]\<rparr>"
    "read_file first_vectors (st_files st) = Inr (first_meta, [])" "stored_tables st = live (open_repository None)"
    using both_written [OF c] by blast
  obtain st' where k: "system_run False default_index brute_force_kind ''m''
      \<lparr>sys_index = st, sys_updates = [(sample_env, Written 1 [] empty_pending), (later_env, Written 1 [] (new_pending c))]\<rparr>
      \<lparr>sys_index = st', sys_updates = [(sample_env, Committed 1 [] empty_pending), (later_env, Committed 1 [] (new_pending c))]\<rparr>"
    "\<not> index_consistent (index_data_dir default_index) st'" using both_committed [OF w(2,3)] by blast
  obtain st2 r1 r2 where r: "system_run False default_index brute_force_kind ''m''
      \<lparr>sys_index = st', sys_updates = [(sample_env, Committed 1 [] empty_pending), (later_env, Committed 1 [] (new_pending c))]\<rparr>
      \<lparr>sys_index = st2, sys_updates = [(sample_env, Returned (Inr r1)), (later_env, Returned (Inr r2))]\<rparr>"
    "stored_tables st2 = stored_tables st'" "st_files st2 = st_files st'" using both_returned [of st' c] by blast
  have "\<not> index_consistent (index_data_dir default_index) st2" using k(2) r(2,3) by (simp add: index_consistent_def)
  with rtranclp_trans [OF rtranclp_trans [OF w(1) k(1)] r(1)] show ?thesis by blast
qed

text \<open>An update alone is a run of the system.\<close>

lemma steps_alone:
  "update_steps n env cfg kind mid (phase, st) = (phase', st') \<Longrightarrow>
    system_run x cfg kind mid \<lparr>sys_index = st, sys_updates = [(env, phase)]\<rparr> \<lparr>sys_index = st', sys_updates = [(env, phase')]\<rparr>"
proof (induction n arbitrary: phase st)
  case (Suc n)
  obtain p1 st1 where one: "update_step env cfg kind mid phase st = (p1, st1)" by fastforce
  have "system_step x cfg kind mid \<lparr>sys_index = st, sys_updates = [(env, phase)]\<rparr> \<lparr>sys_index = st1, sys_updates = [(env, p1)]\<rparr>"
    using system_step.advance [of 0 "\<lparr>sys_index = st, sys_updates = [(env, phase)]\<rparr>" env phase] one by simp
  moreover have "update_steps n env cfg kind mid (p1, st1) = (phase', st')" using Suc.prems one by simp
  ultimately show ?case using Suc.IH by (meson converse_rtranclp_into_rtranclp)
qed simp

lemma update_alone:
  assumes "acceptable env cfg mid st" and "update env cfg kind mid st = (res, st')"
  shows "system_run x cfg kind mid (idle st) \<lparr>sys_index = st', sys_updates = [(env, Returned res)]\<rparr>"
proof -
  have "system_step x cfg kind mid (idle st) \<lparr>sys_index = st, sys_updates = [(env, Starting)]\<rparr>"
    using system_step.call [of env cfg mid "idle st" x] assms(1) by (simp add: idle_def)
  moreover have "update_steps 5 env cfg kind mid (Starting, st) = (Returned res, st')"
    using update_in_five_steps [of env cfg kind mid st] assms(2) by simp
  ultimately show ?thesis using steps_alone by (meson converse_rtranclp_into_rtranclp)
qed

section \<open>A query that is cut short\<close>

text \<open>
  The value of a metadata key is read by a step whose failure is taken for an absent key (\<open>metadata_read\<close>). An update
  that so misses the active generation reads no vectors, and embeds none for a file that has not changed.
\<close>

definition stored_unchanged :: "index_env \<Rightarrow> FileScanResult \<Rightarrow> tables \<Rightarrow> bool" where
  "stored_unchanged env sc t \<longleftrightarrow> dom (document_map t) \<subseteq> file_relative_path ` set (scan_files sc) \<and>
     (\<forall>f \<in> set (scan_files sc). \<exists>content sd. ie_read env (file_absolute_path f) = Some content \<and>
        document_map t (file_relative_path f) = Some sd \<and> sdoc_hash sd = stable_hash_hex content)"

lemma index_files_unchanged:
  assumes "\<forall>f \<in> set fs. \<exists>content sd. ie_read env (file_absolute_path f) = Some content \<and>
    old (file_relative_path f) = Some sd \<and> sdoc_hash sd = stable_hash_hex content"
  shows "\<exists>s'. index_files env cfg r old fs s = Inr s' \<and> pend_vectors s' = pend_vectors s \<and>
    pend_replacements s' = pend_replacements s \<and> set (pend_present s') = file_relative_path ` set fs \<union> set (pend_present s) \<and>
    pend_result s' = (pend_result s)\<lparr>res_unchanged := res_unchanged (pend_result s) + length fs\<rparr>"
  using assms
proof (induction fs arbitrary: s)
  case (Cons f fs)
  then obtain content sd where f: "ie_read env (file_absolute_path f) = Some content" "old (file_relative_path f) = Some sd"
    "sdoc_hash sd = stable_hash_hex content" by (meson list.set_intros(1))
  define s1 where "s1 = s\<lparr>pend_present := file_relative_path f # pend_present s,
    pend_result := (pend_result s)\<lparr>res_unchanged := res_unchanged (pend_result s) + 1\<rparr>\<rparr>"
  have "index_file env cfg r old f s = Inr s1" using f by (simp add: index_file_def content_hash_def Let_def s1_def)
  moreover obtain s' where "index_files env cfg r old fs s1 = Inr s'" "pend_vectors s' = pend_vectors s1"
    "pend_replacements s' = pend_replacements s1" "set (pend_present s') = file_relative_path ` set fs \<union> set (pend_present s1)"
    "pend_result s' = (pend_result s1)\<lparr>res_unchanged := res_unchanged (pend_result s1) + length fs\<rparr>"
    using Cons.IH [of s1] Cons.prems by auto
  ultimately show ?case by (auto simp: s1_def)
qed simp

lemma remove_none: "set ps \<subseteq> set (pend_present s) \<Longrightarrow> remove_missing env r ps s = Inr ([], s)"
  by (induction ps) auto

lemma unread_generation_plan:
  assumes inv: "db_inv (live r)" "clean_tables (live r)" and scan: "ie_scan env = Inr sc"
    and same: "stored_unchanged env sc (live r)" and docs: "ie_reads env Read_documents = Read_all"
    and cut: "ie_reads env (Read_metadata ''active_vector_generation'') = Read_stopped 0"
  shows "\<exists>s. plan_update env cfg h r fs = res_bind (check_metadata env h r) (\<lambda>_. Inr (0, [], s)) \<and>
    pend_vectors s = Map.empty \<and> pend_replacements s = [] \<and>
    pend_result s = \<lparr>res_added = 0, res_changed = 0, res_removed = 0, res_unchanged = length (scan_files sc),
      res_embedded = 0, res_generation = 0\<rparr>"
proof -
  let ?s = "\<lparr>pend_present = [], pend_result = \<lparr>res_added = 0, res_changed = 0, res_removed = 0, res_unchanged = 0,
    res_embedded = 0, res_generation = 0\<rparr>, pend_vectors = Map.empty, pend_replacements = [], pend_symbols = []\<rparr>"
  have "\<exists>content d. ie_read env (file_absolute_path f) = Some content \<and> old_documents r (file_relative_path f) = Some d \<and>
      sdoc_hash d = stable_hash_hex content" if f: "f \<in> set (scan_files sc)" for f
  proof -
    obtain content sd where c: "ie_read env (file_absolute_path f) = Some content"
      "document_map (live r) (file_relative_path f) = Some sd" "sdoc_hash sd = stable_hash_hex content"
      using same f by (auto simp: stored_unchanged_def)
    then obtain d where d: "old_documents r (file_relative_path f) = Some d"
      using old_documents_None [OF inv] by (metis not_None_eq)
    with c old_documents_Some [OF inv d] show ?thesis by auto
  qed
  then obtain s where s: "index_files env cfg r (old_documents r) (scan_files sc) ?s = Inr s" "pend_vectors s = Map.empty"
    "pend_replacements s = []" "set (pend_present s) = file_relative_path ` set (scan_files sc)"
    "pend_result s = (pend_result ?s)\<lparr>res_unchanged := length (scan_files sc)\<rparr>"
    using index_files_unchanged [of "scan_files sc" env "old_documents r" cfg r ?s] by auto
  have "set (map sdoc_path (documents r)) \<subseteq> set (pend_present s)"
    using same unfolding documents_paths_dom [OF inv] s(4) by (simp add: stored_unchanged_def)
  note gone = remove_none [OF this, of env r]
  have "read_value env ''active_vector_generation'' r = Inr []" by (simp add: read_value_def cut)
  then have "plan_update env cfg h r fs = res_bind (check_metadata env h r) (\<lambda>_. Inr (0, [], s))"
    by (simp add: plan_update_def generation_of_def load_old_vectors_def scan docs s(1) gone)
  with s show ?thesis by auto
qed

lemma write_generation_None:
  assumes "write_generation env cfg mid mh g removals s r st = (None, st')"
  shows "\<exists>fs r' made. write_atomic (vector_path (index_data_dir cfg) g) \<lparr>meta_dimension = of_nat (ie_dimension env), meta_model_hash = mh\<rparr>
      (stored_vectors env (pend_vectors s)) (ie_write env) (st_files st) = (Inr (), fs) \<and>
    transaction (ie_database_fault env) (update_calls env mid mh removals (pend_replacements s) g) r = (Inr (), r') \<and>
    st' = st\<lparr>st_files := fs, st_tables := Some (live r'), st_symbols := made\<rparr>"
  using assms by (auto simp: write_generation_steps Let_def split: prod.splits sum.splits)

text \<open>What such an update did if it returned.\<close>

lemma unread_generation_update:
  assumes "index_consistent (index_data_dir cfg) st"
    and cut: "ie_reads env (Read_metadata ''active_vector_generation'') = Read_stopped 0" "ie_reads env Read_documents = Read_all"
    and scan: "ie_scan env = Inr sc" "stored_unchanged env sc (stored_tables st)"
    and up: "update env cfg kind mid st = (Inr result, st')"
  obtains st1 fs r' made snapshot where
    "write_atomic (vector_path (index_data_dir cfg) 1) \<lparr>meta_dimension = of_nat (ie_dimension env), meta_model_hash = stable_hash_hex mid\<rparr>
      (stored_vectors env Map.empty) (ie_write env) (st_files st1) = (Inr (), fs)"
    "transaction (ie_database_fault env) (update_calls env mid (stable_hash_hex mid) [] [] 1) (open_repository (st_tables st)) = (Inr (), r')"
    "build_snapshot env kind Map.empty = Inr snapshot"
    "result = \<lparr>res_added = 0, res_changed = 0, res_removed = 0, res_unchanged = length (scan_files sc),
      res_embedded = 0, res_generation = 1\<rparr>"
    "st' = st1\<lparr>st_files := fs, st_tables := Some (live r'), st_symbols := made, st_handle := Some snapshot\<rparr>"
proof -
  let ?r = "open_repository (st_tables st)" and ?h = "stable_hash_hex mid"
  have "disk_ok (index_data_dir cfg) (stored_tables st) (st_files st)" using assms(1) by (simp add: index_consistent_def)
  note opened = open_repository_ok [OF this]
  have inv: "db_inv (live ?r)" "clean_tables (live ?r)" using opened(1) by (simp_all add: disk_ok_def)
  obtain o1 st1 where o1: "open_index env cfg st = (o1, st1)" by fastforce
  then obtain r0 where r0: "o1 = Inr r0" using up by (cases o1) (simp_all add: update_def)
  with o1 have o: "open_index env cfg st = (Inr ?r, st1)" using open_index_ok [OF o1 [unfolded r0]] by simp
  have "stored_unchanged env sc (live ?r)" using scan(2) opened(2) by (simp add: stored_unchanged_def)
  from unread_generation_plan [OF inv scan(1) this cut(2,1), of cfg ?h "st_files st1"]
  obtain s where plan: "plan_update env cfg ?h ?r (st_files st1) = res_bind (check_metadata env ?h ?r) (\<lambda>_. Inr (0, [], s))"
    and s: "pend_vectors s = Map.empty" "pend_replacements s = []"
      "pend_result s = \<lparr>res_added = 0, res_changed = 0, res_removed = 0, res_unchanged = length (scan_files sc),
        res_embedded = 0, res_generation = 0\<rparr>" by blast
  have "update env cfg kind mid st = (case check_metadata env ?h ?r of Inl e \<Rightarrow> (Inl e, st1)
      | Inr _ \<Rightarrow> (case write_generation env cfg mid ?h 1 [] s ?r st1 of
          (Some e, st) \<Rightarrow> (Inl e, st) | (None, st) \<Rightarrow> publish_snapshot env kind 1 s st))"
    by (cases "check_metadata env ?h ?r")
      (simp_all add: update_def o plan Let_def sz_add_def split: prod.split option.split)
  with up obtain st2 where wg: "write_generation env cfg mid ?h 1 [] s ?r st1 = (None, st2)"
    and pub: "publish_snapshot env kind 1 s st2 = (Inr result, st')"
    by (auto split: sum.splits prod.splits option.splits)
  from write_generation_None [OF wg] that pub show thesis
    by (auto simp: publish_snapshot_def s split: sum.splits)
qed

text \<open>A second update of the repository with one file, during which no metadata can be read.\<close>

fun cut_reads :: "repository_read \<Rightarrow> read_outcome" where
  "cut_reads (Read_metadata key) = Read_stopped 0"
| "cut_reads _ = Read_all"

lemma cut_environment:
  "order_ok (later_env\<lparr>ie_reads := cut_reads\<rparr>)"
  "ie_reads (later_env\<lparr>ie_reads := cut_reads\<rparr>) (Read_metadata key) = Read_stopped 0"
  "ie_reads (later_env\<lparr>ie_reads := cut_reads\<rparr>) Read_documents = Read_all"
  "ie_scan (later_env\<lparr>ie_reads := cut_reads\<rparr>) = Inr (no_files\<lparr>scan_files := [new_file]\<rparr>)"
  using sample_order_ok by (simp_all add: order_ok_def later_fields)

definition indexed_once :: "(nat \<times> (64 word \<times> Embedding) list) snapshot index_state \<Rightarrow> IndexUpdateResult \<Rightarrow> bool" where
  "indexed_once st r1 \<longleftrightarrow>
     update later_env default_index (configured_kind list_library default_index) ''m'' empty_state = (Inr r1, st)"

lemma first_snapshot:
  "\<exists>n. build_snapshot later_env (configured_kind list_library default_index) [i \<mapsto> [f32_one, f32_one]] = Inr n"
proof -
  have "is_finite_embedding [f32_one, f32_one]"
    by (simp add: is_finite_embedding_def f32_isfinite_def fp_isfinite_def fp_mag_def binary32_def)
  then show ?thesis
    by (simp add: build_snapshot_def configured_kind_def make_snapshot_def make_index_def default_index_def
      two_environments later_fields bf_upsert_def)
qed

lemma indexed_onceD:
  assumes "indexed_once st r1"
  shows "update later_env default_index (configured_kind list_library default_index) ''m'' empty_state = (Inr r1, st)"
    "index_consistent (index_data_dir default_index) st" "chunk_ids (stored_tables st) \<noteq> {}"
    "stored_unchanged (later_env\<lparr>ie_reads := cut_reads\<rparr>) (no_files\<lparr>scan_files := [new_file]\<rparr>) (stored_tables st)"
proof -
  show up: "update later_env default_index (configured_kind list_library default_index) ''m'' empty_state = (Inr r1, st)"
    using assms by (simp add: indexed_once_def)
  note outcome = update_outcome [OF later_conditions later_reads(2) up]
  show "index_consistent (index_data_dir default_index) st" by (rule outcome(1))
  obtain c where c: "chunk_file (ie_read later_env) ''/r/a.c'' ''a.c'' ''c''
    (default_chunking\<lparr>max_lines := 80, overlap_lines := 16\<rparr>) = Inr [c]" using new_file_chunk by blast
  have none: "st_tables (empty_state :: (nat \<times> (64 word \<times> Embedding) list) snapshot index_state) = None"
    by (simp add: empty_state_def)
  have docs: "document_map (stored_tables st) = final_documents (document_map no_tables) [] [new_document c]"
    and dom: "dom (pend_vectors (new_pending c)) = chunk_ids (stored_tables st)"
    using outcome(3) [OF refl] unfolding none later_plan [OF c] sample_tables by (auto simp: two_pendings)
  show "chunk_ids (stored_tables st) \<noteq> {}" unfolding dom [symmetric] by (simp add: two_pendings)
  have "document_map (stored_tables st) = [''a.c'' \<mapsto> as_stored (new_document c)]"
    unfolding docs by (auto simp: final_documents_def new_document_def document_map_def no_tables_def)
  then show "stored_unchanged (later_env\<lparr>ie_reads := cut_reads\<rparr>) (no_files\<lparr>scan_files := [new_file]\<rparr>) (stored_tables st)"
    by (simp add: stored_unchanged_def new_file_def no_files_def as_stored_def new_document_def) (simp add: later_env_def)
qed

lemma cut_update:
  "\<exists>r1 st result st'. indexed_once st r1 \<and> update (later_env\<lparr>ie_reads := cut_reads\<rparr>) default_index
     (configured_kind list_library default_index) ''m'' st = (Inr result, st')"
proof -
  let ?env = "later_env\<lparr>ie_reads := cut_reads\<rparr>" and ?kind = "configured_kind list_library default_index"
    and ?h = "stable_hash_hex ''m''" and ?d = "index_data_dir default_index"
  obtain r1 st where once: "indexed_once st r1" using later_update_kind [OF first_snapshot] unfolding indexed_once_def by blast
  note st = indexed_onceD [OF once]
  let ?r = "open_repository (st_tables st)"
  define st1 where "st1 = st\<lparr>st_files := remove_temporaries ?d (st_files st), st_tables := Some (live ?r)\<rparr>"
  have o: "open_index ?env default_index st = (Inr ?r, st1)" by (simp add: open_index_def later_fields st1_def Let_def)
  have "disk_ok ?d (stored_tables st) (st_files st)" using st(2) by (simp add: index_consistent_def)
  note opened = open_repository_ok [OF this]
  have inv: "db_inv (live ?r)" "clean_tables (live ?r)" using opened(1) by (simp_all add: disk_ok_def)
  have "stored_unchanged ?env (no_files\<lparr>scan_files := [new_file]\<rparr>) (live ?r)" using st(4) opened(2) by (simp add: stored_unchanged_def)
  from unread_generation_plan [OF inv cut_environment(4) this cut_environment(3,2), of default_index ?h "st_files st1"]
  obtain s where plan: "plan_update ?env default_index ?h ?r (st_files st1)
      = res_bind (check_metadata ?env ?h ?r) (\<lambda>_. Inr (0, [], s))" "pend_vectors s = Map.empty" "pend_replacements s = []" by blast
  have check: "check_metadata ?env ?h ?r = Inr ()" by (simp add: check_metadata_def read_value_def)
  obtain fs where w: "write_atomic first_vectors first_meta [] no_failures (st_files st1) = (Inr (), fs)"
    using first_write [of "[]"] by auto
  have read: "read_file first_vectors fs = Inr (first_meta, [])" using write_then_read [OF w] stable_hash_hex_no_nul by simp
  have "saved ?r = None" by (simp add: open_repository_def Let_def set_metadata_def)
  then obtain r' where tx: "transaction (\<lambda>n. None) (update_calls ?env ''m'' ?h [] [] 1) ?r = (Inr (), r')"
    by (simp add: transaction_def begin_tx_def commit_tx_def update_calls_def set_metadata_def)
  have e: "ie_dimension ?env = 2" "ie_write ?env = no_failures" "ie_database_fault ?env = (\<lambda>n. None)"
    "symbol_calls ?env default_index [] s = []" "stored_vectors ?env Map.empty = []"
    by (simp_all add: later_fields symbol_calls_def default_index_def stored_vectors_def sample_env_def)
  have wg: "write_generation ?env default_index ''m'' ?h 1 [] s ?r st1 = (None, st1\<lparr>st_files := fs, st_tables := Some (live r')\<rparr>)"
    unfolding write_generation_steps Let_def plan(2,3) e of_nat_numeral using w read tx by simp
  obtain n where "build_snapshot ?env ?kind Map.empty = Inr n"
    by (simp add: build_snapshot_def configured_kind_def make_snapshot_def make_index_def default_index_def later_fields sample_env_def)
  then have "\<exists>result st'. update ?env default_index ?kind ''m'' st = (Inr result, st')"
    using plan check wg by (simp add: update_def o publish_snapshot_def sz_add_def Let_def del: One_nat_def)
  with once show ?thesis by blast
qed

section \<open>Properties\<close>

text \<open>
  C23. As long as updates do not overlap, the persistent index is consistent in every state the server can be in: between
  any two steps of an update, after any failure an update notices, after the process ended anywhere and was started again.
  Once the last update called has succeeded, what is served is exactly the index of the stored chunks, whatever became of
  the earlier ones. The updates are \<open>acceptable\<close>: none of the queries that decide about vectors is cut short unnoticed.
\<close>

theorem exclusive_updates_are_safe:
  assumes "system_run True cfg (configured_kind lib cfg) mid (idle st) s"
    and "index_consistent (index_data_dir cfg) st" and "library_ok lib stored cap"
  shows "index_consistent (index_data_dir cfg) (sys_index s) \<and>
    (\<forall>us env result. sys_updates s = us @ [(env, Returned (Inr result))] \<longrightarrow> serving stored cap (sys_index s))"
proof -
  have "one_at_a_time cfg mid (idle st)" "last_update_served stored cap (idle st)"
    using assms(2) by (simp_all add: one_at_a_time_def last_update_served_def idle_def)
  with exclusive_run_ok [OF assms(1,3)] show ?thesis by (auto simp: one_at_a_time_def last_update_served_def)
qed

theorem exclusive_updates_are_safe_witness:
  "\<exists>result st. system_run True default_index (configured_kind list_library default_index) ''m'' (idle empty_state)
      \<lparr>sys_index = st, sys_updates = [(sample_env, Returned (Inr result))]\<rparr> \<and> serving list_stored fst st"
proof -
  obtain snapshot where "build_snapshot sample_env (configured_kind list_library default_index) Map.empty = Inr snapshot"
    by (simp add: build_snapshot_def configured_kind_def make_snapshot_def make_index_def sample_env_def default_index_def)
  from sample_update_kind [OF this] obtain result st where
    u: "update sample_env default_index (configured_kind list_library default_index) ''m'' empty_state = (Inr result, st)" by blast
  note run = update_alone [OF both_acceptable(1) [OF refl] u, of True]
  have "index_consistent (index_data_dir default_index) (empty_state :: (nat \<times> (64 word \<times> Embedding) list) snapshot index_state)"
    using sample_conditions [where 'a = "(nat \<times> (64 word \<times> Embedding) list) snapshot"] by (simp add: update_conditions_def)
  from exclusive_updates_are_safe [OF run this list_library_ok] have "serving list_stored fst st" by simp
  with run show ?thesis by blast
qed

text \<open>
  C24. What becomes of an update that fails to read the active generation without noticing it, on a repository in which no
  file has changed: if it returns, it reports that every file is unchanged and nothing was embedded; the chunks stored
  are those of before, but the generation it made active, the first, has no vectors, and neither has the snapshot it
  published. The index is then consistent only if there are no chunks: all vectors are lost, and no file is embedded
  again before it changes.
\<close>

theorem unread_generation_loses_vectors:
  assumes "library_ok lib stored cap" and "index_consistent (index_data_dir cfg) st" and "order_ok env"
    and "ie_reads env (Read_metadata ''active_vector_generation'') = Read_stopped 0"
    and "ie_reads env Read_documents = Read_all" and "ie_scan env = Inr sc"
    and "stored_unchanged env sc (stored_tables st)"
    and "update env cfg (configured_kind lib cfg) mid st = (Inr result, st')"
  shows "result = \<lparr>res_added = 0, res_changed = 0, res_removed = 0, res_unchanged = length (scan_files sc),
      res_embedded = 0, res_generation = 1\<rparr>
    \<and> document_map (stored_tables st') = document_map (stored_tables st)
    \<and> (\<exists>s. st_handle st' = Some s \<and> snapshot_ids s = {})
    \<and> (index_consistent (index_data_dir cfg) st' \<longleftrightarrow> chunk_ids (stored_tables st) = {})"
proof -
  let ?r = "open_repository (st_tables st)" and ?d = "index_data_dir cfg" and ?h = "stable_hash_hex mid"
  have "disk_ok ?d (stored_tables st) (st_files st)" using assms(2) by (simp add: index_consistent_def)
  note opened = open_repository_ok [OF this]
  have inv: "db_inv (live ?r)" "clean_tables (live ?r)" "saved ?r = None"
    using opened(1) by (simp_all add: disk_ok_def open_repository_def Let_def set_metadata_def)
  obtain st1 fs r' made snapshot where
    w: "write_atomic (vector_path ?d 1) \<lparr>meta_dimension = of_nat (ie_dimension env), meta_model_hash = ?h\<rparr>
      (stored_vectors env Map.empty) (ie_write env) (st_files st1) = (Inr (), fs)"
    and tx: "transaction (ie_database_fault env) (update_calls env mid ?h [] [] 1) ?r = (Inr (), r')"
    and snap: "build_snapshot env (configured_kind lib cfg) Map.empty = Inr snapshot"
    and result: "result = \<lparr>res_added = 0, res_changed = 0, res_removed = 0, res_unchanged = length (scan_files sc),
      res_embedded = 0, res_generation = 1\<rparr>"
    and st': "st' = st1\<lparr>st_files := fs, st_tables := Some (live r'), st_symbols := made, st_handle := Some snapshot\<rparr>"
    using unread_generation_update [OF assms(2,4-8)] by metis
  have t: "stored_tables st' = live r'" "st_files st' = fs" by (simp_all add: st' stored_tables_def)
  note c = generation_committed [OF tx inv(3,1,2), simplified]
  have docs: "document_map (live r') = document_map (stored_tables st)" using c(4) opened(2) by (simp add: final_documents_def)
  have ids: "chunk_ids (live r') = chunk_ids (stored_tables st)"
    using chunk_ids_documents [OF c(1)] chunk_ids_documents [OF inv(1)] docs opened(2,4) by simp
  have read: "read_file (vector_path ?d 1) fs = Inr (\<lparr>meta_dimension = of_nat (ie_dimension env), meta_model_hash = ?h\<rparr>,
      stored_vectors env Map.empty)" using write_then_read [OF w] stable_hash_hex_no_nul by simp
  have "stored_id ` set (stored_vectors env Map.empty) = {}" using stored_vectors_ids [OF assms(3), of Map.empty] by simp
  then have "disk_ok ?d (live r') fs \<longleftrightarrow> chunk_ids (live r') = {}"
    using c(1,2,3) read by (auto simp: disk_ok_def)
  moreover have "snapshot_ids snapshot = {}" using built_snapshot_ok [OF assms(1,3) _ snap] by simp
  ultimately show ?thesis using docs ids t result st' by (simp add: index_consistent_def)
qed

theorem unread_generation_loses_vectors_witness:
  "\<exists>r1 st result st'. update later_env default_index (configured_kind list_library default_index) ''m'' empty_state = (Inr r1, st) \<and>
    update (later_env\<lparr>ie_reads := cut_reads\<rparr>) default_index (configured_kind list_library default_index) ''m'' st = (Inr result, st') \<and>
    index_consistent (index_data_dir default_index) st \<and> \<not> index_consistent (index_data_dir default_index) st'"
proof -
  obtain r1 st result st' where two: "indexed_once st r1" "update (later_env\<lparr>ie_reads := cut_reads\<rparr>) default_index
      (configured_kind list_library default_index) ''m'' st = (Inr result, st')" using cut_update by blast
  note st = indexed_onceD [OF two(1)]
  have "\<not> index_consistent (index_data_dir default_index) st'"
    using unread_generation_loses_vectors [OF list_library_ok st(2) cut_environment(1-4) st(4) two(2)] st(3) by blast
  with two(2) st(1,2) show ?thesis by blast
qed

end
