(* ===== verification/Chat_Session.thy ===== *)
theory Chat_Session
  imports Domain
begin

text \<open>
  \<^verbatim>\<open>src/application/chat_session.cpp\<close>: the message history of a chat and the state machine of
  its generation. An operation that throws leaves the session as it was.
\<close>

datatype ChatGenerationState = Idle | Prefill | Decoding | Completed | Cancelled | Failed

record ChatSession =
  session_messages :: "ChatMessage list"
  session_state :: ChatGenerationState

definition new_session :: ChatSession where
  "new_session = \<lparr>session_messages = [], session_state = Idle\<rparr>"

definition add :: "Role \<Rightarrow> string \<Rightarrow> ChatSession \<Rightarrow> ChatSession res" where
  "add role content s = (
     if session_state s = Prefill \<or> session_state s = Decoding
       then Inl (Logic_error ''cannot add a message while generation is active'')
     else if content = []
       then Inl (Invalid_argument ''chat message content must not be empty'')
     else Inr (s\<lparr>session_messages := session_messages s @ [\<lparr>msg_role = role, msg_content = content\<rparr>],
       session_state := Idle\<rparr>))"

definition begin_prefill :: "ChatSession \<Rightarrow> ChatSession res" where
  "begin_prefill s = (
     if session_messages s = []
       then Inl (Logic_error ''cannot generate without chat messages'')
     else if session_state s \<noteq> Idle \<and> session_state s \<noteq> Completed
         \<and> session_state s \<noteq> Cancelled \<and> session_state s \<noteq> Failed
       then Inl (Logic_error ''chat session cannot enter prefill from its current state'')
     else Inr (s\<lparr>session_state := Prefill\<rparr>))"

definition begin_decoding :: "ChatSession \<Rightarrow> ChatSession res" where
  "begin_decoding s = (
     if session_state s \<noteq> Prefill
       then Inl (Logic_error ''chat session can only decode after prefill'')
     else Inr (s\<lparr>session_state := Decoding\<rparr>))"

definition complete :: "string \<Rightarrow> ChatSession \<Rightarrow> ChatSession res" where
  "complete assistant_content s = (
     if session_state s \<noteq> Decoding
       then Inl (Logic_error ''chat session can only complete while decoding'')
     else Inr (s\<lparr>session_messages := session_messages s @
         (if assistant_content \<noteq> []
          then [\<lparr>msg_role = Role_assistant, msg_content = assistant_content\<rparr>] else []),
       session_state := Completed\<rparr>))"

definition cancel :: "ChatSession \<Rightarrow> ChatSession res" where
  "cancel s = (
     if session_state s \<noteq> Prefill \<and> session_state s \<noteq> Decoding
       then Inl (Logic_error ''chat session can only cancel an active generation'')
     else Inr (s\<lparr>session_state := Cancelled\<rparr>))"

definition fail :: "ChatSession \<Rightarrow> ChatSession res" where
  "fail s = Inr (s\<lparr>session_state := Failed\<rparr>)"

section \<open>Calls on a session\<close>

datatype session_call = Add Role string | Begin_prefill | Begin_decoding | Complete string
  | Cancel | Fail

fun call :: "session_call \<Rightarrow> ChatSession \<Rightarrow> ChatSession res" where
  "call (Add r c) s = add r c s"
| "call Begin_prefill s = begin_prefill s"
| "call Begin_decoding s = begin_decoding s"
| "call (Complete c) s = complete c s"
| "call Cancel s = cancel s"
| "call Fail s = fail s"

lemmas session_ops = add_def begin_prefill_def begin_decoding_def complete_def cancel_def fail_def

text \<open>A client may go on after an exception: a refused call changes nothing.\<close>

inductive session_step :: "ChatSession \<Rightarrow> ChatSession \<Rightarrow> bool" where
  accepted: "call c s = Inr t \<Longrightarrow> session_step s t"
| refused: "call c s = Inl e \<Longrightarrow> session_step s s"

inductive reachable_session :: "ChatSession \<Rightarrow> bool" where
  initial: "reachable_session new_session"
| step: "reachable_session s \<Longrightarrow> session_step s t \<Longrightarrow> reachable_session t"

inductive_cases session_stepE: "session_step s t"

definition session_inv :: "ChatSession \<Rightarrow> bool" where
  "session_inv s = ((\<forall>m \<in> set (session_messages s). msg_content m \<noteq> [])
     \<and> (session_messages s = [] \<longrightarrow> session_state s = Idle \<or> session_state s = Failed))"

lemma call_session_inv: "session_inv s \<Longrightarrow> call c s = Inr t \<Longrightarrow> session_inv t"
  by (cases c) (auto simp: session_ops session_inv_def split: if_splits)

lemma session_step_inv: "session_step s t \<Longrightarrow> session_inv s \<Longrightarrow> session_inv t"
  by (auto elim!: session_stepE intro: call_session_inv)

lemma new_session_inv: "session_inv new_session"
  by (simp add: session_inv_def new_session_def)

lemma reachable_session_inv: "reachable_session s \<Longrightarrow> session_inv s"
  by (induction rule: reachable_session.induct) (blast intro: session_step_inv new_session_inv)+

section \<open>Properties\<close>

text \<open>
  In every session a client can reach, whatever it calls and whichever calls were refused, no
  message is empty and a generation is only ever active, finished or cancelled when there is a message
  to answer.
\<close>

lemma session_never_generates_without_messages:
  assumes "reachable_session s"
  shows "(\<forall>m \<in> set (session_messages s). msg_content m \<noteq> [])
    \<and> (session_state s \<in> {Prefill, Decoding, Completed, Cancelled} \<longrightarrow> session_messages s \<noteq> [])"
  using reachable_session_inv [OF assms] by (auto simp: session_inv_def)

lemma session_never_generates_without_messages_example:
  "\<exists>s. reachable_session s \<and> session_state s = Decoding \<and> session_messages s \<noteq> []"
proof -
  let ?m = "\<lparr>msg_role = Role_user, msg_content = ''hi''\<rparr>"
  let ?s = "\<lparr>session_messages = [?m], session_state = Decoding\<rparr>"
  have "call (Add Role_user ''hi'') new_session
      = Inr \<lparr>session_messages = [?m], session_state = Idle\<rparr>"
    by (simp add: session_ops new_session_def)
  then have "reachable_session \<lparr>session_messages = [?m], session_state = Idle\<rparr>"
    by (rule reachable_session.step [OF reachable_session.initial session_step.accepted])
  then have "reachable_session \<lparr>session_messages = [?m], session_state = Prefill\<rparr>"
    by (rule reachable_session.step [OF _ session_step.accepted [of Begin_prefill]])
      (simp add: session_ops)
  then have "reachable_session ?s"
    by (rule reachable_session.step [OF _ session_step.accepted [of Begin_decoding]])
      (simp add: session_ops)
  then show ?thesis
    using session_never_generates_without_messages [of ?s] by (intro exI [of _ ?s]) simp
qed

text \<open>The transition diagram of the generation state.\<close>

fun allowed :: "session_call \<Rightarrow> ChatGenerationState \<Rightarrow> ChatGenerationState option" where
  "allowed (Add r c) q = (if q \<in> {Prefill, Decoding} \<or> c = [] then None else Some Idle)"
| "allowed Begin_prefill q = (if q \<in> {Prefill, Decoding} then None else Some Prefill)"
| "allowed Begin_decoding q = (if q = Prefill then Some Decoding else None)"
| "allowed (Complete c) q = (if q = Decoding then Some Completed else None)"
| "allowed Cancel q = (if q \<in> {Prefill, Decoding} then Some Cancelled else None)"
| "allowed Fail q = Some Failed"

text \<open>
  A call succeeds exactly when the transition diagram allows it (and, for starting a generation,
  there is a message); it then moves to the state the diagram names, and it changes the history only by
  appending at most one message: the added one, or the non-empty answer of a completed generation.
\<close>

lemma session_follows_diagram:
  "call c s = Inr t \<longleftrightarrow> (c = Begin_prefill \<longrightarrow> session_messages s \<noteq> [])
    \<and> allowed c (session_state s) = Some (session_state t)
    \<and> session_messages t = session_messages s @ (case c of
        Add r m \<Rightarrow> [\<lparr>msg_role = r, msg_content = m\<rparr>]
      | Complete m \<Rightarrow> (if m = [] then [] else [\<lparr>msg_role = Role_assistant, msg_content = m\<rparr>])
      | _ \<Rightarrow> [])"
  by (cases c; cases "session_state s"; cases s; cases t)
    (auto simp: session_ops split: if_splits)

lemma session_follows_diagram_example:
  "\<exists>t. call Begin_prefill \<lparr>session_messages = [\<lparr>msg_role = Role_user, msg_content = ''hi''\<rparr>],
     session_state = Failed\<rparr> = Inr t \<and> session_state t = Prefill"
  unfolding session_follows_diagram by (rule exI [of _ "\<lparr>session_messages =
    [\<lparr>msg_role = Role_user, msg_content = ''hi''\<rparr>], session_state = Prefill\<rparr>"]) simp

end
