(* ===== verification/Command_Line.thy ===== *)
theory Command_Line
  imports Chat_Session Ask_Service Text_Chunker Retrieval Index_Snapshot
begin

text \<open>
  \<^verbatim>\<open>apps/cli/main.cpp\<close>: the commands of the command line tool, after its arguments have been parsed. Each command is
  what it prints (tokens, totals) and an exception or a result, from which the exit code follows. The models, the
  scan and the files read are the record \<open>cli_env\<close>; the interrupt is given as what the generator sees of it and
  whether a stop had been requested when the generator returned.
\<close>

record cli_env =
  cli_config :: "AppConfig res"
  cli_scan :: "FileScannerOptions \<Rightarrow> FileScanResult res"
  cli_read :: "path \<rightharpoonup> string"
  cli_runtime :: "unit res"
  cli_generator :: "unit res"
  cli_embedder :: "unit res"
  cli_dimension :: nat
  cli_embed :: embed_function
  cli_embed_batch :: "string list \<Rightarrow> EmbeddingKind \<Rightarrow> Embedding list res"
  cli_generate :: text_generator
  cli_count_tokens :: token_counter
  cli_format :: chat_formatter
  cli_stop :: bool
  cli_stopped :: bool

text \<open>Conversions between \<^verbatim>\<open>std::size_t\<close> and \<^verbatim>\<open>std::int32_t\<close>.\<close>

definition int32_of_size :: "nat \<Rightarrow> int" where
  "int32_of_size n = sint (of_nat n :: 32 word)"

definition size_of_int32 :: "int \<Rightarrow> nat" where
  "size_of_int32 k = nat (k mod 2 ^ 64)"

text \<open>What the commands that generate start with.\<close>

definition load_generator :: "cli_env \<Rightarrow> AppConfig res" where
  "load_generator env = res_bind (cli_config env) (\<lambda>cfg. res_bind (cli_runtime env) (\<lambda>_.
     res_bind (cli_generator env) (\<lambda>_. Inr cfg)))"

section \<open>Scanning\<close>

definition cli_chunking :: "AppConfig \<Rightarrow> ChunkingOptions" where
  "cli_chunking cfg = default_chunking\<lparr>max_lines := index_chunk_lines (app_index cfg),
     overlap_lines := index_overlap_lines (app_index cfg)\<rparr>"

definition chunk_scanned :: "cli_env \<Rightarrow> AppConfig \<Rightarrow> ScannedFile \<Rightarrow> Chunk list res" where
  "chunk_scanned env cfg f = chunk_file (cli_read env) (file_absolute_path f) (file_relative_path f) (file_language f)
     (cli_chunking cfg)"

text \<open>The elapsed time is left out of what is printed.\<close>

definition scan_command :: "cli_env \<Rightarrow> string list \<Rightarrow> string list \<Rightarrow> (string \<times> nat) list res" where
  "scan_command env include_globs exclude_globs = res_bind (cli_config env) (\<lambda>cfg.
     res_bind (cli_scan env \<lparr>opt_max_file_bytes = index_max_file_bytes (app_index cfg), opt_include_globs = include_globs,
       opt_exclude_globs = exclude_globs\<rparr>) (\<lambda>sc.
     res_bind (res_map (chunk_scanned env cfg) (scan_files sc)) (\<lambda>css.
       Inr [(''files_seen'', files_seen (scan_stats sc)), (''files_indexable'', files_indexable (scan_stats sc)),
         (''files_skipped'', files_skipped (scan_stats sc)), (''chunks_created'', sum_list (map length css)),
         (''bytes_indexed'', sum_list (map (\<lambda>cs. sum_list (map (\<lambda>c. length (chunk_content c)) cs)) css))])))"

section \<open>Indexing\<close>

definition index_command :: "cli_env \<Rightarrow> 'g hnsw_library \<Rightarrow> index_env \<Rightarrow> 'g snapshot index_state \<Rightarrow>
    (string \<times> nat) list res \<times> 'g snapshot index_state" where
  "index_command env lib ienv st = (
     case res_bind (cli_config env) (\<lambda>cfg. res_bind (cli_runtime env) (\<lambda>_. res_bind (cli_embedder env) (\<lambda>_.
       res_bind (make_index_service (filename (model_path (app_embedding_model cfg)))) (\<lambda>model_id. Inr (cfg, model_id))))) of
       Inl e \<Rightarrow> (Inl e, st)
     | Inr (cfg, model_id) \<Rightarrow>
         (case update ienv (app_index cfg) (configured_kind lib (app_index cfg)) model_id st of
           (Inl e, st) \<Rightarrow> (Inl e, st)
         | (Inr r, st) \<Rightarrow> (Inr [(''generation'', res_generation r), (''files_added'', res_added r),
             (''files_changed'', res_changed r), (''files_removed'', res_removed r), (''files_unchanged'', res_unchanged r),
             (''chunks_embedded'', res_embedded r)], st)))"

section \<open>Asking\<close>

record ask_arguments =
  asked_question :: string
  asked_top_k :: nat
  asked_max_tokens :: int

text \<open>\<^verbatim>\<open>vectors[i]\<close> is read for every chunk; beyond the end it is undefined.\<close>

definition index_in_memory :: "cli_env \<Rightarrow> Chunk list \<Rightarrow> BruteForceIndex res" where
  "index_in_memory env chunks = res_bind (cli_embed_batch env (map chunk_content chunks) Embed_document) (\<lambda>vectors.
     res_bind (make_index (cli_dimension env)) (\<lambda>index.
     if length vectors < length chunks then Inl (Other_exception ''vector missing'')
     else load_vectors bf_upsert (zip (map chunk_id chunks) vectors) index))"

definition ask_in_memory :: "cli_env \<Rightarrow> AppConfig \<Rightarrow> ask_arguments \<Rightarrow> Chunk list \<Rightarrow> BruteForceIndex \<Rightarrow> AskService res" where
  "ask_in_memory env cfg args chunks index = make_ask_service
     \<lparr>retrieve = vector_retrieve (cli_embed env) (bf_search index),
      get_chunks = (\<lambda>ids. Inr (memory_get_many (replace_chunks chunks Map.empty) ids)),
      count_tokens = cli_count_tokens env, generate = cli_generate env,
      options = default_generation\<lparr>opt_max_tokens := asked_max_tokens args\<rparr>,
      budget = \<lparr>model_context = model_context_size (app_generation_model cfg),
        reserved_output_tokens = size_of_int32 (asked_max_tokens args), safety_margin_tokens = 128\<rparr>,
      rerank = None, rerank_candidates = 30\<rparr>"

definition prepare_ask :: "cli_env \<Rightarrow> AppConfig \<Rightarrow> ask_arguments \<Rightarrow> AskService res" where
  "prepare_ask env cfg args = (
     if int32_of_size (model_context_size (app_generation_model cfg)) \<le> asked_max_tokens args
     then Inl (Invalid_argument ''ask max_tokens must be smaller than context_size'')
     else res_bind (cli_scan env \<lparr>opt_max_file_bytes = index_max_file_bytes (app_index cfg), opt_include_globs = [],
         opt_exclude_globs = []\<rparr>) (\<lambda>sc.
       res_bind (res_map (chunk_scanned env cfg) (scan_files sc)) (\<lambda>css.
       if concat css = [] then Inl (Runtime_error ''no indexable code chunks found in repository'')
       else res_bind (cli_embedder env) (\<lambda>_.
         res_bind (index_in_memory env (concat css)) (\<lambda>index. ask_in_memory env cfg args (concat css) index)))))"

definition ask_command :: "cli_env \<Rightarrow> ask_arguments \<Rightarrow> string list \<times> AskResult res" where
  "ask_command env args = (
     case res_bind (load_generator env) (\<lambda>cfg. res_bind (prepare_ask env cfg args) (\<lambda>svc. Inr (cfg, svc))) of
       Inl e \<Rightarrow> ([], Inl e)
     | Inr (cfg, svc) \<Rightarrow> ask svc (asked_question args)
         (if asked_top_k args = 0 then index_top_k (app_index cfg) else asked_top_k args) (Some (\<lambda>token. None)) (cli_stop env))"

section \<open>Generating and chatting\<close>

definition generate_command :: "cli_env \<Rightarrow> string \<Rightarrow> GenerationOptions \<Rightarrow> string list \<times> GenerationStats res" where
  "generate_command env prompt opts = (case load_generator env of
     Inl e \<Rightarrow> ([], Inl e)
   | Inr _ \<Rightarrow> cli_generate env prompt opts (cli_stop env))"

definition parse_chat_role :: "string \<Rightarrow> Role res" where
  "parse_chat_role v = (
     if v = ''system'' then Inr Role_system
     else if v = ''user'' then Inr Role_user
     else if v = ''assistant'' then Inr Role_assistant
     else Inl (Invalid_argument ''chat turn role must be system, user, or assistant''))"

fun add_turns :: "string list \<Rightarrow> ChatSession \<Rightarrow> ChatSession res" where
  "add_turns [] s = Inr s"
| "add_turns (t # ts) s = (let separator = length (takeWhile (\<lambda>c. c \<noteq> CHR '':'') t) in
     if separator = length t \<or> separator = 0 \<or> separator + 1 = length t
     then Inl (Invalid_argument ''chat turn must use role:content syntax'')
     else res_bind (parse_chat_role (take separator t)) (\<lambda>role.
       res_bind (add role (drop (separator + 1) t) s) (add_turns ts)))"

fun add_users :: "string list \<Rightarrow> ChatSession \<Rightarrow> ChatSession res" where
  "add_users [] s = Inr s"
| "add_users (m # ms) s = res_bind (add Role_user m s) (add_users ms)"

record chat_arguments =
  chat_system :: string
  chat_users :: "string list"
  chat_turns :: "string list"
  chat_options :: GenerationOptions

definition chat_history :: "chat_arguments \<Rightarrow> ChatSession res" where
  "chat_history args = res_bind (
     if chat_turns args \<noteq> [] then
       if chat_system args \<noteq> [] \<or> chat_users args \<noteq> []
       then Inl (Invalid_argument ''use either --turn or --system/--message for chat history'')
       else add_turns (chat_turns args) new_session
     else res_bind (if chat_system args \<noteq> [] then add Role_system (chat_system args) new_session else Inr new_session)
       (add_users (chat_users args))) (\<lambda>s.
     if session_messages s = [] then Inl (Invalid_argument ''chat requires at least one --message or --turn'') else Inr s)"

definition prepare_chat :: "cli_env \<Rightarrow> AppConfig \<Rightarrow> chat_arguments \<Rightarrow> (ChatSession \<times> BuiltPrompt) res" where
  "prepare_chat env cfg args = res_bind (chat_history args) (\<lambda>s.
     let window = model_context_size (app_generation_model cfg); limit = opt_max_tokens (chat_options args) in
     if int32_of_size window \<le> limit then Inl (Invalid_argument ''chat max_tokens must be smaller than context_size'')
     else res_bind (build (session_messages s) (cli_format env) (cli_count_tokens env) (sz_sub window (size_of_int32 limit)))
       (\<lambda>built. res_bind (begin_prefill s) (\<lambda>s. res_bind (begin_decoding s) (\<lambda>s. Inr (s, built)))))"

definition chat_command :: "cli_env \<Rightarrow> chat_arguments \<Rightarrow> string list \<times> (ChatSession \<times> GenerationStats) res" where
  "chat_command env args = (
     case res_bind (load_generator env) (\<lambda>cfg. prepare_chat env cfg args) of
       Inl e \<Rightarrow> ([], Inl e)
     | Inr (s, built) \<Rightarrow> (case cli_generate env (built_text built) (chat_options args) (cli_stop env) of
         (pieces, outcome) \<Rightarrow> (pieces, res_bind outcome (\<lambda>stats.
           res_bind (if cli_stopped env then cancel s else complete (concat pieces) s) (\<lambda>s. Inr (s, stats))))))"

section \<open>Exit codes\<close>

text \<open>Every exception is reported and ends with 1; an answer whose citations are not valid ends with 2.\<close>

definition exit_code :: "('a \<Rightarrow> nat) \<Rightarrow> 'a res \<Rightarrow> nat" where
  "exit_code code r = (case r of Inl e \<Rightarrow> 1 | Inr x \<Rightarrow> code x)"

datatype cli_call = Devices | Scan "string list" "string list" | Ask ask_arguments | Generate string GenerationOptions
  | Chat chat_arguments

fun cli_main :: "cli_env \<Rightarrow> cli_call \<Rightarrow> nat" where
  "cli_main env Devices = exit_code (\<lambda>_. 0) (cli_runtime env)"
| "cli_main env (Scan include_globs exclude_globs) = exit_code (\<lambda>_. 0) (scan_command env include_globs exclude_globs)"
| "cli_main env (Ask args) = exit_code (\<lambda>r. if citations_valid r then 0 else 2) (snd (ask_command env args))"
| "cli_main env (Generate prompt opts) = exit_code (\<lambda>_. 0) (snd (generate_command env prompt opts))"
| "cli_main env (Chat args) = exit_code (\<lambda>_. 0) (snd (chat_command env args))"

section \<open>Chat turns\<close>

definition turn_of :: "ChatMessage \<Rightarrow> string" where
  "turn_of m = role_name (msg_role m) @ '':'' @ msg_content m"

lemma parse_chat_role_iff: "parse_chat_role v = Inr r \<longleftrightarrow> v = role_name r"
  by (cases r) (auto simp: parse_chat_role_def role_name_def)

lemma role_name_plain: "takeWhile (\<lambda>c. c \<noteq> CHR '':'') (role_name r @ CHR '':'' # cs) = role_name r" "role_name r \<noteq> []"
  by (cases r; simp add: role_name_def)+

lemma add_iff: "add role content s = Inr t \<longleftrightarrow> session_state s \<notin> {Prefill, Decoding} \<and> content \<noteq> [] \<and>
    t = s\<lparr>session_messages := session_messages s @ [\<lparr>msg_role = role, msg_content = content\<rparr>], session_state := Idle\<rparr>"
  by (auto simp: add_def)

text \<open>One turn: it is accepted exactly if it is the turn of a message.\<close>

lemma turn_separated:
  assumes "separator = length (takeWhile (\<lambda>c. c \<noteq> CHR '':'') t)"
  shows "(separator \<noteq> length t \<and> separator \<noteq> 0 \<and> separator + 1 \<noteq> length t \<and> parse_chat_role (take separator t) = Inr r \<and>
      drop (separator + 1) t = content) \<longleftrightarrow> t = turn_of \<lparr>msg_role = r, msg_content = content\<rparr> \<and> content \<noteq> []"
    (is "?parsed \<longleftrightarrow> _")
proof
  assume p: ?parsed
  have le: "separator < length t" using p assms length_takeWhile_le [of "\<lambda>c. c \<noteq> CHR '':''" t] by simp
  then have "t ! separator = CHR '':''" using assms nth_length_takeWhile by fastforce
  then have "t = take separator t @ CHR '':'' # content" using p le id_take_nth_drop [of separator t] by simp
  with p le show "t = turn_of \<lparr>msg_role = r, msg_content = content\<rparr> \<and> content \<noteq> []"
    by (auto simp: turn_of_def parse_chat_role_iff)
next
  assume "t = turn_of \<lparr>msg_role = r, msg_content = content\<rparr> \<and> content \<noteq> []"
  then have t: "t = role_name r @ CHR '':'' # content" "content \<noteq> []" by (simp_all add: turn_of_def)
  then have "separator = length (role_name r)" using assms by (simp add: role_name_plain)
  with t role_name_plain(2) [of r] show ?parsed by (simp add: parse_chat_role_iff)
qed

lemma add_turns_step: "add_turns (t # ts) s = Inr s' \<longleftrightarrow> (\<exists>r content s1. t = turn_of \<lparr>msg_role = r, msg_content = content\<rparr> \<and>
    add r content s = Inr s1 \<and> add_turns ts s1 = Inr s')"
proof -
  let ?n = "length (takeWhile (\<lambda>c. c \<noteq> CHR '':'') t)"
  have "add_turns (t # ts) s = Inr s' \<longleftrightarrow> (\<exists>r content s1. (?n \<noteq> length t \<and> ?n \<noteq> 0 \<and> ?n + 1 \<noteq> length t \<and>
      parse_chat_role (take ?n t) = Inr r \<and> drop (?n + 1) t = content) \<and> add r content s = Inr s1 \<and> add_turns ts s1 = Inr s')"
    by (auto simp: Let_def res_simps)
  also have "\<dots> \<longleftrightarrow> (\<exists>r content s1. (t = turn_of \<lparr>msg_role = r, msg_content = content\<rparr> \<and> content \<noteq> []) \<and>
      add r content s = Inr s1 \<and> add_turns ts s1 = Inr s')" unfolding turn_separated [OF refl] ..
  finally show ?thesis by (auto simp: add_iff)
qed

lemma add_turns_iff:
  "session_state s = Idle \<Longrightarrow> add_turns ts s = Inr s' \<longleftrightarrow> (\<exists>ms. ts = map turn_of ms \<and> list_all (\<lambda>m. msg_content m \<noteq> []) ms \<and>
    s' = s\<lparr>session_messages := session_messages s @ ms\<rparr>)"
proof (induction ts arbitrary: s)
  case (Cons t ts)
  have idle: "(s\<lparr>session_messages := ms, session_state := Idle\<rparr>) = s\<lparr>session_messages := ms\<rparr>" for ms
    using Cons.prems by (cases s) simp
  have cons: "(\<exists>ms. t # ts = map turn_of ms \<and> P ms) \<longleftrightarrow> (\<exists>m ms. t = turn_of m \<and> ts = map turn_of ms \<and> P (m # ms))" for P
    by (auto simp: Cons_eq_map_conv)
  have "add_turns (t # ts) s = Inr s' \<longleftrightarrow> (\<exists>m. t = turn_of m \<and> msg_content m \<noteq> [] \<and>
      add_turns ts (s\<lparr>session_messages := session_messages s @ [m]\<rparr>) = Inr s')"
  proof -
    have "add_turns (t # ts) s = Inr s' \<longleftrightarrow> (\<exists>r content. t = turn_of \<lparr>msg_role = r, msg_content = content\<rparr> \<and> content \<noteq> [] \<and>
        add_turns ts (s\<lparr>session_messages := session_messages s @ [\<lparr>msg_role = r, msg_content = content\<rparr>]\<rparr>) = Inr s')"
      unfolding add_turns_step add_iff idle using Cons.prems by auto
    also have "\<dots> \<longleftrightarrow> (\<exists>m. t = turn_of m \<and> msg_content m \<noteq> [] \<and>
        add_turns ts (s\<lparr>session_messages := session_messages s @ [m]\<rparr>) = Inr s')"
      by (metis ChatMessage.select_convs(2) ChatMessage.surjective old.unit.exhaust)
    finally show ?thesis .
  qed
  also have "\<dots> \<longleftrightarrow> (\<exists>m ms. t = turn_of m \<and> msg_content m \<noteq> [] \<and> ts = map turn_of ms \<and> list_all (\<lambda>m. msg_content m \<noteq> []) ms \<and>
      s' = s\<lparr>session_messages := session_messages s @ m # ms\<rparr>)" using Cons.prems by (auto simp: Cons.IH)
  also have "\<dots> \<longleftrightarrow> (\<exists>ms. t # ts = map turn_of ms \<and> list_all (\<lambda>m. msg_content m \<noteq> []) ms \<and>
      s' = s\<lparr>session_messages := session_messages s @ ms\<rparr>)" unfolding cons list.pred_inject by blast
  finally show ?case .
qed auto

lemma add_users_iff:
  "session_state s = Idle \<Longrightarrow> add_users ms s = Inr s' \<longleftrightarrow> list_all (\<lambda>m. m \<noteq> []) ms \<and>
    s' = s\<lparr>session_messages := session_messages s @ map (\<lambda>m. \<lparr>msg_role = Role_user, msg_content = m\<rparr>) ms\<rparr>"
proof (induction ms arbitrary: s)
  case (Cons m ms)
  have idle: "(s\<lparr>session_messages := ms, session_state := Idle\<rparr>) = s\<lparr>session_messages := ms\<rparr>" for ms
    using Cons.prems by (cases s) simp
  have "add_users (m # ms) s = Inr s' \<longleftrightarrow> m \<noteq> [] \<and>
      add_users ms (s\<lparr>session_messages := session_messages s @ [\<lparr>msg_role = Role_user, msg_content = m\<rparr>]\<rparr>) = Inr s'"
    using Cons.prems by (auto simp: res_simps add_iff idle)
  with Cons.prems show ?case by (auto simp: Cons.IH)
qed auto

text \<open>The messages the arguments of a chat stand for.\<close>

definition argument_messages :: "chat_arguments \<Rightarrow> ChatMessage list \<Rightarrow> bool" where
  "argument_messages args ms \<longleftrightarrow> ms \<noteq> [] \<and> list_all (\<lambda>m. msg_content m \<noteq> []) ms \<and>
     (if chat_turns args \<noteq> [] then chat_turns args = map turn_of ms \<and> chat_system args = [] \<and> chat_users args = []
      else ms = (if chat_system args = [] then [] else [\<lparr>msg_role = Role_system, msg_content = chat_system args\<rparr>]) @
        map (\<lambda>m. \<lparr>msg_role = Role_user, msg_content = m\<rparr>) (chat_users args))"

lemma new_session_add: "session_state (new_session\<lparr>session_messages := ms\<rparr>) = Idle"
  by (simp add: new_session_def)

lemma chat_history_iff: "chat_history args = Inr s \<longleftrightarrow>
    argument_messages args (session_messages s) \<and> session_state s = Idle"
proof (cases "chat_turns args = []")
  case False
  have idle: "session_state new_session = Idle" by (simp add: new_session_def)
  have "chat_history args = Inr s \<longleftrightarrow> chat_system args = [] \<and> chat_users args = [] \<and>
      (\<exists>ms. chat_turns args = map turn_of ms \<and> list_all (\<lambda>m. msg_content m \<noteq> []) ms \<and>
        s = new_session\<lparr>session_messages := session_messages new_session @ ms\<rparr>) \<and> session_messages s \<noteq> []"
    using False add_turns_iff [OF idle, of "chat_turns args"]
    by (auto simp: chat_history_def res_simps split: if_splits)
  also have "\<dots> \<longleftrightarrow> argument_messages args (session_messages s) \<and> session_state s = Idle"
    using False by (cases s) (auto simp: argument_messages_def new_session_def)
  finally show ?thesis .
next
  case True
  define system where "system = (if chat_system args = [] then [] else [\<lparr>msg_role = Role_system, msg_content = chat_system args\<rparr>])"
  define s0 where "s0 = \<lparr>session_messages = system, session_state = Idle\<rparr>"
  have start: "(if chat_system args \<noteq> [] then add Role_system (chat_system args) new_session else Inr new_session) = Inr s0"
    by (simp add: s0_def system_def add_def new_session_def)
  have "chat_history args = Inr s \<longleftrightarrow> add_users (chat_users args) s0 = Inr s \<and> session_messages s \<noteq> []"
    unfolding chat_history_def start using True by (auto simp: res_simps split: if_splits)
  also have "\<dots> \<longleftrightarrow> list_all (\<lambda>m. m \<noteq> []) (chat_users args) \<and> s = \<lparr>session_messages = system @
      map (\<lambda>m. \<lparr>msg_role = Role_user, msg_content = m\<rparr>) (chat_users args), session_state = Idle\<rparr> \<and> session_messages s \<noteq> []"
    using add_users_iff [of s0 "chat_users args" s] by (simp add: s0_def)
  also have "\<dots> \<longleftrightarrow> argument_messages args (session_messages s) \<and> session_state s = Idle"
    using True by (cases s) (auto simp: argument_messages_def system_def [symmetric] list.pred_map comp_def, auto simp: system_def)
  finally show ?thesis .
qed

section \<open>Chats\<close>

lemma int32_of_size_small: "n < 2 ^ 31 \<Longrightarrow> int32_of_size n = int n"
  by (simp add: int32_of_size_def signed_of_nat signed_take_bit_int_eq_self)

lemma chat_prepared:
  assumes "prepare_chat env cfg args = Inr (s, built)" and "model_context_size (app_generation_model cfg) < 2 ^ 31"
    and "0 \<le> opt_max_tokens (chat_options args)"
  shows "\<exists>ms k. argument_messages args ms \<and> s = \<lparr>session_messages = ms, session_state = Decoding\<rparr> \<and>
    cli_format env (drop_oldest k ms) True = Inr (built_text built) \<and>
    (\<exists>n. cli_count_tokens env (built_text built) = Inr n \<and>
      int n + opt_max_tokens (chat_options args) \<le> int (model_context_size (app_generation_model cfg)))"
proof -
  let ?window = "model_context_size (app_generation_model cfg)" and ?limit = "opt_max_tokens (chat_options args)"
  obtain s0 where s0: "chat_history args = Inr s0" "\<not> int32_of_size ?window \<le> ?limit"
    "build (session_messages s0) (cli_format env) (cli_count_tokens env) (sz_sub ?window (size_of_int32 ?limit)) = Inr built"
    "s = s0\<lparr>session_state := Decoding\<rparr>"
    using assms(1) by (auto simp: prepare_chat_def res_simps Let_def begin_prefill_def begin_decoding_def split: if_splits)
  have small: "?limit < int ?window" using s0(2) int32_of_size_small [OF assms(2)] by simp
  then have "size_of_int32 ?limit = nat ?limit" using assms(2,3) by (simp add: size_of_int32_def)
  then have room: "int (sz_sub ?window (size_of_int32 ?limit)) = int ?window - ?limit"
    using small assms(2,3) by (simp add: sz_sub_def nat_less_iff)
  have ms: "session_messages s0 \<noteq> []" "argument_messages args (session_messages s0)" "session_state s0 = Idle"
    using s0(1) unfolding chat_history_iff by (auto simp: argument_messages_def)
  obtain k where "built_retained built = drop_oldest k (session_messages s0)"
    "cli_format env (drop_oldest k (session_messages s0)) True = Inr (built_text built)"
    "cli_count_tokens env (built_text built) = Inr (built_token_count built)"
    "built_token_count built \<le> sz_sub ?window (size_of_int32 ?limit)"
    using build_loop_sound [OF ms(1), of 0 "cli_format env" "cli_count_tokens env" _ built] s0(3) ms(1)
    by (auto simp: build_def split: if_splits)
  with room ms s0(4) show ?thesis
    by (intro exI [of _ "session_messages s0"] exI [of _ k]) (cases s0; auto)
qed
section \<open>Questions\<close>

text \<open>
  A chunk names the file's normalised path and a range of lines the file has, and its text is these lines.
\<close>

definition chunk_of_file :: "path \<Rightarrow> string list \<Rightarrow> Chunk \<Rightarrow> bool" where
  "chunk_of_file p file_lines c \<longleftrightarrow> range_path (chunk_source c) = p \<and> (\<exists>s e. s < e \<and> e \<le> length file_lines \<and>
     unat (range_start_line (chunk_source c)) = s + 1 \<and> unat (range_end_line (chunk_source c)) = e \<and>
     chunk_content c = join_lines file_lines s e)"

lemma line_number_unat:
  assumes "line_number i = Inr n"
  shows "unat n = i + 1"
proof -
  have "n = of_nat (i + 1)" "i + 1 < 2 ^ 32" using assms by (auto simp: line_number_def split: if_splits)
  then show ?thesis by (simp only: unat_of_nat) simp
qed

lemma line_number_small: "line_number i = Inr n \<Longrightarrow> i < 2 ^ 32"
  by (simp add: line_number_def split: if_splits)

text \<open>A start that has a line number is too small for the end of its chunk to wrap around.\<close>

lemma chunk_end_bounds:
  assumes "start < length file_lines" and "start < 2 ^ 32" and "0 < max_lines opts" and "max_lines opts < 2 ^ 63"
  shows "start < chunk_end opts file_lines start \<and> chunk_end opts file_lines start \<le> length file_lines
    \<and> chunk_end opts file_lines start < 2 ^ 64"
proof -
  have "sz_add start (max_lines opts) = start + max_lines opts" using assms(2,4) by (simp add: sz_add_def)
  then show ?thesis
    using assms shrink_end_props [of start "min (start + max_lines opts) (length file_lines)" file_lines "max_bytes opts"]
    by (simp add: chunk_end_def)
qed

lemma chunk_loop_chunks:
  "chunk_loop p language opts file_lines start = Inr cs \<Longrightarrow> 0 < max_lines opts \<Longrightarrow> max_lines opts < 2 ^ 63 \<Longrightarrow>
    c \<in> set cs \<Longrightarrow> chunk_of_file p file_lines c"
proof (induction p language opts file_lines start arbitrary: cs rule: chunk_loop.induct)
  case (1 p language opts file_lines start)
  show ?case
  proof (cases "start < length file_lines")
    case True
    define till where "till = chunk_end opts file_lines start"
    obtain a b where ab: "line_number start = Inr a" "line_number (sz_sub till 1) = Inr b"
      using 1(2) True by (subst (asm) chunk_loop.simps) (auto simp: Let_def res_simps till_def)
    let ?c = "make_chunk p language opts (join_lines file_lines start till) a b"
    have till: "start < till" "till \<le> length file_lines" "till < 2 ^ 64"
      using chunk_end_bounds [OF True line_number_small [OF ab(1)] 1(3,4)] by (simp_all add: till_def)
    have "int till - 1 = int (till - 1)" using till(1) by simp
    then have "sz_sub till 1 = till - 1" using till by (simp add: sz_sub_def mod_pos_pos_trivial del: of_nat_diff)
    then have "unat b = till" using line_number_unat [OF ab(2)] till(1) by simp
    then have first: "chunk_of_file p file_lines ?c"
      using line_number_unat [OF ab(1)] till by (auto simp: chunk_of_file_def make_chunk_def Let_def)
    show ?thesis
    proof (cases "till = length file_lines")
      case whole: True
      have "cs = [?c]" using 1(2) True ab whole by (subst (asm) chunk_loop.simps) (simp add: Let_def till_def)
      with 1(5) first show ?thesis by simp
    next
      case False
      then obtain rest where rest: "chunk_loop p language opts file_lines (next_start opts start till) = Inr rest" "cs = ?c # rest"
        using 1(2) True ab by (subst (asm) chunk_loop.simps) (auto simp: Let_def res_simps till_def)
      with 1(1) [OF True till_def refl ab refl False rest(1) 1(3,4)] 1(5) first show ?thesis by auto
    qed
  qed (use 1 in \<open>subst (asm) chunk_loop.simps; simp\<close>)
qed

lemma scanned_chunks:
  assumes "chunk_scanned env cfg f = Inr cs" and "c \<in> set cs" and "index_chunk_lines (app_index cfg) < 2 ^ 63"
  shows "\<exists>body. cli_read env (file_absolute_path f) = Some body \<and>
    chunk_of_file (lexically_normal (file_relative_path f)) (split_lines body) c"
proof -
  obtain body where body: "cli_read env (file_absolute_path f) = Some body"
    "chunk_text (file_relative_path f) (file_language f) body (cli_chunking cfg) = Inr cs"
    using assms(1) by (auto simp: chunk_scanned_def chunk_file_def split: option.splits)
  have "0 < max_lines (cli_chunking cfg)" "max_lines (cli_chunking cfg) < 2 ^ 63"
    using body(2) assms(3) by (auto simp: chunk_text_def validate_options_def cli_chunking_def res_simps split: if_splits)
  with body assms(2) chunk_loop_chunks show ?thesis
    by (fastforce simp: chunk_text_def res_simps Let_def split: if_splits)
qed

lemma ask_prepared:
  assumes "prepare_ask env cfg args = Inr svc"
  obtains sc css where "cli_scan env \<lparr>opt_max_file_bytes = index_max_file_bytes (app_index cfg), opt_include_globs = [],
      opt_exclude_globs = []\<rparr> = Inr sc" "res_map (chunk_scanned env cfg) (scan_files sc) = Inr css"
    "get_chunks svc = (\<lambda>ids. Inr (memory_get_many (replace_chunks (concat css) Map.empty) ids))"
    "budget svc = \<lparr>model_context = model_context_size (app_generation_model cfg),
       reserved_output_tokens = size_of_int32 (asked_max_tokens args), safety_margin_tokens = 128\<rparr>"
    "asked_max_tokens args < int32_of_size (model_context_size (app_generation_model cfg))"
  using assms that
  by (auto simp: prepare_ask_def ask_in_memory_def make_ask_service_def res_simps split: if_splits)

lemma ask_command_cases:
  assumes "ask_command env args = (out, Inr r)" and "load_generator env = Inr cfg"
  obtains svc k where "prepare_ask env cfg args = Inr svc" "ask svc (asked_question args) k (Some (\<lambda>t. None)) (cli_stop env) = (out, Inr r)"
  using assms that by (auto simp: ask_command_def res_simps split: sum.splits)

lemma asked_budget:
  assumes "ask svc q k on_token stop = (calls, Inr r)"
    and "budget svc = \<lparr>model_context = context_size, reserved_output_tokens = n, safety_margin_tokens = 128\<rparr>"
    and "context_size < 2 ^ 31" and "n < 2 ^ 31"
  shows "answer r = concat calls \<and> prompt_tokens r + n + 128 \<le> context_size"
proof -
  from ask_result [OF assms(1)] obtain sources prompt where
    a: "build_rag q sources (count_tokens svc) (budget svc) = Inr prompt" "answer r = concat calls"
      "prompt_tokens r = rag_token_count prompt" by (metis AskResult.select_convs(1,4))
  have "rag_token_count prompt + reserved_output_tokens (budget svc) + safety_margin_tokens (budget svc) \<le> model_context (budget svc)"
    by (rule build_rag_sound [OF a(1)]) (use assms(3,4) in \<open>simp_all add: assms(2)\<close>)
  with a(2,3) show ?thesis by (simp add: assms(2))
qed

section \<open>Examples\<close>

definition sample_file :: ScannedFile where
  "sample_file = \<lparr>file_absolute_path = ''/r/a.cpp'', file_relative_path = ''a.cpp'', file_language = ''cpp'', file_size_bytes = 1\<rparr>"

definition sample_app :: AppConfig where
  "sample_app = \<lparr>app_generation_model = default_model, app_embedding_model = default_model, app_index = default_index,
     app_log_level = ''info''\<rparr>"

definition sample_cli :: cli_env where
  "sample_cli = \<lparr>cli_config = Inr sample_app, cli_scan = (\<lambda>opts. Inr \<lparr>scan_files = [sample_file],
       scan_stats = \<lparr>files_seen = 1, files_indexable = 1, files_skipped = 0\<rparr>\<rparr>),
     cli_read = [''/r/a.cpp'' \<mapsto> ''x''], cli_runtime = Inr (), cli_generator = Inr (), cli_embedder = Inr (), cli_dimension = 1,
     cli_embed = (\<lambda>t kind. Inr [0]), cli_embed_batch = (\<lambda>ts kind. Inr (map (\<lambda>t. [0]) ts)),
     cli_generate = (\<lambda>p opts stop. ([''[S1]''], Inr empty_stats)), cli_count_tokens = (\<lambda>t. Inr 3),
     cli_format = (\<lambda>ms b. Inr ''p''), cli_stop = False, cli_stopped = False\<rparr>"

lemma sample_loaded: "load_generator sample_cli = Inr sample_app"
  by (simp add: load_generator_def sample_cli_def)

lemma sample_cli_fields:
  "cli_embedder sample_cli = Inr ()" "cli_dimension sample_cli = 1" "cli_embed sample_cli = (\<lambda>t kind. Inr [0])"
  "cli_embed_batch sample_cli = (\<lambda>ts kind. Inr (map (\<lambda>t. [0]) ts))"
  "cli_generate sample_cli = (\<lambda>p opts stop. ([''[S1]''], Inr empty_stats))" "cli_count_tokens sample_cli = (\<lambda>t. Inr 3)"
  "cli_format sample_cli = (\<lambda>ms b. Inr ''p'')" "cli_stop sample_cli = False" "cli_stopped sample_cli = False"
  "cli_scan sample_cli = (\<lambda>opts. Inr \<lparr>scan_files = [sample_file],
     scan_stats = \<lparr>files_seen = 1, files_indexable = 1, files_skipped = 0\<rparr>\<rparr>)"
  by (simp_all add: sample_cli_def)

lemma sample_window: "model_context_size (app_generation_model sample_app) = 4096" "int32_of_size 4096 = 4096"
  using int32_of_size_small [of 4096] by (simp_all add: sample_app_def default_model_def)

section \<open>Properties\<close>

text \<open>
  The turns of a chat are read as a history exactly if they are the turns \<^verbatim>\<open>role:content\<close> of messages with non-empty
  contents, which then are the history: every history can be given, contents with colons included, and none in two ways.
\<close>

lemma chat_turns_round_trip:
  "add_turns ts new_session = Inr s \<longleftrightarrow> ts = map turn_of (session_messages s) \<and>
     list_all (\<lambda>m. msg_content m \<noteq> []) (session_messages s) \<and> session_state s = Idle"
proof -
  have "session_state new_session = Idle" by (simp add: new_session_def)
  from add_turns_iff [OF this, of ts s] show ?thesis by (cases s) (auto simp: new_session_def)
qed

text \<open>
  C38. A chat that ends normally has sent the generator the formatted history of its arguments without some of its oldest
  messages, in a prompt that leaves \<^verbatim>\<open>max_tokens\<close> of the context free; the session then holds the history and the answer
  that was printed, if it is not empty, and is completed; or, if a stop was requested, it holds the history and is cancelled.
\<close>

theorem chat_command_outcome:
  assumes "load_generator env = Inr cfg" and "model_context_size (app_generation_model cfg) < 2 ^ 31"
    and "0 \<le> opt_max_tokens (chat_options args)" and "chat_command env args = (out, Inr (s, stats))"
  shows "\<exists>ms k txt n. argument_messages args ms \<and> cli_format env (drop_oldest k ms) True = Inr txt \<and>
    cli_count_tokens env txt = Inr n \<and>
    int n + opt_max_tokens (chat_options args) \<le> int (model_context_size (app_generation_model cfg)) \<and>
    cli_generate env txt (chat_options args) (cli_stop env) = (out, Inr stats) \<and>
    session_messages s = ms @ (if cli_stopped env \<or> concat out = [] then []
      else [\<lparr>msg_role = Role_assistant, msg_content = concat out\<rparr>]) \<and>
    session_state s = (if cli_stopped env then Cancelled else Completed)"
proof -
  obtain s0 built where p: "prepare_chat env cfg args = Inr (s0, built)"
    "cli_generate env (built_text built) (chat_options args) (cli_stop env) = (out, Inr stats)"
    "(if cli_stopped env then cancel s0 else complete (concat out) s0) = Inr s"
    using assms(1,4) by (auto simp: chat_command_def res_simps split: sum.splits prod.splits)
  from chat_prepared [OF p(1) assms(2,3)] obtain ms k n where m: "argument_messages args ms"
    "s0 = \<lparr>session_messages = ms, session_state = Decoding\<rparr>" "cli_format env (drop_oldest k ms) True = Inr (built_text built)"
    "cli_count_tokens env (built_text built) = Inr n"
    "int n + opt_max_tokens (chat_options args) \<le> int (model_context_size (app_generation_model cfg))" by blast
  have "session_messages s = ms @ (if cli_stopped env \<or> concat out = [] then []
      else [\<lparr>msg_role = Role_assistant, msg_content = concat out\<rparr>])"
    "session_state s = (if cli_stopped env then Cancelled else Completed)"
    using p(3) by (auto simp: m(2) cancel_def complete_def split: if_splits)
  with m p(2) show ?thesis by blast
qed


text \<open>A limit that leaves less than the margin of 128 tokens passes the check, and every question then fails.\<close>

lemma ask_needs_margin:
  assumes "load_generator env = Inr cfg" and "model_context_size (app_generation_model cfg) < 2 ^ 31"
    and "0 \<le> asked_max_tokens args" and "int (model_context_size (app_generation_model cfg)) \<le> asked_max_tokens args + 128"
  shows "cli_main env (Ask args) = 1"
proof -
  have "\<exists>e. snd (ask_command env args) = Inl e"
  proof (rule ccontr)
    assume "\<not> (\<exists>e. snd (ask_command env args) = Inl e)"
    then obtain out r where "ask_command env args = (out, Inr r)" by (metis prod.collapse sum.exhaust)
    from ask_command_cases [OF this assms(1)] obtain svc k where svc: "prepare_ask env cfg args = Inr svc"
      "ask svc (asked_question args) k (Some (\<lambda>t. None)) (cli_stop env) = (out, Inr r)" by metis
    obtain sources prompt where "build_rag (asked_question args) sources (count_tokens svc) (budget svc) = Inr prompt"
      using ask_result [OF svc(2)] by metis
    moreover have "budget svc = \<lparr>model_context = model_context_size (app_generation_model cfg),
       reserved_output_tokens = size_of_int32 (asked_max_tokens args), safety_margin_tokens = 128\<rparr>"
      "asked_max_tokens args < int32_of_size (model_context_size (app_generation_model cfg))"
      by (rule ask_prepared [OF svc(1)]; simp)+
    moreover from this(2) have "size_of_int32 (asked_max_tokens args) = nat (asked_max_tokens args)" "nat (asked_max_tokens args) < 2 ^ 31"
      using assms(2,3) int32_of_size_small [OF assms(2)] by (simp_all add: size_of_int32_def)
    ultimately show False using assms(3,4) by (auto simp: build_rag_def split: if_splits)
  qed
  then show ?thesis by (auto simp: exit_code_def)
qed

lemma chat_turns_round_trip_example:
  "add_turns [''user:see a::b'', ''assistant:ok''] new_session = Inr \<lparr>session_messages =
     [\<lparr>msg_role = Role_user, msg_content = ''see a::b''\<rparr>, \<lparr>msg_role = Role_assistant, msg_content = ''ok''\<rparr>], session_state = Idle\<rparr>"
  unfolding chat_turns_round_trip by (simp add: turn_of_def role_name_def)

definition sample_chat :: chat_arguments where
  "sample_chat = \<lparr>chat_system = [], chat_users = [''hi''], chat_turns = [], chat_options = default_generation\<rparr>"

theorem chat_command_outcome_witness:
  "\<exists>s stats. chat_command sample_cli sample_chat = ([''[S1]''], Inr (s, stats)) \<and> session_state s = Completed \<and>
     last (session_messages s) = \<lparr>msg_role = Role_assistant, msg_content = ''[S1]''\<rparr>"
proof -
  have "build_loop (\<lambda>ms b. Inr ''p'') (\<lambda>t. Inr 3) n ms 0 = Inr \<lparr>built_text = ''p'', built_retained = ms, built_token_count = 3, built_discarded = 0\<rparr>"
    if "3 \<le> n" for n ms using that by (subst build_loop.simps) simp
  moreover have "sz_sub 4096 (size_of_int32 512) = 3584" by (simp add: sz_sub_def size_of_int32_def)
  moreover have "chat_history sample_chat = Inr \<lparr>session_messages = [\<lparr>msg_role = Role_user, msg_content = ''hi''\<rparr>], session_state = Idle\<rparr>"
    unfolding chat_history_iff by (simp add: argument_messages_def sample_chat_def)
  moreover have limit: "opt_max_tokens (chat_options sample_chat) = 512" by (simp add: sample_chat_def default_generation_def)
  ultimately obtain s stats where c: "chat_command sample_cli sample_chat = ([''[S1]''], Inr (s, stats))"
    by (simp add: chat_command_def sample_loaded prepare_chat_def sample_window sample_cli_fields Let_def build_def
      begin_prefill_def begin_decoding_def complete_def)
  from chat_command_outcome [OF sample_loaded _ _ c] limit obtain ms where "session_messages s = ms @ (if concat [''[S1]''] = [] then []
      else [\<lparr>msg_role = Role_assistant, msg_content = concat [''[S1]'']\<rparr>])" "session_state s = Completed"
    by (auto simp: sample_window sample_cli_fields)
  with c show ?thesis by simp
qed

lemma sample_chunked: "\<exists>c. chunk_scanned sample_cli sample_app sample_file = Inr [c]"
proof -
  have lines: "split_lines ''x'' = [''x'']" by (simp add: split_lines.simps pop_cr_def)
  have "chunk_loop p language opts [''x''] 0 = Inr [make_chunk p language opts (join_lines [''x''] 0 1) 1 1]"
    if "max_lines opts = 80" "max_bytes opts = 12288" for p language opts
    using that by (simp add: chunk_loop.simps Let_def chunk_end_def shrink_end.simps line_number_def sz_sub_def)
  moreover have "lexically_normal ''a.cpp'' = ''a.cpp''" "\<not> is_absolute ''a.cpp''" "\<not> starts_with ''a.cpp'' ''../''" by code_simp+
  ultimately show ?thesis
    by (simp add: chunk_scanned_def chunk_file_def chunk_text_def sample_cli_def sample_file_def lines cli_chunking_def
      sample_app_def default_index_def default_chunking_def validate_options_def)
qed


end
