(* ===== verification/Generator.thy ===== *)
theory Generator
  imports Ask_Service Utf8_Stream
begin

text \<open>
  \<^verbatim>\<open>src/adapters/llama/llama_generator.cpp\<close>: tokenizing, prefilling the context in batches and the
  decoding loop with its token limit, cancellation and UTF-8 repair. The functions of llama.cpp that are
  called are the fields of the record \<open>llama\<close>; a context is a value \<open>'c\<close> that sampling and decoding
  update. The stop token is read at several points: \<open>stop n\<close> is the answer to its \<open>n\<close>-th reading.
\<close>

datatype sampler_stage =
    Greedy
  | Top_k int
  | Top_p float32 nat
  | Penalties int float32 float32 float32
  | Temperature float32
  | Dist "32 word"

record 'c llama =
  llama_tokenize :: "string \<Rightarrow> int \<Rightarrow> int \<times> int list"
  llama_token_to_piece :: "int \<Rightarrow> int \<Rightarrow> int \<times> string"
  llama_is_eog :: "int \<Rightarrow> bool"
  llama_init :: "'c option"
  llama_sampler :: bool
  llama_sample :: "sampler_stage list \<Rightarrow> 'c \<Rightarrow> int \<times> 'c"
  llama_decode :: "'c \<Rightarrow> int list \<Rightarrow> int \<times> 'c"

record generator_config =
  config_context_size :: nat
  config_batch_size :: nat

section \<open>Checked conversions and the tokenizer\<close>

abbreviation int32_max :: nat where "int32_max \<equiv> 2147483647"
abbreviation uint32_max :: nat where "uint32_max \<equiv> 4294967295"

definition checked_u32 :: "nat \<Rightarrow> string \<Rightarrow> nat res" where
  "checked_u32 v name = (if uint32_max < v then Inl (Invalid_argument (name @ '' is too large''))
     else Inr v)"

definition checked_i32 :: "nat \<Rightarrow> string \<Rightarrow> int res" where
  "checked_i32 v name = (if int32_max < v then Inl (Invalid_argument (name @ '' is too large''))
     else Inr (int v))"

text \<open>
  The first call asks for the size (a negative number), the second fills a buffer of that size; the
  buffer is resized to the count returned.
\<close>

definition tokenize :: "'c llama \<Rightarrow> string \<Rightarrow> int list res" where
  "tokenize lib txt = res_bind (checked_i32 (length txt) ''text size'') (\<lambda>text_size.
     let required = fst (llama_tokenize lib txt 0) in
     if required = 0 then Inr []
     else if 0 < required \<or> required = - 2147483648
       then Inl (Runtime_error ''llama_tokenize did not report the required buffer size'')
     else case llama_tokenize lib txt (- required) of (cnt, written) \<Rightarrow>
       if cnt < 0 then Inl (Runtime_error ''failed to tokenize input text'')
       else Inr (take (nat cnt) (written @ replicate (nat cnt) 0)))"

definition llama_count_tokens :: "'c llama \<Rightarrow> token_counter" where
  "llama_count_tokens lib txt = res_bind (tokenize lib txt) (\<lambda>ts. Inr (length ts))"

definition token_piece :: "'c llama \<Rightarrow> int \<Rightarrow> string res" where
  "token_piece lib token = (
     case llama_token_to_piece lib token 256 of (size1, buf1) \<Rightarrow>
     case (if size1 < 0 then llama_token_to_piece lib token (- size1) else (size1, buf1)) of
       (size2, buf2) \<Rightarrow>
         if size2 < 0 then Inl (Runtime_error ''failed to convert generated token to text'')
         else Inr (take (nat size2) buf2))"

section \<open>Prefill\<close>

text \<open>
  The loop that decodes the prompt in batches: what is left to decode, the batches decoded, and the
  number of stop-token readings. A batch size of zero would make no progress: not returning is
  \<open>None\<close>.
\<close>

datatype 'c prefill_result = Prefilled 'c nat "int list list" | Prefill_stopped | Prefill_failed int

partial_function (option) prefill ::
  "'c llama \<Rightarrow> (nat \<Rightarrow> bool) \<Rightarrow> nat \<Rightarrow> nat \<Rightarrow> int list list \<Rightarrow> int list \<Rightarrow> 'c \<Rightarrow> 'c prefill_result option" where
  "prefill lib stop batch_size polls batches rest ctx = (
     if rest = [] then Some (Prefilled ctx polls batches)
     else if stop polls then Some Prefill_stopped
     else let b = take (min batch_size (length rest)) rest; r = llama_decode lib ctx b in
       if fst r \<noteq> 0 then Some (Prefill_failed (fst r))
       else prefill lib stop batch_size (polls + 1) (batches @ [b])
         (drop (min batch_size (length rest)) rest) (snd r))"

section \<open>Decoding\<close>

text \<open>
  The state of the decoding loop; \<open>produced\<close> records the pieces of the tokens generated so far and
  \<open>calls\<close> the calls of the token callback.
\<close>

record 'c decoding =
  dec_context :: 'c
  dec_sampler :: "sampler_stage list"
  dec_polls :: nat
  dec_pending :: string
  dec_calls :: "string list"
  dec_produced :: "string list"

datatype finish = Max_tokens | Cancelled_generation | End_of_generation

text \<open>One iteration: it ends the loop with a reason (or an exception) or goes on (\<open>None\<close>).\<close>

definition decode_step ::
  "'c llama \<Rightarrow> (nat \<Rightarrow> bool) \<Rightarrow> (string \<Rightarrow> exn option) \<Rightarrow> bool \<Rightarrow> 'c decoding \<Rightarrow>
    'c decoding \<times> finish option res" where
  "decode_step lib stop on_token goes_on s = (
     if stop (dec_polls s) then (s, Inr (Some Cancelled_generation))
     else case llama_sample lib (dec_sampler s) (dec_context s) of (token, ctx) \<Rightarrow>
       let s = s\<lparr>dec_polls := dec_polls s + 1, dec_context := ctx\<rparr> in
       if llama_is_eog lib token then (s, Inr (Some End_of_generation))
       else case token_piece lib token of
         Inl e \<Rightarrow> (s, Inl e)
       | Inr piece \<Rightarrow> (case emit_complete_utf8 (dec_pending s @ piece) False of (pending, outs) \<Rightarrow>
           case deliver on_token outs of (calls, thrown) \<Rightarrow>
           let s = s\<lparr>dec_pending := pending, dec_calls := dec_calls s @ calls,
             dec_produced := dec_produced s @ [piece]\<rparr> in
           case thrown of
             Some e \<Rightarrow> (s, Inl e)
           | None \<Rightarrow>
               if \<not> goes_on then (s, Inr None)
               else let s' = s\<lparr>dec_polls := dec_polls s + 1\<rparr> in
                 if stop (dec_polls s) then (s', Inr None)
                 else case llama_decode lib ctx [token] of (code, ctx) \<Rightarrow>
                   if code \<noteq> 0 then (s', Inl (Runtime_error
                      (''llama token decode failed with code '' @ string_of_int code)))
                   else (s'\<lparr>dec_context := ctx\<rparr>, Inr None)))"

function decode_loop ::
  "'c llama \<Rightarrow> (nat \<Rightarrow> bool) \<Rightarrow> (string \<Rightarrow> exn option) \<Rightarrow> nat \<Rightarrow> nat \<Rightarrow> 'c decoding \<Rightarrow>
    'c decoding \<times> finish res" where
  "decode_loop lib stop on_token token_limit generated s = (
     if token_limit \<le> generated then (s, Inr Max_tokens)
     else case decode_step lib stop on_token (generated + 1 < token_limit) s of
       (s, Inl e) \<Rightarrow> (s, Inl e)
     | (s, Inr (Some reason)) \<Rightarrow> (s, Inr reason)
     | (s, Inr None) \<Rightarrow> decode_loop lib stop on_token token_limit (generated + 1) s)"
  by pat_completeness auto
termination
  by (relation "measure (\<lambda>(lib, stop, on_token, token_limit, generated, s). token_limit - generated)")
    auto

declare decode_loop.simps [simp del]

section \<open>Generating\<close>

text \<open>The argument checks at the start of \<open>generate\<close>.\<close>

definition check_options :: "string \<Rightarrow> GenerationOptions \<Rightarrow> bool \<Rightarrow> unit res" where
  "check_options prompt opts has_callback = (
     if prompt = [] then Inl (Invalid_argument ''prompt must not be empty'')
     else if \<not> has_callback then Inl (Invalid_argument ''token callback must not be empty'')
     else if opt_max_tokens opts < 0
       then Inl (Invalid_argument ''max_tokens must not be negative'')
     else if \<not> f32_isfinite (opt_temperature opts) \<or> f32_less (opt_temperature opts) 0
       then Inl (Invalid_argument ''temperature must be finite and non-negative'')
     else if \<not> f32_isfinite (opt_top_p opts) \<or> f32_less (opt_top_p opts) 0
         \<or> f32_equal (opt_top_p opts) 0 \<or> f32_less f32_one (opt_top_p opts)
       then Inl (Invalid_argument ''top_p must be in (0, 1]'')
     else if opt_top_k opts < 0 then Inl (Invalid_argument ''top_k must not be negative'')
     else if \<not> f32_isfinite (opt_repeat_penalty opts) \<or> f32_less (opt_repeat_penalty opts) 0
         \<or> f32_equal (opt_repeat_penalty opts) 0
       then Inl (Invalid_argument ''repeat_penalty must be finite and positive'')
     else Inr ())"

text \<open>Readings of the steady clock, in nanoseconds.\<close>

record clock_readings =
  clock_started :: nat
  clock_prefill_started :: nat
  clock_prefill_finished :: nat
  clock_first_token :: nat
  clock_finished :: nat

definition tokens_per_second :: "nat \<Rightarrow> nat \<Rightarrow> float64" where
  "tokens_per_second tokens elapsed_ns = (
     let seconds = f64_div (f64_of_nat elapsed_ns) (f64_of_nat 1000000000) in
     if f64_less 0 seconds then f64_div (f64_of_nat tokens) seconds else 0)"

text \<open>The stages of the sampler chain: greedy at temperature zero (of either sign), else five stages.\<close>

definition sampler_chain :: "GenerationOptions \<Rightarrow> sampler_stage list" where
  "sampler_chain opts = (
     if f32_equal (opt_temperature opts) 0 then [Greedy]
     else [Top_k (opt_top_k opts), Top_p (opt_top_p opts) 1,
       Penalties (- 1) (opt_repeat_penalty opts) 0 0, Temperature (opt_temperature opts),
       Dist (opt_seed opts)])"

text \<open>Everything before the prefill: the prompt's tokens and a fresh context, or an exception.\<close>

definition prepare :: "'c llama \<Rightarrow> generator_config \<Rightarrow> string \<Rightarrow> GenerationOptions \<Rightarrow> bool \<Rightarrow>
    (int list \<times> 'c) res" where
  "prepare lib cfg prompt opts has_callback =
     res_bind (check_options prompt opts has_callback) (\<lambda>_.
     res_bind (tokenize lib prompt) (\<lambda>ptokens.
     if ptokens = [] then Inl (Runtime_error ''prompt tokenization produced no tokens'')
     else if config_context_size cfg \<le> length ptokens
       then Inl (Invalid_argument (''prompt needs '' @ string_of_nat (length ptokens) @
         '' tokens but context_size is '' @ string_of_nat (config_context_size cfg)))
     else res_bind (checked_u32 (config_context_size cfg) ''context_size'') (\<lambda>_.
       res_bind (checked_u32 (config_batch_size cfg) ''batch_size'') (\<lambda>_.
       case llama_init lib of
         None \<Rightarrow> Inl (Runtime_error ''failed to create llama context'')
       | Some ctx \<Rightarrow> if llama_sampler lib then Inr (ptokens, ctx)
           else Inl (Runtime_error ''failed to create sampler chain'')))))"

definition generation_stats :: "clock_readings \<Rightarrow> nat \<Rightarrow> nat \<Rightarrow> GenerationStats" where
  "generation_stats clk prompt_n n =
     \<lparr>stat_prompt_tokens = prompt_n, stat_generated_tokens = n,
       stat_time_to_first_token = (if n = 0 then 0
         else (int (clock_first_token clk) - int (clock_started clk)) div 1000000),
       stat_prompt_tokens_per_second = tokens_per_second prompt_n
         (clock_prefill_finished clk - clock_prefill_started clk),
       stat_decode_tokens_per_second = (if n = 0 then 0
         else tokens_per_second n (clock_finished clk - clock_prefill_finished clk))\<rparr>"

text \<open>The decoding phase: the loop, then the final flush of the bytes that are still pending.\<close>

definition decode_phase :: "'c llama \<Rightarrow> generator_config \<Rightarrow> GenerationOptions \<Rightarrow> (string \<Rightarrow> exn option) \<Rightarrow>
    (nat \<Rightarrow> bool) \<Rightarrow> nat \<Rightarrow> nat \<Rightarrow> 'c \<Rightarrow> string list \<times> nat res" where
  "decode_phase lib cfg opts on_token stop prompt_n polls ctx = (
     let token_limit = min (config_context_size cfg - prompt_n) (nat (opt_max_tokens opts)) in
     case decode_loop lib stop on_token token_limit 0
         \<lparr>dec_context = ctx, dec_sampler = sampler_chain opts, dec_polls = polls, dec_pending = [],
           dec_calls = [], dec_produced = []\<rparr> of
       (s, Inl e) \<Rightarrow> (dec_calls s, Inl e)
     | (s, Inr reason) \<Rightarrow>
         (case deliver on_token (snd (emit_complete_utf8 (dec_pending s) True)) of
           (calls, Some e) \<Rightarrow> (dec_calls s @ calls, Inl e)
         | (calls, None) \<Rightarrow> (dec_calls s @ calls, Inr (length (dec_produced s)))))"

definition llama_generate :: "'c llama \<Rightarrow> generator_config \<Rightarrow> clock_readings \<Rightarrow> string \<Rightarrow>
    GenerationOptions \<Rightarrow> (string \<Rightarrow> exn option) option \<Rightarrow> (nat \<Rightarrow> bool) \<Rightarrow>
    (string list \<times> GenerationStats res) option" where
  "llama_generate lib cfg clk prompt opts on_token stop = (
     case prepare lib cfg prompt opts (on_token \<noteq> None) of
       Inl e \<Rightarrow> Some ([], Inl e)
     | Inr (ptokens, ctx) \<Rightarrow>
         (case prefill lib stop (config_batch_size cfg) 0 [] ptokens ctx of
           None \<Rightarrow> None
         | Some Prefill_stopped \<Rightarrow> Some ([], Inr empty_stats)
         | Some (Prefill_failed code) \<Rightarrow> Some ([], Inl (Runtime_error
             (''llama prompt decode failed with code '' @ string_of_int code)))
         | Some (Prefilled ctx polls batches) \<Rightarrow>
             (case decode_phase lib cfg opts (the on_token) stop (length ptokens) polls ctx of
               (calls, Inl e) \<Rightarrow> Some (calls, Inl e)
             | (calls, Inr n) \<Rightarrow> Some (calls, Inr (generation_stats clk (length ptokens) n)))))"

text \<open>\<open>generate_chat\<close> formats the messages, with the assistant prefix, and generates from that prompt.\<close>

definition generate_chat :: "'c llama \<Rightarrow> generator_config \<Rightarrow> clock_readings \<Rightarrow>
    (ChatMessage list \<Rightarrow> bool \<Rightarrow> string res) \<Rightarrow> ChatMessage list \<Rightarrow> GenerationOptions \<Rightarrow>
    (string \<Rightarrow> exn option) option \<Rightarrow> (nat \<Rightarrow> bool) \<Rightarrow> (string list \<times> GenerationStats res) option" where
  "generate_chat lib cfg clk fmt messages opts on_token stop = (
     case fmt messages True of
       Inl e \<Rightarrow> Some ([], Inl e)
     | Inr prompt \<Rightarrow> llama_generate lib cfg clk prompt opts on_token stop)"

section \<open>What a generation should produce\<close>

text \<open>
  The plain reading of autoregressive decoding, without batches, stop token, limits or callbacks: the
  context after some batches were decoded, and the tokens one gets by sampling, decoding the token and
  sampling again.
\<close>

fun decoded :: "'c llama \<Rightarrow> 'c \<Rightarrow> int list list \<Rightarrow> 'c" where
  "decoded lib ctx [] = ctx"
| "decoded lib ctx (b # bs) = decoded lib (snd (llama_decode lib ctx b)) bs"

fun sampled :: "'c llama \<Rightarrow> sampler_stage list \<Rightarrow> 'c \<Rightarrow> nat \<Rightarrow> int list" where
  "sampled lib chain ctx 0 = []"
| "sampled lib chain ctx (Suc n) = (case llama_sample lib chain ctx of (token, ctx') \<Rightarrow>
     token # sampled lib chain (snd (llama_decode lib ctx' [token])) n)"

lemma length_sampled [simp]: "length (sampled lib chain ctx n) = n"
  by (induction lib chain ctx n rule: sampled.induct) (simp_all split: prod.split)

text \<open>A \<^verbatim>\<open>std::stop_token\<close> whose stop was requested stays so.\<close>

definition stop_stays :: "(nat \<Rightarrow> bool) \<Rightarrow> bool" where
  "stop_stays stop \<longleftrightarrow> (\<forall>m n. m \<le> n \<longrightarrow> stop m \<longrightarrow> stop n)"

section \<open>Prefill returns\<close>

lemma prefill_returns:
  assumes "0 < batch_size"
  shows "\<exists>r. prefill lib stop batch_size polls batches rest ctx = Some r
    \<and> (\<forall>c p bs. r = Prefilled c p bs \<longrightarrow> (\<exists>new. bs = batches @ new \<and> concat new = rest
         \<and> (\<forall>b \<in> set new. b \<noteq> [] \<and> length b \<le> batch_size)))"
proof (induction "length rest" arbitrary: polls batches rest ctx rule: less_induct)
  case less
  let ?n = "min batch_size (length rest)"
  let ?b = "take ?n rest"
  show ?case
  proof (cases "rest = [] \<or> stop polls \<or> fst (llama_decode lib ctx ?b) \<noteq> 0")
    case True
    then show ?thesis by (subst prefill.simps) (auto simp: Let_def)
  next
    case False
    then have "length (drop ?n rest) < length rest" using assms by simp
    from less [OF this, of "polls + 1" "batches @ [?b]" "snd (llama_decode lib ctx ?b)"] obtain r
      where r: "prefill lib stop batch_size (polls + 1) (batches @ [?b]) (drop ?n rest)
          (snd (llama_decode lib ctx ?b)) = Some r"
        "\<forall>c p bs. r = Prefilled c p bs \<longrightarrow> (\<exists>new. bs = (batches @ [?b]) @ new
          \<and> concat new = drop ?n rest \<and> (\<forall>b \<in> set new. b \<noteq> [] \<and> length b \<le> batch_size))"
      by blast
    have p: "prefill lib stop batch_size polls batches rest ctx = Some r"
      using False r(1) by (subst prefill.simps) (simp add: Let_def)
    have b: "?b \<noteq> []" "length ?b \<le> batch_size" using False assms by auto
    have "\<exists>new. bs = batches @ new \<and> concat new = rest
        \<and> (\<forall>b \<in> set new. b \<noteq> [] \<and> length b \<le> batch_size)" if "r = Prefilled c q bs" for c q bs
    proof -
      from r(2) that obtain new where "bs = (batches @ [?b]) @ new" "concat new = drop ?n rest"
        "\<forall>b \<in> set new. b \<noteq> [] \<and> length b \<le> batch_size" by blast
      with b show ?thesis by (intro exI [of _ "?b # new"]) auto
    qed
    with p show ?thesis by blast
  qed
qed

text \<open>A prefill that ends has decoded exactly the prompt, in batches of at most the batch size.\<close>

lemma prefill_decodes:
  "prefill lib stop batch_size polls batches rest ctx = Some r \<Longrightarrow> \<forall>c p bs. r = Prefilled c p bs \<longrightarrow>
    (\<exists>new. bs = batches @ new \<and> concat new = rest \<and> c = decoded lib ctx new
      \<and> (\<forall>b \<in> set new. b \<noteq> [] \<and> length b \<le> batch_size))"
proof (induction rule: prefill.raw_induct [rotated 1, consumes 1, case_names step])
  case (step self lib stop batch_size polls batches rest ctx r)
  let ?n = "min batch_size (length rest)"
  let ?b = "take ?n rest"
  show ?case
  proof (cases "rest = [] \<or> stop polls \<or> fst (llama_decode lib ctx ?b) \<noteq> 0")
    case True
    with step(2) show ?thesis by (auto simp: Let_def split: if_splits)
  next
    case False
    with step(2) have "self lib stop batch_size (polls + 1) (batches @ [?b]) (drop ?n rest)
        (snd (llama_decode lib ctx ?b)) = Some r" by (simp add: Let_def)
    from step(1) [OF this] show ?thesis
    proof (intro allI impI, goal_cases)
      case (1 c p bs)
      then obtain new where new: "bs = (batches @ [?b]) @ new" "concat new = drop ?n rest"
        "c = decoded lib (snd (llama_decode lib ctx ?b)) new"
        "\<forall>b \<in> set new. b \<noteq> [] \<and> length b \<le> batch_size" by blast
      have "?b \<noteq> []"
      proof
        assume "?b = []"
        then have "batch_size = 0" using False by (cases "batch_size = 0"; cases rest) simp_all
        then have "new = []" using new(4) by (cases new) auto
        then show False using new(2) False \<open>batch_size = 0\<close> by simp
      qed
      then show ?case using new by (intro exI [of _ "?b # new"]) auto
    qed
  qed
qed

section \<open>The streaming invariant\<close>

text \<open>
  What was passed on and what is pending together determine the repair of every continuation.
\<close>

definition stream_inv :: "'c decoding \<Rightarrow> bool" where
  "stream_inv s \<longleftrightarrow> (\<forall>ys. utf8_repair (concat (dec_produced s) @ ys)
       = concat (dec_calls s) @ utf8_repair (dec_pending s @ ys))
     \<and> (\<forall>c \<in> set (dec_calls s). well_formed c)"

lemma emit_repair:
  assumes "emit_complete_utf8 pending False = (rest, outs)"
  shows "utf8_repair (pending @ ys) = concat outs @ utf8_repair (rest @ ys)"
    "\<forall>c \<in> set outs. well_formed c"
proof -
  obtain out where e: "emit_loop False pending = (out, rest)" "outs = (if out = [] then [] else [out])"
    using assms by (auto simp: emit_complete_utf8_def split: prod.splits)
  show "utf8_repair (pending @ ys) = concat outs @ utf8_repair (rest @ ys)"
    using emit_loop_append [OF e(1), of True ys] e(2) by (simp add: utf8_repair_def)
  show "\<forall>c \<in> set outs. well_formed c"
    using emit_loop_well_formed [of False pending] e by auto
qed

lemma stream_inv_emit:
  assumes "stream_inv s" and "emit_complete_utf8 (dec_pending s @ piece) False = (pending, outs)"
  shows "stream_inv (s\<lparr>dec_pending := pending, dec_calls := dec_calls s @ outs,
    dec_produced := dec_produced s @ [piece]\<rparr>)"
  using assms emit_repair [OF assms(2)] by (auto simp: stream_inv_def)

lemma stream_inv_other [simp]:
  "stream_inv (s\<lparr>dec_polls := n\<rparr>) = stream_inv s" "stream_inv (s\<lparr>dec_context := c\<rparr>) = stream_inv s"
  by (simp_all add: stream_inv_def)

text \<open>An iteration that goes on has produced one piece; one that ends the loop has produced none.\<close>

lemma decode_step_inv:
  assumes "decode_step lib stop cb goes_on s = (s', Inr r)" and "stream_inv s"
  shows "stream_inv s' \<and> length (dec_produced s') = length (dec_produced s) + (if r = None then 1 else 0)"
proof (cases "stop (dec_polls s)")
  case False
  obtain token ctx where sample: "llama_sample lib (dec_sampler s) (dec_context s) = (token, ctx)" by fastforce
  define s0 where "s0 = s\<lparr>dec_polls := dec_polls s + 1, dec_context := ctx\<rparr>"
  have inv0: "stream_inv s0" "dec_produced s0 = dec_produced s" using assms(2) by (simp_all add: s0_def)
  note step = assms(1) [unfolded decode_step_def sample Let_def, simplified, folded s0_def]
  show ?thesis
  proof (cases "llama_is_eog lib token")
    case True
    with False step inv0 show ?thesis by (auto simp: s0_def)
  next
    case eog: False
    show ?thesis
    proof (cases "token_piece lib token")
      case (Inl e)
      with False eog step show ?thesis by simp
    next
      case (Inr piece)
      obtain pending outs where emit: "emit_complete_utf8 (dec_pending s @ piece) False = (pending, outs)"
        by fastforce
      obtain calls thrown where del: "deliver cb outs = (calls, thrown)" by fastforce
      have none: "thrown = None"
        using False eog step Inr emit del by (auto split: option.splits)
      then have "calls = outs" using del deliver_all by blast
      with stream_inv_emit [OF assms(2) emit] False eog step Inr emit del none
      show ?thesis
        by (auto simp: stream_inv_def split: if_splits prod.splits)
    qed
  qed
qed (use assms in \<open>auto simp: decode_step_def\<close>)

lemma decode_loop_inv:
  "stream_inv s \<Longrightarrow> decode_loop lib stop cb limit g s = (s', Inr reason) \<Longrightarrow>
    stream_inv s' \<and> length (dec_produced s') \<le> length (dec_produced s) + (limit - g)"
proof (induction lib stop cb limit g s rule: decode_loop.induct)
  case (1 lib stop cb limit g s)
  show ?case
  proof (cases "limit \<le> g")
    case True
    with 1(2,3) show ?thesis by (subst (asm) decode_loop.simps) simp
  next
    case False
    obtain s1 r where step: "decode_step lib stop cb (g + 1 < limit) s = (s1, r)" by fastforce
    with False 1(3) obtain o' where r: "r = Inr o'"
      by (subst (asm) decode_loop.simps) (cases r; auto)
    from decode_step_inv [OF step [unfolded r] 1(2)] have inv: "stream_inv s1"
      "length (dec_produced s1) = length (dec_produced s) + (if o' = None then 1 else 0)" by simp_all
    show ?thesis
    proof (cases o')
      case None
      then have "decode_loop lib stop cb limit (g + 1) s1 = (s', Inr reason)"
        using 1(3) False step r by (subst (asm) decode_loop.simps) simp
      from 1(1) [OF False step [symmetric, unfolded r None] refl refl inv(1) this] inv(2) None False
      show ?thesis by simp linarith
    next
      case (Some reason')
      then have "s' = s1" using 1(3) False step r by (subst (asm) decode_loop.simps) simp
      with inv Some show ?thesis by simp
    qed
  qed
qed

section \<open>The tokens of the decoding loop\<close>

lemma decode_step_ends:
  assumes "decode_step lib stop cb goes_on s = (s', Inr (Some reason))"
  shows "dec_produced s' = dec_produced s \<and>
    (stop (dec_polls s) \<or> llama_is_eog lib (fst (llama_sample lib (dec_sampler s) (dec_context s))))"
  using assms by (auto simp: decode_step_def Let_def split: if_splits prod.splits sum.splits option.splits)

text \<open>
  An iteration that goes on has sampled a token and produced its piece, and decoded the token unless
  it was the last one or a stop was requested.
\<close>

lemma decode_step_goes_on:
  assumes "decode_step lib stop cb goes_on s = (s', Inr None)"
  shows "\<exists>token ctx piece. llama_sample lib (dec_sampler s) (dec_context s) = (token, ctx)
    \<and> \<not> llama_is_eog lib token \<and> token_piece lib token = Inr piece
    \<and> dec_produced s' = dec_produced s @ [piece] \<and> dec_sampler s' = dec_sampler s
    \<and> (goes_on \<longrightarrow> dec_context s' = snd (llama_decode lib ctx [token])
        \<or> stop (dec_polls s' - 1) \<and> dec_polls s' = dec_polls s + 2)"
  using assms by (auto simp: decode_step_def Let_def split: if_splits prod.splits sum.splits option.splits)

lemma decode_loop_tokens:
  assumes "stop_stays stop"
  shows "decode_loop lib stop cb limit g s = (s', Inr reason) \<Longrightarrow> dec_sampler s = chain \<Longrightarrow>
    \<exists>k pieces. dec_produced s' = dec_produced s @ pieces \<and> k \<le> limit - g \<and>
      map (token_piece lib) (sampled lib chain (dec_context s) k) = map Inr pieces \<and>
      list_all (\<lambda>t. \<not> llama_is_eog lib t) (sampled lib chain (dec_context s) k) \<and>
      (k = limit - g \<or> llama_is_eog lib (sampled lib chain (dec_context s) (Suc k) ! k) \<or> (\<exists>m. stop m))"
proof (induction "limit - g" arbitrary: g s)
  case 0
  then have "s' = s" by (subst (asm) decode_loop.simps) simp
  with 0 show ?case by (intro exI [of _ "0 :: nat"] exI [of _ "[]"]) simp
next
  case (Suc n)
  let ?goes_on = "g + 1 < limit"
  from Suc(2) have g: "\<not> limit \<le> g" by simp
  obtain s1 r where step: "decode_step lib stop cb ?goes_on s = (s1, r)" by fastforce
  with g Suc(3) obtain o' where r: "r = Inr o'" by (subst (asm) decode_loop.simps) (cases r; auto)
  show ?case
  proof (cases o')
    case (Some reason')
    then have "s' = s1" using Suc(3) g step r by (subst (asm) decode_loop.simps) simp
    with decode_step_ends [OF step [unfolded r Some]] show ?thesis
      by (intro exI [of _ "0 :: nat"] exI [of _ "[]"]) (auto simp: Suc(4) split: prod.splits)
  next
    case None
    then have loop: "decode_loop lib stop cb limit (g + 1) s1 = (s', Inr reason)"
      using Suc(3) g step r by (subst (asm) decode_loop.simps) simp
    obtain token ctx piece where t: "llama_sample lib chain (dec_context s) = (token, ctx)"
      "\<not> llama_is_eog lib token" "token_piece lib token = Inr piece"
      "dec_produced s1 = dec_produced s @ [piece]" "dec_sampler s1 = chain"
      "?goes_on \<longrightarrow> dec_context s1 = snd (llama_decode lib ctx [token])
        \<or> stop (dec_polls s1 - 1) \<and> dec_polls s1 = dec_polls s + 2"
      using decode_step_goes_on [OF step [unfolded r None]] Suc(4) by metis
    show ?thesis
    proof (cases "?goes_on \<and> dec_context s1 = snd (llama_decode lib ctx [token])")
      case True
      have n: "n = limit - (g + 1)" using Suc(2) by simp
      from Suc(1) [OF n loop t(5)] obtain k pieces where k:
        "dec_produced s' = dec_produced s1 @ pieces" "k \<le> limit - (g + 1)"
        "map (token_piece lib) (sampled lib chain (dec_context s1) k) = map Inr pieces"
        "list_all (\<lambda>t. \<not> llama_is_eog lib t) (sampled lib chain (dec_context s1) k)"
        "k = limit - (g + 1) \<or> llama_is_eog lib (sampled lib chain (dec_context s1) (Suc k) ! k) \<or> (\<exists>m. stop m)"
        by blast
      have c: "dec_context s1 = snd (llama_decode lib ctx [token])" using True by blast
      from k t c g show ?thesis by (intro exI [of _ "Suc k"] exI [of _ "piece # pieces"]) auto
    next
      case False
      have "s' = s1 \<and> (limit - g = 1 \<or> (\<exists>m. stop m))"
      proof (cases ?goes_on)
        case True
        with False t(6) have "stop (dec_polls s1 - 1)" by blast
        moreover from this assms have "stop (dec_polls s1)" unfolding stop_stays_def by (meson diff_le_self)
        ultimately show ?thesis
          using loop True by (subst (asm) decode_loop.simps) (auto simp: decode_step_def)
      next
        case False
        then show ?thesis using loop g by (subst (asm) decode_loop.simps) auto
      qed
      then show ?thesis using t g by (intro exI [of _ "1 :: nat"] exI [of _ "[piece]"]) auto
    qed
  qed
qed

section \<open>Whole generations\<close>

lemma prepare_ok:
  assumes "prepare lib cfg prompt opts cb = Inr (ptokens, ctx)"
  shows "tokenize lib prompt = Inr ptokens" "ptokens \<noteq> []" "length ptokens < config_context_size cfg"
    "0 \<le> opt_max_tokens opts"
proof -
  from assms have "check_options prompt opts cb = Inr ()"
    by (auto simp: prepare_def res_simps)
  then show "0 \<le> opt_max_tokens opts" by (auto simp: check_options_def split: if_splits)
  from assms obtain ts where t: "tokenize lib prompt = Inr ts" "ts \<noteq> []"
      "length ts < config_context_size cfg" "ts = ptokens"
    by (auto simp: prepare_def res_simps not_le split: if_splits option.splits)
  then show "tokenize lib prompt = Inr ptokens" "ptokens \<noteq> []"
    "length ptokens < config_context_size cfg" by simp_all
qed

text \<open>
  What a decoding phase that returns delivered and counted: the texts of the tokens that sampling and
  decoding in turn give, up to the limit, an end token or a stop request.
\<close>

abbreviation generation_limit :: "generator_config \<Rightarrow> GenerationOptions \<Rightarrow> nat \<Rightarrow> nat" where
  "generation_limit cfg opts prompt_n \<equiv> min (config_context_size cfg - prompt_n) (nat (opt_max_tokens opts))"

definition generates :: "'c llama \<Rightarrow> sampler_stage list \<Rightarrow> 'c \<Rightarrow> nat \<Rightarrow> bool \<Rightarrow> string list \<Rightarrow> nat \<Rightarrow> bool" where
  "generates lib chain ctx limit stopped calls n \<longleftrightarrow> n \<le> limit
     \<and> (\<forall>t \<in> set (sampled lib chain ctx n). \<not> llama_is_eog lib t)
     \<and> (n = limit \<or> llama_is_eog lib (sampled lib chain ctx (n + 1) ! n) \<or> stopped)
     \<and> (\<forall>c \<in> set calls. well_formed c)
     \<and> (\<exists>pieces. map (token_piece lib) (sampled lib chain ctx n) = map Inr pieces
          \<and> concat calls = utf8_repair (concat pieces))"

lemma decode_phase_ok:
  assumes "decode_phase lib cfg opts cb stop prompt_n polls ctx = (calls, Inr n)" and "stop_stays stop"
  shows "generates lib (sampler_chain opts) ctx (generation_limit cfg opts prompt_n) (\<exists>m. stop m) calls n"
proof -
  let ?limit = "generation_limit cfg opts prompt_n"
  let ?s0 = "\<lparr>dec_context = ctx, dec_sampler = sampler_chain opts, dec_polls = polls, dec_pending = [],
    dec_calls = [], dec_produced = []\<rparr>"
  obtain s r where loop: "decode_loop lib stop cb ?limit 0 ?s0 = (s, r)" by fastforce
  obtain final e where del: "deliver cb (snd (emit_complete_utf8 (dec_pending s) True)) = (final, e)"
    by fastforce
  obtain reason where r: "r = Inr reason"
    using assms(1) loop by (cases r) (auto simp: decode_phase_def)
  have e: "e = None" and c: "calls = dec_calls s @ final" and n: "n = length (dec_produced s)"
    using assms(1) loop r del by (auto simp: decode_phase_def split: option.splits)
  have "stream_inv ?s0" by (simp add: stream_inv_def)
  from decode_loop_inv [OF this loop [unfolded r]] have inv: "stream_inv s" by simp
  obtain k pieces where toks: "dec_produced s = pieces" "k \<le> ?limit"
      "map (token_piece lib) (sampled lib (sampler_chain opts) ctx k) = map Inr pieces"
      "list_all (\<lambda>t. \<not> llama_is_eog lib t) (sampled lib (sampler_chain opts) ctx k)"
      "k = ?limit \<or> llama_is_eog lib (sampled lib (sampler_chain opts) ctx (Suc k) ! k) \<or> (\<exists>m. stop m)"
    using decode_loop_tokens [OF assms(2) loop [unfolded r], of "sampler_chain opts"] by auto
  have k: "k = n" using toks(1) n arg_cong [OF toks(3), of length] by simp
  have final: "final = snd (emit_complete_utf8 (dec_pending s) True)"
    using deliver_all del e by blast
  have "concat final = utf8_repair (dec_pending s)"
    using final stream_pieces_total [of "dec_pending s" "[]"] by simp
  moreover have "utf8_repair (concat (dec_produced s) @ [])
      = concat (dec_calls s) @ utf8_repair (dec_pending s @ [])"
    using inv unfolding stream_inv_def by blast
  ultimately have "concat calls = utf8_repair (concat pieces)" using c toks(1) by simp
  moreover have "\<forall>c \<in> set calls. well_formed c"
    using inv c final emit_loop_well_formed [of True "dec_pending s"]
    by (auto simp: stream_inv_def emit_complete_utf8_def split: prod.splits if_splits)
  ultimately show ?thesis using toks unfolding generates_def k by (auto simp: list_all_iff)
qed

lemma prefill_stopped_stop:
  "prefill lib stop batch_size polls batches rest ctx = Some r \<Longrightarrow> r = Prefill_stopped \<longrightarrow> (\<exists>m. stop m)"
proof (induction rule: prefill.raw_induct [rotated 1, consumes 1, case_names step])
  case (step self lib stop batch_size polls batches rest ctx r)
  show ?case
  proof (cases "stop polls")
    case False
    with step(2) have "r = Prefill_stopped \<longrightarrow> self lib stop batch_size (polls + 1)
        (batches @ [take (min batch_size (length rest)) rest]) (drop (min batch_size (length rest)) rest)
        (snd (llama_decode lib ctx (take (min batch_size (length rest)) rest))) = Some r"
      by (auto simp: Let_def split: if_splits)
    with step(1) show ?thesis by blast
  qed blast
qed

lemma llama_generate_Some:
  assumes "llama_generate lib cfg clk prompt opts (Some cb) stop = Some (calls, Inr stats)"
  shows "\<exists>ptokens ctx. prepare lib cfg prompt opts True = Inr (ptokens, ctx)
    \<and> (calls = [] \<and> stats = empty_stats \<and> (\<exists>m. stop m) \<or> (\<exists>batches polls n.
      concat batches = ptokens \<and> (\<forall>b \<in> set batches. b \<noteq> [] \<and> length b \<le> config_batch_size cfg)
      \<and> decode_phase lib cfg opts cb stop (length ptokens) polls (decoded lib ctx batches) = (calls, Inr n)
      \<and> stats = generation_stats clk (length ptokens) n))"
proof (cases "prepare lib cfg prompt opts True")
  case (Inr p)
  obtain ptokens ctx where p: "p = (ptokens, ctx)" by fastforce
  obtain r where r: "prefill lib stop (config_batch_size cfg) 0 [] ptokens ctx = Some r"
    using assms Inr p by (auto simp: llama_generate_def split: option.splits)
  show ?thesis
  proof (cases r)
    case (Prefilled c polls bs)
    obtain cs m where d: "decode_phase lib cfg opts cb stop (length ptokens) polls c = (cs, m)"
      by fastforce
    from prefill_decodes [OF r] Prefilled have "concat bs = ptokens" "c = decoded lib ctx bs"
      "\<forall>b \<in> set bs. b \<noteq> [] \<and> length b \<le> config_batch_size cfg" by auto
    moreover from assms Inr p r Prefilled d obtain n where "cs = calls" "m = Inr n"
      "stats = generation_stats clk (length ptokens) n" by (cases m) (auto simp: llama_generate_def)
    ultimately show ?thesis using Inr p d by blast
  qed (use assms Inr p r prefill_stopped_stop [OF r] in \<open>auto simp: llama_generate_def\<close>)
qed (use assms in \<open>simp add: llama_generate_def\<close>)

text \<open>The documented behaviour of \<^verbatim>\<open>llama_tokenize\<close> for a text with the tokens \<open>ts\<close>.\<close>

definition tokenizes_to :: "'c llama \<Rightarrow> string \<Rightarrow> int list \<Rightarrow> bool" where
  "tokenizes_to lib txt ts \<longleftrightarrow> (\<forall>cap \<ge> 0. llama_tokenize lib txt cap =
     (if int (length ts) \<le> cap then (int (length ts), ts) else (- int (length ts), [])))"

section \<open>A concrete library\<close>

definition sample_llama :: "nat llama" where
  "sample_llama = \<lparr>llama_tokenize = (\<lambda>txt cap. if 2 \<le> cap then (2, [1, 2]) else (- 2, [])),
     llama_token_to_piece = (\<lambda>t cap. (1, ''a'')), llama_is_eog = (\<lambda>t. t = 9), llama_init = Some 0,
     llama_sampler = True, llama_sample = (\<lambda>chain c. (if c = 1 then 9 else 5, c)),
     llama_decode = (\<lambda>c b. (0, if length b = 1 then c + 1 else c))\<rparr>"

definition sample_options :: GenerationOptions where
  "sample_options = \<lparr>opt_max_tokens = 3, opt_temperature = 0, opt_top_k = 1, opt_top_p = f32_one,
     opt_repeat_penalty = f32_one, opt_seed = 1\<rparr>"

definition sample_clock :: clock_readings where
  "sample_clock = \<lparr>clock_started = 0, clock_prefill_started = 0, clock_prefill_finished = 0,
     clock_first_token = 0, clock_finished = 0\<rparr>"

lemma sample_check_options: "check_options ''hi'' sample_options True = Inr ()"
  by (simp add: check_options_def sample_options_def f32_isfinite_def f32_less_def f32_equal_def
      fp_isfinite_def fp_less_def fp_equal_def fp_key_def fp_mag_def fp_neg_def fp_isnan_def
      binary32_def)

lemma emit_a: "emit_complete_utf8 ''a'' False = ([], [''a''])" "emit_complete_utf8 [] True = ([], [])"
  by (simp_all add: emit_complete_utf8_def emit_loop.simps(2) lead_width_def valid_sequence_def)

lemma sample_prefill:
  "prefill sample_llama (\<lambda>n. False) 4 0 [] [1, 2] 0 = Some (Prefilled 0 1 [[1, 2]])"
  by (subst prefill.simps) (simp add: sample_llama_def prefill.simps)

lemma sample_prepare:
  "prepare sample_llama \<lparr>config_context_size = 8, config_batch_size = 4\<rparr> ''hi'' sample_options True
    = Inr ([1, 2], 0)"
proof -
  have "tokenize sample_llama ''hi'' = Inr [1, 2]"
    by (simp add: tokenize_def checked_i32_def sample_llama_def)
  moreover have "llama_init sample_llama = Some 0" "llama_sampler sample_llama"
    by (simp_all add: sample_llama_def)
  ultimately show ?thesis by (simp add: prepare_def sample_check_options checked_u32_def)
qed

lemma sample_decode:
  "decode_phase sample_llama \<lparr>config_context_size = 8, config_batch_size = 4\<rparr> sample_options
    (\<lambda>p. None) (\<lambda>n. False) 2 1 0 = ([''a''], Inr 1)"
proof -
  have m: "opt_max_tokens sample_options = 3" by (simp add: sample_options_def)
  have "\<exists>s. decode_loop sample_llama (\<lambda>n. False) (\<lambda>p. None) 3 0
      \<lparr>dec_context = 0, dec_sampler = sampler_chain sample_options, dec_polls = 1, dec_pending = [],
        dec_calls = [], dec_produced = []\<rparr>
      = (s, Inr End_of_generation) \<and> dec_calls s = [''a''] \<and> dec_produced s = [''a''] \<and> dec_pending s = []"
    by (simp add: decode_loop.simps [of _ _ _ 3] decode_step_def sample_llama_def token_piece_def
        emit_a Let_def)
  then show ?thesis by (auto simp: decode_phase_def m emit_a)
qed

lemma sample_generation:
  "\<exists>stats. llama_generate sample_llama \<lparr>config_context_size = 8, config_batch_size = 4\<rparr> sample_clock
      ''hi'' sample_options (Some (\<lambda>p. None)) (\<lambda>n. False) = Some ([''a''], Inr stats)
    \<and> stat_generated_tokens stats = 1"
  by (simp add: llama_generate_def sample_prepare sample_prefill sample_decode [simplified] numeral_2_eq_2 [symmetric]
      generation_stats_def)

section \<open>Properties\<close>

text \<open>
  C14. A generation that returns has decoded the prompt's tokens in batches of at most the batch size
  and then generated the tokens that sampling and decoding in turn give from there, as many as the
  limit (the smaller of the tokens asked for and the room the context leaves after the prompt) allows,
  fewer only at an end token or a stop request. What the token callback received in total is the UTF-8
  repair of the concatenated texts of exactly these tokens, each call was well-formed UTF-8, and the
  statistics count the tokens; only a stop during the prompt gives nothing.
\<close>

theorem generate_output:
  assumes "llama_generate lib cfg clk prompt opts (Some cb) stop = Some (calls, Inr stats)"
    and "stop_stays stop"
  shows "\<exists>ptokens ctx. prepare lib cfg prompt opts True = Inr (ptokens, ctx)
    \<and> tokenize lib prompt = Inr ptokens \<and> ptokens \<noteq> [] \<and> length ptokens < config_context_size cfg
    \<and> (calls = [] \<and> stats = empty_stats \<and> (\<exists>m. stop m) \<or> (\<exists>batches.
        concat batches = ptokens \<and> (\<forall>b \<in> set batches. b \<noteq> [] \<and> length b \<le> config_batch_size cfg)
        \<and> generates lib (sampler_chain opts) (decoded lib ctx batches)
            (min (config_context_size cfg - length ptokens) (nat (opt_max_tokens opts)))
            (\<exists>m. stop m) calls (stat_generated_tokens stats)
        \<and> stat_prompt_tokens stats = length ptokens))"
proof -
  from llama_generate_Some [OF assms(1)] obtain ptokens ctx where
    p: "prepare lib cfg prompt opts True = Inr (ptokens, ctx)" and
    r: "calls = [] \<and> stats = empty_stats \<and> (\<exists>m. stop m) \<or> (\<exists>batches polls n.
      concat batches = ptokens \<and> (\<forall>b \<in> set batches. b \<noteq> [] \<and> length b \<le> config_batch_size cfg)
      \<and> decode_phase lib cfg opts cb stop (length ptokens) polls (decoded lib ctx batches) = (calls, Inr n)
      \<and> stats = generation_stats clk (length ptokens) n)" by blast
  from r have "calls = [] \<and> stats = empty_stats \<and> (\<exists>m. stop m) \<or> (\<exists>batches.
        concat batches = ptokens \<and> (\<forall>b \<in> set batches. b \<noteq> [] \<and> length b \<le> config_batch_size cfg)
        \<and> generates lib (sampler_chain opts) (decoded lib ctx batches)
            (generation_limit cfg opts (length ptokens)) (\<exists>m. stop m) calls (stat_generated_tokens stats)
        \<and> stat_prompt_tokens stats = length ptokens)"
    using decode_phase_ok [OF _ assms(2), of lib cfg opts cb "length ptokens" _ _ calls]
    by (auto simp: generation_stats_def)
  with p prepare_ok(1-3) [OF p] show ?thesis by blast
qed

theorem generate_output_witness:
  "\<exists>stats. llama_generate sample_llama \<lparr>config_context_size = 8, config_batch_size = 4\<rparr> sample_clock
      ''hi'' sample_options (Some (\<lambda>p. None)) (\<lambda>n. False) = Some ([''a''], Inr stats)
    \<and> (\<exists>batches. concat batches = [1, 2] \<and> generates sample_llama (sampler_chain sample_options)
         (decoded sample_llama 0 batches) 3 False [''a''] 1)"
proof -
  obtain stats where g: "llama_generate sample_llama \<lparr>config_context_size = 8, config_batch_size = 4\<rparr>
      sample_clock ''hi'' sample_options (Some (\<lambda>p. None)) (\<lambda>n. False) = Some ([''a''], Inr stats)"
    "stat_generated_tokens stats = 1" using sample_generation by blast
  have "opt_max_tokens sample_options = 3" by (simp add: sample_options_def)
  with generate_output [OF g(1)] g show ?thesis by (auto simp: stop_stays_def sample_prepare)
qed

lemma llama_generate_returns:
  assumes "0 < config_batch_size cfg"
  shows "\<exists>result. llama_generate lib cfg clk prompt opts on_token stop = Some result"
proof -
  have pre: "\<exists>r. prefill lib stop (config_batch_size cfg) 0 [] ts ctx = Some r" for ts ctx
    using prefill_returns [OF assms, of lib stop 0 "[]" ts ctx] by (elim exE conjE) (rule exI)
  show ?thesis
  proof (cases "prepare lib cfg prompt opts (on_token \<noteq> None)")
    case (Inr p)
    obtain ts ctx where p: "p = (ts, ctx)" by fastforce
    from pre obtain r where r: "prefill lib stop (config_batch_size cfg) 0 [] ts ctx = Some r" by blast
    show ?thesis
    proof (cases r)
      case (Prefilled c polls bs)
      obtain cs m where "decode_phase lib cfg opts (the on_token) stop (length ts) polls c = (cs, m)"
        by fastforce
      with Inr p r Prefilled show ?thesis by (cases m) (simp_all add: llama_generate_def)
    qed (use Inr p r in \<open>simp_all add: llama_generate_def\<close>)
  qed (simp add: llama_generate_def)
qed

text \<open>
  C15. With a positive batch size a generation always returns, whatever the library answers and
  whenever a stop is requested: neither the prefill nor the decoding loop can run forever.
\<close>

theorem generate_returns:
  assumes "0 < config_batch_size cfg"
  shows "\<exists>result. llama_generate lib cfg clk prompt opts on_token stop = Some result"
  by (rule llama_generate_returns [OF assms])

theorem generate_returns_witness:
  "\<exists>result. llama_generate sample_llama \<lparr>config_context_size = 8, config_batch_size = 4\<rparr> sample_clock
      ''hi'' sample_options None (\<lambda>n. True) = Some result"
  using generate_returns [of "\<lparr>config_context_size = 8, config_batch_size = 4\<rparr>" sample_llama
      sample_clock "''hi''" sample_options None "\<lambda>n. True"] by simp

text \<open>
  The two-call protocol with the tokenizer is right: for a text of at most 2 GiB whose tokens the
  library reports as documented, tokenizing returns exactly these tokens, and counting their number.
\<close>

lemma tokenize_returns_tokens:
  assumes "tokenizes_to lib txt ts" and "length txt \<le> int32_max" and "length ts \<le> int32_max"
  shows "tokenize lib txt = Inr ts \<and> llama_count_tokens lib txt = Inr (length ts)"
proof -
  have "llama_tokenize lib txt 0 = (if ts = [] then (0, []) else (- int (length ts), []))"
    using assms(1) by (auto simp: tokenizes_to_def)
  moreover have "llama_tokenize lib txt (int (length ts)) = (int (length ts), ts)"
    using assms(1) by (simp add: tokenizes_to_def)
  ultimately have "tokenize lib txt = Inr ts"
    using assms(2,3) by (cases "ts = []") (simp_all add: tokenize_def checked_i32_def Let_def)
  then show ?thesis by (simp add: llama_count_tokens_def)
qed

lemma tokenize_returns_tokens_example:
  "tokenizes_to sample_llama ''hi'' [1, 2] \<and> tokenize sample_llama ''hi'' = Inr [1, 2]"
proof -
  have "tokenizes_to sample_llama ''hi'' [1, 2]" by (simp add: tokenizes_to_def sample_llama_def)
  with tokenize_returns_tokens [OF this] show ?thesis by simp
qed

end
