(* ===== verification/Chat_Template.thy ===== *)
theory Chat_Template
  imports Prompt_Builder
begin

text \<open>
  \<^verbatim>\<open>src/adapters/llama/llama_chat_template.cpp\<close>: formatting messages with the chat template of the
  model. \<open>apply_template\<close> stands for \<^verbatim>\<open>llama_chat_apply_template\<close>: given a template, the native messages,
  the flag for the assistant prefix and the size of the buffer it returns a size and what it has written.
\<close>

type_synonym apply_template = "string \<Rightarrow> (string \<times> string) list \<Rightarrow> bool \<Rightarrow> nat \<Rightarrow> int \<times> string"

text \<open>The constructor: the override if there is one, else the template of the model, which must not be empty.\<close>

definition make_chat_template :: "string option \<Rightarrow> string option \<Rightarrow> string res" where
  "make_chat_template model_template template_override = (case template_override of
     Some t \<Rightarrow> Inr t
   | None \<Rightarrow> (case map_option c_str model_template of
       None \<Rightarrow> Inl (Runtime_error
         ''GGUF model has no supported chat template; configure an explicit template override'')
     | Some [] \<Rightarrow> Inl (Runtime_error
         ''GGUF model has no supported chat template; configure an explicit template override'')
     | Some t \<Rightarrow> Inr t))"

fun native_messages :: "ChatMessage list \<Rightarrow> (string \<times> string) list res" where
  "native_messages [] = Inr []"
| "native_messages (m # ms) = (
     if msg_content m = [] then Inl (Invalid_argument ''chat message content must not be empty'')
     else res_bind (native_messages ms) (\<lambda>ns. Inr ((role_name (msg_role m), c_str (msg_content m)) # ns)))"

text \<open>What a call leaves in a buffer.\<close>

definition overwrite :: "string \<Rightarrow> string \<Rightarrow> string" where
  "overwrite buffer written = take (length buffer) (written @ drop (length written) buffer)"

definition zero_buffer :: "nat \<Rightarrow> string" where
  "zero_buffer n = replicate n (CHR 0x00)"

definition template_format :: "apply_template \<Rightarrow> string \<Rightarrow> chat_formatter" where
  "template_format apply source messages add_assistant_prefix = (
     if messages = [] then Inl (Invalid_argument ''chat messages must not be empty'')
     else res_bind (native_messages messages) (\<lambda>native.
       case apply (c_str source) native add_assistant_prefix 512 of (size1, out1) \<Rightarrow>
       let buffer1 = overwrite (zero_buffer 512) out1 in
       if size1 < 0 then Inl (Runtime_error ''llama.cpp failed to apply the GGUF chat template'')
       else if 512 \<le> size1 \<and> 2147483647 \<le> size1
         then Inl (Runtime_error ''formatted chat prompt is too large'')
       else case (if size1 < 512 then (size1, buffer1)
           else case apply (c_str source) native add_assistant_prefix (nat size1 + 1) of (size2, out2) \<Rightarrow>
             (size2, overwrite (buffer1 @ zero_buffer (nat size1 + 1 - 512)) out2)) of (used, buffer) \<Rightarrow>
         if used < 0 \<or> length buffer \<le> nat used
         then Inl (Runtime_error ''llama.cpp failed to format the complete chat prompt'')
         else Inr (take (nat used) buffer)))"

section \<open>The whole prompt is returned\<close>

text \<open>
  What is documented of the library: it returns the length of the whole prompt and writes as much of it
  as the buffer holds.
\<close>

definition renders :: "apply_template \<Rightarrow> (string \<Rightarrow> (string \<times> string) list \<Rightarrow> bool \<Rightarrow> string) \<Rightarrow> bool" where
  "renders apply render \<longleftrightarrow> (\<forall>t ms add n. length (render t ms add) \<le> 2147483647 \<and>
     apply t ms add n = (int (length (render t ms add)), take n (render t ms add)))"

lemma overwrite_prefix: "length s \<le> length buffer \<Longrightarrow> take (length s) (overwrite buffer s) = s"
  by (simp add: overwrite_def)

lemma length_overwrite: "length (overwrite buffer written) = length buffer"
  by (auto simp: overwrite_def)

lemma length_zero_buffer: "length (zero_buffer n) = n"
  by (simp add: zero_buffer_def)

lemma native_messages_Inr:
  "native_messages ms = (if \<exists>m \<in> set ms. msg_content m = []
     then Inl (Invalid_argument ''chat message content must not be empty'')
     else Inr (map (\<lambda>m. (role_name (msg_role m), c_str (msg_content m))) ms))"
  by (induction ms) auto

text \<open>
  Whatever the length of a formatted chat, below the 32-bit limit, the two calls of the library and
  the resizing of the buffer return exactly the prompt the template renders from the messages, none of it
  cut off; the only errors are the empty list of messages, an empty message and a prompt at the limit.
\<close>

lemma template_format_complete:
  assumes "renders apply render"
  shows "template_format apply source messages add = (
    let prompt = render (c_str source) (map (\<lambda>m. (role_name (msg_role m), c_str (msg_content m))) messages) add in
    if messages = [] then Inl (Invalid_argument ''chat messages must not be empty'')
    else if \<exists>m \<in> set messages. msg_content m = []
      then Inl (Invalid_argument ''chat message content must not be empty'')
    else if length prompt = 2147483647 then Inl (Runtime_error ''formatted chat prompt is too large'')
    else Inr prompt)"
proof (cases "messages = [] \<or> (\<exists>m \<in> set messages. msg_content m = [])")
  case True
  then show ?thesis by (auto simp: template_format_def native_messages_Inr)
next
  case False
  let ?native = "map (\<lambda>m. (role_name (msg_role m), c_str (msg_content m))) messages"
  define prompt where "prompt = render (c_str source) ?native add"
  have app: "apply (c_str source) ?native add n = (int (length prompt), take n prompt)"
    and limit: "length prompt \<le> 2147483647" for n
    using assms by (simp_all add: renders_def prompt_def)
  have native: "native_messages messages = Inr ?native" using False by (auto simp: native_messages_Inr)
  consider "length prompt < 512" | "length prompt = 2147483647" | "512 \<le> length prompt" "length prompt < 2147483647"
    using limit by linarith
  then have "template_format apply source messages add =
      (if length prompt = 2147483647 then Inl (Runtime_error ''formatted chat prompt is too large'') else Inr prompt)"
  proof cases
    case 1
    then have "overwrite (zero_buffer 512) prompt = overwrite (zero_buffer 512) (take 512 prompt)" by simp
    with 1 False native show ?thesis
      by (simp add: template_format_def app Let_def length_overwrite length_zero_buffer overwrite_prefix)
  next
    case 2
    with False native show ?thesis by (simp add: template_format_def app Let_def)
  next
    case 3
    with False native show ?thesis
      by (simp add: template_format_def app Let_def length_overwrite length_zero_buffer overwrite_prefix)
  qed
  with False show ?thesis by (auto simp: prompt_def Let_def)
qed

text \<open>A template that lists the contents, up to a length.\<close>

definition echo_render :: "string \<Rightarrow> (string \<times> string) list \<Rightarrow> bool \<Rightarrow> string" where
  "echo_render t ms add = take 600 (concat (map snd ms))"

definition echo_apply :: apply_template where
  "echo_apply t ms add n = (int (length (echo_render t ms add)), take n (echo_render t ms add))"

lemma template_format_complete_example:
  "renders echo_apply echo_render \<and>
   template_format echo_apply ''t'' [\<lparr>msg_role = Role_user, msg_content = ''hi''\<rparr>] True = Inr ''hi''"
proof
  show r: "renders echo_apply echo_render" by (auto simp: renders_def echo_apply_def echo_render_def min_def)
  show "template_format echo_apply ''t'' [\<lparr>msg_role = Role_user, msg_content = ''hi''\<rparr>] True = Inr ''hi''"
    unfolding template_format_complete [OF r] by (simp add: echo_render_def)
qed

end
