(* ===== verification/Model_Loading.thy ===== *)
theory Model_Loading
  imports Generator Chat_Template Configuration
begin

text \<open>
  Starting up: the constructor of the generator (\<^verbatim>\<open>src/adapters/llama/llama_generator.cpp\<close>), the devices of the runtime
  (\<^verbatim>\<open>src/adapters/llama/llama_runtime.cpp\<close>) and the logger (\<^verbatim>\<open>src/support/logging.cpp\<close>). What llama.cpp, ggml and
  spdlog answer is an argument.
\<close>

section \<open>The generation model\<close>

record loaded_model =
  model_vocabulary :: bool
  model_encoder :: bool
  model_template :: "string option"
  model_trained_context :: int
  model_describe :: "int \<times> string"

record LlamaGenerator =
  generator_template :: string
  generator_limits :: generator_config
  generator_description :: string

definition make_generator :: "(path \<Rightarrow> bool) \<Rightarrow> (string \<Rightarrow> int \<Rightarrow> loaded_model option) \<Rightarrow> ModelConfig \<Rightarrow> LlamaGenerator res" where
  "make_generator is_file load cfg = (let p = model_path cfg in
     if p = [] then Inl (Invalid_argument ''model path must not be empty'')
     else if \<not> is_file p then Inl (Runtime_error (''GGUF model does not exist or is not a file: '' @ p))
     else case load (c_str p) (model_gpu_layers cfg) of
       None \<Rightarrow> Inl (Runtime_error (''failed to load GGUF model: '' @ p))
     | Some m \<Rightarrow>
         if \<not> model_vocabulary m then Inl (Runtime_error (''model does not expose a vocabulary: '' @ p))
         else if model_encoder m then Inl (Runtime_error ''encoder-decoder models are not supported in M2'')
         else res_bind (make_chat_template (model_template m) (model_chat_template cfg)) (\<lambda>template.
           let trained = model_trained_context m in
           if 0 < trained \<and> nat trained < model_context_size cfg
           then Inl (Invalid_argument (''configured context_size exceeds model training context: '' @
             string_of_nat (model_context_size cfg) @ '' > '' @ string_of_int trained))
           else Inr \<lparr>generator_template = template,
             generator_limits = \<lparr>config_context_size = model_context_size cfg, config_batch_size = model_batch_size cfg\<rparr>,
             generator_description = (case model_describe m of (len, written) \<Rightarrow>
               if 0 < len then c_str (overwrite (zero_buffer 512) written) else filename p)\<rparr>))"

text \<open>
  A generator has a non-empty template and a context no larger than the one the model was trained for; a valid
  configuration gives it a positive batch size, which a generation needs to return.
\<close>

lemma make_generator_ok:
  assumes "make_generator is_file load cfg = Inr g" and "validate_model cfg name = Inr ()"
    and "model_chat_template cfg \<noteq> Some []"
  shows "generator_template g \<noteq> [] \<and> 0 < config_batch_size (generator_limits g) \<and>
    config_batch_size (generator_limits g) \<le> config_context_size (generator_limits g) \<and>
    (\<exists>m. load (c_str (model_path cfg)) (model_gpu_layers cfg) = Some m \<and>
      (0 < model_trained_context m \<longrightarrow> int (config_context_size (generator_limits g)) \<le> model_trained_context m))"
proof -
  obtain m where m: "load (c_str (model_path cfg)) (model_gpu_layers cfg) = Some m"
    "make_chat_template (model_template m) (model_chat_template cfg) = Inr (generator_template g)"
    "\<not> (0 < model_trained_context m \<and> nat (model_trained_context m) < model_context_size cfg)"
    "generator_limits g = \<lparr>config_context_size = model_context_size cfg, config_batch_size = model_batch_size cfg\<rparr>"
    using assms(1) by (auto simp: make_generator_def Let_def res_simps split: if_splits option.splits)
  have "generator_template g \<noteq> []"
    using m(2) assms(3) by (auto simp: make_chat_template_def split: option.splits list.splits)
  moreover have "0 < model_batch_size cfg" "model_batch_size cfg \<le> model_context_size cfg"
    using assms(2) by (auto simp: validate_model_def split: if_splits)
  ultimately show ?thesis using m by auto
qed

section \<open>Devices\<close>

record BackendDevice =
  device_name :: string
  device_description :: string
  device_free_bytes :: nat
  device_total_bytes :: nat
  device_is_gpu :: bool

text \<open>The backend's answers for an index: name, description, free and total memory, and whether its type is GPU.\<close>

definition devices :: "nat \<Rightarrow> (nat \<Rightarrow> string \<times> string \<times> nat \<times> nat \<times> bool) \<Rightarrow> BackendDevice list" where
  "devices cnt query = map (\<lambda>index. case query index of (name, description, free_memory, total_memory, gpu) \<Rightarrow>
     \<lparr>device_name = c_str name, device_description = c_str description, device_free_bytes = free_memory,
      device_total_bytes = total_memory, device_is_gpu = gpu\<rparr>) [0..<cnt]"

section \<open>The logger\<close>

record log_sink =
  sink_name :: string
  sink_pattern :: string
  sink_level :: string

text \<open>
  The state is the logger the library has registered under the program's name, if any; a level is the name the library
  has for it, and \<open>from_str\<close> the library's reading of one.
\<close>

definition ensure_logger :: "log_sink option \<Rightarrow> log_sink option" where
  "ensure_logger registered = (case registered of
     None \<Rightarrow> Some \<lparr>sink_name = ''llamacodelab'', sink_pattern = ''[%Y-%m-%d %H:%M:%S.%e] [%^%l%$] %v'', sink_level = ''info''\<rparr>
   | Some l \<Rightarrow> Some l)"

definition logger :: "log_sink option \<Rightarrow> log_sink option" where
  "logger registered = ensure_logger registered"

definition configure_logging :: "(string \<Rightarrow> string) \<Rightarrow> string \<Rightarrow> log_sink option \<Rightarrow> unit res \<times> log_sink option" where
  "configure_logging from_str level registered = (let registered' = ensure_logger registered in
     if from_str level = ''off'' \<and> level \<noteq> ''off''
     then (Inl (Invalid_argument (''unsupported log level: '' @ level)), registered')
     else (Inr (), map_option (sink_level_update (\<lambda>_. from_str level)) (logger registered')))"

text \<open>
  There is one logger, with one name and pattern, however often it is asked for or configured; a refused level leaves
  the level as it was.
\<close>

lemma ensure_logger_idem [simp]: "ensure_logger (ensure_logger r) = ensure_logger r"
  by (simp add: ensure_logger_def split: option.split)

lemma logger_kept:
  assumes "configure_logging from_str level r = (result, r')"
  shows "ensure_logger r' = r' \<and> map_option sink_name r' = map_option sink_name (logger r) \<and>
    map_option sink_pattern r' = map_option sink_pattern (logger r) \<and>
    (case result of Inl e \<Rightarrow> r' = logger r | Inr _ \<Rightarrow> map_option sink_level r' = Some (from_str level))"
  using assms
  by (cases r) (auto simp: configure_logging_def logger_def ensure_logger_def Let_def split: if_splits)

text \<open>The level of a valid configuration is never refused.\<close>

lemma configured_level_accepted:
  assumes "validate_config cfg = Inr ()" and "\<forall>l \<in> set log_levels. l \<noteq> ''off'' \<longrightarrow> from_str l \<noteq> ''off''"
  shows "fst (configure_logging from_str (app_log_level cfg) r) = Inr ()"
proof -
  have "app_log_level cfg \<in> set log_levels"
    using assms(1) by (auto simp: validate_config_def res_simps split: if_splits)
  with assms(2) show ?thesis by (auto simp: configure_logging_def Let_def)
qed

end
