(* ===== verification/Command_Arguments.thy ===== *)
theory Command_Arguments
  imports Command_Line Model_Loading
begin

text \<open>
  The arguments of \<^verbatim>\<open>apps/cli/main.cpp\<close> and \<^verbatim>\<open>apps/server/main.cpp\<close>: which options each command has, their defaults, which
  of them are required and which checks are asked for. Splitting the command line into options and their values, the
  checks and the conversions are the library's (CLI11); they are the record \<open>cli_library\<close>. An option that is given
  twice although it takes one value is refused by the library.
\<close>

datatype validator = Existing_file | Existing_directory | Non_negative | Positive
  | Double_between float64 float64 | Int_between int int

record cli_library =
  validated :: "validator \<Rightarrow> string \<Rightarrow> bool"
  as_int32 :: "string \<Rightarrow> int option"
  as_uint32 :: "string \<Rightarrow> 32 word option"
  as_size :: "string \<Rightarrow> nat option"
  as_float :: "string \<Rightarrow> float32 option"

type_synonym given = "string \<Rightarrow> string list"

text \<open>An option with one value and a default, without and with a check, and one that is required.\<close>

definition plain_option :: "(string \<Rightarrow> 'a option) \<Rightarrow> 'a \<Rightarrow> string list \<Rightarrow> 'a option" where
  "plain_option convert fallback vs = (case vs of [] \<Rightarrow> Some fallback | [v] \<Rightarrow> convert v | _ \<Rightarrow> None)"

definition checked_option :: "cli_library \<Rightarrow> validator \<Rightarrow> (string \<Rightarrow> 'a option) \<Rightarrow> 'a \<Rightarrow> string list \<Rightarrow> 'a option" where
  "checked_option lib check convert fallback vs =
     plain_option (\<lambda>v. if validated lib check v then convert v else None) fallback vs"

definition required_option :: "(string \<Rightarrow> bool) \<Rightarrow> string list \<Rightarrow> string option" where
  "required_option check vs = (case vs of [v] \<Rightarrow> if check v then Some v else None | _ \<Rightarrow> None)"

definition config_option :: "cli_library \<Rightarrow> given \<Rightarrow> string option" where
  "config_option lib given = checked_option lib Existing_file Some ''configs/default.json'' (given ''--config'')"

definition repository_option :: "cli_library \<Rightarrow> given \<Rightarrow> string option" where
  "repository_option lib given = required_option (validated lib Existing_directory) (given ''--repo'')"

section \<open>The commands\<close>

text \<open>What is run, with the configuration file and the repository that are named.\<close>

datatype invocation = Without_config cli_call | With_config string cli_call | On_repository string string cli_call
  | Index_repository string string

definition scan_arguments :: "cli_library \<Rightarrow> given \<Rightarrow> invocation option" where
  "scan_arguments lib given = Option.bind (repository_option lib given) (\<lambda>repository.
     Option.bind (config_option lib given) (\<lambda>config.
       Some (On_repository config repository (Scan (given ''--include'') (given ''--exclude'')))))"

definition index_arguments :: "cli_library \<Rightarrow> given \<Rightarrow> invocation option" where
  "index_arguments lib given = Option.bind (repository_option lib given) (\<lambda>repository.
     Option.bind (config_option lib given) (\<lambda>config. Some (Index_repository config repository)))"

definition ask_options :: "cli_library \<Rightarrow> given \<Rightarrow> invocation option" where
  "ask_options lib given = Option.bind (repository_option lib given) (\<lambda>repository.
     Option.bind (config_option lib given) (\<lambda>config.
     Option.bind (checked_option lib Positive (as_size lib) 0 (given ''--top-k'')) (\<lambda>top_k.
     Option.bind (checked_option lib Positive (as_int32 lib) 512 (given ''--max-tokens'')) (\<lambda>max_tokens.
     Option.bind (required_option (\<lambda>v. True) (given ''question'')) (\<lambda>question.
       Some (On_repository config repository
         (Ask \<lparr>asked_question = question, asked_top_k = top_k, asked_max_tokens = max_tokens\<rparr>)))))))"

text \<open>The options of a generation, the same for both commands that have them. The lower bound is \<^verbatim>\<open>0.000001\<close>.\<close>

definition generation_options :: "cli_library \<Rightarrow> given \<Rightarrow> GenerationOptions option" where
  "generation_options lib given =
     Option.bind (checked_option lib Non_negative (as_int32 lib) 512 (given ''--max-tokens'')) (\<lambda>max_tokens.
     Option.bind (checked_option lib Non_negative (as_float lib) 0x3E4CCCCD (given ''--temperature'')) (\<lambda>temperature.
     Option.bind (checked_option lib Non_negative (as_int32 lib) 40 (given ''--top-k'')) (\<lambda>top_k.
     Option.bind (checked_option lib (Double_between 0x3EB0C6F7A0B5ED8D 0x3FF0000000000000) (as_float lib) 0x3F666666
       (given ''--top-p'')) (\<lambda>top_p.
     Option.bind (checked_option lib Positive (as_float lib) 0x3F8CCCCD (given ''--repeat-penalty'')) (\<lambda>repeat_penalty.
     Option.bind (plain_option (as_uint32 lib) 42 (given ''--seed'')) (\<lambda>seed.
       Some \<lparr>opt_max_tokens = max_tokens, opt_temperature = temperature, opt_top_k = top_k, opt_top_p = top_p,
         opt_repeat_penalty = repeat_penalty, opt_seed = seed\<rparr>))))))"

definition generate_arguments :: "cli_library \<Rightarrow> given \<Rightarrow> invocation option" where
  "generate_arguments lib given = Option.bind (config_option lib given) (\<lambda>config.
     Option.bind (required_option (\<lambda>v. True) (given ''--prompt'')) (\<lambda>prompt.
     Option.bind (generation_options lib given) (\<lambda>opts. Some (With_config config (Generate prompt opts)))))"

definition chat_command_arguments :: "cli_library \<Rightarrow> given \<Rightarrow> invocation option" where
  "chat_command_arguments lib given = Option.bind (config_option lib given) (\<lambda>config.
     Option.bind (plain_option Some [] (given ''--system'')) (\<lambda>system_message.
     Option.bind (generation_options lib given) (\<lambda>opts.
       Some (With_config config (Chat \<lparr>chat_system = system_message, chat_users = given ''--message'',
         chat_turns = given ''--turn'', chat_options = opts\<rparr>)))))"

text \<open>One command has to be named; \<open>None\<close> is an exit before the program has done anything.\<close>

definition parse_arguments :: "cli_library \<Rightarrow> string \<Rightarrow> given \<Rightarrow> invocation option" where
  "parse_arguments lib command given = (
     if command = ''devices'' then Some (Without_config Devices)
     else if command = ''scan'' then scan_arguments lib given
     else if command = ''index'' then index_arguments lib given
     else if command = ''ask'' then ask_options lib given
     else if command = ''generate'' then generate_arguments lib given
     else if command = ''chat'' then chat_command_arguments lib given
     else None)"

record server_arguments =
  server_config_path :: string
  server_repository :: string
  server_host :: string
  server_port :: int

definition parse_server_arguments :: "cli_library \<Rightarrow> given \<Rightarrow> server_arguments option" where
  "parse_server_arguments lib given = Option.bind (config_option lib given) (\<lambda>config.
     Option.bind (repository_option lib given) (\<lambda>repository.
     Option.bind (plain_option Some ''127.0.0.1'' (given ''--host'')) (\<lambda>host.
     Option.bind (checked_option lib (Int_between 1 65535) (as_int32 lib) 8080 (given ''--port'')) (\<lambda>port.
       Some \<lparr>server_config_path = config, server_repository = repository, server_host = host, server_port = port\<rparr>))))"

section \<open>The devices\<close>

text \<open>\<open>print0\<close> prints a number without decimals.\<close>

definition to_mib :: "nat \<Rightarrow> float64" where
  "to_mib bytes = f64_div (f64_of_nat bytes) (f64_of_nat 1048576)"

definition device_line :: "(float64 \<Rightarrow> string) \<Rightarrow> BackendDevice \<Rightarrow> string" where
  "device_line print0 d = ''name='' @ device_name d @ '' type='' @ (if device_is_gpu d then ''GPU'' else ''CPU'')
     @ '' description='' @ [CHR 0x22] @ device_description d @ [CHR 0x22]
     @ (if 0 < device_total_bytes d then '' memory_mib='' @ print0 (to_mib (device_total_bytes d))
          @ '' free_mib='' @ print0 (to_mib (device_free_bytes d)) else [])"

definition print_devices :: "(float64 \<Rightarrow> string) \<Rightarrow> bool \<Rightarrow> BackendDevice list \<Rightarrow> string list" where
  "print_devices print0 gpu_offload ds =
     (''gpu_offload_supported='' @ (if gpu_offload then ''true'' else ''false'')) #
     (if ds = [] then [''No backend devices registered''] else map (device_line print0) ds)"

section \<open>The text that is printed\<close>

text \<open>Totals, one \<open>name=value\<close> on a line; the sources of an answer; the statistics of a generation (\<open>print2\<close>: two decimals).\<close>

definition total_line :: "string \<times> nat \<Rightarrow> string" where
  "total_line = (\<lambda>(name, v). name @ ''='' @ string_of_nat v)"

definition source_line :: "Citation \<Rightarrow> string" where
  "source_line c = ''['' @ cited_id c @ ''] '' @ range_path (cited_source c) @ '':'' @
     string_of_nat (unat (range_start_line (cited_source c))) @ ''-'' @ string_of_nat (unat (range_end_line (cited_source c)))"

definition statistics_lines :: "(float64 \<Rightarrow> string) \<Rightarrow> GenerationStats \<Rightarrow> int \<Rightarrow> string list" where
  "statistics_lines print2 stats load_ms = [
     ''prompt_tokens='' @ string_of_nat (stat_prompt_tokens stats),
     ''generated_tokens='' @ string_of_nat (stat_generated_tokens stats),
     ''ttft_ms='' @ string_of_int (stat_time_to_first_token stats),
     ''prompt_tps='' @ print2 (stat_prompt_tokens_per_second stats),
     ''decode_tps='' @ print2 (stat_decode_tokens_per_second stats),
     ''model_load_ms='' @ string_of_int load_ms]"

text \<open>A script that splits the line at the first equals sign reads back the name and the number.\<close>

lemma total_line_reads_back:
  assumes "CHR ''='' \<notin> set name"
  shows "takeWhile (\<lambda>c. c \<noteq> CHR ''='') (total_line (name, v)) = name \<and>
    digits_value 0 (tl (dropWhile (\<lambda>c. c \<noteq> CHR ''='') (total_line (name, v)))) = v"
proof -
  have "takeWhile (\<lambda>c. c \<noteq> CHR ''='') (name @ CHR ''='' # string_of_nat v) = name"
    "dropWhile (\<lambda>c. c \<noteq> CHR ''='') (name @ CHR ''='' # string_of_nat v) = CHR ''='' # string_of_nat v"
    using assms by (induction name) auto
  then show ?thesis by (simp add: total_line_def digits_value_string_of_nat)
qed

section \<open>What the checks promise\<close>

text \<open>The laws of the library: a conversion stays within its type, and a value that was checked is in its range.\<close>

definition cli_library_ok :: "cli_library \<Rightarrow> bool" where
  "cli_library_ok lib \<longleftrightarrow>
     (\<forall>v n. as_int32 lib v = Some n \<longrightarrow> - (2 ^ 31) \<le> n \<and> n < 2 ^ 31 \<and>
        (validated lib Non_negative v \<longrightarrow> 0 \<le> n) \<and> (validated lib Positive v \<longrightarrow> 0 < n) \<and>
        (\<forall>a b. validated lib (Int_between a b) v \<longrightarrow> a \<le> n \<and> n \<le> b)) \<and>
     (\<forall>v n. as_size lib v = Some n \<longrightarrow> n \<le> size_max \<and> (validated lib Positive v \<longrightarrow> 0 < n))"

lemma plain_option_cases:
  assumes "plain_option convert fallback vs = Some x"
  obtains "vs = []" "x = fallback" | v where "vs = [v]" "convert v = Some x"
  using assms that by (auto simp: plain_option_def split: list.splits)

lemma checked_option_cases:
  assumes "checked_option lib check convert fallback vs = Some x"
  obtains "vs = []" "x = fallback" | v where "vs = [v]" "validated lib check v" "convert v = Some x"
  using assms that unfolding checked_option_def by (auto elim!: plain_option_cases split: if_splits)

lemma checked_int32:
  assumes "cli_library_ok lib" and "checked_option lib check (as_int32 lib) fallback vs = Some n"
    and "check = Non_negative \<and> low = 0 \<and> high = 2 ^ 31 - 1 \<or> check = Positive \<and> low = 1 \<and> high = 2 ^ 31 - 1
      \<or> check = Int_between low high"
    and "low \<le> fallback" and "fallback \<le> high"
  shows "low \<le> n \<and> n \<le> high"
  using assms(2)
proof (cases rule: checked_option_cases)
  case 1
  with assms(4,5) show ?thesis by simp
next
  case (2 v)
  then have "n < 2 ^ 31 \<and> (validated lib Non_negative v \<longrightarrow> 0 \<le> n) \<and> (validated lib Positive v \<longrightarrow> 0 < n) \<and>
      (\<forall>a b. validated lib (Int_between a b) v \<longrightarrow> a \<le> n \<and> n \<le> b)"
    using assms(1) unfolding cli_library_ok_def by blast
  with 2(2) assms(3) show ?thesis by auto
qed

lemma checked_size:
  assumes "cli_library_ok lib" and "checked_option lib Positive (as_size lib) 0 vs = Some n"
  shows "n = 0 \<longleftrightarrow> vs = []"
  using assms(2)
proof (cases rule: checked_option_cases)
  case (2 v)
  then have "0 < n" using assms(1) unfolding cli_library_ok_def by blast
  with 2(1) show ?thesis by simp
qed simp

lemma generation_options_ranges:
  assumes "cli_library_ok lib" and "generation_options lib given = Some opts"
  shows "0 \<le> opt_max_tokens opts \<and> opt_max_tokens opts < 2 ^ 31 \<and> 0 \<le> opt_top_k opts \<and> opt_top_k opts < 2 ^ 31"
proof -
  obtain m k where o: "checked_option lib Non_negative (as_int32 lib) 512 (given ''--max-tokens'') = Some m"
    "checked_option lib Non_negative (as_int32 lib) 40 (given ''--top-k'') = Some k" "opt_max_tokens opts = m" "opt_top_k opts = k"
    using assms(2) by (auto simp: generation_options_def bind_eq_Some_conv)
  from checked_int32 [OF assms(1) o(1), of 0 "2 ^ 31 - 1"] checked_int32 [OF assms(1) o(2), of 0 "2 ^ 31 - 1"] o(3,4)
  show ?thesis by auto
qed

text \<open>Nothing given: the defaults of the library's generation options.\<close>

lemma default_generation_options:
  assumes "\<And>name. name \<in> {''--max-tokens'', ''--temperature'', ''--top-k'', ''--top-p'', ''--repeat-penalty'', ''--seed''} \<Longrightarrow>
    given name = []"
  shows "generation_options lib given = Some default_generation"
  using assms by (simp add: generation_options_def checked_option_def plain_option_def default_generation_def)

lemma default_generation_accepted: "prompt \<noteq> [] \<Longrightarrow> check_options prompt default_generation True = Inr ()"
  by (simp add: check_options_def default_generation_def f32_isfinite_def f32_less_def f32_equal_def
    fp_isfinite_def fp_less_def fp_equal_def fp_isnan_def fp_key_def fp_mag_def fp_neg_def binary32_def)

text \<open>The generator's own checks of whole numbers cannot fail for options read from the command line.\<close>

lemma rejected_options:
  assumes "cli_library_ok lib" and "generation_options lib given = Some opts"
    and "check_options prompt opts True = Inl e"
  shows "prompt = [] \<or> e = Invalid_argument ''temperature must be finite and non-negative'' \<or>
    e = Invalid_argument ''top_p must be in (0, 1]'' \<or> e = Invalid_argument ''repeat_penalty must be finite and positive''"
  using generation_options_ranges [OF assms(1,2)] assms(3) by (auto simp: check_options_def split: if_splits)

text \<open>What holds of the commands that can be run.\<close>

fun call_in_range :: "given \<Rightarrow> cli_call \<Rightarrow> bool" where
  "call_in_range given (Ask args) = (0 < asked_max_tokens args \<and> asked_max_tokens args < 2 ^ 31 \<and>
     (asked_top_k args = 0 \<longleftrightarrow> given ''--top-k'' = []) \<and> given ''question'' = [asked_question args])"
| "call_in_range given (Generate prompt opts) = (0 \<le> opt_max_tokens opts \<and> opt_max_tokens opts < 2 ^ 31 \<and>
     0 \<le> opt_top_k opts \<and> opt_top_k opts < 2 ^ 31 \<and> given ''--prompt'' = [prompt])"
| "call_in_range given (Chat args) = (0 \<le> opt_max_tokens (chat_options args) \<and> opt_max_tokens (chat_options args) < 2 ^ 31 \<and>
     0 \<le> opt_top_k (chat_options args) \<and> opt_top_k (chat_options args) < 2 ^ 31 \<and> chat_turns args = given ''--turn'' \<and>
     chat_users args = given ''--message'')"
| "call_in_range given (Scan include_globs exclude_globs) = (include_globs = given ''--include'' \<and> exclude_globs = given ''--exclude'')"
| "call_in_range given Devices = True"

fun invocation_ok :: "cli_library \<Rightarrow> given \<Rightarrow> invocation \<Rightarrow> bool" where
  "invocation_ok lib given (Without_config cmd) = (cmd = Devices)"
| "invocation_ok lib given (With_config config cmd) = call_in_range given cmd"
| "invocation_ok lib given (On_repository config repository cmd) =
     (validated lib Existing_directory repository \<and> call_in_range given cmd)"
| "invocation_ok lib given (Index_repository config repository) = validated lib Existing_directory repository"

lemma required_option_Some: "required_option check vs = Some v \<longleftrightarrow> vs = [v] \<and> check v"
  by (auto simp: required_option_def split: list.splits)

lemma ask_options_ok:
  assumes "cli_library_ok lib" and "ask_options lib given = Some invoked"
  shows "invocation_ok lib given invoked"
proof -
  obtain config repository k m q where
    o: "invoked = On_repository config repository (Ask \<lparr>asked_question = q, asked_top_k = k, asked_max_tokens = m\<rparr>)"
    "repository_option lib given = Some repository" "required_option (\<lambda>v. True) (given ''question'') = Some q"
    "checked_option lib Positive (as_size lib) 0 (given ''--top-k'') = Some k"
    "checked_option lib Positive (as_int32 lib) 512 (given ''--max-tokens'') = Some m"
    using assms(2) by (auto simp: ask_options_def bind_eq_Some_conv)
  from checked_int32 [OF assms(1) o(5), of 1 "2 ^ 31 - 1"] checked_size [OF assms(1) o(4)] o(1-3)
  show ?thesis by (auto simp: required_option_Some repository_option_def)
qed

lemma parsed_invocation_ok:
  assumes "cli_library_ok lib" and "parse_arguments lib command given = Some invoked"
  shows "invocation_ok lib given invoked"
proof -
  have parsed: "parse_arguments lib command given = Some (Without_config Devices) \<or>
      parse_arguments lib command given = scan_arguments lib given \<or> parse_arguments lib command given = index_arguments lib given \<or>
      parse_arguments lib command given = ask_options lib given \<or> parse_arguments lib command given = generate_arguments lib given \<or>
      parse_arguments lib command given = chat_command_arguments lib given \<or> parse_arguments lib command given = None"
    unfolding parse_arguments_def by presburger
  from parsed assms(2) consider "invoked = Without_config Devices" | "scan_arguments lib given = Some invoked" | "index_arguments lib given = Some invoked"
    | "ask_options lib given = Some invoked" | "generate_arguments lib given = Some invoked" | "chat_command_arguments lib given = Some invoked"
    by fastforce
  then show ?thesis
  proof cases
    case 4
    with assms(1) show ?thesis by (rule ask_options_ok)
  next
    case 5
    with generation_options_ranges [OF assms(1)] show ?thesis
      by (auto simp: generate_arguments_def bind_eq_Some_conv required_option_Some)
  next
    case 6
    with generation_options_ranges [OF assms(1)] show ?thesis
      by (auto simp: chat_command_arguments_def bind_eq_Some_conv)
  qed (auto simp: scan_arguments_def index_arguments_def bind_eq_Some_conv repository_option_def required_option_Some)
qed

section \<open>A library that reads decimal numbers\<close>

definition decimal :: "string \<Rightarrow> nat option" where
  "decimal v = (if v \<noteq> [] \<and> list_all is_digit v \<and> digits_value 0 v < 2 ^ 31 then Some (digits_value 0 v) else None)"

definition decimal_library :: cli_library where
  "decimal_library = \<lparr>validated = (\<lambda>check v. case check of
       Existing_file \<Rightarrow> True
     | Existing_directory \<Rightarrow> True
     | Non_negative \<Rightarrow> decimal v \<noteq> None
     | Positive \<Rightarrow> (case decimal v of None \<Rightarrow> False | Some n \<Rightarrow> 0 < n)
     | Double_between a b \<Rightarrow> False
     | Int_between a b \<Rightarrow> (case decimal v of None \<Rightarrow> False | Some n \<Rightarrow> a \<le> int n \<and> int n \<le> b)),
     as_int32 = (\<lambda>v. map_option int (decimal v)), as_uint32 = (\<lambda>v. map_option of_nat (decimal v)), as_size = decimal,
     as_float = (\<lambda>v. map_option f32_of_nat (decimal v))\<rparr>"

lemma decimal_library_ok: "cli_library_ok decimal_library"
  by (auto simp: cli_library_ok_def decimal_library_def decimal_def split: if_splits)

section \<open>Properties\<close>

text \<open>
  Whatever is typed, a command that is run has limits in the range of its type and of its meaning: an answer of at
  least one token, a generation of at least none, no negative number of candidates; a repository is an existing
  directory, and the number of hits is that of the configuration exactly if none is given. A server's port is one.
\<close>

lemma accepted_arguments_in_range:
  assumes "cli_library_ok lib"
  shows "(\<forall>invoked. parse_arguments lib command given = Some invoked \<longrightarrow> invocation_ok lib given invoked) \<and>
    (\<forall>args. parse_server_arguments lib given = Some args \<longrightarrow> 1 \<le> server_port args \<and> server_port args \<le> 65535 \<and>
       validated lib Existing_directory (server_repository args))"
proof -
  have "1 \<le> server_port args \<and> server_port args \<le> 65535 \<and> validated lib Existing_directory (server_repository args)"
    if p: "parse_server_arguments lib given = Some args" for args
  proof -
    obtain port where "checked_option lib (Int_between 1 65535) (as_int32 lib) 8080 (given ''--port'') = Some port"
      "server_port args = port" "repository_option lib given = Some (server_repository args)"
      using p by (auto simp: parse_server_arguments_def bind_eq_Some_conv)
    with checked_int32 [OF assms this(1), of 1 65535] show ?thesis by (auto simp: repository_option_def required_option_Some)
  qed
  with parsed_invocation_ok [OF assms] show ?thesis by blast
qed

lemma accepted_arguments_in_range_example:
  "\<exists>args. parse_arguments decimal_library ''ask'' ((\<lambda>name. [])(''--repo'' := [''r''], ''question'' := [''q''], ''--max-tokens'' := [''16'']))
      = Some (On_repository ''configs/default.json'' ''r'' (Ask args)) \<and> 0 < asked_max_tokens args \<and> asked_top_k args = 0"
proof -
  let ?given = "(\<lambda>name. [])(''--repo'' := [''r''], ''question'' := [''q''], ''--max-tokens'' := [''16''])"
  have "decimal ''16'' = Some 16" by (simp add: decimal_def is_digit_def digit_value_def)
  then have positive: "validated decimal_library Positive ''16''" "as_int32 decimal_library ''16'' = Some 16"
    by (simp_all add: decimal_library_def)
  have vals: "?given ''--repo'' = [''r'']" "?given ''question'' = [''q'']" "?given ''--max-tokens'' = [''16'']"
    "?given ''--top-k'' = []" "?given ''--config'' = []" by simp_all
  have "repository_option decimal_library ?given = Some ''r''"
    unfolding repository_option_def vals by (simp add: required_option_def decimal_library_def)
  moreover have "config_option decimal_library ?given = Some ''configs/default.json''"
    unfolding config_option_def vals by (simp add: checked_option_def plain_option_def)
  ultimately have "ask_options decimal_library ?given = Some (On_repository ''configs/default.json'' ''r''
      (Ask \<lparr>asked_question = ''q'', asked_top_k = 0, asked_max_tokens = 16\<rparr>))"
    unfolding ask_options_def vals by (simp add: checked_option_def plain_option_def required_option_def positive)
  moreover have "parse_arguments lib ''ask'' given = ask_options lib given" for lib given by (simp add: parse_arguments_def)
  ultimately obtain args where a: "parse_arguments decimal_library ''ask'' ?given
      = Some (On_repository ''configs/default.json'' ''r'' (Ask args))" by simp
  with accepted_arguments_in_range [OF decimal_library_ok, of "''ask''" ?given] have "call_in_range ?given (Ask args)" by simp
  then show ?thesis using a by (intro exI [of _ args]) simp
qed

end
