(* ===== verification/Server_Startup.thy ===== *)
theory Server_Startup
  imports Update_Runs Command_Arguments
begin

text \<open>
  \<^verbatim>\<open>apps/server/main.cpp\<close> from the arguments to the exit code: the adapters are constructed in their order, each of which may
  fail, the databases are opened, the index is updated, and only then the server listens. What the constructors of the
  models do is in \<open>startup\<close>; the database of a keyword search is opened for reading only and has to exist.
\<close>

record startup =
  start_config :: "AppConfig res"
  start_level :: "string \<Rightarrow> string"
  start_runtime :: "unit res"
  start_generator :: "ModelConfig \<Rightarrow> unit res"
  start_embedder :: "ModelConfig \<Rightarrow> unit res"
  start_database :: "exn option"
  start_symbols :: "exn option"

definition open_keyword_search :: "tables option \<Rightarrow> unit res" where
  "open_keyword_search stored = (case stored of
     None \<Rightarrow> Inl (Runtime_error ''unable to open database file'')
   | Some t \<Rightarrow> Inr ())"

text \<open>What is constructed before the databases are opened.\<close>

definition construct_adapters :: "startup \<Rightarrow> AppConfig \<Rightarrow> unit res" where
  "construct_adapters start cfg =
     res_bind (fst (configure_logging (start_level start) (app_log_level cfg) None)) (\<lambda>_.
     res_bind (start_runtime start) (\<lambda>_.
     res_bind (start_generator start (app_generation_model cfg)) (\<lambda>_.
     res_bind (start_embedder start (app_embedding_model cfg)) (\<lambda>_.
     res_bind (make_index_service (filename (model_path (app_embedding_model cfg)))) (\<lambda>_.
       case start_database start of Some e \<Rightarrow> Inl e | None \<Rightarrow> Inr ())))))"

definition open_databases :: "startup \<Rightarrow> AppConfig \<Rightarrow> 'i index_state \<Rightarrow> unit res \<times> 'i index_state" where
  "open_databases start cfg st = (
     let st = st\<lparr>st_tables := Some (live (open_repository (st_tables st)))\<rparr> in
     (if index_semantic_index_enabled (app_index cfg) \<and> start_symbols start \<noteq> None then Inl (the (start_symbols start))
      else open_keyword_search (st_tables st), st))"

definition server_main :: "startup \<Rightarrow> 'g server \<Rightarrow> index_env \<Rightarrow> bool \<Rightarrow> 'g snapshot index_state \<Rightarrow>
    nat \<times> 'g snapshot index_state" where
  "server_main start srv env listens st = (
     let st = st\<lparr>st_handle := None\<rparr> in
     case start_config start of Inl e \<Rightarrow> (1, st)
     | Inr cfg \<Rightarrow> (case construct_adapters start cfg of Inl e \<Rightarrow> (1, st)
       | Inr _ \<Rightarrow> (case open_databases start cfg st of (Inl e, st) \<Rightarrow> (1, st)
         | (Inr _, st) \<Rightarrow> (case server_update env (srv\<lparr>srv_config := cfg\<rparr>) st of (Inl e, st) \<Rightarrow> (1, st)
           | (Inr _, st) \<Rightarrow> (if listens then 0 else 1, st)))))"

section \<open>The state the first update finds\<close>

lemma open_again:
  assumes "db_inv (stored_tables st)"
  shows "open_repository (Some (live (open_repository (st_tables st)))) = open_repository (st_tables st)"
proof -
  let ?t = "stored_tables st"
  have "st_tables st = None \<and> ?t = no_tables \<or> st_tables st = Some ?t"
    by (auto simp: stored_tables_def split: option.splits)
  note l = open_repository_tables [OF assms this]
  have "db_inv (live (open_repository (st_tables st)))" using assms by (simp add: l)
  from open_repository_tables [OF this, of "Some (live (open_repository (st_tables st)))"] l
  show ?thesis by (intro SqliteChunkRepository.equality) simp_all
qed

text \<open>Opening the databases changes nothing an update depends on.\<close>

lemma opened_conditions:
  fixes st :: "'i index_state"
  assumes "update_conditions env cfg mid st"
  shows "update_conditions env cfg mid (st\<lparr>st_handle := h, st_tables := Some (live (open_repository (st_tables st)))\<rparr>)"
proof -
  let ?st = "st\<lparr>st_handle := h, st_tables := Some (live (open_repository (st_tables st)))\<rparr>" and ?d = "index_data_dir cfg"
  have c: "disk_ok ?d (stored_tables st) (st_files st)" using assms by (simp add: update_conditions_def index_consistent_def)
  note o = open_repository_ok [OF c]
  have t: "stored_tables ?st = live (open_repository (st_tables st))" by (simp add: stored_tables_def)
  have "db_inv (stored_tables st)" using c by (simp add: disk_ok_def)
  from open_again [OF this] have again: "open_repository (st_tables ?st) = open_repository (st_tables st)" by simp
  show ?thesis
    using assms o(1,3) no_collision_cong [OF o(2)] unfolding update_conditions_def again t index_consistent_def
    by (simp add: t)
qed

lemma databases_open:
  assumes "open_databases start cfg st = (res, st')"
  shows "st' = st\<lparr>st_tables := Some (live (open_repository (st_tables st)))\<rparr>"
    "res = Inl e \<Longrightarrow> index_semantic_index_enabled (app_index cfg) \<and> start_symbols start = Some e"
  using assms by (auto simp: open_databases_def open_keyword_search_def Let_def split: if_splits)

lemma started_server:
  assumes lib: "library_ok (srv_library srv) stored cap" and cfg: "start_config start = Inr cfg"
    and cond: "update_conditions env (app_index cfg) (filename (model_path (app_embedding_model cfg))) st"
    and main: "server_main start srv env listens st = (code, st')"
  shows "(code = 0 \<longrightarrow> server_ready st') \<and> (reads_complete env \<longrightarrow>
    index_consistent (index_data_dir (app_index cfg)) st' \<and> (server_ready st' \<longrightarrow> serving stored cap st'))"
proof -
  let ?d = "index_data_dir (app_index cfg)" and ?mid = "filename (model_path (app_embedding_model cfg))"
    and ?srv = "srv\<lparr>srv_config := cfg\<rparr>"
  define st0 where "st0 = st\<lparr>st_handle := None\<rparr>"
  define st1 where "st1 = st0\<lparr>st_tables := Some (live (open_repository (st_tables st)))\<rparr>"
  have cond1: "update_conditions env (app_index cfg) ?mid st1"
    using opened_conditions [OF cond, of None] by (simp add: st0_def st1_def)
  have ok: "index_consistent ?d st0" "index_consistent ?d st1"
    using cond cond1 by (simp_all add: update_conditions_def index_consistent_def st0_def stored_tables_def)
  have none: "\<not> server_ready st0" "\<not> server_ready st1" by (simp_all add: server_ready_def st0_def st1_def)
  obtain ores st2 where o: "open_databases start cfg st0 = (ores, st2)" by fastforce
  have st2: "st2 = st1" using databases_open(1) [OF o] by (simp add: st0_def st1_def)
  show ?thesis
  proof (cases "(\<exists>e. construct_adapters start cfg = Inl e) \<or> (\<exists>e. ores = Inl e)")
    case True
    then have "code = 1" "st' = st0 \<or> st' = st1"
      using main cfg o st2 by (auto simp: server_main_def st0_def [symmetric] split: sum.splits)
    with ok none show ?thesis by auto
  next
    case False
    then obtain u v where uv: "construct_adapters start cfg = Inr u" "ores = Inr v" by (metis sum.exhaust)
    then have "make_index_service ?mid = Inr ?mid"
      by (auto simp: construct_adapters_def make_index_service_def res_simps split: if_splits)
    then have up: "server_update env ?srv st1 = update env (app_index cfg) (configured_kind (srv_library srv) (app_index cfg)) ?mid st1"
      by (simp add: server_update_def Let_def)
    obtain res st3 where r: "update env (app_index cfg) (configured_kind (srv_library srv) (app_index cfg)) ?mid st1 = (res, st3)"
      by fastforce
    have m: "(code, st') = (case res of Inl e \<Rightarrow> (1, st3) | Inr _ \<Rightarrow> (if listens then 0 else 1, st3))"
      using main cfg uv o st2 up r by (simp add: server_main_def st0_def [symmetric] split: sum.splits)
    show ?thesis
    proof (cases res)
      case (Inl e)
      then have "code = 1" "st' = st3" using m by simp_all
      moreover have "st_handle st3 = st_handle st1" using failed_update_handle r Inl by blast
      ultimately show ?thesis using none update_outcome(1) [OF cond1 _ r] by (auto simp: server_ready_def)
    next
      case (Inr result)
      have "st' = st3" using m Inr by simp
      moreover have "st_handle st3 \<noteq> None" by (rule successful_update_handle [OF r [unfolded Inr]])
      ultimately show ?thesis
        using updated_serving [OF lib cond1 _ r [unfolded Inr]] update_outcome(1) [OF cond1 _ r] by (auto simp: server_ready_def)
    qed
  qed
qed

section \<open>A start\<close>

text \<open>A first start on an empty data directory, with a model that is named \<^verbatim>\<open>m\<close>.\<close>

definition startup_config :: AppConfig where
  "startup_config = Server.sample_config\<lparr>app_embedding_model := default_model\<lparr>model_path := ''m''\<rparr>\<rparr>"

definition sample_startup :: startup where
  "sample_startup = \<lparr>start_config = Inr startup_config, start_level = (\<lambda>l. l), start_runtime = Inr (),
     start_generator = (\<lambda>c. Inr ()), start_embedder = (\<lambda>c. Inr ()), start_database = None, start_symbols = None\<rparr>"

lemma startup_config_fields: "app_index startup_config = default_index" "app_log_level startup_config = ''info''"
  "filename (model_path (app_embedding_model startup_config)) = ''m''"
  by (simp_all add: startup_config_def Server.sample_config_def filename_def)

lemma update_when_opened:
  "update env cfg kind mid ((empty_state :: 'i index_state)\<lparr>st_tables := Some (live (open_repository None))\<rparr>) =
    update env cfg kind mid empty_state" if "ie_cleaning env = None" and "ie_open_fault env = None"
proof -
  have "open_index env cfg ((empty_state :: 'i index_state)\<lparr>st_tables := Some (live (open_repository None))\<rparr>) =
      open_index env cfg empty_state"
    using that by (simp add: open_index_def Let_def empty_state_def reopened)
  then show ?thesis by (simp add: update_def)
qed

lemma sample_start:
  "\<exists>st'. server_main sample_startup sample_server later_env True empty_state = (0, st')"
proof -
  let ?st = "empty_state :: (nat \<times> (64 word \<times> Embedding) list) snapshot index_state"
  let ?srv = "sample_server\<lparr>srv_config := startup_config\<rparr>"
  obtain result st' where u: "update later_env default_index (configured_kind list_library default_index) ''m'' ?st = (Inr result, st')"
    using later_update_kind [OF first_snapshot] by blast
  have "srv_library sample_server = list_library" by (simp add: sample_server_def)
  then have up: "server_update later_env ?srv (?st\<lparr>st_tables := Some (live (open_repository None))\<rparr>) = (Inr result, st')"
    using u by (simp add: server_update_def Let_def startup_config_fields make_index_service_def update_when_opened later_fields)
  have st: "?st\<lparr>st_handle := None\<rparr> = ?st" "st_tables ?st = None" by (simp_all add: empty_state_def)
  have "construct_adapters sample_startup startup_config = Inr ()"
    by (simp add: construct_adapters_def sample_startup_def configure_logging_def Let_def startup_config_fields make_index_service_def)
  moreover have "open_databases sample_startup startup_config ?st = (Inr (), ?st\<lparr>st_tables := Some (live (open_repository None))\<rparr>)"
    by (simp add: open_databases_def open_keyword_search_def sample_startup_def startup_config_fields default_index_def st)
  moreover have "start_config sample_startup = Inr startup_config" by (simp add: sample_startup_def)
  ultimately show ?thesis using up by (simp add: server_main_def st)
qed

section \<open>Properties\<close>

text \<open>
  C34. The server never listens without a published index. Wherever the start fails, and whatever is in the data directory
  from earlier runs, the index on disk stays consistent, and if the start gets as far as publishing a snapshot this has a
  vector for exactly the chunks of the database; so it is when the server listens. Excluded from the second sentence is
  a first update whose query of the generation, the documents or the chunks is cut short unnoticed.
\<close>

theorem server_listens_with_index:
  assumes "library_ok (srv_library srv) stored cap" and "start_config start = Inr cfg"
    and "update_conditions env (app_index cfg) (filename (model_path (app_embedding_model cfg))) st"
    and "server_main start srv env listens st = (code, st')"
  shows "(code = 0 \<longrightarrow> server_ready st') \<and> (reads_complete env \<longrightarrow>
    index_consistent (index_data_dir (app_index cfg)) st' \<and> (server_ready st' \<longrightarrow> serving stored cap st'))"
  by (rule started_server [OF assms])

theorem server_listens_with_index_witness:
  "\<exists>st'. server_main sample_startup sample_server later_env True empty_state = (0, st') \<and> serving list_stored fst st'"
proof -
  obtain st' where m: "server_main sample_startup sample_server later_env True empty_state = (0, st')" using sample_start by blast
  have "library_ok (srv_library sample_server) list_stored fst" using list_library_ok by (simp add: sample_server_def)
  moreover have "start_config sample_startup = Inr startup_config" by (simp add: sample_startup_def)
  moreover have "update_conditions later_env (app_index startup_config) (filename (model_path (app_embedding_model startup_config)))
      (empty_state :: (nat \<times> (64 word \<times> Embedding) list) snapshot index_state)"
    unfolding startup_config_fields by (rule later_conditions)
  ultimately have "(0::nat) = 0 \<longrightarrow> server_ready st'" "serving list_stored fst st'"
    using server_listens_with_index [OF _ _ _ m] later_reads(2) by blast+
  with m show ?thesis by blast
qed

end
