(* ===== verification/Evaluation.thy ===== *)
theory Evaluation
  imports Domain
begin

text \<open>
  \<^verbatim>\<open>src/domain/evaluation.cpp\<close>: recall, reciprocal rank and discounted gain of a ranking, and percentiles of a sample, in
  double precision. \<open>exp2\<close> and \<open>log2\<close> are those of the C library. The map of relevance grades is a list of pairs
  with distinct ids, in the order of iteration; sizes are below \<open>2 ^ 53\<close> where it matters.
\<close>

section \<open>Definitions\<close>

abbreviation f64_one :: float64 where "f64_one \<equiv> 0x3FF0000000000000"
abbreviation f64_two :: float64 where "f64_two \<equiv> 0x4000000000000000"

definition f64_sub :: "float64 \<Rightarrow> float64 \<Rightarrow> float64" where
  "f64_sub a b = of_nat (fp_sub binary64 (unat a) (unat b))"

definition f64_is_zero :: "float64 \<Rightarrow> bool" where
  "f64_is_zero a = fp_equal binary64 (unat a) 0"

text \<open>\<^verbatim>\<open>static_cast<std::size_t>(std::ceil(x))\<close> of a finite \<open>x\<close> that is not negative.\<close>

definition f64_ceil_size :: "float64 \<Rightarrow> nat" where
  "f64_ceil_size x = (fp_units binary64 (fp_mag binary64 (unat x)) + 2 ^ fp_scale binary64 - 1) div 2 ^ fp_scale binary64"

record RetrievalMetrics =
  recall_at_k :: float64
  reciprocal_rank :: float64
  ndcg_at_k :: float64

text \<open>The gain of a grade at a position.\<close>

definition discounted_gain :: "(float64 \<Rightarrow> float64) \<Rightarrow> (float64 \<Rightarrow> float64) \<Rightarrow> 32 word \<Rightarrow> nat \<Rightarrow> float64" where
  "discounted_gain exp2 log2 grade index = f64_div (f64_sub (exp2 (f64_of_nat (unat grade))) f64_one)
     (log2 (f64_add (f64_of_nat index) f64_two))"

fun sum_gains :: "(float64 \<Rightarrow> float64) \<Rightarrow> (float64 \<Rightarrow> float64) \<Rightarrow> nat \<Rightarrow> 32 word list \<Rightarrow> float64 \<Rightarrow> float64" where
  "sum_gains exp2 log2 index [] s = s"
| "sum_gains exp2 log2 index (g # gs) s =
     sum_gains exp2 log2 (index + 1) gs (f64_add s (discounted_gain exp2 log2 g index))"

definition grade_of :: "(ChunkId \<times> 32 word) list \<Rightarrow> SearchHit \<Rightarrow> 32 word" where
  "grade_of relevance h = (case map_of relevance (hit_chunk_id h) of None \<Rightarrow> 0 | Some g \<Rightarrow> g)"

text \<open>The loop over the first \<open>k\<close> hits: the number found, the reciprocal rank and the gain.\<close>

fun rank_loop :: "(float64 \<Rightarrow> float64) \<Rightarrow> (float64 \<Rightarrow> float64) \<Rightarrow> nat \<Rightarrow> 32 word list \<Rightarrow> nat \<times> float64 \<times> float64 \<Rightarrow>
    nat \<times> float64 \<times> float64" where
  "rank_loop exp2 log2 index [] s = s"
| "rank_loop exp2 log2 index (g # gs) (found, rr, dcg) = rank_loop exp2 log2 (index + 1) gs (
     if 0 < g then (found + 1, if f64_is_zero rr then f64_div f64_one (f64_of_nat (index + 1)) else rr,
       f64_add dcg (discounted_gain exp2 log2 g index))
     else (found, rr, dcg))"

definition relevant_grades :: "(ChunkId \<times> 32 word) list \<Rightarrow> 32 word list" where
  "relevant_grades relevance = filter (\<lambda>g. 0 < g) (map snd relevance)"

definition evaluate_ranking :: "(float64 \<Rightarrow> float64) \<Rightarrow> (float64 \<Rightarrow> float64) \<Rightarrow> SearchHit list \<Rightarrow>
    (ChunkId \<times> 32 word) list \<Rightarrow> nat \<Rightarrow> RetrievalMetrics res" where
  "evaluate_ranking exp2 log2 ranked_hits relevance k = (
     if k = 0 then Inl (Invalid_argument ''evaluation k must be positive'')
     else let grades = sort_by (\<lambda>a b. b < a) (relevant_grades relevance);
         relevant_total = length grades;
         ideal_dcg = sum_gains exp2 log2 0 (take k grades) 0;
         (found, rr, dcg) = rank_loop exp2 log2 0 (map (grade_of relevance) (take k ranked_hits)) (0, 0, 0)
       in Inr \<lparr>recall_at_k = (if relevant_total = 0 then 0 else f64_div (f64_of_nat found) (f64_of_nat relevant_total)),
         reciprocal_rank = rr, ndcg_at_k = (if f64_is_zero ideal_dcg then 0 else f64_div dcg ideal_dcg)\<rparr>)"

definition f64_isfinite :: "float64 \<Rightarrow> bool" where
  "f64_isfinite a = fp_isfinite binary64 (unat a)"

definition f64_isnan :: "float64 \<Rightarrow> bool" where
  "f64_isnan a = fp_isnan binary64 (unat a)"

definition percentile_position :: "nat \<Rightarrow> float64 \<Rightarrow> nat" where
  "percentile_position n quantile = f64_ceil_size (f64_mul quantile (f64_of_nat (n - 1)))"

definition percentile :: "float64 list \<Rightarrow> float64 \<Rightarrow> float64 res" where
  "percentile sample quantile = (
     if sample = [] then Inl (Invalid_argument ''cannot calculate percentile of an empty sample'')
     else if \<not> f64_isfinite quantile \<or> f64_less quantile 0 \<or> f64_less f64_one quantile
       then Inl (Invalid_argument ''percentile quantile must be in [0, 1]'')
     else let sorted = sort_by f64_less sample; position = percentile_position (length sample) quantile in
       if position < length sorted then Inr (sorted ! position)
       else Inl (Other_exception ''undefined: position out of range''))"

section \<open>Counts as doubles\<close>

text \<open>Integers below \<open>2 ^ fp_prec\<close> are exact.\<close>

lemma fp_units_of_nat:
  assumes "fp_ok f" and "fp_prec f \<le> fp_scale f + 1" and "(fp_scale f + 2) * fp_hidden f \<le> fp_inf f"
    and "n < 2 ^ fp_prec f"
  shows "\<exists>m < fp_inf f. fp_units f m = n * 2 ^ fp_scale f"
proof (cases "n = 0")
  case True
  then show ?thesis using assms(3) fp_hidden_props(1) [OF assms(1)]
    by (intro exI [of _ 0]) (auto simp: fp_units_def Let_def intro: gr0I)
next
  case False
  define h where "h = fp_hidden f"
  define d where "d = fp_prec f - bit_length n"
  have h: "0 < h" "2 ^ fp_prec f = 2 * h" using fp_hidden_props [OF assms(1)] by (simp_all add: h_def)
  have bl: "bit_length n \<le> fp_prec f" "0 < bit_length n"
    using assms(4) False by (simp_all add: bit_length_le_iff) (simp add: bit_length.simps)
  then have d: "bit_length n + d = fp_prec f" "d \<le> fp_scale f" using assms(2) by (simp_all add: d_def)
  have lo: "h \<le> n * 2 ^ d"
  proof -
    have "2 ^ (bit_length n - 1) * 2 ^ d \<le> n * 2 ^ d" using False bit_length_ge [of n] by simp
    moreover have "bit_length n - 1 + d = fp_prec f - 1" using d(1) bl(2) by linarith
    ultimately show ?thesis by (simp only: power_add [symmetric] h_def fp_hidden_def)
  qed
  have hi: "n * 2 ^ d < 2 * h"
  proof -
    have "n < 2 ^ bit_length n" using bit_length_le_iff [of n "bit_length n"] by simp
    then have "n * 2 ^ d < 2 ^ bit_length n * 2 ^ d" by simp
    then show ?thesis by (simp only: power_add [symmetric] d(1) h(2))
  qed
  define m where "m = (fp_scale f - d + 1) * h + (n * 2 ^ d - h)"
  have r: "n * 2 ^ d - h < h" using lo hi by linarith
  have div: "m div h = fp_scale f - d + 1" "m mod h = n * 2 ^ d - h"
    using r h(1) by (simp_all add: m_def del: mult_Suc)
  have "fp_units f m = n * 2 ^ d * 2 ^ (fp_scale f - d)"
    using lo by (simp add: fp_units_def Let_def h_def [symmetric] div)
  also have "\<dots> = n * 2 ^ fp_scale f" using d(2) by (simp only: mult.assoc power_add [symmetric]) simp
  finally have "fp_units f m = n * 2 ^ fp_scale f" .
  moreover have "m < fp_inf f"
  proof -
    have "m < (fp_scale f - d + 1) * h + h" using r by (simp add: m_def)
    also have "\<dots> \<le> (fp_scale f + 2) * h" using d(2) by (simp add: algebra_simps)
    finally show ?thesis using assms(3) by (simp add: h_def)
  qed
  ultimately show ?thesis by blast
qed

lemma fp_round_of_nat:
  assumes "fp_ok f" and "m \<le> fp_inf f" and "fp_units f m = n * 2 ^ fp_scale f"
  shows "fp_round f n 1 = m"
proof -
  have "fp_round f n 1 = fp_round f (n * 2 ^ fp_scale f) (2 ^ fp_scale f)"
    by (intro antisym fp_round_mono assms(1)) simp_all
  also have "\<dots> = m" using fp_round_exact [OF assms(1,2)] assms(3) by simp
  finally show ?thesis .
qed

lemma fp_ok_binary64: "fp_prec binary64 \<le> fp_scale binary64 + 1"
  "(fp_scale binary64 + 2) * fp_hidden binary64 \<le> fp_inf binary64"
  by (simp_all add: binary64_def fp_hidden_def)

lemma inf64_bound: "n \<le> fp_inf binary64 \<Longrightarrow> unat (of_nat n :: float64) = n"
  by (simp add: binary64_def unat_of_nat)

lemma f64_of_nat_exact:
  assumes "n < 2 ^ 53"
  shows "unat (f64_of_nat n) < fp_inf binary64"
    and "fp_units binary64 (unat (f64_of_nat n)) = n * 2 ^ fp_scale binary64"
proof -
  have "n < 2 ^ fp_prec binary64" using assms by (simp add: binary64_def)
  then obtain m where m: "m < fp_inf binary64" "fp_units binary64 m = n * 2 ^ fp_scale binary64"
    using fp_units_of_nat [OF fp_ok_formats(2) fp_ok_binary64] by blast
  then have "unat (f64_of_nat n) = m"
    using fp_round_of_nat [OF fp_ok_formats(2), of m n] by (simp add: f64_of_nat_def inf64_bound)
  with m show "unat (f64_of_nat n) < fp_inf binary64"
    "fp_units binary64 (unat (f64_of_nat n)) = n * 2 ^ fp_scale binary64" by simp_all
qed
section \<open>Percentiles\<close>

text \<open>The accepted quantiles: a magnitude of at most one, and no sign unless it is zero.\<close>

definition quantile_ok :: "float64 \<Rightarrow> bool" where
  "quantile_ok q \<longleftrightarrow> f64_isfinite q \<and> \<not> f64_less q 0 \<and> \<not> f64_less f64_one q"

abbreviation quantile_bits :: "float64 \<Rightarrow> nat" where
  "quantile_bits q \<equiv> fp_mag binary64 (unat q)"

lemma one64: "unat f64_one = 0x3FF0000000000000" "0x3FF0000000000000 < fp_inf binary64"
  "fp_units binary64 0x3FF0000000000000 = 2 ^ fp_scale binary64"
proof -
  show "unat f64_one = 0x3FF0000000000000" by simp
  show "0x3FF0000000000000 < fp_inf binary64" by (simp add: binary64_def)
  have h: "fp_hidden binary64 = 2 ^ 52" by (simp add: fp_hidden_def binary64_def)
  have "fp_units binary64 0x3FF0000000000000 = 2 ^ 52 * 2 ^ 1022" unfolding fp_units_def h Let_def by simp
  also have "\<dots> = 2 ^ fp_scale binary64" by (simp only: power_add [symmetric]) (simp add: binary64_def)
  finally show "fp_units binary64 0x3FF0000000000000 = 2 ^ fp_scale binary64" .
qed

lemma quantile_okD:
  assumes "quantile_ok q"
  shows "quantile_bits q \<le> unat f64_one" and "fp_neg binary64 (unat q) \<Longrightarrow> quantile_bits q = 0"
    and "\<not> fp_isnan binary64 (unat q)" "\<not> fp_isinf binary64 (unat q)"
proof -
  have fin: "quantile_bits q < fp_inf binary64" using assms by (simp add: quantile_ok_def f64_isfinite_def fp_isfinite_def)
  then show nan: "\<not> fp_isnan binary64 (unat q)" "\<not> fp_isinf binary64 (unat q)"
    by (simp_all add: fp_isnan_def fp_isinf_def)
  have zero: "\<not> fp_isnan binary64 0" "fp_key binary64 0 = 0" "\<not> fp_isnan binary64 (unat f64_one)"
    "fp_key binary64 (unat f64_one) = int (unat f64_one)"
    using fp_nonneg_simps [of binary64] one64(2) by simp_all
  have "\<not> fp_key binary64 (unat q) < 0" using assms nan zero by (simp add: quantile_ok_def f64_less_def fp_less_def)
  then show neg: "fp_neg binary64 (unat q) \<Longrightarrow> quantile_bits q = 0" by (simp add: fp_key_def)
  have "\<not> int (unat f64_one) < fp_key binary64 (unat q)"
    using assms nan zero by (simp add: quantile_ok_def f64_less_def fp_less_def)
  then show "quantile_bits q \<le> unat f64_one"
    using neg by (cases "fp_neg binary64 (unat q)") (simp_all add: fp_key_def)
qed

lemma mag_of_pack: "n \<le> fp_inf binary64 \<Longrightarrow> (neg \<Longrightarrow> n = 0) \<Longrightarrow>
    fp_mag binary64 (unat (of_nat (fp_pack binary64 neg n) :: float64)) = n"
  by (cases neg) (simp_all add: fp_pack_def inf64_bound fp_nonneg_simps fp_mag_def binary64_def)

text \<open>The rounded product of a quantile and a count, and its ceiling.\<close>

definition scaled :: "nat \<Rightarrow> nat \<Rightarrow> nat" where
  "scaled b n = fp_round binary64 (fp_units binary64 b * fp_units binary64 (unat (f64_of_nat n))) (2 ^ (2 * fp_scale binary64))"

lemma percentile_position_scaled:
  assumes "quantile_ok q" and "n < 2 ^ 53"
  shows "percentile_position (n + 1) q = (fp_units binary64 (scaled (quantile_bits q) n) + 2 ^ fp_scale binary64 - 1)
    div 2 ^ fp_scale binary64"
proof -
  let ?N = "unat (f64_of_nat n)"
  note q = quantile_okD [OF assms(1)]
  have N: "?N \<le> fp_inf binary64" "?N \<noteq> fp_inf binary64" using f64_of_nat_exact(1) [OF assms(2)] by simp_all
  note s = fp_nonneg_simps [OF fp_ok_formats(2) N(1)]
  have "fp_mul binary64 (unat q) ?N = fp_pack binary64 (fp_neg binary64 (unat q)) (scaled (quantile_bits q) n)"
    using q(3,4) N s by (simp add: fp_mul_def Let_def scaled_def)
  moreover have "scaled (quantile_bits q) n = 0" if "fp_neg binary64 (unat q)"
    using q(2) [OF that] by (simp add: scaled_def fp_units_def Let_def)
  ultimately have "fp_mag binary64 (unat (f64_mul q (f64_of_nat n))) = scaled (quantile_bits q) n"
    unfolding f64_mul_def by (simp add: mag_of_pack scaled_def)
  then show ?thesis by (simp add: percentile_position_def f64_ceil_size_def)
qed

lemma scaled_mono: "b \<le> c \<Longrightarrow> scaled b n \<le> scaled c n"
  unfolding scaled_def by (intro fp_round_mono fp_ok_formats) (simp_all add: fp_units_mono)

lemma scaled_one:
  assumes "n < 2 ^ 53"
  shows "fp_units binary64 (scaled (unat f64_one) n) = n * 2 ^ fp_scale binary64"
proof -
  have m: "unat (f64_of_nat n) \<le> fp_inf binary64" using f64_of_nat_exact(1) [OF assms] by simp
  have "scaled (unat f64_one) n = fp_round binary64 (n * 2 ^ (2 * fp_scale binary64)) (2 ^ (2 * fp_scale binary64))"
    unfolding scaled_def one64(1) one64(3) f64_of_nat_exact(2) [OF assms]
    by (simp only: mult.left_commute [of _ n] power_add [symmetric] mult_2)
  also have "\<dots> = fp_round binary64 n 1" by (intro antisym fp_round_mono fp_ok_formats) simp_all
  also have "\<dots> = unat (f64_of_nat n)" using m fp_round_of_nat [OF fp_ok_formats(2) m] f64_of_nat_exact(2) [OF assms] by blast
  finally show ?thesis using f64_of_nat_exact(2) [OF assms] by simp
qed

lemma ceil_exact: "0 < S \<Longrightarrow> (n * S + S - 1) div S = (n :: nat)"
proof -
  assume "0 < S"
  then have "n * S + S - 1 = (S - 1) + n * S" by simp
  then have "(n * S + S - 1) div S = (S - 1) div S + n" using \<open>0 < S\<close> by (simp only: div_mult_self1)
  then show ?thesis using \<open>0 < S\<close> by simp
qed

lemma percentile_position_bounds:
  assumes "quantile_ok q" and "n < 2 ^ 53"
  shows "percentile_position (n + 1) q \<le> n"
    and "quantile_bits q = 0 \<Longrightarrow> percentile_position (n + 1) q = 0"
    and "q = f64_one \<Longrightarrow> percentile_position (n + 1) q = n"
    and "quantile_ok q' \<Longrightarrow> quantile_bits q \<le> quantile_bits q' \<Longrightarrow> percentile_position (n + 1) q \<le> percentile_position (n + 1) q'"
proof -
  let ?S = "2 ^ fp_scale binary64 :: nat"
  have S: "0 < ?S" by simp
  have mono: "(fp_units binary64 (scaled b n) + ?S - 1) div ?S \<le> (fp_units binary64 (scaled c n) + ?S - 1) div ?S"
    if "b \<le> c" for b c using fp_units_mono [OF fp_ok_formats(2) scaled_mono [OF that]] by (intro div_le_mono diff_le_mono) simp
  have top: "(fp_units binary64 (scaled (unat f64_one) n) + ?S - 1) div ?S = n"
    unfolding scaled_one [OF assms(2)] by (rule ceil_exact [OF S])
  show "percentile_position (n + 1) q \<le> n"
    unfolding percentile_position_scaled [OF assms] using mono [OF quantile_okD(1) [OF assms(1)]] top by simp
  show "percentile_position (n + 1) q = 0" if "quantile_bits q = 0"
    unfolding percentile_position_scaled [OF assms] that by (simp add: scaled_def fp_units_def Let_def)
  show "percentile_position (n + 1) q = n" if "q = f64_one"
  proof -
    have "quantile_bits q = unat f64_one" unfolding that one64(1) using fp_nonneg_simps(1) [OF fp_ok_formats(2)] one64(2) by simp
    then show ?thesis unfolding percentile_position_scaled [OF assms] using top by simp
  qed
  show "percentile_position (n + 1) q \<le> percentile_position (n + 1) q'" if "quantile_ok q'" "quantile_bits q \<le> quantile_bits q'"
    unfolding percentile_position_scaled [OF assms] percentile_position_scaled [OF that(1) assms(2)] by (rule mono [OF that(2)])
qed
interpretation double_order: comparator f64_less "\<lambda>x. \<not> f64_isnan x"
proof
  show "\<not> f64_less y x" if "f64_less x y" for x y using that by (auto simp: f64_less_def fp_less_def)
  show "f64_less x y \<or> f64_less y z" if "\<not> f64_isnan y" "f64_less x z" for x y z
    using that by (auto simp: f64_less_def fp_less_def f64_isnan_def)
qed

lemma in_order_nth:
  assumes "in_order lt xs" and "i \<le> j" and "j < length xs" and "\<And>x. x \<in> set xs \<Longrightarrow> \<not> lt x x"
  shows "\<not> lt (xs ! j) (xs ! i)"
  using assms sorted_wrt_nth_less [OF assms(1), of i j] by (cases "i = j") auto

lemma percentile_result:
  assumes "sample \<noteq> []" and "length sample \<le> 2 ^ 53" and "quantile_ok q"
  shows "percentile sample q = Inr (sort_by f64_less sample ! percentile_position (length sample) q) \<and>
    percentile_position (length sample) q < length sample"
proof -
  obtain n where n: "length sample = n + 1" using assms(1) by (cases sample) simp_all
  then have "n < 2 ^ 53" using assms(2) by simp
  then have "percentile_position (length sample) q < length sample"
    using percentile_position_bounds(1) [OF assms(3), of n] n by simp
  with assms show ?thesis by (simp add: percentile_def quantile_ok_def)
qed

text \<open>
  C40. A percentile of a sample of numbers is an element of the sample, never read out of range although its
  position is computed in floating point; it grows with the quantile, and the quantiles zero and one give
  the least and the greatest element.
\<close>

theorem percentile_selects:
  assumes "sample \<noteq> []" and "length sample \<le> 2 ^ 53" and "\<forall>v \<in> set sample. \<not> f64_isnan v"
    and "quantile_ok q"
  shows "\<exists>x. percentile sample q = Inr x \<and> x \<in> set sample \<and>
    (\<forall>q' y. quantile_ok q' \<longrightarrow> quantile_bits q \<le> quantile_bits q' \<longrightarrow> percentile sample q' = Inr y \<longrightarrow> \<not> f64_less y x) \<and>
    (quantile_bits q = 0 \<longrightarrow> (\<forall>v \<in> set sample. \<not> f64_less v x)) \<and>
    (q = f64_one \<longrightarrow> (\<forall>v \<in> set sample. \<not> f64_less x v))"
proof -
  let ?s = "sort_by f64_less sample"
  obtain n where n: "length sample = n + 1" using assms(1) by (cases sample) simp_all
  then have small: "n < 2 ^ 53" using assms(2) by simp
  note bounds = percentile_position_bounds [OF assms(4) small, folded n]
  have ordered: "in_order f64_less ?s"
    using assms(3) by (intro double_order.sort_by_in_order) (simp add: list_all_iff)
  have irrefl: "\<not> f64_less x x" for x by (simp add: f64_less_def fp_less_def)
  note up = in_order_nth [OF ordered _ _ irrefl]
  from percentile_result [OF assms(1,2,4)] have
    r: "percentile sample q = Inr (?s ! percentile_position (length sample) q)" "percentile_position (length sample) q < length ?s"
    by simp_all
  have "?s ! percentile_position (length sample) q \<in> set sample" using nth_mem [OF r(2)] by simp
  moreover have "\<not> f64_less y (?s ! percentile_position (length sample) q)"
    if "quantile_ok q'" "quantile_bits q \<le> quantile_bits q'" "percentile sample q' = Inr y" for q' y
    using percentile_result [OF assms(1,2) that(1)] that(3) up [OF bounds(4) [OF that(1,2)]] by simp
  moreover have "\<not> f64_less v (?s ! percentile_position (length sample) q)" if "quantile_bits q = 0" "v \<in> set sample" for v
  proof -
    have "v \<in> set ?s" using that(2) by simp
    then obtain j where "j < length ?s" "v = ?s ! j" by (metis in_set_conv_nth)
    then show ?thesis using up [of 0 j] bounds(2) [OF that(1)] by simp
  qed
  moreover have "\<not> f64_less (?s ! percentile_position (length sample) q) v" if "q = f64_one" "v \<in> set sample" for v
  proof -
    have "v \<in> set ?s" using that(2) by simp
    then obtain j where "j < length ?s" "v = ?s ! j" by (metis in_set_conv_nth)
    then show ?thesis using up [of j n] bounds(3) [OF that(1)] n by simp
  qed
  ultimately show ?thesis using r(1) by blast
qed

theorem percentile_selects_witness:
  "\<exists>x. percentile [f64_two, f64_one] f64_one = Inr x \<and> \<not> f64_less x f64_two"
proof -
  have "quantile_ok f64_one" "\<not> f64_isnan f64_two" "\<not> f64_isnan f64_one"
    by (simp_all add: quantile_ok_def f64_isfinite_def f64_less_def f64_isnan_def fp_less_def fp_isnan_def fp_isfinite_def
      fp_mag_def fp_key_def fp_neg_def binary64_def)
  then show ?thesis using percentile_selects [of "[f64_two, f64_one]" f64_one] by force
qed

section \<open>Metrics\<close>

lemma rank_loop_found:
  "fst (rank_loop exp2 log2 index gs (found, rr, dcg)) = found + length (filter (\<lambda>g. 0 < g) gs)"
  by (induction gs arbitrary: index found rr dcg) simp_all

text \<open>The reciprocal of a position is not zero.\<close>

lemma f64_reciprocal_positive:
  assumes "0 < n" and "n < 2 ^ 53"
  shows "\<not> f64_is_zero (f64_div f64_one (f64_of_nat n))"
proof -
  let ?N = "unat (f64_of_nat n)"
  note N = f64_of_nat_exact [OF assms(2)]
  have "?N \<noteq> 0"
  proof
    assume "?N = 0"
    then have "fp_units binary64 ?N = 0" by (simp add: fp_units_def)
    with N(2) assms(1) show False by simp
  qed
  then have div: "fp_div binary64 (unat f64_one) ?N = fp_round binary64 (fp_units binary64 (unat f64_one)) (fp_units binary64 ?N)"
    using fp_div_nonneg [OF fp_ok_formats(2), of "unat f64_one" ?N] one64(1,2) N(1) by simp
  have unit: "fp_units binary64 1 = 1" by (simp add: fp_units_def fp_hidden_def binary64_def)
  have "fp_round binary64 (fp_units binary64 1) (2 ^ fp_scale binary64) = 1"
    by (rule fp_round_exact [OF fp_ok_formats(2)]) (simp add: binary64_def)
  then have "1 \<le> fp_round binary64 (fp_units binary64 (unat f64_one)) (fp_units binary64 ?N)"
  proof -
    have "1 * (n * 2 ^ fp_scale binary64) \<le> 2 ^ fp_scale binary64 * 2 ^ fp_scale binary64"
    proof -
      have "n \<le> 2 ^ fp_scale binary64"
        using assms(2) power_increasing [of 53 "fp_scale binary64" "2 :: nat"] by (simp add: binary64_def)
      then show ?thesis by simp
    qed
    then have "fp_round binary64 1 (2 ^ fp_scale binary64) \<le> fp_round binary64 (2 ^ fp_scale binary64) (n * 2 ^ fp_scale binary64)"
      using assms(1) by (intro fp_round_mono fp_ok_formats) simp_all
    then show ?thesis
      using \<open>fp_round binary64 (fp_units binary64 1) (2 ^ fp_scale binary64) = 1\<close> unfolding unit one64(1) one64(3) N(2) by simp
  qed
  moreover have "unat (f64_div f64_one (f64_of_nat n)) = fp_round binary64 (fp_units binary64 (unat f64_one)) (fp_units binary64 ?N)"
    by (simp only: f64_div_def div inf64_bound fp_round_le_inf)
  moreover have "fp_key binary64 (fp_round binary64 (fp_units binary64 (unat f64_one)) (fp_units binary64 ?N)) =
      int (fp_round binary64 (fp_units binary64 (unat f64_one)) (fp_units binary64 ?N))" "fp_key binary64 0 = 0"
    using fp_nonneg_simps(6) [OF fp_ok_formats(2)] by (simp_all only: fp_round_le_inf)
  ultimately show ?thesis by (simp only: f64_is_zero_def fp_equal_def) simp
qed

lemma rank_loop_rr:
  assumes "index + length gs < 2 ^ 53"
  shows "fst (snd (rank_loop exp2 log2 index gs (found, rr, dcg))) =
    (if \<not> f64_is_zero rr then rr
     else case find (\<lambda>i. 0 < gs ! i) [0..<length gs] of None \<Rightarrow> rr | Some i \<Rightarrow> f64_div f64_one (f64_of_nat (index + i + 1)))"
  using assms
proof (induction gs arbitrary: index found rr dcg)
  case (Cons g gs)
  have shift: "find (\<lambda>i. 0 < (g # gs) ! i) [0..<length (g # gs)] =
      (if 0 < g then Some 0 else map_option Suc (find (\<lambda>i. 0 < gs ! i) [0..<length gs]))"
  proof -
    have "[0..<length (g # gs)] = 0 # map Suc [0..<length gs]" by (simp add: upt_conv_Cons map_Suc_upt del: upt_Suc)
    moreover have "find P (map Suc is) = map_option Suc (find (\<lambda>i. P (Suc i)) is)" for P "is"
      by (induction "is") simp_all
    ultimately show ?thesis by simp
  qed
  have "\<not> f64_is_zero (f64_div f64_one (f64_of_nat (index + 1)))"
    using Cons.prems by (intro f64_reciprocal_positive) simp_all
  then show ?case unfolding shift using Cons.IH [of "index + 1"] Cons.prems
    by (auto split: option.splits)
qed simp
text \<open>The quotient of two counts, the smaller one by the greater one.\<close>

lemma f64_ratio:
  assumes "a \<le> b" and "0 < b" and "b < 2 ^ 53"
  shows "unat (f64_div (f64_of_nat a) (f64_of_nat b)) \<le> unat f64_one"
    and "a = b \<Longrightarrow> f64_div (f64_of_nat a) (f64_of_nat b) = f64_one"
proof -
  let ?A = "unat (f64_of_nat a)" and ?B = "unat (f64_of_nat b)" and ?S = "2 ^ fp_scale binary64 :: nat"
  have small: "a < 2 ^ 53" using assms by simp
  note A = f64_of_nat_exact [OF small] and B = f64_of_nat_exact [OF assms(3)]
  have nz: "?B \<noteq> 0"
  proof
    assume "?B = 0"
    then have "fp_units binary64 ?B = 0" by (simp add: fp_units_def)
    with B(2) assms(2) show False by simp
  qed
  have le: "?A \<le> fp_inf binary64" "?B \<le> fp_inf binary64" using A(1) B(1) by simp_all
  note sa = fp_nonneg_simps [OF fp_ok_formats(2) le(1)] and sb = fp_nonneg_simps [OF fp_ok_formats(2) le(2)]
  have "fp_div binary64 ?A ?B = fp_round binary64 (a * ?S) (b * ?S)"
    using sa sb A B nz by (simp add: fp_div_def Let_def fp_pack_def)
  then have bits: "unat (f64_div (f64_of_nat a) (f64_of_nat b)) = fp_round binary64 (a * ?S) (b * ?S)"
    by (simp only: f64_div_def inf64_bound fp_round_le_inf)
  have one: "fp_round binary64 1 1 = unat f64_one"
    unfolding one64(1) using one64(2,3) by (intro fp_round_of_nat fp_ok_formats) simp_all
  have "fp_round binary64 (a * ?S) (b * ?S) \<le> fp_round binary64 1 1"
    using assms by (intro fp_round_mono fp_ok_formats) simp_all
  then show "unat (f64_div (f64_of_nat a) (f64_of_nat b)) \<le> unat f64_one" unfolding bits one .
  show "f64_div (f64_of_nat a) (f64_of_nat b) = f64_one" if "a = b"
  proof -
    have "fp_round binary64 (a * ?S) (b * ?S) = fp_round binary64 1 1"
      using assms that by (intro antisym fp_round_mono fp_ok_formats) simp_all
    then have "unat (f64_div (f64_of_nat a) (f64_of_nat b)) = unat f64_one" unfolding bits one .
    then show ?thesis by (simp only: word_unat_eq_iff)
  qed
qed

lemma grade_positive:
  assumes "distinct (map fst relevance)"
  shows "0 < grade_of relevance h \<longleftrightarrow> (\<exists>g. (hit_chunk_id h, g) \<in> set relevance \<and> 0 < g)"
  unfolding map_of_eq_Some_iff [OF assms, symmetric] by (simp add: grade_of_def split: option.split)

text \<open>Every relevant hit stands for a relevant id of its own.\<close>

lemma relevant_hits:
  assumes "distinct (map hit_chunk_id hits)" and "distinct (map fst relevance)"
  defines "found \<equiv> length (filter (\<lambda>g. 0 < g) (map (grade_of relevance) hits))"
    and "relevant \<equiv> {i. \<exists>g. (i, g) \<in> set relevance \<and> 0 < g}"
  shows "found = card (relevant \<inter> hit_chunk_id ` set hits)"
    and "length (relevant_grades relevance) = card relevant" and "finite relevant"
proof -
  have rel: "0 < grade_of relevance h \<longleftrightarrow> hit_chunk_id h \<in> relevant" for h
    unfolding relevant_def by (simp add: grade_positive [OF assms(2)])
  have "found = length (filter (\<lambda>h. hit_chunk_id h \<in> relevant) hits)"
    by (simp add: found_def filter_map comp_def rel)
  also have "\<dots> = length (map hit_chunk_id (filter (\<lambda>h. hit_chunk_id h \<in> relevant) hits))" by simp
  also have "\<dots> = card (set (map hit_chunk_id (filter (\<lambda>h. hit_chunk_id h \<in> relevant) hits)))"
    by (rule distinct_card [symmetric]) (rule distinct_map_filter [OF assms(1)])
  also have "set (map hit_chunk_id (filter (\<lambda>h. hit_chunk_id h \<in> relevant) hits)) = relevant \<inter> hit_chunk_id ` set hits" by auto
  finally show "found = card (relevant \<inter> hit_chunk_id ` set hits)" .
  have "length (relevant_grades relevance) = length (map fst (filter (\<lambda>x. 0 < snd x) relevance))"
    by (simp add: relevant_grades_def filter_map comp_def)
  also have "\<dots> = card (set (map fst (filter (\<lambda>x. 0 < snd x) relevance)))"
    by (rule distinct_card [symmetric]) (rule distinct_map_filter [OF assms(2)])
  also have set: "set (map fst (filter (\<lambda>x. 0 < snd x) relevance)) = relevant" by (force simp: relevant_def)
  finally show "length (relevant_grades relevance) = card relevant" .
  show "finite relevant" unfolding set [symmetric] by simp
qed

text \<open>
  For a ranking without repetitions the recall is between zero and one, and one if everything relevant is
  among the first \<open>k\<close> hits; the reciprocal rank is that of the first relevant hit among them, or zero.
\<close>

lemma evaluate_ranking_metrics:
  assumes "0 < k" and "distinct (map hit_chunk_id hits)" and "distinct (map fst relevance)"
    and "length hits < 2 ^ 53" and "length relevance < 2 ^ 53"
  defines "relevant \<equiv> {i. \<exists>g. (i, g) \<in> set relevance \<and> 0 < g}"
  shows "\<exists>m. evaluate_ranking exp2 log2 hits relevance k = Inr m \<and> unat (recall_at_k m) \<le> unat f64_one \<and>
    (relevant \<noteq> {} \<and> relevant \<subseteq> hit_chunk_id ` set (take k hits) \<longrightarrow> recall_at_k m = f64_one) \<and>
    reciprocal_rank m = (case find (\<lambda>i. hit_chunk_id (hits ! i) \<in> relevant) [0..<min k (length hits)] of
      None \<Rightarrow> 0 | Some i \<Rightarrow> f64_div f64_one (f64_of_nat (i + 1)))"
proof -
  let ?gs = "map (grade_of relevance) (take k hits)"
  have dist: "distinct (map hit_chunk_id (take k hits))" using assms(2) by (simp add: take_map [symmetric])
  note rel = relevant_hits [OF dist assms(3), folded relevant_def]
  obtain found rr dcg where loop: "rank_loop exp2 log2 0 ?gs (0, 0, 0) = (found, rr, dcg)" by (metis prod_cases3)
  have found: "found = card (relevant \<inter> hit_chunk_id ` set (take k hits))"
    using rank_loop_found [of exp2 log2 0 ?gs 0 0 0] rel(1) unfolding loop by simp
  then have le: "found \<le> card relevant" using rel(3) by (simp add: card_mono)
  have total: "card relevant < 2 ^ 53"
    using rel(2) assms(5) length_filter_le [of "\<lambda>g. 0 < g" "map snd relevance"] by (simp add: relevant_grades_def)
  have zero: "f64_is_zero 0" by (simp add: f64_is_zero_def fp_equal_def fp_isnan_def fp_mag_def binary64_def)
  have member: "0 < grade_of relevance h \<longleftrightarrow> hit_chunk_id h \<in> relevant" for h
    unfolding relevant_def by (simp add: grade_positive [OF assms(3)])
  have "find (\<lambda>i. 0 < ?gs ! i) [0..<length ?gs] = find (\<lambda>i. hit_chunk_id (hits ! i) \<in> relevant) [0..<min k (length hits)]"
    by (intro find_cong) (auto simp: member min.commute)
  then have rr: "rr = (case find (\<lambda>i. hit_chunk_id (hits ! i) \<in> relevant) [0..<min k (length hits)] of
      None \<Rightarrow> 0 | Some i \<Rightarrow> f64_div f64_one (f64_of_nat (i + 1)))"
    using rank_loop_rr [of 0 ?gs exp2 log2 0 0 0] assms(4) zero unfolding loop by (simp split: option.splits)
  define m where "m = \<lparr>recall_at_k = (if card relevant = 0 then 0 else f64_div (f64_of_nat found) (f64_of_nat (card relevant))),
     reciprocal_rank = rr,
     ndcg_at_k = (let ideal = sum_gains exp2 log2 0 (take k (sort_by (\<lambda>a b. b < a) (relevant_grades relevance))) 0 in
       if f64_is_zero ideal then 0 else f64_div dcg ideal)\<rparr>"
  have "evaluate_ranking exp2 log2 hits relevance k = Inr m"
    unfolding evaluate_ranking_def m_def Let_def loop length_sort_by rel(2) using assms(1) by simp
  moreover have "unat (recall_at_k m) \<le> unat f64_one"
    using f64_ratio(1) [OF le _ total] rel(3) by (simp add: m_def card_gt_0_iff)
  moreover have "recall_at_k m = f64_one" if "relevant \<noteq> {}" "relevant \<subseteq> hit_chunk_id ` set (take k hits)"
  proof -
    have "found = card relevant" using found that(2) by (simp add: Int_absorb2)
    moreover have "0 < card relevant" using that(1) rel(3) by (simp add: card_gt_0_iff)
    ultimately show ?thesis using f64_ratio(2) [OF le _ total] that(1) by (simp add: m_def)
  qed
  ultimately show ?thesis using rr by (simp add: m_def)
qed

lemma find_sample: "find (\<lambda>i. i = 1) [0..<2] = Some (1 :: nat)"
  by (simp add: upt_rec)

lemma evaluate_ranking_metrics_example:
  "\<exists>m. evaluate_ranking id id [\<lparr>hit_chunk_id = 7, hit_score = 0\<rparr>, \<lparr>hit_chunk_id = 5, hit_score = 0\<rparr>] [(5, 1), (6, 0)] 2 = Inr m \<and>
     recall_at_k m = f64_one"
proof -
  have "{i. \<exists>g. (i, g) \<in> set [(5 :: 64 word, 1 :: 32 word), (6, 0)] \<and> 0 < g} = {5}" by auto
  then show ?thesis
    using evaluate_ranking_metrics [of 2 "[\<lparr>hit_chunk_id = 7, hit_score = 0\<rparr>, \<lparr>hit_chunk_id = 5, hit_score = 0\<rparr>]"
      "[(5, 1), (6, 0)]" id id] by auto
qed

text \<open>A repeated hit counts twice.\<close>

lemma repeated_hit_counts_twice:
  "fst (rank_loop exp2 log2 0 (map (grade_of [(5, 1)]) [\<lparr>hit_chunk_id = 5, hit_score = 0\<rparr>, \<lparr>hit_chunk_id = 5, hit_score = 0\<rparr>]) (0, 0, 0)) = 2"
  by (simp add: rank_loop_found grade_of_def)

end
