(* ===== verification/Benchmarks.thy ===== *)
theory Benchmarks
  imports Command_Arguments Evaluation Hnsw_Index
begin

text \<open>
  \<^verbatim>\<open>benchmarks/\<close>: the programs that measure retrieval, chunking and generation. Times are arguments (those of a steady clock, so no duration is negative); so are the random
  engine (\<open>normals\<close>: some numbers of a fresh normal distribution, and the engine after them), the order in which a map is
  iterated and the contents of \<^verbatim>\<open>/proc/self/status\<close>.
\<close>

section \<open>Arguments\<close>

text \<open>An argument that is no number ends the program by an exception.\<close>

definition argument_or :: "string list \<Rightarrow> nat \<Rightarrow> nat \<Rightarrow> nat res" where
  "argument_or argv position fallback = (
     if length argv \<le> position then Inr fallback
     else case stoull (argv ! position) of None \<Rightarrow> Inl (Invalid_argument ''stoull'') | Some n \<Rightarrow> Inr n)"

section \<open>Retrieval\<close>

definition f32_sqrt :: "float32 \<Rightarrow> float32" where
  "f32_sqrt a = of_nat (fp_sqrt binary32 (unat a))"

text \<open>The dimension is 64.\<close>

definition random_embedding :: "(nat \<Rightarrow> 'r \<Rightarrow> float32 list \<times> 'r) \<Rightarrow> 'r \<Rightarrow> Embedding \<times> 'r" where
  "random_embedding normals r = (case normals 64 r of (vs, r) \<Rightarrow>
     let squared_norm = foldl (\<lambda>s v. f32_add s (f32_mul v v)) 0 vs;
       inverse_norm = f32_div f32_one (f32_sqrt squared_norm)
     in (map (\<lambda>v. f32_mul v inverse_norm) vs, r))"

fun random_embeddings :: "(nat \<Rightarrow> 'r \<Rightarrow> float32 list \<times> 'r) \<Rightarrow> nat \<Rightarrow> 'r \<Rightarrow> Embedding list \<times> 'r" where
  "random_embeddings normals 0 r = ([], r)"
| "random_embeddings normals (Suc n) r = (case random_embedding normals r of (v, r) \<Rightarrow>
     case random_embeddings normals n r of (vs, r) \<Rightarrow> (v # vs, r))"

definition recall :: "SearchHit list \<Rightarrow> SearchHit list \<Rightarrow> float64" where
  "recall baseline candidate = (
     let matches = length (filter (\<lambda>h. hit_chunk_id h \<in> hit_chunk_id ` set baseline) candidate) in
     f64_div (f64_of_nat matches) (f64_of_nat (length baseline)))"

text \<open>The grades of a baseline: one for each of its ids.\<close>

definition relevance_of :: "SearchHit list \<Rightarrow> (ChunkId \<times> 32 word) list" where
  "relevance_of baseline = map (\<lambda>i. (i, 1)) (remdups (map hit_chunk_id baseline))"

fun fill_indexes :: "'g hnsw_library \<Rightarrow> nat \<Rightarrow> Embedding list \<Rightarrow> BruteForceIndex \<times> 'g HnswIndex \<Rightarrow>
    (BruteForceIndex \<times> 'g HnswIndex) res" where
  "fill_indexes lib i [] (b, h) = Inr (b, h)"
| "fill_indexes lib i (v # vs) (b, h) = res_bind (bf_upsert (of_nat i) v b) (\<lambda>b.
     case hnsw_upsert lib (of_nat i) v h of (r, h) \<Rightarrow> res_bind r (\<lambda>_. fill_indexes lib (i + 1) vs (b, h)))"

definition retrieval_indexes :: "'g hnsw_library \<Rightarrow> Embedding list \<Rightarrow> (BruteForceIndex \<times> 'g HnswIndex) res" where
  "retrieval_indexes lib vectors = res_bind (make_index 64) (\<lambda>b.
     res_bind (make_hnsw lib 64 \<lparr>max_elements = length vectors, hnsw_m = 16, ef_construction = 200, ef_search = 256\<rparr>) (\<lambda>h.
       fill_indexes lib 0 vectors (b, h)))"

text \<open>The queries against the exact index, then for one \<^verbatim>\<open>ef_search\<close> against the approximate one.\<close>

definition sample_queries :: "BruteForceIndex \<Rightarrow> Embedding list \<Rightarrow> (Embedding \<times> SearchHit list) list res" where
  "sample_queries b = res_map (\<lambda>q. res_bind (bf_search b q 10) (\<lambda>hits. Inr (q, hits)))"

fun score_queries :: "'g hnsw_library \<Rightarrow> (float64 \<Rightarrow> float64) \<Rightarrow> (float64 \<Rightarrow> float64) \<Rightarrow>
    ((ChunkId \<times> 32 word) list \<Rightarrow> (ChunkId \<times> 32 word) list) \<Rightarrow> 'g HnswIndex \<Rightarrow> (Embedding \<times> SearchHit list) list \<Rightarrow>
    float64 \<times> float64 \<times> float64 \<Rightarrow> (float64 \<times> float64 \<times> float64) res" where
  "score_queries lib exp2 log2 order h [] totals = Inr totals"
| "score_queries lib exp2 log2 order h ((q, base) # qs) (total_recall, mrr, ndcg) =
     res_bind (hnsw_search lib h q 10) (\<lambda>hits.
     res_bind (evaluate_ranking exp2 log2 hits (order (relevance_of base)) 10) (\<lambda>m.
       score_queries lib exp2 log2 order h qs
         (f64_add total_recall (recall base hits), f64_add mrr (reciprocal_rank m), f64_add ndcg (ndcg_at_k m))))"

record retrieval_report =
  report_ef_search :: nat
  report_recall :: float64
  report_mrr :: float64
  report_ndcg :: float64
  report_brute :: "float64 \<times> float64"
  report_hnsw :: "float64 \<times> float64"

text \<open>The percentiles 0.50 and 0.95.\<close>

definition median_and_tail :: "float64 list \<Rightarrow> (float64 \<times> float64) res" where
  "median_and_tail sample = res_bind (percentile sample 0x3FE0000000000000) (\<lambda>p50.
     res_bind (percentile sample 0x3FEE666666666666) (\<lambda>p95. Inr (p50, p95)))"

definition report_for :: "'g hnsw_library \<Rightarrow> (float64 \<Rightarrow> float64) \<Rightarrow> (float64 \<Rightarrow> float64) \<Rightarrow>
    ((ChunkId \<times> 32 word) list \<Rightarrow> (ChunkId \<times> 32 word) list) \<Rightarrow> 'g HnswIndex \<Rightarrow> (Embedding \<times> SearchHit list) list \<Rightarrow>
    float64 list \<Rightarrow> (nat \<Rightarrow> float64 list) \<Rightarrow> nat \<Rightarrow> retrieval_report res" where
  "report_for lib exp2 log2 order h queries brute_ms hnsw_ms ef =
     res_bind (set_ef_search lib ef h) (\<lambda>h.
     res_bind (score_queries lib exp2 log2 order h queries (0, 0, 0)) (\<lambda>(total_recall, mrr, ndcg).
     res_bind (median_and_tail brute_ms) (\<lambda>brute.
     res_bind (median_and_tail (hnsw_ms ef)) (\<lambda>hnsw.
       let n = f64_of_nat (length queries) in
       Inr \<lparr>report_ef_search = ef, report_recall = f64_div total_recall n, report_mrr = f64_div mrr n,
         report_ndcg = f64_div ndcg n, report_brute = brute, report_hnsw = hnsw\<rparr>))))"

text \<open>
  The whole program: the number of records, of queries and the seed from the arguments. A change of \<^verbatim>\<open>ef_search\<close> stays,
  but the next one replaces it.
\<close>

definition retrieval_benchmark :: "'g hnsw_library \<Rightarrow> (float64 \<Rightarrow> float64) \<Rightarrow> (float64 \<Rightarrow> float64) \<Rightarrow>
    ((ChunkId \<times> 32 word) list \<Rightarrow> (ChunkId \<times> 32 word) list) \<Rightarrow> (32 word \<Rightarrow> 'r) \<Rightarrow> (nat \<Rightarrow> 'r \<Rightarrow> float32 list \<times> 'r) \<Rightarrow>
    (nat \<Rightarrow> float64 list) \<Rightarrow> (nat \<Rightarrow> nat \<Rightarrow> float64 list) \<Rightarrow> string list \<Rightarrow> retrieval_report list res" where
  "retrieval_benchmark lib exp2 log2 order engine normals brute_ms hnsw_ms argv =
     res_bind (argument_or argv 1 10000) (\<lambda>records_count.
     res_bind (argument_or argv 2 200) (\<lambda>query_count.
     res_bind (argument_or argv 3 42) (\<lambda>seed.
     case random_embeddings normals records_count (engine (of_nat seed)) of (vectors, r) \<Rightarrow>
     res_bind (retrieval_indexes lib vectors) (\<lambda>(b, h).
     res_bind (sample_queries b (fst (random_embeddings normals query_count r))) (\<lambda>queries.
       res_map (report_for lib exp2 log2 order h queries (brute_ms query_count) (hnsw_ms query_count)) [64, 128, 256])))))"

section \<open>Chunking\<close>

definition fixture_line :: "nat \<Rightarrow> string" where
  "fixture_line line = ''int value_'' @ string_of_nat line @ '' = '' @ string_of_nat line @ '';'' @ [CHR 0x0A]"

definition chunker_benchmark :: "string list \<Rightarrow> (nat \<times> nat \<times> nat) res" where
  "chunker_benchmark argv = res_bind (argument_or argv 1 10000) (\<lambda>lines.
     res_bind (argument_or argv 2 50) (\<lambda>iterations.
     if iterations = 0 then Inr (lines, 0, 0)
     else res_bind (chunk_text ''fixture.cpp'' ''cpp'' (concat (map fixture_line [0..<lines])) default_chunking) (\<lambda>chunks.
       Inr (lines, iterations, (iterations * length chunks) mod (size_max + 1)))))"

section \<open>Generation\<close>

text \<open>This program has a percentile of its own, which does not check its arguments.\<close>

definition unchecked_percentile :: "float64 list \<Rightarrow> float64 \<Rightarrow> float64 option" where
  "unchecked_percentile sample quantile = (
     let sorted = sort_by f64_less sample;
       index = f64_ceil_size (f64_mul quantile (f64_of_nat (sz_sub (length sample) 1)))
     in if index < length sorted then Some (sorted ! index) else None)"

text \<open>Extraction of a word and of a \<^verbatim>\<open>std::size_t\<close> from a stream; \<open>None\<close> is a stream that has failed.\<close>

definition extract_word :: "string \<Rightarrow> (string \<times> string) option" where
  "extract_word s = (let s = dropWhile is_space s in
     if s = [] then None else Some (takeWhile (\<lambda>c. \<not> is_space c) s, dropWhile (\<lambda>c. \<not> is_space c) s))"

definition extract_size :: "string \<Rightarrow> (nat \<times> string) option" where
  "extract_size s = (
     let s = dropWhile is_space s;
       negative = (s \<noteq> [] \<and> hd s = CHR ''-'');
       s = (if s \<noteq> [] \<and> (hd s = CHR ''-'' \<or> hd s = CHR ''+'') then tl s else s);
       digits = takeWhile is_digit s; v = digits_value 0 digits
     in if digits = [] \<or> size_max < v then None
        else Some (if negative then sz_sub 0 v else v, dropWhile is_digit s))"

lemma length_dropWhile_word: "extract_word s = Some (w, t) \<Longrightarrow> length t < length s"
proof -
  assume a: "extract_word s = Some (w, t)"
  define u where "u = dropWhile is_space s"
  have u: "u \<noteq> []" "t = dropWhile (\<lambda>c. \<not> is_space c) u" using a by (auto simp: extract_word_def u_def Let_def split: if_splits)
  then have "\<not> is_space (hd u)" using hd_dropWhile [of is_space s] by (simp add: u_def)
  then have "t = dropWhile (\<lambda>c. \<not> is_space c) (tl u)" using u by (cases u) simp_all
  then have "length t \<le> length (tl u)" using length_dropWhile_le by blast
  also have "\<dots> < length u" using u(1) by (cases u) simp_all
  also have "\<dots> \<le> length s" by (simp add: u_def length_dropWhile_le)
  finally show ?thesis .
qed

lemma length_extract_size: "extract_size s = Some (v, t) \<Longrightarrow> length t \<le> length s"
proof -
  assume a: "extract_size s = Some (v, t)"
  define u where "u = dropWhile is_space s"
  have "t = dropWhile is_digit (if u \<noteq> [] \<and> (hd u = CHR ''-'' \<or> hd u = CHR ''+'') then tl u else u)"
    using a by (auto simp: extract_size_def u_def Let_def split: if_splits)
  then have "length t \<le> length u" by (auto intro: le_trans [OF length_dropWhile_le])
  then show ?thesis by (auto simp: u_def intro: le_trans [OF _ length_dropWhile_le])
qed

function peak_rss_mib :: "string \<Rightarrow> float64" where
  "peak_rss_mib status = (case extract_word status of
     None \<Rightarrow> 0
   | Some (key, s) \<Rightarrow> (case extract_size s of
       None \<Rightarrow> 0
     | Some (kib, s) \<Rightarrow> if key = ''VmHWM:'' then f64_div (f64_of_nat kib) (f64_of_nat 1024)
         else peak_rss_mib (drop 1 (dropWhile (\<lambda>c. c \<noteq> CHR 0x0A) s))))"
  by pat_completeness auto
termination
proof (relation "measure length")
  fix status s s' :: string and key kib x y
  assume "extract_word status = Some x" "(key, s) = x" "extract_size s = Some y" "(kib, s') = y"
  then have "length s < length status" "length s' \<le> length s" using length_dropWhile_word length_extract_size by metis+
  moreover have "length (drop 1 (dropWhile (\<lambda>c. c \<noteq> CHR 0x0A) s')) \<le> length s'"
    using length_dropWhile_le [of "\<lambda>c. c \<noteq> CHR 0x0A" s'] by simp
  ultimately show "(drop 1 (dropWhile (\<lambda>c. c \<noteq> CHR 0x0A) s'), status) \<in> measure length" by simp
qed simp

declare peak_rss_mib.simps [simp del]

record inference_arguments =
  inference_model :: string
  inference_prompt :: string
  inference_gpu_layers :: int
  inference_context_size :: nat
  inference_batch_size :: nat
  inference_runs :: int
  inference_output_tokens :: int
  inference_seed :: "32 word"

definition inference_options :: "cli_library \<Rightarrow> given \<Rightarrow> inference_arguments option" where
  "inference_options lib given =
     Option.bind (required_option (validated lib Existing_file) (given ''--model'')) (\<lambda>model.
     Option.bind (plain_option Some ''Explain RAII in one concise C++ paragraph.'' (given ''--prompt'')) (\<lambda>prompt.
     Option.bind (plain_option (as_int32 lib) (- 1) (given ''--gpu-layers'')) (\<lambda>gpu_layers.
     Option.bind (plain_option (as_size lib) 4096 (given ''--context-size'')) (\<lambda>context_size.
     Option.bind (plain_option (as_size lib) 512 (given ''--batch-size'')) (\<lambda>batch_size.
     Option.bind (checked_option lib Positive (as_int32 lib) 10 (given ''--runs'')) (\<lambda>runs.
     Option.bind (checked_option lib Positive (as_int32 lib) 128 (given ''--output-tokens'')) (\<lambda>output_tokens.
     Option.bind (plain_option (as_uint32 lib) 42 (given ''--seed'')) (\<lambda>seed.
       Some \<lparr>inference_model = model, inference_prompt = prompt, inference_gpu_layers = gpu_layers,
         inference_context_size = context_size, inference_batch_size = batch_size, inference_runs = runs,
         inference_output_tokens = output_tokens, inference_seed = seed\<rparr>))))))))"

definition inference_model_config :: "inference_arguments \<Rightarrow> ModelConfig" where
  "inference_model_config args = \<lparr>model_path = inference_model args, model_context_size = inference_context_size args,
     model_batch_size = inference_batch_size args, model_gpu_layers = inference_gpu_layers args,
     model_flash_attention = True, model_chat_template = None\<rparr>"

text \<open>The temperature is zero; the other options keep their defaults.\<close>

definition inference_generation :: "inference_arguments \<Rightarrow> GenerationOptions" where
  "inference_generation args = default_generation\<lparr>opt_max_tokens := inference_output_tokens args, opt_temperature := 0,
     opt_seed := inference_seed args\<rparr>"

text \<open>
  The runs from the one with number \<open>i\<close> on: time to the first token, speed of decoding and, by the clock of the benchmark,
  the whole time. The outer \<open>None\<close> is a run that does not return.
\<close>

fun measure_runs :: "'c llama \<Rightarrow> generator_config \<Rightarrow> (nat \<Rightarrow> clock_readings) \<Rightarrow> (nat \<Rightarrow> float64) \<Rightarrow> inference_arguments \<Rightarrow>
    nat \<Rightarrow> nat \<Rightarrow> (float64 \<times> float64 \<times> float64) list res option" where
  "measure_runs lib limits clks elapsed args i 0 = Some (Inr [])"
| "measure_runs lib limits clks elapsed args i (Suc n) = (
     case llama_generate lib limits (clks i) (inference_prompt args) (inference_generation args) (Some (\<lambda>token. None)) (\<lambda>poll. False) of
       None \<Rightarrow> None
     | Some (calls, Inl e) \<Rightarrow> Some (Inl e)
     | Some (calls, Inr stats) \<Rightarrow>
         map_option (\<lambda>r. res_bind r (\<lambda>rest. Inr ((f64_of_nat (nat (stat_time_to_first_token stats)),
           stat_decode_tokens_per_second stats, elapsed i) # rest))) (measure_runs lib limits clks elapsed args (i + 1) n))"

text \<open>The percentiles printed: 0.50 and 0.95 of the three samples, \<open>None\<close> being a read past the end.\<close>

definition inference_report :: "(float64 \<times> float64 \<times> float64) list \<Rightarrow> float64 option list" where
  "inference_report measured = concat (map (\<lambda>sample. map (unchecked_percentile sample) [0x3FE0000000000000, 0x3FEE666666666666])
     [map fst measured, map (fst \<circ> snd) measured, map (snd \<circ> snd) measured])"

definition inference_benchmark :: "(path \<Rightarrow> bool) \<Rightarrow> (string \<Rightarrow> int \<Rightarrow> loaded_model option) \<Rightarrow> 'c llama \<Rightarrow> (nat \<Rightarrow> clock_readings) \<Rightarrow>
    (nat \<Rightarrow> float64) \<Rightarrow> string \<Rightarrow> inference_arguments \<Rightarrow> (float64 option list \<times> float64) res option" where
  "inference_benchmark is_file load lib clks elapsed status args = (
     case make_generator is_file load (inference_model_config args) of
       Inl e \<Rightarrow> Some (Inl e)
     | Inr g \<Rightarrow> map_option (\<lambda>r. res_bind r (\<lambda>measured. Inr (inference_report measured, peak_rss_mib status)))
         (measure_runs lib (generator_limits g) clks elapsed args 0 (nat (inference_runs args))))"

section \<open>The recall of the approximate index\<close>

lemma count_relevant:
  assumes "mset grades = mset (relevance_of base)"
  shows "length (filter (\<lambda>g. 0 < g) (map (grade_of grades) hits)) = length (filter (\<lambda>h. hit_chunk_id h \<in> hit_chunk_id ` set base) hits)"
proof -
  have "mset (map fst grades) = mset (map fst (relevance_of base))" using assms by (metis mset_map)
  moreover have "distinct (map fst (relevance_of base))" by (simp add: relevance_of_def comp_def)
  ultimately have d: "distinct (map fst grades)" by (metis mset_eq_imp_distinct_iff)
  have s: "set grades = (\<lambda>i. (i, 1)) ` hit_chunk_id ` set base"
    using assms by (metis mset_eq_setD relevance_of_def set_map set_remdups)
  have "0 < grade_of grades h \<longleftrightarrow> hit_chunk_id h \<in> hit_chunk_id ` set base" for h
    unfolding grade_positive [OF d] s by (force intro: exI [of _ "1 :: 32 word"])
  then show ?thesis by (simp add: filter_map comp_def)
qed

text \<open>
  The benchmark's recall is that of the metric, for a baseline without repetitions and at most \<open>k\<close> candidates.
\<close>

lemma recall_is_metric:
  assumes "0 < k" and "length hits \<le> k" and "base \<noteq> []" and "distinct (map hit_chunk_id base)"
    and "mset grades = mset (relevance_of base)"
  shows "\<exists>m. evaluate_ranking exp2 log2 hits grades k = Inr m \<and> recall_at_k m = recall base hits"
proof -
  obtain found rr dcg where loop: "rank_loop exp2 log2 0 (map (grade_of grades) (take k hits)) (0, 0, 0) = (found, rr, dcg)"
    by (metis prod_cases3)
  have "found = length (filter (\<lambda>h. hit_chunk_id h \<in> hit_chunk_id ` set base) hits)"
    using rank_loop_found [of exp2 log2 0 "map (grade_of grades) (take k hits)" 0 0 0] loop assms(2)
      count_relevant [OF assms(5), of hits] by simp
  moreover have "length (relevant_grades grades) = length base"
  proof -
    have "filter (\<lambda>g. 0 < g) (map snd (relevance_of base)) = map snd (relevance_of base)"
      by (simp add: relevance_of_def filter_id_conv)
    then have "size (mset (relevant_grades (relevance_of base))) = length base"
      using assms(4) by (simp add: relevant_grades_def relevance_of_def distinct_remdups_id)
    moreover have "mset (relevant_grades grades) = mset (relevant_grades (relevance_of base))"
      using assms(5) by (simp add: relevant_grades_def mset_filter)
    ultimately show ?thesis by (metis size_mset)
  qed
  moreover from this have "sort_by (\<lambda>a b. b < a) (relevant_grades grades) \<noteq> []"
    using assms(3) by (metis length_0_conv length_sort_by)
  ultimately show ?thesis using assms(1,3) loop
    by (simp add: evaluate_ranking_def Let_def recall_def)
qed

lemma filled_indexes:
  assumes "library_ok lib stored cap"
  shows "fill_indexes lib i vs (b, h) = Inr (b', h') \<Longrightarrow> bf_valid b \<Longrightarrow> hnsw_ok stored cap h \<Longrightarrow>
    bf_valid b' \<and> hnsw_ok stored cap h' \<and> (vs \<noteq> [] \<or> bf_contents b \<noteq> Map.empty \<longrightarrow> bf_contents b' \<noteq> Map.empty)"
proof (induction vs arbitrary: i b h)
  case (Cons v vs)
  obtain r h1 where h1: "hnsw_upsert lib (of_nat i) v h = (r, h1)" by fastforce
  obtain b1 where s: "bf_upsert (of_nat i) v b = Inr b1" "hnsw_upsert lib (of_nat i) v h = (Inr (), h1)"
    "fill_indexes lib (i + 1) vs (b1, h1) = Inr (b', h')"
    using Cons.prems(1) h1 by (cases "bf_upsert (of_nat i) v b"; cases r) simp_all
  have "vector_ok (index_dimension b) v" using brute_force.upsert_bad [of b v "of_nat i"] Cons.prems(2) s(1) by fastforce
  from brute_force.upsert_ok [OF Cons.prems(2) this, of "of_nat i"] s(1)
  have b1: "bf_valid b1" "bf_contents b1 = (bf_contents b)(of_nat i \<mapsto> v)" by auto
  have "hnsw_ok stored cap h1" using hnsw_upsert_effect [OF assms Cons.prems(3) s(2)] by blast
  moreover have "bf_contents b1 \<noteq> Map.empty" unfolding b1(2) by (metis fun_upd_same option.distinct(1))
  ultimately show ?case using Cons.IH [OF s(3) b1(1)] by blast
qed simp

lemma bf_search_shape:
  assumes "bf_valid b" and "bf_search b q k = Inr hits"
  shows "distinct (map hit_chunk_id hits) \<and> length hits = min k (length (records b))"
proof (cases "k = 0")
  case False
  then obtain all where all: "score_records q (records b) = Inr all" "hits = take k (sort_by better all)"
    using assms(2) by (auto simp: bf_search_def res_simps split: if_splits)
  have ids: "map hit_chunk_id all = map record_id rs" if "score_records q rs = Inr all" for rs all
    using that by (induction rs arbitrary: all) (auto simp: res_simps)
  have "distinct (map record_id (records b))" using assms(1) positions_ok_distinct unfolding bf_valid_def by blast
  then have "distinct (map hit_chunk_id (sort_by better all))"
    using ids [OF all(1)] by (metis mset_eq_imp_distinct_iff mset_map mset_sort_by)
  then have "distinct (map hit_chunk_id hits)" by (simp add: all(2) take_map [symmetric])
  moreover have "length all = length (records b)" using ids [OF all(1)] by (metis length_map)
  ultimately show ?thesis by (simp add: all(2) length_sort_by)
qed (use assms(2) in \<open>simp add: bf_search_def\<close>)

lemma hnsw_search_length:
  assumes "library_ok lib stored cap" and "hnsw_ok stored cap h" and "hnsw_search lib h q k = Inr hits"
  shows "length hits \<le> k"
proof (cases "k = 0 \<or> active_ids h = {}")
  case False
  have act: "active_ids h = dom (stored (hnsw_graph h))" using assms(2) by (simp add: hnsw_ok_def)
  obtain rs where rs: "lib_search_knn lib (hnsw_graph h) q (min k (card (active_ids h))) = Inr rs" "length hits = length rs"
    using assms(3) False by (auto simp: hnsw_search_def res_simps split: if_splits)
  have "min k (card (active_ids h)) \<le> card (dom (stored (hnsw_graph h)))" by (simp add: act)
  from library_okD(6) [OF assms(1) this, of q] rs show ?thesis by auto
qed (use assms(3) in \<open>auto simp: hnsw_search_def split: if_splits\<close>)

lemma set_ef_search_ok:
  assumes "library_ok lib stored cap" and "hnsw_ok stored cap h" and "set_ef_search lib ef h = Inr h'"
  shows "hnsw_ok stored cap h'"
proof -
  have "h' = h\<lparr>hnsw_options := (hnsw_options h)\<lparr>ef_search := ef\<rparr>, hnsw_graph := lib_set_ef lib ef (hnsw_graph h)\<rparr>"
    using assms(3) by (auto simp: set_ef_search_def split: if_splits)
  then show ?thesis using assms(2) library_okD(2,3) [OF assms(1)] by (simp add: hnsw_ok_def)
qed

lemma retrieval_indexes_ok:
  assumes "library_ok lib stored cap" and "retrieval_indexes lib vectors = Inr (b, h)"
  shows "bf_valid b \<and> hnsw_ok stored cap h \<and> records b \<noteq> []"
proof -
  obtain b0 h0 where i: "make_index 64 = Inr b0"
    "make_hnsw lib 64 \<lparr>max_elements = length vectors, hnsw_m = 16, ef_construction = 200, ef_search = 256\<rparr> = Inr h0"
    "fill_indexes lib 0 vectors (b0, h0) = Inr (b, h)"
    using assms(2) by (auto simp: retrieval_indexes_def res_simps)
  have ne: "vectors \<noteq> []" using i(2) by (auto simp: make_hnsw_def validate_hnsw_options_def)
  have "bf_valid b0" "hnsw_ok stored cap h0" using make_index_valid [OF i(1)] make_hnsw_ok [OF assms(1) i(2)] by simp_all
  from filled_indexes [OF assms(1) i(3) this] ne show ?thesis by (auto simp: bf_contents_def)
qed

lemma benchmark_recall:
  assumes "library_ok lib stored cap" and "retrieval_indexes lib vectors = Inr (b, h)" and "set_ef_search lib ef h = Inr h'"
    and "bf_search b q 10 = Inr base" and "hnsw_search lib h' q 10 = Inr hits" and "mset grades = mset (relevance_of base)"
  shows "base \<noteq> [] \<and> (\<exists>m. evaluate_ranking exp2 log2 hits grades 10 = Inr m \<and> recall_at_k m = recall base hits)"
proof -
  note ok = retrieval_indexes_ok [OF assms(1,2)]
  have shape: "distinct (map hit_chunk_id base)" "length base = min 10 (length (records b))"
    using bf_search_shape [OF _ assms(4)] ok by blast+
  then have base: "distinct (map hit_chunk_id base)" "base \<noteq> []" using ok by (cases "records b"; auto)+
  have "hnsw_ok stored cap h'" using set_ef_search_ok [OF assms(1) _ assms(3)] ok by blast
  then have "length hits \<le> 10" by (rule hnsw_search_length [OF assms(1) _ assms(5)])
  from recall_is_metric [OF _ this base(2,1) assms(6), of exp2 log2] base(2) show ?thesis by simp
qed

section \<open>The copy of the percentile\<close>

text \<open>For a sample the copy computes what the checked function computes; without a run it reads past the end.\<close>

lemma unchecked_percentile_agrees:
  assumes "sample \<noteq> []" and "length sample \<le> size_max" and "percentile sample q = Inr x"
  shows "unchecked_percentile sample q = Some x"
proof -
  have "sz_sub (length sample) 1 = length sample - 1" using assms(1,2) by (cases sample) (simp_all add: sz_sub_def)
  then show ?thesis using assms(1,3)
    by (auto simp: unchecked_percentile_def percentile_def percentile_position_def Let_def split: if_splits)
qed

section \<open>The runs of a generation benchmark\<close>

lemma measured_runs:
  assumes "0 < config_batch_size limits"
  shows "\<exists>r. measure_runs lib limits clks elapsed args i n = Some r \<and> (\<forall>measured. r = Inr measured \<longrightarrow> length measured = n)"
proof (induction n arbitrary: i)
  case (Suc n)
  obtain calls outcome where "llama_generate lib limits (clks i) (inference_prompt args) (inference_generation args)
      (Some (\<lambda>token. None)) (\<lambda>poll. False) = Some (calls, outcome)"
    using llama_generate_returns [OF assms] by (metis surj_pair)
  moreover obtain r where "measure_runs lib limits clks elapsed args (i + 1) n = Some r"
    "\<forall>measured. r = Inr measured \<longrightarrow> length measured = n" using Suc by blast
  ultimately show ?case by (cases outcome; cases r) (auto simp: res_simps)
qed simp

lemma unchecked_percentile_Some:
  assumes "sample \<noteq> []" and "length sample \<le> 2 ^ 53" and "quantile_ok q"
  shows "\<exists>x \<in> set sample. unchecked_percentile sample q = Some x"
proof -
  let ?s = "sort_by f64_less sample" and ?i = "percentile_position (length sample) q"
  from percentile_result [OF assms] have r: "percentile sample q = Inr (?s ! ?i)" "?i < length ?s" by simp_all
  have "length sample \<le> size_max" using assms(2) by simp
  from unchecked_percentile_agrees [OF assms(1) this r(1)] nth_mem [OF r(2)] show ?thesis by auto
qed

lemma printed_quantiles: "quantile_ok 0x3FE0000000000000" "quantile_ok 0x3FEE666666666666"
  by (simp_all add: quantile_ok_def f64_isfinite_def f64_less_def fp_less_def fp_isnan_def fp_isfinite_def
    fp_mag_def fp_key_def fp_neg_def binary64_def)

text \<open>
  With a positive batch size the benchmark returns, and its percentiles are never read past the end, because the
  command line accepts a positive number of runs only.
\<close>

lemma inference_benchmark_returns:
  assumes "0 < inference_batch_size args" and "0 < inference_runs args" and "inference_runs args < 2 ^ 31"
  shows "\<exists>r. inference_benchmark is_file load lib clks elapsed status args = Some r \<and>
    (\<forall>report peak. r = Inr (report, peak) \<longrightarrow> length report = 6 \<and> None \<notin> set report)"
proof (cases "make_generator is_file load (inference_model_config args)")
  case (Inr g)
  let ?n = "nat (inference_runs args)"
  have "0 < config_batch_size (generator_limits g)"
    using Inr assms(1) by (auto simp: make_generator_def inference_model_config_def Let_def res_simps split: if_splits option.splits)
  from measured_runs [OF this] obtain r where r: "measure_runs lib (generator_limits g) clks elapsed args 0 ?n = Some r"
    "\<forall>measured. r = Inr measured \<longrightarrow> length measured = ?n" by blast
  have "length (inference_report measured) = 6 \<and> None \<notin> set (inference_report measured)" if "r = Inr measured" for measured
  proof -
    have "measured \<noteq> []" "length measured \<le> 2 ^ 53" using r(2) that assms(2,3) by auto
    then have "unchecked_percentile (map f measured) q \<noteq> None" if "quantile_ok q" for f q
      using unchecked_percentile_Some [of "map f measured" q] that by auto
    from this [OF printed_quantiles(1)] this [OF printed_quantiles(2)] show ?thesis
      by (simp add: inference_report_def comp_def eq_commute [of None])
  qed
  with Inr r(1) show ?thesis by (cases r) (auto simp: inference_benchmark_def res_simps)
qed (simp add: inference_benchmark_def)

section \<open>The peak of the memory\<close>

text \<open>
  The status file begins with the name of the program. It is no number, the extraction fails, and the result is zero
  whatever the rest of the file says.
\<close>

lemma peak_rss_is_zero:
  assumes "\<not> is_space c" and "\<not> is_digit c" and "c \<noteq> CHR ''-''" and "c \<noteq> CHR ''+''"
  shows "peak_rss_mib (''Name:'' @ [CHR 0x09] @ c # rest) = 0"
proof -
  have "extract_word (''Name:'' @ [CHR 0x09] @ c # rest) = Some (''Name:'', [CHR 0x09] @ c # rest)"
    by (simp add: extract_word_def is_space_def)
  moreover have "extract_size ([CHR 0x09] @ c # rest) = None"
    using assms by (simp add: extract_size_def Let_def) (simp add: is_space_def)
  ultimately show ?thesis by (simp add: peak_rss_mib.simps)
qed

section \<open>Properties\<close>

text \<open>
  The recall the retrieval benchmark reports for a query is the recall of the metric for the exact hits as the
  relevant ones: the two computations of the program agree, bit for bit, whichever approximate index is measured. The
  division is never by zero, because a benchmark without records ends before.
\<close>

lemma benchmark_recall_is_the_metric:
  assumes "library_ok lib stored cap" and "retrieval_indexes lib vectors = Inr (b, h)" and "set_ef_search lib ef h = Inr h'"
    and "bf_search b q 10 = Inr base" and "hnsw_search lib h' q 10 = Inr hits" and "mset grades = mset (relevance_of base)"
  shows "base \<noteq> [] \<and> (\<exists>m. evaluate_ranking exp2 log2 hits grades 10 = Inr m \<and> recall_at_k m = recall base hits)"
  by (rule benchmark_recall [OF assms])

lemma sample_retrieval_indexes:
  "\<exists>b h h' base hits. retrieval_indexes list_library [replicate 64 0] = Inr (b, h) \<and> set_ef_search list_library 64 h = Inr h' \<and>
     bf_search b (replicate 64 0) 10 = Inr base \<and> hnsw_search list_library h' (replicate 64 0) 10 = Inr hits"
proof -
  have "f32_isfinite 0" using sample_vector(1) by (simp add: vector_ok_def is_finite_embedding_def)
  then have finite: "is_finite_embedding (replicate 64 0)" by (simp add: is_finite_embedding_def list_all_iff)
  define b where "b = \<lparr>index_dimension = 64, records = [\<lparr>record_id = 0, record_values = replicate 64 (0 :: float32)\<rparr>],
    positions = [0 \<mapsto> 0]\<rparr>"
  obtain h where h: "retrieval_indexes list_library [replicate 64 0] = Inr (b, h)" "hnsw_dimension h = 64"
    by (simp add: retrieval_indexes_def make_index_def make_hnsw_def validate_hnsw_options_def bf_upsert_def hnsw_upsert_def
      finite list_library_def b_def)
  obtain h' where h': "set_ef_search list_library 64 h = Inr h'" "hnsw_dimension h' = 64"
    using h(2) by (simp add: set_ef_search_def)
  have "\<exists>base. bf_search b (replicate 64 0) 10 = Inr base"
    using score_records_eq [OF _ finite, of "records b"] finite by (simp add: bf_search_def b_def vector_ok_def)
  moreover have "\<exists>hits. hnsw_search list_library h' (replicate 64 0) 10 = Inr hits"
    using h'(2) finite by (cases "hnsw_graph h'") (simp add: hnsw_search_def list_library_def)
  ultimately show ?thesis using h(1) h'(1) by blast
qed

lemma benchmark_recall_is_the_metric_example:
  "\<exists>b h base hits m. retrieval_indexes list_library [replicate 64 0] = Inr (b, h) \<and> bf_search b (replicate 64 0) 10 = Inr base \<and>
     base \<noteq> [] \<and> evaluate_ranking id id hits (relevance_of base) 10 = Inr m \<and> recall_at_k m = recall base hits"
proof -
  obtain b h h' base hits where s: "retrieval_indexes list_library [replicate 64 0] = Inr (b, h)"
    "set_ef_search list_library 64 h = Inr h'" "bf_search b (replicate 64 0) 10 = Inr base"
    "hnsw_search list_library h' (replicate 64 0) 10 = Inr hits" using sample_retrieval_indexes by blast
  from benchmark_recall_is_the_metric [OF list_library_ok s refl, of id id] s(1,3) show ?thesis by blast
qed

end
