(* ===== verification/Interrupts.thy ===== *)
theory Interrupts
  imports Prelude
begin

text \<open>
  The interruption of \<^verbatim>\<open>apps/cli/main.cpp\<close>: a signal handler sets a flag, and a bridge thread that polls it requests the stop of
  the generation. Main, the bridge and the signals interleave; a step reads or writes shared state once. \<^verbatim>\<open>sleep_for\<close> is a
  step that changes nothing. Leaving the block, by its end or by an exception, stops and joins the bridge.
\<close>

section \<open>The steps\<close>

datatype main_place = Installing | Clearing | Starting | Working | Joining | Left

datatype bridge_place = Unstarted | Polling | Woken | Returned

record interrupt_state =
  main_at :: main_place
  bridge_at :: bridge_place
  interrupted :: bool
  bridge_stop :: bool
  generation_stop :: bool

datatype actor = Signal | Main | Bridge

definition handle_interrupt :: "interrupt_state \<Rightarrow> interrupt_state" where
  "handle_interrupt s = s\<lparr>interrupted := True\<rparr>"

text \<open>Before the handler is installed an interrupt ends the process and is no step.\<close>

inductive interrupt_step :: "actor \<Rightarrow> interrupt_state \<Rightarrow> interrupt_state \<Rightarrow> bool" where
  signal: "main_at s \<noteq> Installing \<Longrightarrow> interrupt_step Signal s (handle_interrupt s)"
| install: "main_at s = Installing \<Longrightarrow> interrupt_step Main s (s\<lparr>main_at := Clearing\<rparr>)"
| clear: "main_at s = Clearing \<Longrightarrow> interrupt_step Main s (s\<lparr>main_at := Starting, interrupted := False\<rparr>)"
| start: "main_at s = Starting \<Longrightarrow> interrupt_step Main s (s\<lparr>main_at := Working, bridge_at := Polling\<rparr>)"
| finish: "main_at s = Working \<Longrightarrow> interrupt_step Main s (s\<lparr>main_at := Joining, bridge_stop := True\<rparr>)"
| join: "main_at s = Joining \<Longrightarrow> bridge_at s = Returned \<Longrightarrow> interrupt_step Main s (s\<lparr>main_at := Left\<rparr>)"
| sleep: "bridge_at s = Polling \<Longrightarrow> \<not> bridge_stop s \<Longrightarrow> \<not> interrupted s \<Longrightarrow> interrupt_step Bridge s s"
| wake: "bridge_at s = Polling \<Longrightarrow> bridge_stop s \<or> interrupted s \<Longrightarrow> interrupt_step Bridge s (s\<lparr>bridge_at := Woken\<rparr>)"
| forward: "bridge_at s = Woken \<Longrightarrow> interrupted s \<Longrightarrow>
    interrupt_step Bridge s (s\<lparr>bridge_at := Returned, generation_stop := True\<rparr>)"
| quiet: "bridge_at s = Woken \<Longrightarrow> \<not> interrupted s \<Longrightarrow> interrupt_step Bridge s (s\<lparr>bridge_at := Returned\<rparr>)"

inductive_cases signal_stepE: "interrupt_step Signal s t"
inductive_cases main_stepE: "interrupt_step Main s t"
inductive_cases bridge_stepE: "interrupt_step Bridge s t"

code_pred (modes: i \<Rightarrow> i \<Rightarrow> o \<Rightarrow> bool as next_state) interrupt_step .

text \<open>Any order of steps, with who made them.\<close>

inductive interrupt_run :: "interrupt_state \<Rightarrow> actor list \<Rightarrow> interrupt_state \<Rightarrow> bool" where
  none: "interrupt_run s [] s"
| one: "interrupt_step a s t \<Longrightarrow> interrupt_run t as u \<Longrightarrow> interrupt_run s (a # as) u"

definition before_interrupts :: interrupt_state where
  "before_interrupts = \<lparr>main_at = Installing, bridge_at = Unstarted, interrupted = False, bridge_stop = False, generation_stop = False\<rparr>"

section \<open>Invariants\<close>

text \<open>
  The bridge exists from its start on; it returns only when it was woken, and a stop of the generation was asked for by an
  interrupt.
\<close>

fun places_ok :: "main_place \<Rightarrow> bridge_place \<Rightarrow> bool \<Rightarrow> bool \<Rightarrow> bool \<Rightarrow> bool" where
  "places_ok Working Unstarted flag stop gen = False"
| "places_ok Working Polling flag stop gen = (\<not> stop \<and> \<not> gen)"
| "places_ok Working Woken flag stop gen = (\<not> stop \<and> flag \<and> \<not> gen)"
| "places_ok Working Returned flag stop gen = (\<not> stop \<and> flag \<and> gen)"
| "places_ok Joining Unstarted flag stop gen = False"
| "places_ok Joining Polling flag stop gen = (stop \<and> \<not> gen)"
| "places_ok Joining Woken flag stop gen = (stop \<and> \<not> gen)"
| "places_ok Joining Returned flag stop gen = (stop \<and> (gen \<longrightarrow> flag))"
| "places_ok Left bridge flag stop gen = (bridge = Returned \<and> stop \<and> (gen \<longrightarrow> flag))"
| "places_ok main bridge flag stop gen = (bridge = Unstarted \<and> \<not> stop \<and> \<not> gen)"

definition interrupt_inv :: "interrupt_state \<Rightarrow> bool" where
  "interrupt_inv s = places_ok (main_at s) (bridge_at s) (interrupted s) (bridge_stop s) (generation_stop s)"

lemma interrupt_step_inv: "interrupt_step a s t \<Longrightarrow> interrupt_inv s \<Longrightarrow> interrupt_inv t"
  by (erule interrupt_step.cases; cases "main_at s"; cases "bridge_at s") (simp_all add: interrupt_inv_def handle_interrupt_def)

lemma interrupt_run_inv: "interrupt_run s as t \<Longrightarrow> interrupt_inv s \<Longrightarrow> interrupt_inv t"
  by (induction rule: interrupt_run.induct) (auto intro: interrupt_step_inv)

lemma initially_inv: "interrupt_inv before_interrupts"
  by (simp add: interrupt_inv_def before_interrupts_def)

lemma stop_by_interrupt: "interrupt_inv s \<Longrightarrow> generation_stop s \<Longrightarrow> interrupted s"
  by (cases "main_at s"; cases "bridge_at s") (simp_all add: interrupt_inv_def)

text \<open>The bridge has something to do, and has not yet returned without doing it.\<close>

definition bridge_called :: "interrupt_state \<Rightarrow> bool" where
  "bridge_called s \<longleftrightarrow> bridge_at s \<noteq> Unstarted \<and> (interrupted s \<or> bridge_stop s)"

definition interrupt_pending :: "interrupt_state \<Rightarrow> bool" where
  "interrupt_pending s \<longleftrightarrow> interrupted s \<and> (bridge_at s = Returned \<longrightarrow> generation_stop s)"

text \<open>The steps the bridge still makes once it is called.\<close>

fun bridge_left :: "bridge_place \<Rightarrow> nat" where
  "bridge_left Unstarted = 3"
| "bridge_left Polling = 2"
| "bridge_left Woken = 1"
| "bridge_left Returned = 0"

lemma bridge_progress:
  assumes "interrupt_step a s t" and "interrupt_inv s" and "bridge_called s"
  shows "bridge_called t \<and> bridge_left (bridge_at s) = bridge_left (bridge_at t) + (if a = Bridge then 1 else 0) \<and>
    (interrupt_pending s \<longrightarrow> interrupt_pending t)"
  using assms by (cases rule: interrupt_step.cases; cases "main_at s")
    (simp_all add: interrupt_inv_def handle_interrupt_def bridge_called_def interrupt_pending_def)

lemma bridge_run_progress:
  assumes "interrupt_run s as t" and "interrupt_inv s" and "bridge_called s"
  shows "bridge_left (bridge_at s) = bridge_left (bridge_at t) + length (filter ((=) Bridge) as) \<and>
    (interrupt_pending s \<longrightarrow> interrupt_pending t)"
  using assms
proof (induction rule: interrupt_run.induct)
  case (one a s t as u)
  from one.IH [OF interrupt_step_inv [OF one.hyps(1) one.prems(1)]] bridge_progress [OF one.hyps(1) one.prems]
  show ?case by auto
qed simp

text \<open>Somebody can always make a step until main has left: the join cannot block for ever.\<close>

lemma never_blocked:
  assumes "interrupt_inv s" and "main_at s \<noteq> Left"
  shows "\<exists>a t. a \<noteq> Signal \<and> interrupt_step a s t"
proof (cases "main_at s = Joining \<and> bridge_at s \<noteq> Returned")
  case True
  then have "bridge_stop s" "bridge_at s = Polling \<or> bridge_at s = Woken"
    using assms(1) by (cases "bridge_at s"; simp add: interrupt_inv_def)+
  then show ?thesis using wake [of s] forward [of s] quiet [of s] by (cases "interrupted s") blast+
next
  case False
  then show ?thesis using assms(2) install [of s] clear [of s] start [of s] finish [of s] join [of s]
    by (cases "main_at s") blast+
qed

text \<open>
  Between the installation of the handler and the clearing of the flag an interrupt is lost: the generation then runs
  as if there had been none.
\<close>

lemma early_interrupt_is_lost:
  "\<exists>t. interrupt_run before_interrupts [Main, Signal, Main, Main, Bridge] t \<and> main_at t = Working \<and>
     \<not> interrupted t \<and> \<not> generation_stop t \<and> bridge_at t = Polling"
proof -
  let ?a = "before_interrupts\<lparr>main_at := Clearing\<rparr>"
  let ?c = "(handle_interrupt ?a)\<lparr>main_at := Starting, interrupted := False\<rparr>"
  let ?d = "?c\<lparr>main_at := Working, bridge_at := Polling\<rparr>"
  have "interrupt_step Main before_interrupts ?a" by (rule install) (simp add: before_interrupts_def)
  moreover have "interrupt_step Signal ?a (handle_interrupt ?a)" by (rule signal) simp
  moreover have "interrupt_step Main (handle_interrupt ?a) ?c" by (rule clear) (simp add: handle_interrupt_def)
  moreover have "interrupt_step Main ?c ?d" by (rule start) simp
  moreover have "interrupt_step Bridge ?d ?d" by (rule sleep) (simp_all add: before_interrupts_def handle_interrupt_def)
  ultimately have "interrupt_run before_interrupts [Main, Signal, Main, Main, Bridge] ?d"
    by (blast intro: interrupt_run.intros)
  then show ?thesis by (rule exI [of _ ?d, OF conjI]) (simp add: before_interrupts_def handle_interrupt_def)
qed

section \<open>Properties\<close>

text \<open>
  C39. In every interleaving of main, the bridge and the signals, a stop is requested of the generation only after an
  interrupt; once the flag is set while the bridge has not returned, or once main stops the bridge, the bridge makes at most two
  more steps, and after two it has returned, with the generation stopped if there was an interrupt; and main is never
  blocked for ever in the join: until it has left, main or the bridge can make a step.
\<close>

theorem interrupt_reaches_generation:
  assumes "interrupt_run before_interrupts earlier s" and "bridge_at s \<in> {Polling, Woken}"
    and "interrupted s \<or> bridge_stop s" and "interrupt_run s later t"
  shows "(generation_stop t \<longrightarrow> interrupted t) \<and> length (filter ((=) Bridge) later) \<le> 2 \<and>
    (length (filter ((=) Bridge) later) = 2 \<longrightarrow> bridge_at t = Returned \<and> (interrupted s \<longrightarrow> generation_stop t)) \<and>
    (main_at t \<noteq> Left \<longrightarrow> (\<exists>a u. a \<noteq> Signal \<and> interrupt_step a t u))"
proof -
  note inv = interrupt_run_inv [OF assms(1) initially_inv]
  note inv_t = interrupt_run_inv [OF assms(4) inv]
  have called: "bridge_called s" and left: "bridge_left (bridge_at s) \<le> 2" and pending: "interrupted s \<longrightarrow> interrupt_pending s"
    using assms(2,3) by (auto simp: bridge_called_def interrupt_pending_def)
  note progress = bridge_run_progress [OF assms(4) inv called]
  have "bridge_at t = Returned" if "length (filter ((=) Bridge) later) = 2"
    using that left progress by (cases "bridge_at t") simp_all
  with progress pending have "length (filter ((=) Bridge) later) = 2 \<longrightarrow> bridge_at t = Returned \<and> (interrupted s \<longrightarrow> generation_stop t)"
    by (simp add: interrupt_pending_def)
  then show ?thesis using left progress stop_by_interrupt [OF inv_t] never_blocked [OF inv_t] by simp
qed

theorem interrupt_reaches_generation_witness:
  "\<exists>s t. interrupt_run before_interrupts [Main, Main, Main, Signal] s \<and> interrupt_run s [Bridge, Main, Bridge] t \<and>
    generation_stop t \<and> bridge_at t = Returned"
proof -
  let ?at = "\<lambda>m b i st g. \<lparr>main_at = m, bridge_at = b, interrupted = i, bridge_stop = st, generation_stop = g\<rparr>"
  have "interrupt_step Main before_interrupts (?at Clearing Unstarted False False False)"
    using install [of before_interrupts] by (simp add: before_interrupts_def)
  moreover have "interrupt_step Main (?at Clearing Unstarted False False False) (?at Starting Unstarted False False False)"
    using clear [of "?at Clearing Unstarted False False False"] by simp
  moreover have "interrupt_step Main (?at Starting Unstarted False False False) (?at Working Polling False False False)"
    using start [of "?at Starting Unstarted False False False"] by simp
  moreover have "interrupt_step Signal (?at Working Polling False False False) (?at Working Polling True False False)"
    using signal [of "?at Working Polling False False False"] by (simp add: handle_interrupt_def)
  ultimately have s: "interrupt_run before_interrupts [Main, Main, Main, Signal] (?at Working Polling True False False)"
    by (blast intro: interrupt_run.intros)
  have "interrupt_step Bridge (?at Working Polling True False False) (?at Working Woken True False False)"
    using wake [of "?at Working Polling True False False"] by simp
  moreover have "interrupt_step Main (?at Working Woken True False False) (?at Joining Woken True True False)"
    using finish [of "?at Working Woken True False False"] by simp
  moreover have "interrupt_step Bridge (?at Joining Woken True True False) (?at Joining Returned True True True)"
    using forward [of "?at Joining Woken True True False"] by simp
  ultimately have t: "interrupt_run (?at Working Polling True False False) [Bridge, Main, Bridge] (?at Joining Returned True True True)"
    by (blast intro: interrupt_run.intros)
  from interrupt_reaches_generation [OF s _ _ t] s t show ?thesis by (intro exI conjI) (assumption | simp)+
qed

end
