(* ===== verification/Symbol_Visitor.thy ===== *)
theory Symbol_Visitor
  imports Symbol_Repository
begin

text \<open>
  \<^verbatim>\<open>src/adapters/clang/symbol_visitor.cpp\<close> and \<^verbatim>\<open>source_extractor.cpp\<close>: symbols, semantic chunks and references collected
  from the syntax trees of a source file. Clang is outside the repository: a translation unit is the tree
  \<^verbatim>\<open>RecursiveASTVisitor\<close> walks, with the answers of Clang's queries stored at each declaration; canonical declarations
  are numbers. \<open>canonical\<close> is \<^verbatim>\<open>weakly_canonical\<close>, \<open>None\<close> where it fails.
\<close>

section \<open>Declarations and trees\<close>

text \<open>
  A declaration: its canonical declaration, the predicates the visitor asks for, its qualified and its short
  name, the file and lines its range is spelled at, and the text of the range.
\<close>

record source_decl =
  decl_canonical :: nat
  decl_implicit :: bool
  decl_in_main_file :: bool
  decl_is_definition :: bool
  decl_qualified_name :: string
  decl_short_name :: string
  decl_file :: path
  decl_begin_line :: "32 word"
  decl_end_line :: "32 word"
  decl_text :: string

text \<open>The classes of functions Clang distinguishes.\<close>

datatype function_class = Plain_function | Method | Constructor | Destructor | Conversion | Deduction_guide

text \<open>
  Functions with the class, the type as a string and the overridden methods, records with \<^verbatim>\<open>isClass()\<close> and the
  declarations of their bases where these are records, enumerations, calls with their direct callee.
\<close>

datatype ast =
    Function_node function_class source_decl string "nat list" "ast list"
  | Record_node bool source_decl "nat option list" "ast list"
  | Enum_node source_decl "ast list"
  | Call_node "nat option" "ast list"
  | Other_node "ast list"

section \<open>Source ranges\<close>

text \<open>\<^verbatim>\<open>std::filesystem::relative\<close>; an error gives the empty path.\<close>

definition relative_path_to :: "(path \<Rightarrow> path option) \<Rightarrow> path \<Rightarrow> path \<Rightarrow> path" where
  "relative_path_to canonical p base = (case (canonical p, canonical base) of
     (Some p', Some base') \<Rightarrow> lexically_relative p' base'
   | _ \<Rightarrow> [])"

definition relative_or_absolute :: "(path \<Rightarrow> path option) \<Rightarrow> path \<Rightarrow> path \<Rightarrow> path" where
  "relative_or_absolute canonical p root = (let relative = relative_path_to canonical p root in
     if relative = [] \<or> starts_with relative ''..'' then p else relative)"

definition extract_source_range :: "(path \<Rightarrow> path option) \<Rightarrow> path \<Rightarrow> source_decl \<Rightarrow> SourceRange" where
  "extract_source_range canonical root d = \<lparr>range_path = relative_or_absolute canonical (decl_file d) root,
     range_start_line = decl_begin_line d, range_end_line = decl_end_line d\<rparr>"

section \<open>The visitor\<close>

record pending_edge =
  pending_from :: nat
  pending_to :: nat
  pending_relation :: string

record visitor =
  indices :: "nat \<rightharpoonup> nat"
  current_functions :: "nat list"
  pending_edges :: "pending_edge list"
  visitor_symbols :: "Symbol list"
  visitor_edges :: "SymbolEdge list"
  semantic_chunks :: "Chunk list"

definition new_visitor :: visitor where
  "new_visitor = \<lparr>indices = Map.empty, current_functions = [], pending_edges = [], visitor_symbols = [],
     visitor_edges = [], semantic_chunks = []\<rparr>"

definition kind_of :: "function_class \<Rightarrow> SymbolKind" where
  "kind_of c = (case c of Constructor \<Rightarrow> Kind_constructor | Destructor \<Rightarrow> Kind_destructor
     | Method \<Rightarrow> Kind_method | Conversion \<Rightarrow> Kind_method | _ \<Rightarrow> Kind_function)"

text \<open>\<^verbatim>\<open>static_cast<int>(kind)\<close>: the position in the enumeration.\<close>

definition kind_number :: "SymbolKind \<Rightarrow> nat" where
  "kind_number k = (case k of Kind_namespace \<Rightarrow> 0 | Kind_class \<Rightarrow> 1 | Kind_struct \<Rightarrow> 2 | Kind_function \<Rightarrow> 3
     | Kind_method \<Rightarrow> 4 | Kind_constructor \<Rightarrow> 5 | Kind_destructor \<Rightarrow> 6 | Kind_enum \<Rightarrow> 7 | Kind_variable \<Rightarrow> 8)"

text \<open>The hashed text and the symbol of a first declaration.\<close>

definition symbol_key :: "SymbolKind \<Rightarrow> string \<Rightarrow> SourceRange \<Rightarrow> string" where
  "symbol_key kind name r = string_of_nat (kind_number kind) @ ''|'' @ name @ ''|'' @ range_path r @ ''|'' @
     string_of_nat (unat (range_start_line r))"

definition first_symbol :: "(path \<Rightarrow> path option) \<Rightarrow> path \<Rightarrow> source_decl \<Rightarrow> SymbolKind \<Rightarrow> string \<Rightarrow> Symbol" where
  "first_symbol canonical root d kind signature = (let r = extract_source_range canonical root d in
     \<lparr>symbol_id = stable_hash64 (symbol_key kind (decl_qualified_name d) r), symbol_kind = kind,
      symbol_name = decl_qualified_name d, symbol_signature = signature, symbol_declaration = r,
      symbol_definition = (if decl_is_definition d then Some r else None)\<rparr>)"

definition add_symbol :: "(path \<Rightarrow> path option) \<Rightarrow> path \<Rightarrow> source_decl \<Rightarrow> SymbolKind \<Rightarrow> string \<Rightarrow> visitor \<Rightarrow>
    nat \<times> visitor" where
  "add_symbol canonical root d kind signature v = (case indices v (decl_canonical d) of
     Some i \<Rightarrow> (i, if decl_is_definition d
       then v\<lparr>visitor_symbols := (visitor_symbols v)[i := (visitor_symbols v ! i)
         \<lparr>symbol_definition := Some (extract_source_range canonical root d)\<rparr>]\<rparr>
       else v)
   | None \<Rightarrow> (length (visitor_symbols v),
       v\<lparr>indices := (indices v)(decl_canonical d \<mapsto> length (visitor_symbols v)),
         visitor_symbols := visitor_symbols v @ [first_symbol canonical root d kind signature]\<rparr>))"

definition add_semantic_chunk :: "source_decl \<Rightarrow> nat \<Rightarrow> visitor \<Rightarrow> visitor" where
  "add_semantic_chunk d i v = (if decl_text d = [] then v else
     let s = visitor_symbols v ! i;
       content = ''Symbol: '' @ symbol_name s @ [CHR 0x0A] @ ''Signature: '' @ symbol_signature s @
         [CHR 0x0A, CHR 0x0A] @ decl_text d
     in v\<lparr>semantic_chunks := semantic_chunks v @ [\<lparr>chunk_id = symbol_id s,
       chunk_source = case_option (symbol_declaration s) id (symbol_definition s), chunk_language = ''cpp'',
       chunk_content = content, chunk_content_hash = stable_hash_hex content,
       chunk_chunker_version = ''clang-ast-v1''\<rparr>]\<rparr>)"

definition add_pending :: "nat \<Rightarrow> string \<Rightarrow> nat list \<Rightarrow> visitor \<Rightarrow> visitor" where
  "add_pending source relation targets v = v\<lparr>pending_edges := pending_edges v @
     map (\<lambda>t. \<lparr>pending_from = source, pending_to = t, pending_relation = relation\<rparr>) targets\<rparr>"

text \<open>Only methods override; conversions are methods.\<close>

definition visit_function :: "(path \<Rightarrow> path option) \<Rightarrow> path \<Rightarrow> function_class \<Rightarrow> source_decl \<Rightarrow> string \<Rightarrow> nat list \<Rightarrow>
    visitor \<Rightarrow> visitor" where
  "visit_function canonical root c d type overridden v = (
     if decl_implicit d \<or> \<not> decl_in_main_file d then v
     else let (i, v1) = add_symbol canonical root d (kind_of c) type v;
       v2 = (if decl_is_definition d then add_semantic_chunk d i v1 else v1)
     in if c = Plain_function \<or> c = Deduction_guide then v2
        else add_pending (decl_canonical d) ''overrides'' overridden v2)"

definition visit_record :: "(path \<Rightarrow> path option) \<Rightarrow> path \<Rightarrow> bool \<Rightarrow> source_decl \<Rightarrow> nat option list \<Rightarrow>
    visitor \<Rightarrow> visitor" where
  "visit_record canonical root is_class d bases v = (
     if decl_implicit d \<or> \<not> decl_is_definition d \<or> \<not> decl_in_main_file d then v
     else let (i, v1) = add_symbol canonical root d (if is_class then Kind_class else Kind_struct) (decl_short_name d) v
     in add_pending (decl_canonical d) ''inherits'' (map the (filter (\<lambda>b. b \<noteq> None) bases))
       (add_semantic_chunk d i v1))"

definition visit_enum :: "(path \<Rightarrow> path option) \<Rightarrow> path \<Rightarrow> source_decl \<Rightarrow> visitor \<Rightarrow> visitor" where
  "visit_enum canonical root d v = (if decl_implicit d \<or> \<not> decl_in_main_file d then v
     else snd (add_symbol canonical root d Kind_enum (decl_short_name d) v))"

text \<open>\<^verbatim>\<open>current_functions_.back()\<close> is the last element.\<close>

definition visit_call :: "nat option \<Rightarrow> visitor \<Rightarrow> visitor" where
  "visit_call callee v = (if current_functions v = [] then v else case callee of
     None \<Rightarrow> v
   | Some f \<Rightarrow> add_pending (last (current_functions v)) ''calls'' [f] v)"

text \<open>
  \<^verbatim>\<open>FunctionScope\<close>, opened by the four overridden traversals; those of conversions and deduction guides are not
  overridden.
\<close>

definition has_scope :: "function_class \<Rightarrow> source_decl \<Rightarrow> bool" where
  "has_scope c d = (c \<notin> {Conversion, Deduction_guide} \<and> decl_in_main_file d)"

definition open_scope :: "function_class \<Rightarrow> source_decl \<Rightarrow> visitor \<Rightarrow> visitor" where
  "open_scope c d v = (if has_scope c d
     then v\<lparr>current_functions := current_functions v @ [decl_canonical d]\<rparr> else v)"

definition close_scope :: "function_class \<Rightarrow> source_decl \<Rightarrow> visitor \<Rightarrow> visitor" where
  "close_scope c d v = (if has_scope c d then v\<lparr>current_functions := butlast (current_functions v)\<rparr> else v)"

text \<open>The traversal visits a node before its children.\<close>

fun traverse :: "(path \<Rightarrow> path option) \<Rightarrow> path \<Rightarrow> ast \<Rightarrow> visitor \<Rightarrow> visitor"
  and traverse_all :: "(path \<Rightarrow> path option) \<Rightarrow> path \<Rightarrow> ast list \<Rightarrow> visitor \<Rightarrow> visitor" where
  "traverse canonical root (Function_node c d type overridden children) v =
     close_scope c d (traverse_all canonical root children
       (visit_function canonical root c d type overridden (open_scope c d v)))"
| "traverse canonical root (Record_node is_class d bases children) v =
     traverse_all canonical root children (visit_record canonical root is_class d bases v)"
| "traverse canonical root (Enum_node d children) v =
     traverse_all canonical root children (visit_enum canonical root d v)"
| "traverse canonical root (Call_node callee children) v =
     traverse_all canonical root children (visit_call callee v)"
| "traverse canonical root (Other_node children) v = traverse_all canonical root children v"
| "traverse_all canonical root [] v = v"
| "traverse_all canonical root (t # ts) v = traverse_all canonical root ts (traverse canonical root t v)"

section \<open>Resolving the references\<close>

definition edge_before :: "SymbolEdge \<Rightarrow> SymbolEdge \<Rightarrow> bool" where
  "edge_before a b = (if edge_from a \<noteq> edge_from b then edge_from a < edge_from b
     else if edge_to a \<noteq> edge_to b then edge_to a < edge_to b
     else edge_relation a < edge_relation b)"

definition resolve_pending :: "visitor \<Rightarrow> pending_edge \<Rightarrow> SymbolEdge list" where
  "resolve_pending v e = (case (indices v (pending_from e), indices v (pending_to e)) of
     (Some i, Some j) \<Rightarrow> if i \<noteq> j
       then [\<lparr>edge_from = symbol_id (visitor_symbols v ! i), edge_to = symbol_id (visitor_symbols v ! j),
              edge_relation = pending_relation e\<rparr>]
       else []
   | _ \<Rightarrow> [])"

text \<open>\<^verbatim>\<open>std::unique\<close> after sorting removes repetitions; edges resolved before are kept.\<close>

definition resolve_edges :: "visitor \<Rightarrow> visitor" where
  "resolve_edges v = v\<lparr>visitor_edges :=
     remdups_adj (sort_by edge_before (visitor_edges v @ concat (map (resolve_pending v) (pending_edges v))))\<rparr>"

definition collect_unit :: "(path \<Rightarrow> path option) \<Rightarrow> path \<Rightarrow> ast \<Rightarrow> visitor \<Rightarrow> visitor" where
  "collect_unit canonical root t v = resolve_edges (traverse canonical root t v)"

text \<open>The tool runs the collector on the tree of every compile command of the file.\<close>

definition collect_units :: "(path \<Rightarrow> path option) \<Rightarrow> path \<Rightarrow> ast list \<Rightarrow> visitor" where
  "collect_units canonical root ts = fold (collect_unit canonical root) ts new_visitor"
section \<open>Reference definitions\<close>

text \<open>What a tree declares and refers to, by recursion over it: no state, the enclosing function as an argument.\<close>

type_synonym decl_item = "source_decl \<times> SymbolKind \<times> string"

abbreviation item_canonical :: "decl_item \<Rightarrow> nat" where
  "item_canonical x \<equiv> decl_canonical (fst x)"

fun declared :: "ast \<Rightarrow> decl_item list" and declared_all :: "ast list \<Rightarrow> decl_item list" where
  "declared (Function_node c d type overridden children) =
     (if decl_implicit d \<or> \<not> decl_in_main_file d then [] else [(d, kind_of c, type)]) @ declared_all children"
| "declared (Record_node is_class d bases children) =
     (if decl_implicit d \<or> \<not> decl_is_definition d \<or> \<not> decl_in_main_file d then []
      else [(d, if is_class then Kind_class else Kind_struct, decl_short_name d)]) @ declared_all children"
| "declared (Enum_node d children) =
     (if decl_implicit d \<or> \<not> decl_in_main_file d then [] else [(d, Kind_enum, decl_short_name d)]) @ declared_all children"
| "declared (Call_node callee children) = declared_all children"
| "declared (Other_node children) = declared_all children"
| "declared_all [] = []"
| "declared_all (t # ts) = declared t @ declared_all ts"

abbreviation pendings :: "nat \<Rightarrow> string \<Rightarrow> nat list \<Rightarrow> pending_edge list" where
  "pendings source relation targets \<equiv>
     map (\<lambda>t. \<lparr>pending_from = source, pending_to = t, pending_relation = relation\<rparr>) targets"

fun references :: "nat option \<Rightarrow> ast \<Rightarrow> pending_edge list"
  and references_all :: "nat option \<Rightarrow> ast list \<Rightarrow> pending_edge list" where
  "references f (Function_node c d type overridden children) =
     (if decl_implicit d \<or> \<not> decl_in_main_file d \<or> c = Plain_function \<or> c = Deduction_guide then []
      else pendings (decl_canonical d) ''overrides'' overridden) @
     references_all (if has_scope c d then Some (decl_canonical d) else f) children"
| "references f (Record_node is_class d bases children) =
     (if decl_implicit d \<or> \<not> decl_is_definition d \<or> \<not> decl_in_main_file d then []
      else pendings (decl_canonical d) ''inherits'' (map the (filter (\<lambda>b. b \<noteq> None) bases))) @
     references_all f children"
| "references f (Enum_node d children) = references_all f children"
| "references f (Call_node callee children) =
     (case (f, callee) of (Some s, Some t) \<Rightarrow> pendings s ''calls'' [t] | _ \<Rightarrow> []) @ references_all f children"
| "references f (Other_node children) = references_all f children"
| "references_all f [] = []"
| "references_all f (t # ts) = references f t @ references_all f ts"

text \<open>The first declaration of each canonical declaration.\<close>

definition firsts :: "decl_item list \<Rightarrow> decl_item list" where
  "firsts xs = fold (\<lambda>x ds. if item_canonical x \<in> item_canonical ` set ds then ds else ds @ [x]) xs []"

lemma firsts_simps [simp]:
  "firsts [] = []"
  "firsts (xs @ [x]) = (if item_canonical x \<in> item_canonical ` set (firsts xs) then firsts xs else firsts xs @ [x])"
  by (simp_all add: firsts_def)

lemma firsts_distinct: "distinct (map item_canonical (firsts xs))"
  by (induction xs rule: rev_induct) auto

lemma firsts_canonical: "item_canonical ` set (firsts xs) = item_canonical ` set xs"
  by (induction xs rule: rev_induct) auto

lemma firsts_append: "\<exists>ds. firsts (xs @ ys) = firsts xs @ ds"
proof (induction ys rule: rev_induct)
  case (snoc y ys)
  then obtain ds where "firsts (xs @ ys) = firsts xs @ ds" by blast
  then have "firsts ((xs @ ys) @ [y]) = firsts xs @ ds \<or> firsts ((xs @ ys) @ [y]) = firsts xs @ (ds @ [y])"
    unfolding firsts_simps(2) [of "xs @ ys" y] by auto
  then show ?case by auto
qed simp

lemma firsts_subset: "set (firsts xs) \<subseteq> set xs"
  by (induction xs rule: rev_induct) auto

text \<open>The symbol of a declaration without its definition, and the chunk of a definition.\<close>

definition undefined_symbol :: "Symbol \<Rightarrow> Symbol" where
  "undefined_symbol s = s\<lparr>symbol_definition := None\<rparr>"

definition item_symbol :: "(path \<Rightarrow> path option) \<Rightarrow> path \<Rightarrow> decl_item \<Rightarrow> Symbol" where
  "item_symbol canonical root x = undefined_symbol (first_symbol canonical root (fst x) (fst (snd x)) (snd (snd x)))"

definition first_item :: "decl_item list \<Rightarrow> nat \<Rightarrow> decl_item" where
  "first_item ds c = the (map_of (map (\<lambda>y. (item_canonical y, y)) ds) c)"

definition has_chunk :: "decl_item \<Rightarrow> bool" where
  "has_chunk x = (decl_is_definition (fst x) \<and> fst (snd x) \<noteq> Kind_enum \<and> decl_text (fst x) \<noteq> [])"

definition item_chunk :: "(path \<Rightarrow> path option) \<Rightarrow> path \<Rightarrow> decl_item list \<Rightarrow> decl_item \<Rightarrow> Chunk" where
  "item_chunk canonical root ds x = (let s = item_symbol canonical root (first_item ds (item_canonical x));
     content = ''Symbol: '' @ symbol_name s @ [CHR 0x0A] @ ''Signature: '' @ symbol_signature s @
       [CHR 0x0A, CHR 0x0A] @ decl_text (fst x) in
     \<lparr>chunk_id = symbol_id s, chunk_source = extract_source_range canonical root (fst x), chunk_language = ''cpp'',
      chunk_content = content, chunk_content_hash = stable_hash_hex content, chunk_chunker_version = ''clang-ast-v1''\<rparr>)"

text \<open>The range of the last definition of a declaration.\<close>

definition last_definition :: "(path \<Rightarrow> path option) \<Rightarrow> path \<Rightarrow> decl_item list \<Rightarrow> nat \<Rightarrow> SourceRange option" where
  "last_definition canonical root xs c = (let ys = filter (\<lambda>y. item_canonical y = c \<and> decl_is_definition (fst y)) xs in
     if ys = [] then None else Some (extract_source_range canonical root (fst (last ys))))"

lemma last_definition_snoc:
  "last_definition canonical root (xs @ [x]) c = (if item_canonical x = c \<and> decl_is_definition (fst x)
     then Some (extract_source_range canonical root (fst x)) else last_definition canonical root xs c)"
  unfolding last_definition_def by (simp add: Let_def)

lemma last_definition_none: "c \<notin> item_canonical ` set xs \<Longrightarrow> last_definition canonical root xs c = None"
  by (induction xs rule: rev_induct) (auto simp: last_definition_snoc, simp add: last_definition_def)

text \<open>What the visitor's tables hold after the items \<open>xs\<close>.\<close>

definition tables_of :: "(path \<Rightarrow> path option) \<Rightarrow> path \<Rightarrow> decl_item list \<Rightarrow> visitor \<Rightarrow> bool" where
  "tables_of canonical root xs v \<longleftrightarrow>
     map undefined_symbol (visitor_symbols v) = map (item_symbol canonical root) (firsts xs) \<and>
     (\<forall>i < length (firsts xs). symbol_definition (visitor_symbols v ! i) =
       last_definition canonical root xs (item_canonical (firsts xs ! i))) \<and>
     (\<forall>c i. indices v c = Some i \<longleftrightarrow> i < length (firsts xs) \<and> item_canonical (firsts xs ! i) = c) \<and>
     semantic_chunks v = map (item_chunk canonical root (firsts xs)) (filter has_chunk xs)"

lemma first_item_nth:
  assumes "distinct (map item_canonical ds)" and "i < length ds"
  shows "first_item ds (item_canonical (ds ! i)) = ds ! i"
proof -
  have "map_of (map (\<lambda>y. (item_canonical y, y)) ds) (item_canonical (ds ! i)) = Some (ds ! i)"
    using assms by (intro map_of_is_SomeI) (auto simp: comp_def)
  then show ?thesis by (simp add: first_item_def)
qed

lemma first_item_append:
  assumes "distinct (map item_canonical (ds @ es))" and "c \<in> item_canonical ` set ds"
  shows "first_item (ds @ es) c = first_item ds c"
proof -
  obtain i where i: "i < length ds" "item_canonical (ds ! i) = c" using assms(2) by (auto simp: in_set_conv_nth)
  have "first_item (ds @ es) (item_canonical ((ds @ es) ! i)) = (ds @ es) ! i"
    using assms(1) i(1) by (intro first_item_nth) simp_all
  moreover have "first_item ds (item_canonical (ds ! i)) = ds ! i"
    using assms(1) i(1) by (intro first_item_nth) simp_all
  ultimately show ?thesis using i by (simp add: nth_append)
qed

lemma item_chunk_append:
  assumes "item_canonical x \<in> item_canonical ` set xs"
  shows "item_chunk canonical root (firsts (xs @ ys)) x = item_chunk canonical root (firsts xs) x"
proof -
  obtain ds where ds: "firsts (xs @ ys) = firsts xs @ ds" using firsts_append by blast
  have "first_item (firsts xs @ ds) (item_canonical x) = first_item (firsts xs) (item_canonical x)"
    using firsts_distinct [of "xs @ ys"] assms firsts_canonical [of xs] unfolding ds by (intro first_item_append) auto
  then show ?thesis by (simp add: item_chunk_def ds)
qed
section \<open>The visitor computes the reference definitions\<close>

lemma undefined_symbol_simps [simp]:
  "undefined_symbol (s\<lparr>symbol_definition := r\<rparr>) = undefined_symbol s"
  "symbol_id (undefined_symbol s) = symbol_id s" "symbol_name (undefined_symbol s) = symbol_name s"
  "symbol_signature (undefined_symbol s) = symbol_signature s"
  "symbol_declaration (undefined_symbol s) = symbol_declaration s"
  by (simp_all add: undefined_symbol_def)

lemma tables_of_symbol:
  assumes "tables_of canonical root xs v" and "i < length (firsts xs)"
  shows "undefined_symbol (visitor_symbols v ! i) = item_symbol canonical root (firsts xs ! i)"
proof -
  have eq: "map undefined_symbol (visitor_symbols v) = map (item_symbol canonical root) (firsts xs)"
    using assms(1) by (simp add: tables_of_def)
  from arg_cong [OF eq, of length] have "length (visitor_symbols v) = length (firsts xs)" by simp
  with arg_cong [OF eq, of "\<lambda>l. l ! i"] assms(2) show ?thesis by simp
qed

lemma tables_of_length:
  assumes "tables_of canonical root xs v"
  shows "length (visitor_symbols v) = length (firsts xs)"
proof -
  have "map undefined_symbol (visitor_symbols v) = map (item_symbol canonical root) (firsts xs)"
    using assms by (simp add: tables_of_def)
  from arg_cong [OF this, of length] show ?thesis by simp
qed

lemma add_symbol_frame:
  assumes "add_symbol canonical root d kind signature v = (i, v')"
  shows "current_functions v' = current_functions v \<and> pending_edges v' = pending_edges v \<and>
    visitor_edges v' = visitor_edges v \<and> semantic_chunks v' = semantic_chunks v"
  using assms by (auto simp: add_symbol_def split: option.splits if_splits)

lemma add_symbol_tables:
  assumes ok: "tables_of canonical root xs v"
    and add: "add_symbol canonical root d kind signature v = (i, v')"
  defines "x \<equiv> (d, kind, signature)"
  shows "map undefined_symbol (visitor_symbols v') = map (item_symbol canonical root) (firsts (xs @ [x]))"
    and "indices v' c = Some j \<longleftrightarrow> j < length (firsts (xs @ [x])) \<and> item_canonical (firsts (xs @ [x]) ! j) = c"
    and "indices v' (decl_canonical d) = Some i"
    and "decl_is_definition d \<Longrightarrow> symbol_definition (visitor_symbols v' ! i) = Some (extract_source_range canonical root d)"
    and "k < length (firsts (xs @ [x])) \<Longrightarrow> symbol_definition (visitor_symbols v' ! k) =
      last_definition canonical root (xs @ [x]) (item_canonical (firsts (xs @ [x]) ! k))"
proof -
  have x: "item_canonical x = decl_canonical d" by (simp add: x_def)
  have len: "length (visitor_symbols v) = length (firsts xs)" using ok by (rule tables_of_length)
  have ind: "indices v c = Some i \<longleftrightarrow> i < length (firsts xs) \<and> item_canonical (firsts xs ! i) = c" for c i
    using ok by (simp add: tables_of_def)
  have sym: "map undefined_symbol (visitor_symbols v) = map (item_symbol canonical root) (firsts xs)"
    using ok by (simp add: tables_of_def)
  have old: "symbol_definition (visitor_symbols v ! k) = last_definition canonical root xs (item_canonical (firsts xs ! k))"
    if "k < length (firsts xs)" for k using ok that by (simp add: tables_of_def)
  have all: "map undefined_symbol (visitor_symbols v') = map (item_symbol canonical root) (firsts (xs @ [x])) \<and>
    (indices v' c = Some j \<longleftrightarrow> j < length (firsts (xs @ [x])) \<and> item_canonical (firsts (xs @ [x]) ! j) = c) \<and>
    indices v' (decl_canonical d) = Some i \<and>
    (decl_is_definition d \<longrightarrow> symbol_definition (visitor_symbols v' ! i) = Some (extract_source_range canonical root d)) \<and>
    (k < length (firsts (xs @ [x])) \<longrightarrow> symbol_definition (visitor_symbols v' ! k) =
      last_definition canonical root (xs @ [x]) (item_canonical (firsts (xs @ [x]) ! k)))"
  proof (cases "indices v (decl_canonical d)")
    case (Some n)
    then have n: "n < length (firsts xs)" "item_canonical (firsts xs ! n) = decl_canonical d" using ind by blast+
    from n have "item_canonical x \<in> item_canonical ` set (firsts xs)" by (metis image_eqI nth_mem x)
    then have f: "firsts (xs @ [x]) = firsts xs" by simp
    have i: "i = n" using add Some by (simp add: add_symbol_def)
    have v': "v' = (if decl_is_definition d then v\<lparr>visitor_symbols := (visitor_symbols v)[n := (visitor_symbols v ! n)
         \<lparr>symbol_definition := Some (extract_source_range canonical root d)\<rparr>]\<rparr> else v)"
      using add Some by (auto simp: add_symbol_def)
    have same: "map undefined_symbol (visitor_symbols v') = map (item_symbol canonical root) (firsts xs)"
      unfolding sym [symmetric] using n(1) len by (simp add: v' map_update list_update_same_conv)
    have frame: "indices v' = indices v" by (simp add: v')
    have new: "decl_is_definition d \<longrightarrow> symbol_definition (visitor_symbols v' ! i) = Some (extract_source_range canonical root d)"
      using n(1) len by (simp add: v' i)
    have definitions: "symbol_definition (visitor_symbols v' ! k) = last_definition canonical root (xs @ [x]) (item_canonical (firsts xs ! k))"
      if k: "k < length (firsts xs)"
    proof (cases "k = n")
      case True
      then show ?thesis using old [OF k] n len x by (simp add: v' last_definition_snoc) (simp add: x_def)
    next
      case False
      then have "indices v (decl_canonical d) \<noteq> Some k" using Some by simp
      then have "item_canonical (firsts xs ! k) \<noteq> item_canonical x" unfolding ind x using k by blast
      then show ?thesis using False old [OF k] by (simp add: v' last_definition_snoc)
    qed
    have index: "indices v (decl_canonical d) = Some i" using Some i by simp
    show ?thesis unfolding f frame
      by (rule conjI [OF same conjI [OF ind conjI [OF index conjI [OF new impI [OF definitions]]]]])
  next
    case None
    have "item_canonical x \<notin> item_canonical ` set (firsts xs)"
    proof
      assume "item_canonical x \<in> item_canonical ` set (firsts xs)"
      then obtain k where "k < length (firsts xs)" "item_canonical (firsts xs ! k) = decl_canonical d"
        by (metis imageE in_set_conv_nth x)
      then have "indices v (decl_canonical d) = Some k" using ind by blast
      with None show False by simp
    qed
    then have f: "firsts (xs @ [x]) = firsts xs @ [x]" by simp
    have i: "i = length (visitor_symbols v)" using add None by (simp add: add_symbol_def)
    have v': "v' = v\<lparr>indices := (indices v)(decl_canonical d \<mapsto> length (visitor_symbols v)),
         visitor_symbols := visitor_symbols v @ [first_symbol canonical root d kind signature]\<rparr>"
      using add None by (auto simp: add_symbol_def)
    have "item_symbol canonical root x = undefined_symbol (first_symbol canonical root d kind signature)"
      by (simp add: item_symbol_def x_def)
    moreover have "indices v' c = Some j \<longleftrightarrow> j < length (firsts (xs @ [x])) \<and> item_canonical (firsts (xs @ [x]) ! j) = c"
    proof (cases "c = decl_canonical d")
      case True
      have "indices v (decl_canonical d) \<noteq> Some j" using None by simp
      then have "item_canonical (firsts xs ! j) \<noteq> decl_canonical d" if "j < length (firsts xs)"
        unfolding ind using that by blast
      with True x show ?thesis unfolding f by (auto simp: v' len nth_append less_Suc_eq)
    next
      case False
      then show ?thesis using ind [of c j] x unfolding f by (auto simp: v' len nth_append less_Suc_eq)
    qed
    moreover have "symbol_definition (visitor_symbols v' ! k) = last_definition canonical root (xs @ [x]) (item_canonical ((firsts xs @ [x]) ! k))"
      if k: "k < length (firsts xs @ [x])"
    proof (cases "k < length (firsts xs)")
      case True
      have "indices v (decl_canonical d) \<noteq> Some k" using None by simp
      then have "item_canonical (firsts xs ! k) \<noteq> item_canonical x" unfolding ind x using True by blast
      then show ?thesis using True old [OF True] len by (simp add: v' last_definition_snoc nth_append)
    next
      case False
      then have "k = length (firsts xs)" using k by simp
      moreover have "last_definition canonical root xs (item_canonical x) = None"
        using \<open>item_canonical x \<notin> item_canonical ` set (firsts xs)\<close> unfolding firsts_canonical by (rule last_definition_none)
      ultimately show ?thesis using len by (simp add: v' last_definition_snoc first_symbol_def Let_def nth_append) (simp add: x_def)
    qed
    ultimately show ?thesis
      unfolding f using sym by (simp add: v' i first_symbol_def Let_def)
  qed
  show "map undefined_symbol (visitor_symbols v') = map (item_symbol canonical root) (firsts (xs @ [x]))"
    using all by (rule conjunct1)
  show "indices v' c = Some j \<longleftrightarrow> j < length (firsts (xs @ [x])) \<and> item_canonical (firsts (xs @ [x]) ! j) = c"
    using all by blast
  show "indices v' (decl_canonical d) = Some i" using all by blast
  show "symbol_definition (visitor_symbols v' ! i) = Some (extract_source_range canonical root d)"
    if "decl_is_definition d" using all that by blast
  show "symbol_definition (visitor_symbols v' ! k) = last_definition canonical root (xs @ [x]) (item_canonical (firsts (xs @ [x]) ! k))"
    if "k < length (firsts (xs @ [x]))" using all that by blast
qed
text \<open>Adding the chunk of a definition that was just added.\<close>

lemma add_symbol_chunk:
  assumes ok: "tables_of canonical root xs v"
    and add: "add_symbol canonical root d kind signature v = (i, v')"
    and defined: "decl_is_definition d" "kind \<noteq> Kind_enum"
  shows "tables_of canonical root (xs @ [(d, kind, signature)]) (add_semantic_chunk d i v')"
proof -
  define x where "x = (d, kind, signature)"
  note t = add_symbol_tables [OF ok add, folded x_def]
  have i: "i < length (firsts (xs @ [x]))" "item_canonical (firsts (xs @ [x]) ! i) = item_canonical x"
    using t(3) unfolding t(2) by (simp_all add: x_def)
  have "length (visitor_symbols v') = length (firsts (xs @ [x]))" using arg_cong [OF t(1), of length] by simp
  with arg_cong [OF t(1), of "\<lambda>l. l ! i"] i(1)
  have s: "undefined_symbol (visitor_symbols v' ! i) = item_symbol canonical root (firsts (xs @ [x]) ! i)"
    by (simp del: firsts_simps)
  have "first_item (firsts (xs @ [x])) (item_canonical x) = firsts (xs @ [x]) ! i"
    using first_item_nth [OF firsts_distinct i(1)] i(2) by simp
  with s have names: "symbol_id (item_symbol canonical root (first_item (firsts (xs @ [x])) (item_canonical x))) = symbol_id (visitor_symbols v' ! i)"
    "symbol_name (item_symbol canonical root (first_item (firsts (xs @ [x])) (item_canonical x))) = symbol_name (visitor_symbols v' ! i)"
    "symbol_signature (item_symbol canonical root (first_item (firsts (xs @ [x])) (item_canonical x))) = symbol_signature (visitor_symbols v' ! i)"
    by (metis undefined_symbol_simps(2-4))+
  have old: "map (item_chunk canonical root (firsts (xs @ [x]))) (filter has_chunk xs) = semantic_chunks v"
    using ok item_chunk_append [of _ xs canonical root "[x]"] by (simp add: tables_of_def del: firsts_simps)
  have frame: "semantic_chunks v' = semantic_chunks v" using add_symbol_frame [OF add] by simp
  have new: "semantic_chunks (add_semantic_chunk d i v') = semantic_chunks v @
      map (item_chunk canonical root (firsts (xs @ [x]))) (filter has_chunk [x])"
    using t(4) defined frame
    by (simp add: add_semantic_chunk_def item_chunk_def names has_chunk_def Let_def x_def [symmetric] del: firsts_simps)
      (simp add: x_def)
  have same: "visitor_symbols (add_semantic_chunk d i v') = visitor_symbols v'" "indices (add_semantic_chunk d i v') = indices v'"
    by (simp_all add: add_semantic_chunk_def Let_def)
  show ?thesis
    unfolding tables_of_def x_def [symmetric] same new filter_append map_append old t(2)
    using t(1) t(5) by (simp del: firsts_simps)
qed

lemma add_symbol_only:
  assumes ok: "tables_of canonical root xs v"
    and add: "add_symbol canonical root d kind signature v = (i, v')"
    and "\<not> decl_is_definition d \<or> kind = Kind_enum"
  shows "tables_of canonical root (xs @ [(d, kind, signature)]) v'"
proof -
  define x where "x = (d, kind, signature)"
  note t = add_symbol_tables [OF ok add, folded x_def]
  have "map (item_chunk canonical root (firsts (xs @ [x]))) (filter has_chunk xs) = semantic_chunks v"
    using ok item_chunk_append [of _ xs canonical root "[x]"] by (simp add: tables_of_def del: firsts_simps)
  moreover have "\<not> has_chunk x" using assms(3) by (auto simp: has_chunk_def x_def)
  ultimately show ?thesis
    unfolding tables_of_def x_def [symmetric] t(2)
    using t(1) t(5) add_symbol_frame [OF add] by (simp del: firsts_simps)
qed

lemma add_pending_simps [simp]:
  "indices (add_pending f r ts v) = indices v" "visitor_symbols (add_pending f r ts v) = visitor_symbols v"
  "semantic_chunks (add_pending f r ts v) = semantic_chunks v" "current_functions (add_pending f r ts v) = current_functions v"
  "visitor_edges (add_pending f r ts v) = visitor_edges v" "pending_edges (add_pending f r ts v) = pending_edges v @ pendings f r ts"
  by (simp_all add: add_pending_def)

lemma add_semantic_chunk_frame [simp]:
  "current_functions (add_semantic_chunk d i v) = current_functions v"
  "pending_edges (add_semantic_chunk d i v) = pending_edges v" "visitor_edges (add_semantic_chunk d i v) = visitor_edges v"
  by (simp_all add: add_semantic_chunk_def Let_def)

lemma tables_of_add_pending [simp]:
  "tables_of canonical root xs (add_pending f r ts v) = tables_of canonical root xs v"
  by (simp add: tables_of_def)

text \<open>
  The state after the items \<open>xs\<close> and the references \<open>ps\<close>, inside the functions \<open>fs\<close>; the resolved edges are those
  of the units before.
\<close>

definition visited :: "(path \<Rightarrow> path option) \<Rightarrow> path \<Rightarrow> decl_item list \<Rightarrow> pending_edge list \<Rightarrow> nat list \<Rightarrow>
    SymbolEdge list \<Rightarrow> visitor \<Rightarrow> bool" where
  "visited canonical root xs ps fs es v \<longleftrightarrow> tables_of canonical root xs v \<and> pending_edges v = ps \<and>
     current_functions v = fs \<and> visitor_edges v = es"

lemma visit_function_visited:
  assumes "visited canonical root xs ps fs es v"
  shows "visited canonical root
    (xs @ (if decl_implicit d \<or> \<not> decl_in_main_file d then [] else [(d, kind_of c, type)]))
    (ps @ (if decl_implicit d \<or> \<not> decl_in_main_file d \<or> c = Plain_function \<or> c = Deduction_guide then []
      else pendings (decl_canonical d) ''overrides'' overridden)) fs es
    (visit_function canonical root c d type overridden v)"
proof (cases "decl_implicit d \<or> \<not> decl_in_main_file d")
  case True
  with assms show ?thesis by (auto simp: visit_function_def)
next
  case False
  obtain i v1 where add: "add_symbol canonical root d (kind_of c) type v = (i, v1)" by (metis surj_pair)
  define v2 where "v2 = (if decl_is_definition d then add_semantic_chunk d i v1 else v1)"
  have "kind_of c \<noteq> Kind_enum" by (simp add: kind_of_def split: function_class.split)
  then have "tables_of canonical root (xs @ [(d, kind_of c, type)]) v2"
    using assms add_symbol_chunk [OF _ add] add_symbol_only [OF _ add] by (simp add: v2_def visited_def)
  moreover have "pending_edges v2 = ps" "current_functions v2 = fs" "visitor_edges v2 = es"
    using assms add_symbol_frame [OF add] by (simp_all add: v2_def visited_def)
  moreover have "visit_function canonical root c d type overridden v =
      (if c = Plain_function \<or> c = Deduction_guide then v2 else add_pending (decl_canonical d) ''overrides'' overridden v2)"
    using False by (simp add: visit_function_def add v2_def Let_def)
  ultimately show ?thesis using False by (simp add: visited_def)
qed

lemma visit_record_visited:
  assumes "visited canonical root xs ps fs es v"
  shows "visited canonical root
    (xs @ (if decl_implicit d \<or> \<not> decl_is_definition d \<or> \<not> decl_in_main_file d then []
      else [(d, if is_class then Kind_class else Kind_struct, decl_short_name d)]))
    (ps @ (if decl_implicit d \<or> \<not> decl_is_definition d \<or> \<not> decl_in_main_file d then []
      else pendings (decl_canonical d) ''inherits'' (map the (filter (\<lambda>b. b \<noteq> None) bases)))) fs es
    (visit_record canonical root is_class d bases v)"
proof (cases "decl_implicit d \<or> \<not> decl_is_definition d \<or> \<not> decl_in_main_file d")
  case True
  with assms show ?thesis by (auto simp: visit_record_def)
next
  case False
  define k where "k = (if is_class then Kind_class else Kind_struct)"
  obtain i v1 where add: "add_symbol canonical root d k (decl_short_name d) v = (i, v1)" by (metis surj_pair)
  have "k \<noteq> Kind_enum" by (simp add: k_def)
  then have "tables_of canonical root (xs @ [(d, k, decl_short_name d)]) (add_semantic_chunk d i v1)"
    using assms add_symbol_chunk [OF _ add] False by (simp add: visited_def)
  moreover have "visit_record canonical root is_class d bases v = add_pending (decl_canonical d) ''inherits''
      (map the (filter (\<lambda>b. b \<noteq> None) bases)) (add_semantic_chunk d i v1)"
    using False add by (simp add: visit_record_def k_def [symmetric] Let_def)
  ultimately show ?thesis using False assms add_symbol_frame [OF add] by (simp add: visited_def k_def)
qed

lemma visit_enum_visited:
  assumes "visited canonical root xs ps fs es v"
  shows "visited canonical root
    (xs @ (if decl_implicit d \<or> \<not> decl_in_main_file d then [] else [(d, Kind_enum, decl_short_name d)])) ps fs es
    (visit_enum canonical root d v)"
proof (cases "decl_implicit d \<or> \<not> decl_in_main_file d")
  case True
  with assms show ?thesis by (auto simp: visit_enum_def)
next
  case False
  obtain i v1 where add: "add_symbol canonical root d Kind_enum (decl_short_name d) v = (i, v1)" by (metis surj_pair)
  show ?thesis using False assms add_symbol_only [OF _ add] add_symbol_frame [OF add]
    by (simp add: visited_def visit_enum_def add)
qed

definition enclosing :: "nat list \<Rightarrow> nat option" where
  "enclosing fs = (if fs = [] then None else Some (last fs))"

lemma enclosing_scope:
  "enclosing (if b then fs @ [f] else fs) = (if b then Some f else enclosing fs)"
  by (simp add: enclosing_def)

lemma traverse_visited:
  "visited canonical root xs ps fs es v \<Longrightarrow>
    visited canonical root (xs @ declared t) (ps @ references (enclosing fs) t) fs es (traverse canonical root t v)"
  and traverse_all_visited:
  "visited canonical root xs ps fs es v \<Longrightarrow>
    visited canonical root (xs @ declared_all ts) (ps @ references_all (enclosing fs) ts) fs es (traverse_all canonical root ts v)"
proof (induction canonical root t v and canonical root ts v arbitrary: xs ps fs es and xs ps fs es
    rule: traverse_traverse_all.induct)
  case (1 canonical root c d type overridden children v)
  let ?fs = "if has_scope c d then fs @ [decl_canonical d] else fs"
  have "visited canonical root xs ps ?fs es (open_scope c d v)"
    using 1(2) by (simp add: visited_def open_scope_def tables_of_def)
  from 1(1) [OF visit_function_visited [OF this]]
  have "visited canonical root (xs @ declared (Function_node c d type overridden children))
      (ps @ references (enclosing fs) (Function_node c d type overridden children)) ?fs es
      (traverse_all canonical root children (visit_function canonical root c d type overridden (open_scope c d v)))"
    unfolding enclosing_scope by (simp only: declared.simps references.simps append_assoc)
  then show ?case by (auto simp: visited_def close_scope_def tables_of_def)
next
  case (2 canonical root is_class d bases children v)
  from 2(1) [OF visit_record_visited [OF 2(2)]] show ?case by simp
next
  case (3 canonical root d children v)
  from 3(1) [OF visit_enum_visited [OF 3(2)]] show ?case by simp
next
  case (4 canonical root callee children v)
  have "visited canonical root xs (ps @ (case (enclosing fs, callee) of (Some s, Some t) \<Rightarrow> pendings s ''calls'' [t] | _ \<Rightarrow> []))
      fs es (visit_call callee v)"
    using 4(2) by (auto simp: visited_def visit_call_def enclosing_def split: option.splits)
  from 4(1) [OF this] show ?case by simp
next
  case (5 canonical root children v)
  then show ?case by simp
next
  case (6 canonical root v)
  then show ?case by simp
next
  case (7 canonical root t ts v)
  from 7(2) [OF 7(1) [OF 7(3)]] show ?case by simp
qed
section \<open>Edges\<close>

lemma edge_before_linear:
  "edge_before a b \<or> a = b \<or> edge_before b a"
  by (cases a; cases b) (auto simp: edge_before_def)

lemma edge_before_trans: "edge_before a b \<Longrightarrow> edge_before b c \<Longrightarrow> edge_before a c"
  by (auto simp: edge_before_def split: if_splits)

lemma edge_before_asym: "edge_before a b \<Longrightarrow> \<not> edge_before b a"
  by (auto simp: edge_before_def split: if_splits)

interpretation edge_order: comparator edge_before "\<lambda>_. True"
proof
  show "\<not> edge_before y x" if "edge_before x y" for x y using that by (rule edge_before_asym)
  show "edge_before x y \<or> edge_before y z" if "edge_before x z" for x y z
    using that edge_before_linear [of x y] edge_before_trans [of y x z] by blast
qed

lemma remdups_adj_strict:
  "in_order edge_before xs \<Longrightarrow> sorted_wrt edge_before (remdups_adj xs)"
proof (induction xs rule: remdups_adj.induct)
  case (3 x y xs)
  show ?case
  proof (cases "x = y")
    case True
    with 3 show ?thesis by simp
  next
    case False
    have xy: "\<not> edge_before y x" "\<forall>z \<in> set xs. \<not> edge_before z y" using 3(3) by simp_all
    then have "edge_before x y" using edge_before_linear [of x y] False by blast
    then have "edge_before x z" if "z \<in> set (y # xs)" for z
      using that xy(2) edge_before_linear [of y z] edge_before_trans [of x y z] by auto
    with False 3 show ?thesis by (simp del: remdups_adj.simps add: remdups_adj.simps(3))
  qed
qed simp_all

text \<open>The edges that references \<open>ps\<close> between the declarations \<open>ds\<close> stand for.\<close>

definition edges_of :: "(path \<Rightarrow> path option) \<Rightarrow> path \<Rightarrow> decl_item list \<Rightarrow> pending_edge list \<Rightarrow> SymbolEdge set" where
  "edges_of canonical root ds ps = {e. \<exists>p \<in> set ps. \<exists>a \<in> set ds. \<exists>b \<in> set ds.
     item_canonical a = pending_from p \<and> item_canonical b = pending_to p \<and> pending_from p \<noteq> pending_to p \<and>
     e = \<lparr>edge_from = symbol_id (item_symbol canonical root a), edge_to = symbol_id (item_symbol canonical root b),
          edge_relation = pending_relation p\<rparr>}"

lemma edges_of_mono:
  "set ds \<subseteq> set ds' \<Longrightarrow> set ps \<subseteq> set ps' \<Longrightarrow> edges_of canonical root ds ps \<subseteq> edges_of canonical root ds' ps'"
  unfolding edges_of_def by blast

lemma edges_of_single: "edges_of canonical root ds ps = (\<Union>p \<in> set ps. edges_of canonical root ds [p])"
  unfolding edges_of_def by auto

lemma tables_of_index:
  assumes "tables_of canonical root xs v"
  shows "indices v c = None \<longleftrightarrow> c \<notin> item_canonical ` set (firsts xs)"
proof -
  have ind: "indices v c = Some i \<longleftrightarrow> i < length (firsts xs) \<and> item_canonical (firsts xs ! i) = c" for i
    using assms unfolding tables_of_def by blast
  have "c \<in> item_canonical ` set (firsts xs) \<longleftrightarrow> (\<exists>i. indices v c = Some i)"
    unfolding ind set_conv_nth by blast
  then show ?thesis by (cases "indices v c") simp_all
qed

lemma resolve_pending_edges:
  assumes ok: "tables_of canonical root xs v"
  shows "set (resolve_pending v p) = edges_of canonical root (firsts xs) [p]"
proof (cases "pending_from p \<in> item_canonical ` set (firsts xs) \<and> pending_to p \<in> item_canonical ` set (firsts xs)")
  case False
  then have "indices v (pending_from p) = None \<or> indices v (pending_to p) = None"
    unfolding tables_of_index [OF ok] by blast
  then have "resolve_pending v p = []" by (auto simp: resolve_pending_def split: option.splits)
  moreover have "edges_of canonical root (firsts xs) [p] = {}"
    using False unfolding edges_of_def by (auto simp: image_iff)
  ultimately show ?thesis by simp
next
  case True
  have ind: "indices v c = Some i \<longleftrightarrow> i < length (firsts xs) \<and> item_canonical (firsts xs ! i) = c" for c i
    using ok by (simp add: tables_of_def)
  obtain i j where ij: "indices v (pending_from p) = Some i" "indices v (pending_to p) = Some j"
    using True tables_of_index [OF ok] by (metis not_None_eq)
  then have i: "i < length (firsts xs)" "item_canonical (firsts xs ! i) = pending_from p"
    and j: "j < length (firsts xs)" "item_canonical (firsts xs ! j) = pending_to p" unfolding ind by blast+
  have unique: "a = firsts xs ! k" if "a \<in> set (firsts xs)" "k < length (firsts xs)"
    "item_canonical a = item_canonical (firsts xs ! k)" for a k
    using firsts_distinct [of xs] that by (metis distinct_map inj_onD nth_mem)
  have id: "symbol_id (visitor_symbols v ! k) = symbol_id (item_symbol canonical root (firsts xs ! k))" if "k < length (firsts xs)" for k
    using tables_of_symbol [OF ok that] by (metis undefined_symbol_simps(2))
  have ne: "i = j \<longleftrightarrow> pending_from p = pending_to p" using ij ind i j by (metis option.inject)
  have "edges_of canonical root (firsts xs) [p] = (if pending_from p = pending_to p then {} else
      {\<lparr>edge_from = symbol_id (item_symbol canonical root (firsts xs ! i)),
        edge_to = symbol_id (item_symbol canonical root (firsts xs ! j)), edge_relation = pending_relation p\<rparr>})"
    (is "?l = ?r")
  proof
    show "?l \<subseteq> ?r" unfolding edges_of_def using unique [OF _ i(1)] unique [OF _ j(1)] i(2) j(2) by auto
    have "firsts xs ! i \<in> set (firsts xs)" "firsts xs ! j \<in> set (firsts xs)" using i(1) j(1) by simp_all
    with i(2) j(2) show "?r \<subseteq> ?l" unfolding edges_of_def by (simp only: list.set split: if_split) blast
  qed
  then show ?thesis using ij ne id [OF i(1)] id [OF j(1)] by (simp add: resolve_pending_def)
qed

lemma resolve_edges_visited:
  assumes "visited canonical root xs ps fs es v"
  shows "set (visitor_edges (resolve_edges v)) = set es \<union> edges_of canonical root (firsts xs) ps \<and>
    sorted_wrt edge_before (visitor_edges (resolve_edges v)) \<and>
    visited canonical root xs ps fs (visitor_edges (resolve_edges v)) (resolve_edges v)"
proof -
  have v: "tables_of canonical root xs v" "pending_edges v = ps" "current_functions v = fs" "visitor_edges v = es"
    using assms by (simp_all add: visited_def)
  have "set (concat (map (resolve_pending v) ps)) = edges_of canonical root (firsts xs) ps"
    unfolding edges_of_single [of _ _ _ ps] using resolve_pending_edges [OF v(1)] by simp
  then have "set (visitor_edges (resolve_edges v)) = set es \<union> edges_of canonical root (firsts xs) ps"
    by (simp add: resolve_edges_def v)
  moreover have "sorted_wrt edge_before (visitor_edges (resolve_edges v))"
    unfolding resolve_edges_def by (simp add: remdups_adj_strict edge_order.sort_by_in_order list_all_iff)
  moreover have "tables_of canonical root xs (resolve_edges v)"
    using v(1) by (simp add: tables_of_def resolve_edges_def)
  ultimately show ?thesis using v by (simp add: visited_def resolve_edges_def)
qed

lemma collect_units_visited:
  "visited canonical root (declared_all ts) (references_all None ts) [] (visitor_edges (collect_units canonical root ts))
     (collect_units canonical root ts) \<and>
   set (visitor_edges (collect_units canonical root ts)) = edges_of canonical root (firsts (declared_all ts)) (references_all None ts) \<and>
   sorted_wrt edge_before (visitor_edges (collect_units canonical root ts))"
proof (induction ts rule: rev_induct)
  case Nil
  show ?case by (simp add: collect_units_def new_visitor_def visited_def tables_of_def edges_of_def)
next
  case (snoc t ts)
  let ?v = "collect_units canonical root ts"
  have all: "declared_all (ts @ [t]) = declared_all ts @ declared t"
    "references_all None (ts @ [t]) = references_all None ts @ references None t"
    by (induction ts) simp_all
  have step: "collect_units canonical root (ts @ [t]) = resolve_edges (traverse canonical root t ?v)"
    by (simp add: collect_units_def collect_unit_def)
  have "visited canonical root (declared_all ts @ declared t) (references_all None ts @ references (enclosing []) t) []
      (visitor_edges ?v) (traverse canonical root t ?v)"
    using snoc.IH traverse_visited by blast
  from resolve_edges_visited [OF this]
  have v: "visited canonical root (declared_all (ts @ [t])) (references_all None (ts @ [t])) []
      (visitor_edges (collect_units canonical root (ts @ [t]))) (collect_units canonical root (ts @ [t]))"
    "sorted_wrt edge_before (visitor_edges (collect_units canonical root (ts @ [t])))"
    "set (visitor_edges (collect_units canonical root (ts @ [t]))) = set (visitor_edges ?v) \<union>
      edges_of canonical root (firsts (declared_all (ts @ [t]))) (references_all None (ts @ [t]))"
    unfolding all step by (simp_all add: enclosing_def)
  have "set (firsts (declared_all ts)) \<subseteq> set (firsts (declared_all (ts @ [t])))"
    using firsts_append [of "declared_all ts" "declared t"] unfolding all by auto
  then have "edges_of canonical root (firsts (declared_all ts)) (references_all None ts) \<subseteq>
      edges_of canonical root (firsts (declared_all (ts @ [t]))) (references_all None (ts @ [t]))"
    by (rule edges_of_mono) (simp add: all)
  with snoc.IH v show ?case by blast
qed
section \<open>Properties\<close>

lemma collected_tables:
  fixes ts :: "ast list"
  defines "xs \<equiv> declared_all ts"
  shows "visitor_symbols (collect_units canonical root ts) = map (\<lambda>x. (item_symbol canonical root x)
       \<lparr>symbol_definition := last_definition canonical root xs (item_canonical x)\<rparr>) (firsts xs)"
    and "semantic_chunks (collect_units canonical root ts) = map (item_chunk canonical root (firsts xs)) (filter has_chunk xs)"
    and "set (visitor_edges (collect_units canonical root ts)) = edges_of canonical root (firsts xs) (references_all None ts)"
    and "sorted_wrt edge_before (visitor_edges (collect_units canonical root ts))"
    and "current_functions (collect_units canonical root ts) = []"
proof -
  let ?v = "collect_units canonical root ts"
  have v: "visited canonical root xs (references_all None ts) [] (visitor_edges ?v) ?v"
    unfolding xs_def using collect_units_visited by blast
  then have ok: "tables_of canonical root xs ?v" by (simp add: visited_def)
  have split: "s = (undefined_symbol s)\<lparr>symbol_definition := symbol_definition s\<rparr>" for s
    by (cases s) (simp add: undefined_symbol_def)
  have "visitor_symbols ?v ! i = (item_symbol canonical root (firsts xs ! i))
       \<lparr>symbol_definition := last_definition canonical root xs (item_canonical (firsts xs ! i))\<rparr>" if "i < length (firsts xs)" for i
    using split [of "visitor_symbols ?v ! i"] tables_of_symbol [OF ok that] ok that by (simp add: tables_of_def)
  then show "visitor_symbols ?v = map (\<lambda>x. (item_symbol canonical root x)
       \<lparr>symbol_definition := last_definition canonical root xs (item_canonical x)\<rparr>) (firsts xs)"
    by (intro nth_equalityI) (simp_all add: tables_of_length [OF ok])
  show "semantic_chunks ?v = map (item_chunk canonical root (firsts xs)) (filter has_chunk xs)"
    using ok by (simp add: tables_of_def)
  show "set (visitor_edges ?v) = edges_of canonical root (firsts xs) (references_all None ts)" "sorted_wrt edge_before (visitor_edges ?v)"
    unfolding xs_def using collect_units_visited by blast+
  show "current_functions ?v = []" using v by (simp add: visited_def)
qed

text \<open>
  C30. The collector, with its stack of functions, index of declarations and pending references kept across
  the trees, computes what the reference recursion over the trees says: one symbol for every canonical
  declaration of the main file, in the order and with the data of its first occurrence, and the range of its last
  definition; one chunk for every definition with a text, under the id of its symbol; and as edges, sorted and
  without repetition, exactly the calls, overridings and bases between two different symbols, a call being from the
  innermost enclosing function that opens a scope. The stack is empty in the end.
\<close>

theorem collect_matches_reference:
  "visitor_symbols (collect_units canonical root ts) = map (\<lambda>x. (item_symbol canonical root x)
       \<lparr>symbol_definition := last_definition canonical root (declared_all ts) (item_canonical x)\<rparr>) (firsts (declared_all ts)) \<and>
   distinct (map item_canonical (firsts (declared_all ts))) \<and>
   item_canonical ` set (firsts (declared_all ts)) = item_canonical ` set (declared_all ts) \<and>
   semantic_chunks (collect_units canonical root ts) =
     map (item_chunk canonical root (firsts (declared_all ts))) (filter has_chunk (declared_all ts)) \<and>
   set (visitor_edges (collect_units canonical root ts)) =
     edges_of canonical root (firsts (declared_all ts)) (references_all None ts) \<and>
   sorted_wrt edge_before (visitor_edges (collect_units canonical root ts)) \<and>
   current_functions (collect_units canonical root ts) = []"
  by (intro conjI collected_tables firsts_distinct firsts_canonical)

text \<open>Every edge connects collected symbols.\<close>

lemma collected_edges_closed:
  assumes "e \<in> set (visitor_edges (collect_units canonical root ts))"
  shows "edge_from e \<in> symbol_id ` set (visitor_symbols (collect_units canonical root ts)) \<and>
    edge_to e \<in> symbol_id ` set (visitor_symbols (collect_units canonical root ts))"
proof -
  have "symbol_id (item_symbol canonical root x) \<in> symbol_id ` set (visitor_symbols (collect_units canonical root ts))"
    if "x \<in> set (firsts (declared_all ts))" for x
    unfolding collected_tables(1) using that by (simp add: image_image image_iff) metis
  with assms show ?thesis unfolding collected_tables(3) edges_of_def by auto
qed

end
