(* ===== verification/Clang_Parser.thy ===== *)
theory Clang_Parser
  imports Symbol_Visitor
begin

text \<open>
  \<^verbatim>\<open>src/adapters/clang/clang_code_parser.cpp\<close>: the parser that runs the collector on the trees of a file, and its
  composition with the symbol repository.
\<close>

section \<open>The parser\<close>

record ParsedTranslationUnit =
  unit_symbols :: "Symbol list"
  unit_edges :: "SymbolEdge list"
  unit_chunks :: "Chunk list"
  unit_diagnostics :: "string list"
  unit_success :: bool

text \<open>
  \<open>load\<close> is \<^verbatim>\<open>CompilationDatabase::loadFromDirectory\<close>, an error or the tool on a source file: the exit status and the trees
  handed to the consumer, one for every compile command of the file.
\<close>

definition parse :: "(path \<Rightarrow> path option) \<Rightarrow> (path \<Rightarrow> string + (path \<Rightarrow> int \<times> ast list)) \<Rightarrow> path \<Rightarrow> path \<Rightarrow> path \<Rightarrow>
    ParsedTranslationUnit" where
  "parse canonical load database_directory source_file repository_root = (
     let result = \<lparr>unit_symbols = [], unit_edges = [], unit_chunks = [], unit_diagnostics = [], unit_success = False\<rparr> in
     case load database_directory of
       Inl database_error \<Rightarrow> result\<lparr>unit_diagnostics := [''cannot load compilation database: '' @ database_error]\<rparr>
     | Inr tool \<Rightarrow> let (status, trees) = tool source_file; v = collect_units canonical repository_root trees in
         if status \<noteq> 0 then result\<lparr>unit_diagnostics := [''Clang failed to parse '' @ source_file]\<rparr>
         else \<lparr>unit_symbols = visitor_symbols v, unit_edges = visitor_edges v, unit_chunks = semantic_chunks v,
           unit_diagnostics = [], unit_success = True\<rparr>)"

section \<open>Storing the result\<close>

text \<open>A replacement in tables that a run of the program leads to, by what its statements do.\<close>

lemma replacement_succeeds:
  assumes "reachable_symbols t" and "replaceable p symbols edges t"
  shows "\<exists>t'. replace_file (\<lambda>n. None) p symbols edges t = (Inr (), t') \<and> symbols_table t' = other_symbols p t @ symbols \<and>
    set (edges_table t') = set (edges_table (delete_file_symbols p t)) \<union> set edges"
proof -
  have ok: "symbol_tables_ok t" using assms(1) by (rule reachable_symbols_ok)
  obtain t' where t': "run_statements (\<lambda>n. None) 0 (replacement_statements p symbols edges) t = Inr t'"
    using assms(2) replacement_runs(1) [OF ok] by blast
  then have "replace_file (\<lambda>n. None) p symbols edges t = (Inr (), t')" by (simp add: replace_file_def)
  with replacement_runs(2) [OF ok t'] show ?thesis by blast
qed

text \<open>The identity leaves out the kind and the id is a hash, so that neither is unique by construction.\<close>

definition storable :: "path \<Rightarrow> symbol_tables \<Rightarrow> ParsedTranslationUnit \<Rightarrow> bool" where
  "storable p t u = (list_all (\<lambda>s. range_path (symbol_declaration s) = p) (unit_symbols u) \<and>
     distinct (map symbol_id (unit_symbols u)) \<and> distinct (map symbol_identity (unit_symbols u)) \<and>
     list_all (\<lambda>s. list_all (\<lambda>s'. symbol_id s' \<noteq> symbol_id s) (other_symbols p t)) (unit_symbols u))"

lemma parse_edges_closed:
  assumes "parse canonical load directory file root = u" and "e \<in> set (unit_edges u)"
  shows "edge_from e \<in> symbol_id ` set (unit_symbols u) \<and> edge_to e \<in> symbol_id ` set (unit_symbols u)"
  using assms collected_edges_closed by (auto simp: parse_def Let_def split: sum.splits prod.splits if_splits)

lemma storable_replaceable:
  assumes "parse canonical load directory file root = u" and "storable p t u"
  shows "replaceable p (unit_symbols u) (unit_edges u) t"
proof -
  have "symbol_identity ` set (unit_symbols u) \<inter> symbol_identity ` set (other_symbols p t) = {}"
    using assms(2) by (auto simp: storable_def list_all_iff symbol_identity_def)
  moreover have "symbol_id ` set (unit_symbols u) \<inter> symbol_id ` set (other_symbols p t) = {}"
    using assms(2) by (fastforce simp: storable_def list_all_iff)
  moreover have "\<forall>e \<in> set (unit_edges u). edge_from e \<in> symbol_id ` set (other_symbols p t @ unit_symbols u) \<and>
      edge_to e \<in> symbol_id ` set (other_symbols p t @ unit_symbols u)"
    unfolding set_append image_Un using parse_edges_closed [OF assms(1)] by blast
  moreover have "distinct (map symbol_id (unit_symbols u))" "distinct (map symbol_identity (unit_symbols u))"
    using assms(2) by (simp_all add: storable_def)
  ultimately show ?thesis unfolding replaceable_def by blast
qed

text \<open>
  C31. What the parser returns for a file can be stored, whatever it is: a failure stores nothing, and a success
  whose symbols are declared in that file under ids and identities of their own is accepted by the
  repository, because every edge connects two symbols of the result. Then the symbols of the file are those of the
  result, all others stay, and every edge of the result is stored.
\<close>

theorem parsed_file_is_stored:
  assumes "reachable_symbols t" and "parse canonical load directory file root = u" and "storable p t u"
  shows "\<exists>t'. replace_file (\<lambda>n. None) p (unit_symbols u) (unit_edges u) t = (Inr (), t') \<and>
    filter (\<lambda>s. range_path (symbol_declaration s) = p) (symbols_table t') = unit_symbols u \<and>
    other_symbols p t' = other_symbols p t \<and> set (unit_edges u) \<subseteq> set (edges_table t') \<and>
    (\<not> unit_success u \<longrightarrow> unit_symbols u = [] \<and> unit_edges u = [] \<and> unit_chunks u = [] \<and> unit_diagnostics u \<noteq> [])"
proof -
  from replacement_succeeds [OF assms(1) storable_replaceable [OF assms(2,3)]] obtain t' where
    t': "replace_file (\<lambda>n. None) p (unit_symbols u) (unit_edges u) t = (Inr (), t')"
    "symbols_table t' = other_symbols p t @ unit_symbols u" "set (unit_edges u) \<subseteq> set (edges_table t')" by blast
  have "list_all (\<lambda>s. range_path (symbol_declaration s) = p) (unit_symbols u)" using assms(3) by (simp add: storable_def)
  then have "filter (\<lambda>s. range_path (symbol_declaration s) = p) (unit_symbols u) = unit_symbols u"
    "filter (\<lambda>s. range_path (symbol_declaration s) \<noteq> p) (unit_symbols u) = []"
    by (simp_all add: list_all_iff filter_empty_conv filter_id_conv)
  then have "filter (\<lambda>s. range_path (symbol_declaration s) = p) (symbols_table t') = unit_symbols u"
    "other_symbols p t' = other_symbols p t"
    unfolding t'(2) by simp_all
  moreover have "\<not> unit_success u \<longrightarrow> unit_symbols u = [] \<and> unit_edges u = [] \<and> unit_chunks u = [] \<and> unit_diagnostics u \<noteq> []"
    using assms(2) by (auto simp: parse_def Let_def split: sum.splits prod.splits if_splits)
  ultimately show ?thesis using t'(1,3) by blast
qed

text \<open>A function \<open>f\<close> that calls \<open>g\<close>, both defined in \<^verbatim>\<open>/r/a.cpp\<close>.\<close>

definition sample_decl :: "nat \<Rightarrow> string \<Rightarrow> 32 word \<Rightarrow> source_decl" where
  "sample_decl c name line = \<lparr>decl_canonical = c, decl_implicit = False, decl_in_main_file = True, decl_is_definition = True,
     decl_qualified_name = name, decl_short_name = name, decl_file = ''/r/a.cpp'', decl_begin_line = line,
     decl_end_line = line, decl_text = ''void '' @ name @ ''() {}''\<rparr>"

definition sample_tree :: "nat \<Rightarrow> ast" where
  "sample_tree c = Other_node [Function_node Plain_function (sample_decl c ''g'' 1) ''void ()'' [] []]"

definition sample_caller :: ast where
  "sample_caller = Function_node Plain_function (sample_decl 1 ''f'' 2) ''void ()'' [] [Other_node [Call_node (Some 0) []]]"

definition sample_parse :: "ast list \<Rightarrow> ParsedTranslationUnit" where
  "sample_parse ts = parse Some (\<lambda>d. Inr (\<lambda>f. (0, ts))) ''/r/build'' ''/r/a.cpp'' ''/r''"

lemma sample_path: "relative_or_absolute Some ''/r/a.cpp'' ''/r'' = ''a.cpp''"
  by code_simp

lemmas sample_visit = collect_units_def collect_unit_def new_visitor_def resolve_edges_def open_scope_def close_scope_def
  has_scope_def visit_function_def visit_call_def add_symbol_def add_semantic_chunk_def add_pending_def resolve_pending_def
  first_symbol_def extract_source_range_def kind_of_def sample_tree_def sample_caller_def sample_decl_def sample_path

lemmas sample_unit = Let_def sample_parse_def parse_def sample_visit

lemma sample_storable: "storable ''a.cpp'' no_symbols (sample_parse [sample_tree 0])"
  by (simp add: storable_def no_symbols_def sample_unit)

theorem parsed_file_is_stored_witness:
  "\<exists>t'. replace_file (\<lambda>n. None) ''a.cpp'' (unit_symbols (sample_parse [sample_tree 0])) (unit_edges (sample_parse [sample_tree 0])) no_symbols
      = (Inr (), t')"
  using parsed_file_is_stored [OF reachable_symbols.create sample_parse_def [symmetric] sample_storable] by blast

lemma sample_edges:
  "map edge_relation (unit_edges (sample_parse [sample_tree 0, sample_caller])) = [''calls'']"
  "map symbol_name (unit_symbols (sample_parse [sample_tree 0, sample_caller])) = [''g'', ''f'']"
  by (simp_all add: sample_unit)

text \<open>A file with two compile commands is collected twice, under ids that repeat.\<close>

lemma two_commands_repeat_ids:
  "map chunk_id (unit_chunks (sample_parse [sample_tree 0, sample_tree 2])) =
     map chunk_id (unit_chunks (sample_parse [sample_tree 0])) @ map chunk_id (unit_chunks (sample_parse [sample_tree 0]))"
  "unit_chunks (sample_parse [sample_tree 0]) \<noteq> []"
  "\<not> storable ''a.cpp'' no_symbols (sample_parse [sample_tree 0, sample_tree 2])"
  by (simp_all add: storable_def sample_unit)

end
