(* ===== verification/Embedder.thy ===== *)
theory Embedder
  imports Similarity
begin

text \<open>
  \<^verbatim>\<open>src/adapters/llama/llama_embedder.cpp\<close>: texts are tokenized with a prefix for their kind, packed
  into batches of several sequences, evaluated, and their pooled vectors normalised. The functions of
  llama.cpp are the fields of the record \<open>embedding_model\<close>; every batch has a context of its own, so
  what is read after an evaluation is a function of the batch.
\<close>

section \<open>The library\<close>

text \<open>A token of a batch, its position and its sequence.\<close>

record batch_entry =
  entry_token :: int
  entry_pos :: nat
  entry_seq :: nat

record embedding_model =
  em_tokenize :: "string \<Rightarrow> int \<Rightarrow> int \<times> int list"
  em_context :: "nat \<Rightarrow> bool"
  em_batch :: "nat \<Rightarrow> nat \<Rightarrow> bool"
  em_has_encoder :: bool
  em_encode :: "batch_entry list \<Rightarrow> int"
  em_decode :: "batch_entry list \<Rightarrow> int"
  em_pooling_none :: bool
  em_ith :: "batch_entry list \<Rightarrow> nat \<Rightarrow> float32 list option"
  em_seq :: "batch_entry list \<Rightarrow> nat \<Rightarrow> float32 list option"
  em_dimension :: nat

record EmbedderOptions =
  query_prefix :: string
  document_prefix :: string

record embedder_config =
  emb_context_size :: nat
  emb_batch_size :: nat

text \<open>
  The constructor checks the file, the model, the vocabulary and the reported dimension; \<open>None\<close> is a
  null pointer.
\<close>

definition make_embedder :: "bool \<Rightarrow> string \<Rightarrow> embedding_model option \<Rightarrow> bool \<Rightarrow> embedding_model res" where
  "make_embedder is_file path model has_vocabulary = (
     if \<not> is_file then Inl (Runtime_error (''embedding GGUF model does not exist: '' @ path))
     else case model of
       None \<Rightarrow> Inl (Runtime_error (''failed to load embedding GGUF: '' @ path))
     | Some lib \<Rightarrow> if \<not> has_vocabulary \<or> em_dimension lib = 0
         then Inl (Runtime_error ''embedding model has no vocabulary or output dimension'')
         else Inr lib)"

section \<open>Tokens\<close>

text \<open>Negating the least 32-bit integer is undefined.\<close>

definition embedding_tokenize :: "embedding_model \<Rightarrow> string \<Rightarrow> int list res" where
  "embedding_tokenize lib txt = (
     if 2147483647 < length txt then Inl (Invalid_argument ''embedding input is too large'')
     else let needed = fst (em_tokenize lib txt 0) in
       if 0 \<le> needed
         then Inl (Runtime_error ''llama_tokenize did not report required embedding token capacity'')
       else if needed = - 2147483648 then Inl (Other_exception ''undefined negation'')
       else case em_tokenize lib txt (- needed) of (cnt, written) \<Rightarrow>
         if cnt \<le> 0 then Inl (Runtime_error ''failed to tokenize embedding input'')
         else Inr (take (nat cnt) (written @ replicate (nat cnt) 0)))"

definition with_prefix :: "EmbedderOptions \<Rightarrow> string \<Rightarrow> EmbeddingKind \<Rightarrow> string res" where
  "with_prefix opts txt kind = (
     if txt = [] then Inl (Invalid_argument ''embedding input must not be empty'')
     else Inr ((case kind of Embed_query \<Rightarrow> query_prefix opts | Embed_document \<Rightarrow> document_prefix opts) @ txt))"

definition token_list :: "embedding_model \<Rightarrow> embedder_config \<Rightarrow> EmbedderOptions \<Rightarrow> EmbeddingKind \<Rightarrow>
    string \<Rightarrow> int list res" where
  "token_list lib cfg opts kind txt = res_bind (with_prefix opts txt kind) (\<lambda>full.
     res_bind (embedding_tokenize lib full) (\<lambda>tokens.
     if emb_context_size cfg < length tokens \<or> emb_batch_size cfg < length tokens
     then Inl (Invalid_argument ''embedding input exceeds configured context or batch size'')
     else Inr tokens))"

section \<open>Batches\<close>

text \<open>The inner loop: how many of the remaining token lists go into the next batch.\<close>

fun batch_length :: "nat \<Rightarrow> nat \<Rightarrow> int list list \<Rightarrow> nat" where
  "batch_length batch_size token_count [] = 0"
| "batch_length batch_size token_count (ts # rest) = (
     if token_count + length ts \<le> batch_size
     then Suc (batch_length batch_size (token_count + length ts) rest) else 0)"

definition sequence_entries :: "nat \<Rightarrow> int list \<Rightarrow> batch_entry list" where
  "sequence_entries s ts = map (\<lambda>(p, t). \<lparr>entry_token = t, entry_pos = p, entry_seq = s\<rparr>) (enumerate 0 ts)"

fun batch_entries :: "nat \<Rightarrow> int list list \<Rightarrow> batch_entry list" where
  "batch_entries s [] = []"
| "batch_entries s (ts # rest) = sequence_entries s ts @ batch_entries (s + 1) rest"

text \<open>The vectors of a batch that has been evaluated: \<open>offset\<close> is \<open>token_offset\<close>.\<close>

fun read_vectors :: "embedding_model \<Rightarrow> batch_entry list \<Rightarrow> nat \<Rightarrow> nat \<Rightarrow> int list list \<Rightarrow> Embedding list res" where
  "read_vectors lib entries s offset [] = Inr []"
| "read_vectors lib entries s offset (ts # rest) = (
     case (if em_pooling_none lib then em_ith lib entries (offset + length ts - 1) else em_seq lib entries s) of
       None \<Rightarrow> Inl (Runtime_error ''embedding model did not return a pooled vector'')
     | Some source \<Rightarrow> res_bind (l2_normalize (take (em_dimension lib) source)) (\<lambda>v.
         res_bind (read_vectors lib entries (s + 1) (offset + length ts) rest) (\<lambda>vs. Inr (v # vs))))"

definition evaluate_batch :: "embedding_model \<Rightarrow> int list list \<Rightarrow> Embedding list res" where
  "evaluate_batch lib token_lists = (
     let token_count = sum_list (map length token_lists); entries = batch_entries 0 token_lists in
     if \<not> em_context lib (length token_lists) then Inl (Runtime_error ''failed to create embedding context'')
     else if \<not> em_batch lib token_count (length token_lists)
       then Inl (Runtime_error ''failed to allocate embedding batch'')
     else let evaluation = (if em_has_encoder lib then em_encode lib entries else em_decode lib entries) in
       if evaluation \<noteq> 0
       then Inl (Runtime_error (''embedding evaluation failed with code '' @ string_of_int evaluation))
       else read_vectors lib entries 0 0 token_lists)"

function embed_batches :: "embedding_model \<Rightarrow> nat \<Rightarrow> int list list \<Rightarrow> Embedding list res" where
  "embed_batches lib batch_size token_lists = (
     if token_lists = [] then Inr []
     else let n = batch_length batch_size 0 token_lists in
       if n = 0 then Inl (Invalid_argument ''embedding batch cannot fit one input'')
       else res_bind (evaluate_batch lib (take n token_lists)) (\<lambda>vs.
         res_bind (embed_batches lib batch_size (drop n token_lists)) (\<lambda>ws. Inr (vs @ ws))))"
  by pat_completeness auto
termination
  by (relation "measure (\<lambda>(lib, batch_size, token_lists). length token_lists)") auto

declare embed_batches.simps [simp del]

definition embed_many :: "embedding_model \<Rightarrow> embedder_config \<Rightarrow> EmbedderOptions \<Rightarrow> string list \<Rightarrow>
    EmbeddingKind \<Rightarrow> Embedding list res" where
  "embed_many lib cfg opts texts kind = res_bind (res_map (token_list lib cfg opts kind) texts)
     (embed_batches lib (emb_batch_size cfg))"

definition embed_one :: "embedding_model \<Rightarrow> embedder_config \<Rightarrow> EmbedderOptions \<Rightarrow> string \<Rightarrow> EmbeddingKind \<Rightarrow>
    Embedding res" where
  "embed_one lib cfg opts txt kind = res_bind (embed_many lib cfg opts [txt] kind) (\<lambda>vs. Inr (hd vs))"

section \<open>Batches fit\<close>

lemma batch_length_le: "batch_length batch_size token_count token_lists \<le> length token_lists"
  by (induction batch_size token_count token_lists rule: batch_length.induct) simp_all

lemma batch_length_fits:
  "batch_length batch_size token_count token_lists \<noteq> 0 \<Longrightarrow>
    token_count + sum_list (map length (take (batch_length batch_size token_count token_lists) token_lists)) \<le> batch_size"
proof (induction batch_size token_count token_lists rule: batch_length.induct)
  case (2 batch_size token_count ts rest)
  then show ?case
    by (cases "batch_length batch_size (token_count + length ts) rest = 0") (auto split: if_splits)
qed simp

lemma embedding_tokenize_nonempty: "embedding_tokenize lib txt = Inr ts \<Longrightarrow> ts \<noteq> []"
  by (auto simp: embedding_tokenize_def Let_def split: if_splits prod.splits)

lemma token_list_bounds:
  "token_list lib cfg opts kind txt = Inr ts \<Longrightarrow>
    ts \<noteq> [] \<and> length ts \<le> emb_context_size cfg \<and> length ts \<le> emb_batch_size cfg"
  using embedding_tokenize_nonempty by (auto simp: token_list_def res_simps split: if_splits)

section \<open>Vectors\<close>

lemma read_vectors_sound:
  "read_vectors lib entries s offset token_lists = Inr vs \<Longrightarrow> length vs = length token_lists \<and>
    (\<forall>v \<in> set vs. is_finite_embedding v \<and> list_all (\<lambda>w. mag32 w \<le> unat f32_one) v \<and> length v \<le> em_dimension lib)"
proof (induction token_lists arbitrary: s offset vs)
  case (Cons ts rest)
  from Cons.prems obtain source v ws where
    v: "l2_normalize (take (em_dimension lib) source) = Inr v"
    and ws: "read_vectors lib entries (s + 1) (offset + length ts) rest = Inr ws" "vs = v # ws"
    by (auto simp: res_simps split: option.splits)
  from l2_normalize_sound [OF v] Cons.IH [OF ws(1)] ws(2) show ?case by simp
qed simp

lemma evaluate_batch_read:
  "evaluate_batch lib token_lists = Inr vs \<Longrightarrow> read_vectors lib (batch_entries 0 token_lists) 0 0 token_lists = Inr vs"
  by (auto simp: evaluate_batch_def Let_def split: if_splits)

lemma embed_batches_sound:
  "embed_batches lib batch_size token_lists = Inr vs \<Longrightarrow> length vs = length token_lists \<and>
    (\<forall>v \<in> set vs. is_finite_embedding v \<and> list_all (\<lambda>w. mag32 w \<le> unat f32_one) v \<and> length v \<le> em_dimension lib)"
proof (induction "length token_lists" arbitrary: token_lists vs rule: less_induct)
  case less
  let ?n = "batch_length batch_size 0 token_lists"
  show ?case
  proof (cases "token_lists = []")
    case True
    with less.prems show ?thesis by (simp add: embed_batches.simps)
  next
    case False
    with less.prems obtain us ws where n: "?n \<noteq> 0" and us: "evaluate_batch lib (take ?n token_lists) = Inr us"
      and ws: "embed_batches lib batch_size (drop ?n token_lists) = Inr ws" "vs = us @ ws"
      by (subst (asm) embed_batches.simps) (auto simp: Let_def res_simps split: if_splits)
    have "length (drop ?n token_lists) < length token_lists" using False n by simp
    from less.hyps [OF this ws(1)] read_vectors_sound [OF evaluate_batch_read [OF us]] ws(2)
      batch_length_le [of batch_size 0 token_lists] show ?thesis by auto
  qed
qed

text \<open>
  A call of the embedder that returns gives one vector per text. No vector is longer than the
  dimension of the model, and all components are finite and at most one in magnitude: the values an index
  accepts.
\<close>

lemma embeddings_are_normalised:
  assumes "embed_many lib cfg opts texts kind = Inr vs"
  shows "length vs = length texts \<and> (\<forall>v \<in> set vs. is_finite_embedding v \<and>
    list_all (\<lambda>w. mag32 w \<le> unat f32_one) v \<and> length v \<le> em_dimension lib)"
proof -
  obtain token_lists where "res_map (token_list lib cfg opts kind) texts = Inr token_lists"
    "embed_batches lib (emb_batch_size cfg) token_lists = Inr vs"
    using assms by (auto simp: embed_many_def res_simps)
  with res_map_Inr_length embed_batches_sound show ?thesis by metis
qed

section \<open>What an embedding call should do\<close>

text \<open>
  The entries of a batch, described by sequence and position; the batches, described by what fits; and
  the vector reported for a sequence: the pooled one, or without pooling that of the sequence's last token.
\<close>

abbreviation token_total :: "int list list \<Rightarrow> nat" where
  "token_total seqs \<equiv> sum_list (map length seqs)"

definition entries_of :: "int list list \<Rightarrow> batch_entry list" where
  "entries_of seqs = concat (map (\<lambda>i. map (\<lambda>p. \<lparr>entry_token = seqs ! i ! p, entry_pos = p, entry_seq = i\<rparr>)
     [0..<length (seqs ! i)]) [0..<length seqs])"

definition packed :: "nat \<Rightarrow> int list list list \<Rightarrow> bool" where
  "packed batch_size batches \<longleftrightarrow> (\<forall>b \<in> set batches. b \<noteq> [] \<and> token_total b \<le> batch_size)
     \<and> successively (\<lambda>b c. batch_size < token_total b + length (hd c)) batches"

definition reported :: "embedding_model \<Rightarrow> int list list \<Rightarrow> nat \<Rightarrow> float32 list \<Rightarrow> bool" where
  "reported lib seqs i source \<longleftrightarrow> (let entries = entries_of seqs in
     if em_pooling_none lib
     then \<exists>n < length entries. entries ! n = \<lparr>entry_token = last (seqs ! i),
         entry_pos = length (seqs ! i) - 1, entry_seq = i\<rparr> \<and> em_ith lib entries n = Some source
     else em_seq lib entries i = Some source)"

definition batch_result :: "embedding_model \<Rightarrow> int list list \<Rightarrow> Embedding list \<Rightarrow> bool" where
  "batch_result lib seqs vs \<longleftrightarrow> em_context lib (length seqs) \<and> em_batch lib (token_total seqs) (length seqs)
     \<and> (if em_has_encoder lib then em_encode lib (entries_of seqs) else em_decode lib (entries_of seqs)) = 0
     \<and> length vs = length seqs
     \<and> (\<forall>i < length seqs. \<exists>source. reported lib seqs i source
          \<and> l2_normalize (take (em_dimension lib) source) = Inr (vs ! i))"

section \<open>Entries\<close>

lemma sequence_entries_upt:
  "sequence_entries s ts = map (\<lambda>p. \<lparr>entry_token = ts ! p, entry_pos = p, entry_seq = s\<rparr>) [0..<length ts]"
  by (rule nth_equalityI) (simp_all add: sequence_entries_def nth_enumerate_eq)

lemma batch_entries_concat:
  "batch_entries s seqs = concat (map (\<lambda>i. sequence_entries (s + i) (seqs ! i)) [0..<length seqs])"
proof (induction seqs arbitrary: s)
  case (Cons ts seqs)
  have "[0..<length (ts # seqs)] = 0 # map Suc [0..<length seqs]"
    by (simp only: length_Cons map_Suc_upt upt_conv_Cons [OF zero_less_Suc])
  then show ?case using Cons [of "s + 1"] by (simp add: o_def)
qed simp

lemma batch_entries_of: "batch_entries 0 seqs = entries_of seqs"
  by (simp add: batch_entries_concat entries_of_def sequence_entries_upt)

lemma length_batch_entries [simp]: "length (batch_entries s seqs) = token_total seqs"
  by (induction s seqs rule: batch_entries.induct) (simp_all add: sequence_entries_upt)

text \<open>The entry of position \<open>p\<close> of sequence \<open>i\<close>, and every index is one of these.\<close>

lemma batch_entries_nth:
  "i < length seqs \<Longrightarrow> p < length (seqs ! i) \<Longrightarrow> batch_entries s seqs ! (token_total (take i seqs) + p)
    = \<lparr>entry_token = seqs ! i ! p, entry_pos = p, entry_seq = s + i\<rparr>"
proof (induction seqs arbitrary: s i)
  case (Cons ts seqs)
  have len: "length (sequence_entries s ts) = length ts" by (simp add: sequence_entries_upt)
  show ?case
  proof (cases i)
    case 0
    with Cons.prems show ?thesis by (simp add: nth_append len) (simp add: sequence_entries_upt)
  next
    case (Suc j)
    with Cons.prems Cons.IH [of j "s + 1"] show ?thesis by (simp add: nth_append len)
  qed
qed simp

lemma index_of_entry:
  "n < token_total seqs \<Longrightarrow> \<exists>i p. i < length seqs \<and> p < length (seqs ! i) \<and> n = token_total (take i seqs) + p"
proof (induction seqs arbitrary: n)
  case (Cons ts seqs)
  show ?case
  proof (cases "n < length ts")
    case True
    then show ?thesis by (intro exI [of _ 0] exI [of _ n]) simp
  next
    case False
    then have "n - length ts < token_total seqs" using Cons.prems by simp
    from Cons.IH [OF this] obtain i p where "i < length seqs" "p < length (seqs ! i)"
      "n - length ts = token_total (take i seqs) + p" by blast
    with False show ?thesis by (intro exI [of _ "Suc i"] exI [of _ p]) simp
  qed
qed simp

lemma last_entry:
  assumes "i < length seqs" and "seqs ! i \<noteq> []" and "n < length (entries_of seqs)"
  shows "entries_of seqs ! n = \<lparr>entry_token = last (seqs ! i), entry_pos = length (seqs ! i) - 1, entry_seq = i\<rparr>
    \<longleftrightarrow> n = token_total (take (Suc i) seqs) - 1"
proof -
  have last: "token_total (take (Suc i) seqs) - 1 = token_total (take i seqs) + (length (seqs ! i) - 1)"
    using assms(1,2) by (cases "seqs ! i") (simp_all add: take_Suc_conv_app_nth)
  from assms(3) have "n < token_total seqs" by (simp add: batch_entries_of [symmetric])
  from index_of_entry [OF this] obtain j p where n: "j < length seqs" "p < length (seqs ! j)"
    "n = token_total (take j seqs) + p" by blast
  from batch_entries_nth [OF n(1,2), of 0] n(3)
  have e: "entries_of seqs ! n = \<lparr>entry_token = seqs ! j ! p, entry_pos = p, entry_seq = j\<rparr>"
    by (simp add: batch_entries_of)
  show ?thesis
  proof
    assume "entries_of seqs ! n =
      \<lparr>entry_token = last (seqs ! i), entry_pos = length (seqs ! i) - 1, entry_seq = i\<rparr>"
    with e n(3) last show "n = token_total (take (Suc i) seqs) - 1" by simp
  next
    assume "n = token_total (take (Suc i) seqs) - 1"
    with last have "n = token_total (take i seqs) + (length (seqs ! i) - 1)" by simp
    with batch_entries_nth [OF assms(1), of "length (seqs ! i) - 1" 0] assms(2)
    show "entries_of seqs ! n =
      \<lparr>entry_token = last (seqs ! i), entry_pos = length (seqs ! i) - 1, entry_seq = i\<rparr>"
      by (simp add: batch_entries_of last_conv_nth)
  qed
qed

lemma token_total_take:
  assumes "i < length seqs" and "seqs ! i \<noteq> []"
  shows "0 < token_total (take (Suc i) seqs)" "token_total (take (Suc i) seqs) - 1 < length (entries_of seqs)"
proof -
  show pos: "0 < token_total (take (Suc i) seqs)" using assms by (simp add: take_Suc_conv_app_nth)
  have "token_total (take (Suc i) seqs) \<le> token_total seqs"
    by (metis append_take_drop_id le_add1 map_append sum_list_append)
  with pos show "token_total (take (Suc i) seqs) - 1 < length (entries_of seqs)"
    by (simp add: batch_entries_of [symmetric])
qed

lemma reported_iff:
  assumes "i < length seqs" and "seqs ! i \<noteq> []"
  shows "reported lib seqs i source \<longleftrightarrow> (if em_pooling_none lib
    then em_ith lib (entries_of seqs) (token_total (take (Suc i) seqs) - 1)
    else em_seq lib (entries_of seqs) i) = Some source"
  using last_entry [OF assms] token_total_take(2) [OF assms] unfolding reported_def Let_def by metis

section \<open>One batch\<close>

lemma read_vectors_iff:
  "read_vectors lib entries s offset seqs = Inr vs \<longleftrightarrow> length vs = length seqs \<and>
    (\<forall>i < length seqs. \<exists>source. (if em_pooling_none lib
        then em_ith lib entries (offset + token_total (take (Suc i) seqs) - 1)
        else em_seq lib entries (s + i)) = Some source
      \<and> l2_normalize (take (em_dimension lib) source) = Inr (vs ! i))"
proof (induction seqs arbitrary: s offset vs)
  case (Cons ts seqs)
  have IH: "read_vectors lib entries (s + 1) (offset + length ts) seqs = Inr ws \<longleftrightarrow> length ws = length seqs \<and>
      (\<forall>i < length seqs. \<exists>source. (if em_pooling_none lib
        then em_ith lib entries (offset + token_total (take (Suc (Suc i)) (ts # seqs)) - 1)
        else em_seq lib entries (s + Suc i)) = Some source
      \<and> l2_normalize (take (em_dimension lib) source) = Inr (ws ! i))" for ws
    using Cons.IH [of "s + 1" "offset + length ts" ws] by (simp add: add.assoc)
  show ?case
  proof (cases vs)
    case Nil
    then show ?thesis by (auto simp: res_simps split: option.splits)
  next
    case (Cons v ws)
    have "read_vectors lib entries s offset (ts # seqs) = Inr vs \<longleftrightarrow>
        (\<exists>source. (if em_pooling_none lib then em_ith lib entries (offset + length ts - 1)
           else em_seq lib entries s) = Some source \<and> l2_normalize (take (em_dimension lib) source) = Inr v)
        \<and> read_vectors lib entries (s + 1) (offset + length ts) seqs = Inr ws"
      unfolding Cons by (auto simp: res_simps split: option.splits)
    also have "\<dots> \<longleftrightarrow> length vs = length (ts # seqs) \<and>
        (\<forall>i < length (ts # seqs). \<exists>source. (if em_pooling_none lib
          then em_ith lib entries (offset + token_total (take (Suc i) (ts # seqs)) - 1)
          else em_seq lib entries (s + i)) = Some source
        \<and> l2_normalize (take (em_dimension lib) source) = Inr (vs ! i))"
      unfolding IH Cons length_Cons All_less_Suc2 by (simp add: conj_ac)
    finally show ?thesis .
  qed
qed auto

lemma evaluate_batch_iff:
  assumes "\<forall>ts \<in> set seqs. ts \<noteq> []"
  shows "evaluate_batch lib seqs = Inr vs \<longleftrightarrow> batch_result lib seqs vs"
proof -
  have "(\<exists>source. (if em_pooling_none lib
      then em_ith lib (entries_of seqs) (0 + token_total (take (Suc i) seqs) - 1)
      else em_seq lib (entries_of seqs) (0 + i)) = Some source \<and> P source)
      \<longleftrightarrow> (\<exists>source. reported lib seqs i source \<and> P source)" if "i < length seqs" for i P
    using reported_iff [OF that] assms that by simp
  then show ?thesis
    unfolding evaluate_batch_def batch_result_def Let_def batch_entries_of read_vectors_iff
    by (simp add: read_vectors_iff)
qed

section \<open>All batches\<close>

lemma batch_length_greedy:
  assumes "c + token_total b \<le> batch_size"
    and "rest = [] \<or> batch_size < c + token_total b + length (hd rest)"
  shows "batch_length batch_size c (b @ rest) = length b"
  using assms
proof (induction b arbitrary: c)
  case Nil
  then show ?case by (cases rest) auto
next
  case (Cons ts b)
  from Cons.IH [of "c + length ts"] Cons.prems show ?case by (simp add: add.assoc)
qed

lemma batch_length_maximal:
  "drop (batch_length batch_size c seqs) seqs \<noteq> [] \<Longrightarrow>
    batch_size < c + token_total (take (batch_length batch_size c seqs) seqs)
      + length (hd (drop (batch_length batch_size c seqs) seqs))"
proof (induction batch_size c seqs rule: batch_length.induct)
  case (2 batch_size c ts seqs)
  then show ?case by (auto simp: add.assoc split: if_splits)
qed simp

lemma packed_Cons:
  "packed n (b # bs) \<longleftrightarrow> b \<noteq> [] \<and> token_total b \<le> n \<and> packed n bs
    \<and> (concat bs = [] \<or> n < token_total b + length (hd (concat bs)))"
proof (cases bs)
  case (Cons c cs)
  then show ?thesis by (cases c) (auto simp: packed_def)
qed (simp add: packed_def)

lemma embed_batches_iff:
  "\<forall>ts \<in> set token_lists. ts \<noteq> [] \<Longrightarrow> embed_batches lib n token_lists = Inr vs \<longleftrightarrow>
    (\<exists>batches results. concat batches = token_lists \<and> packed n batches
      \<and> list_all2 (batch_result lib) batches results \<and> vs = concat results)"
proof (induction "length token_lists" arbitrary: token_lists vs rule: less_induct)
  case less
  let ?k = "batch_length n 0 token_lists"
  let ?b = "take ?k token_lists" and ?rest = "drop ?k token_lists"
  show ?case
  proof (cases "token_lists = []")
    case True
    have "(\<exists>batches results. concat batches = [] \<and> packed n batches
        \<and> list_all2 (batch_result lib) batches results \<and> vs = concat results) \<longleftrightarrow> vs = []"
    proof
      assume "\<exists>batches results. concat batches = [] \<and> packed n batches
        \<and> list_all2 (batch_result lib) batches results \<and> vs = concat results"
      then obtain batches results where bs: "concat batches = []" "packed n batches"
        "list_all2 (batch_result lib) batches results" "vs = concat results" by blast
      from bs(1,2) have "batches = []" by (cases batches) (auto simp: packed_def)
      with bs(3,4) show "vs = []" by simp
    next
      assume "vs = []"
      then show "\<exists>batches results. concat batches = [] \<and> packed n batches
        \<and> list_all2 (batch_result lib) batches results \<and> vs = concat results"
        by (intro exI [of _ "[]"]) (simp add: packed_def)
    qed
    with True show ?thesis by (auto simp: embed_batches.simps)
  next
    case False
    have ne: "\<forall>ts \<in> set ?b. ts \<noteq> []" "\<forall>ts \<in> set ?rest. ts \<noteq> []"
      using less.prems by (auto dest: in_set_takeD in_set_dropD)
    note step = embed_batches.simps [of lib n token_lists]
    show ?thesis
    proof
      assume "embed_batches lib n token_lists = Inr vs"
      then obtain us ws where k: "?k \<noteq> 0" and us: "batch_result lib ?b us"
        and ws: "embed_batches lib n ?rest = Inr ws" "vs = us @ ws"
        using step False evaluate_batch_iff [OF ne(1)] by (auto simp: Let_def res_simps split: if_splits)
      have "length ?rest < length token_lists" using False k by simp
      from less.hyps [OF this ne(2)] ws(1) obtain batches results where
        rest: "concat batches = ?rest" "packed n batches" "list_all2 (batch_result lib) batches results"
        "ws = concat results" by blast
      have "packed n (?b # batches)"
        using rest(1,2) k False batch_length_fits [of n 0 token_lists] batch_length_maximal [of n 0 token_lists]
        unfolding packed_Cons by auto
      with rest us ws(2) show "\<exists>batches results. concat batches = token_lists \<and> packed n batches
          \<and> list_all2 (batch_result lib) batches results \<and> vs = concat results"
        by (intro exI [of _ "?b # batches"] exI [of _ "us # results"]) simp
    next
      assume "\<exists>batches results. concat batches = token_lists \<and> packed n batches
          \<and> list_all2 (batch_result lib) batches results \<and> vs = concat results"
      then obtain bl rl where bl: "concat bl = token_lists" "packed n bl" "list_all2 (batch_result lib) bl rl"
        "vs = concat rl" by blast
      then obtain b batches where "bl = b # batches" using False by (cases bl) auto
      with bl(3) obtain us results where "rl = us # results" by (cases rl) auto
      with bl \<open>bl = b # batches\<close> have bs: "b @ concat batches = token_lists" "packed n (b # batches)"
        "batch_result lib b us" "list_all2 (batch_result lib) batches results" "vs = us @ concat results"
        by simp_all
      have k: "?k = length b"
        using bs(1,2) batch_length_greedy [of 0 b n "concat batches"] unfolding packed_Cons by auto
      then have b: "?b = b" "?rest = concat batches" using bs(1) by auto
      have "length ?rest < length token_lists" using False k bs(2) unfolding packed_Cons by auto
      have "packed n batches" using bs(2) unfolding packed_Cons by blast
      with less.hyps [OF \<open>length ?rest < length token_lists\<close> ne(2), of "concat results"] bs(4) b(2)
      have "embed_batches lib n ?rest = Inr (concat results)" by metis
      moreover have "evaluate_batch lib ?b = Inr us" using evaluate_batch_iff [OF ne(1)] bs(3) b(1) by simp
      moreover have "?k \<noteq> 0" using k bs(2) unfolding packed_Cons by simp
      ultimately show "embed_batches lib n token_lists = Inr vs" using step False bs(5) by simp
    qed
  qed
qed

lemma res_map_list_all2: "res_map f xs = Inr ys \<longleftrightarrow> list_all2 (\<lambda>x y. f x = Inr y) xs ys"
  by (induction xs arbitrary: ys) (auto simp: res_simps list_all2_Cons1)

text \<open>
  C27. A call of the embedder returns vectors exactly when every text can be tokenized within the limits
  and every batch could be created, evaluated and read. The texts are packed in their order into batches
  that are never empty, never exceed the batch size and end only where the next text would not fit; the
  batch of a context holds exactly the tokens of its texts, each with the sequence and position of its
  own text; and the vectors are, text by text, the normalised vector the library reports for the text's
  own sequence (its last token, if the model does not pool).
\<close>

theorem embedding_packs_texts:
  "embed_many lib cfg opts texts kind = Inr vs \<longleftrightarrow> (\<exists>batches results.
     list_all2 (\<lambda>txt ts. token_list lib cfg opts kind txt = Inr ts) texts (concat batches)
     \<and> packed (emb_batch_size cfg) batches
     \<and> list_all2 (batch_result lib) batches results \<and> vs = concat results)"
proof -
  let ?tokenized = "\<lambda>tls. list_all2 (\<lambda>txt ts. token_list lib cfg opts kind txt = Inr ts) texts tls"
  have ne: "\<forall>ts \<in> set tls. ts \<noteq> []" if "?tokenized tls" for tls
    using that by (induction rule: list_all2_induct) (auto dest: token_list_bounds)
  have "embed_many lib cfg opts texts kind = Inr vs \<longleftrightarrow>
      (\<exists>tls. ?tokenized tls \<and> embed_batches lib (emb_batch_size cfg) tls = Inr vs)"
    unfolding embed_many_def res_bind_eq_Inr_iff res_map_list_all2 ..
  also have "\<dots> \<longleftrightarrow> (\<exists>tls. ?tokenized tls \<and> (\<exists>batches results. concat batches = tls
      \<and> packed (emb_batch_size cfg) batches \<and> list_all2 (batch_result lib) batches results
      \<and> vs = concat results))"
    using embed_batches_iff [OF ne] by blast
  also have "\<dots> \<longleftrightarrow> (\<exists>batches results. ?tokenized (concat batches)
      \<and> packed (emb_batch_size cfg) batches \<and> list_all2 (batch_result lib) batches results
      \<and> vs = concat results)" by blast
  finally show ?thesis .
qed

section \<open>A concrete library\<close>

text \<open>One token per character; the vector of a sequence counts its tokens.\<close>

definition counting_model :: embedding_model where
  "counting_model = \<lparr>em_tokenize = (\<lambda>txt n. if n < int (length txt) then (- int (length txt), [])
       else (int (length txt), map of_char txt)),
     em_context = (\<lambda>n. True), em_batch = (\<lambda>m n. True), em_has_encoder = False,
     em_encode = (\<lambda>es. 1), em_decode = (\<lambda>es. 0), em_pooling_none = False, em_ith = (\<lambda>es i. None),
     em_seq = (\<lambda>es i. Some [f32_of_nat (length (filter (\<lambda>e. entry_seq e = i) es))]), em_dimension = 1\<rparr>"

lemma normalize_one: "\<exists>w. l2_normalize [f32_one] = Inr [w]"
proof -
  have fin: "is_finite_embedding [f32_one]"
    by (simp add: is_finite_embedding_def f32_isfinite_def fp_isfinite_def fp_mag_def binary32_def)
  have "\<not> f64_le (f64_sqrt (squared_sum [f32_one])) smallest_norm"
    by (rule norm_of_one [OF fin]) simp
  with fin show ?thesis by (simp add: l2_normalize_def Let_def)
qed

lemma embeddings_are_normalised_example:
  "\<exists>vs. embed_many counting_model \<lparr>emb_context_size = 8, emb_batch_size = 5\<rparr>
      \<lparr>query_prefix = [], document_prefix = []\<rparr> [''a''] Embed_query = Inr vs \<and> length vs = 1 \<and>
    (\<forall>v \<in> set vs. is_finite_embedding v)"
proof -
  let ?cfg = "\<lparr>emb_context_size = 8, emb_batch_size = 5\<rparr>" and ?opts = "\<lparr>query_prefix = [], document_prefix = []\<rparr>"
  obtain w where w: "l2_normalize [f32_one] = Inr [w]" using normalize_one by blast
  have one: "f32_of_nat (length [97 :: int]) = f32_one" by (simp add: f32_of_nat_def fp_round_one(2) [of 0, simplified])
  have "token_list counting_model ?cfg ?opts Embed_query ''a'' = Inr [97]"
    by (simp add: token_list_def with_prefix_def embedding_tokenize_def counting_model_def)
  then have "embed_many counting_model ?cfg ?opts [''a''] Embed_query = Inr [[w]]"
    using w one by (simp add: embed_many_def embed_batches.simps evaluate_batch_def sequence_entries_def
      counting_model_def)
  from embeddings_are_normalised [OF this] this show ?thesis by simp
qed
theorem embedding_packs_texts_witness:
  "\<exists>vs batches. embed_many counting_model \<lparr>emb_context_size = 8, emb_batch_size = 1\<rparr>
      \<lparr>query_prefix = [], document_prefix = []\<rparr> [''a'', ''a''] Embed_query = Inr vs \<and> length vs = 2 \<and>
    concat batches = [[97], [97]] \<and> packed 1 batches \<and>
    list_all2 (\<lambda>b rs. batch_result counting_model b rs) batches (map (\<lambda>v. [v]) vs)"
proof -
  let ?cfg = "\<lparr>emb_context_size = 8, emb_batch_size = 1\<rparr>" and ?opts = "\<lparr>query_prefix = [], document_prefix = []\<rparr>"
  obtain w where w: "l2_normalize [f32_one] = Inr [w]" using normalize_one by blast
  have one: "f32_of_nat (length [97 :: int]) = f32_one" by (simp add: f32_of_nat_def fp_round_one(2) [of 0, simplified])
  have t: "token_list counting_model ?cfg ?opts Embed_query ''a'' = Inr [97]"
    by (simp add: token_list_def with_prefix_def embedding_tokenize_def counting_model_def)
  then have e: "embed_many counting_model ?cfg ?opts [''a'', ''a''] Embed_query = Inr [[w], [w]]"
    using w one by (simp add: embed_many_def embed_batches.simps evaluate_batch_def sequence_entries_def
      counting_model_def)
  from embedding_packs_texts [THEN iffD1, OF e] obtain batches results where
    b: "list_all2 (\<lambda>txt ts. token_list counting_model ?cfg ?opts Embed_query txt = Inr ts) [''a'', ''a''] (concat batches)"
      "packed 1 batches" "list_all2 (batch_result counting_model) batches results" "[[w], [w]] = concat results"
    by auto
  from b(1) t have c: "concat batches = [[97], [97]]" by (auto simp: list_all2_Cons1)
  have one_each: "length b = 1" if "b \<in> set batches" for b
  proof -
    from that c have "set b \<subseteq> {[97]}" by (metis UN_I in_set_conv_decomp list.set_intros(1) list.simps(15)
      set_concat subsetI empty_set insert_absorb2)
    then have "token_total b = length b" by (induction b) auto
    moreover have "b \<noteq> []" "token_total b \<le> 1" using that b(2) unfolding packed_def by blast+
    ultimately show ?thesis by (cases b) simp_all
  qed
  from b(3) one_each have "list_all (\<lambda>r. length r = 1) results"
    by (induction rule: list_all2_induct) (auto simp: batch_result_def)
  then have "results = map (\<lambda>v. [v]) (concat results)"
    by (induction results) (auto simp: length_Suc_conv)
  with b(2-4) c e show ?thesis by (metis One_nat_def length_Cons list.size(3) numeral_2_eq_2)
qed

end
