(* ===== verification/Spec2Isabelle.thy ===== *)
theory Spec2Isabelle
  imports Server_Startup Benchmarks Interrupts Clang_Parser Embedder
begin

text \<open>
  A verification development of llamacodelab, a C++ program that answers questions about a source
  repository with local language models.

  \<^bold>\<open>The program.\<close> Indexing: \<^verbatim>\<open>FileScanner\<close> walks the repository, \<^verbatim>\<open>chunk_text\<close> or the Clang parser cuts files
  into chunks, \<^verbatim>\<open>LlamaEmbedder\<close> computes vectors, and \<^verbatim>\<open>IndexService::update\<close> stores chunks and metadata in SQLite
  (\<^verbatim>\<open>SqliteChunkRepository\<close>), symbols and calls in a second database (\<^verbatim>\<open>SqliteSymbolRepository\<close>), vectors in a file
  (\<^verbatim>\<open>vector_file.cpp\<close>) and publishes a snapshot with an in-memory index, exact (\<^verbatim>\<open>BruteForceIndex\<close>) or approximate
  (\<^verbatim>\<open>HnswIndex\<close>). Answering: a retriever (vector, full-text, hybrid by reciprocal-rank fusion, symbol graph)
  finds chunks, optionally reordered by \<^verbatim>\<open>LlamaReranker\<close>; \<^verbatim>\<open>AskService\<close> builds a prompt within the token budget
  and runs \<^verbatim>\<open>LlamaGenerator\<close>, whose tokens are streamed as UTF-8. \<^verbatim>\<open>HttpServer\<close> exposes searching, asking and indexing,
  generations being serialised by \<^verbatim>\<open>GenerationQueue\<close>; \<^verbatim>\<open>ChatSession\<close>, \<^verbatim>\<open>PromptBuilder\<close> and \<^verbatim>\<open>LlamaChatTemplate\<close> serve
  the chat. Two programs put the parts together: \<^verbatim>\<open>apps/server/main.cpp\<close> and \<^verbatim>\<open>apps/cli/main.cpp\<close>.

  \<^bold>\<open>Theories.\<close> Shared:
  \<^item> \<open>Prelude\<close>: exceptions as \<open>'a res = exn + 'a\<close>, wrapping \<open>size_t\<close> arithmetic, decimal printing, C strings,
    \<open>std::sort\<close> with the locale \<open>comparator\<close>.
  \<^item> \<open>Floats\<close>: IEEE binary32 and binary64 on bit patterns (rounding to nearest even); rounding is exact on
    representable values and monotone, hence so are sums, quotients and conversions.
  \<^item> \<open>Hashing\<close> (\<^verbatim>\<open>src/support/hash.cpp\<close>), \<open>Paths\<close> (\<^verbatim>\<open>std::filesystem::path\<close>, POSIX), \<open>Json\<close> (the values and conversions
    of the JSON library), \<open>Domain\<close> and \<open>Similarity\<close> (\<^verbatim>\<open>include/llamacodelab/domain\<close>, \<^verbatim>\<open>src/domain/similarity.cpp\<close>).

  Components, each named after its source and with one definition per function or handler:
  \<^item> \<open>Text_Chunker\<close>, \<open>File_Scanner\<close> (\<^verbatim>\<open>src/adapters/filesystem\<close>): chunks cover the file exactly and have injective keys; the
    glob table decides the pattern language; a scan returns exactly the accepted files.
  \<^item> \<open>Chunk_Repository\<close>, \<open>Sqlite_Chunks\<close>, \<open>Fts_Search\<close> (\<^verbatim>\<open>src/adapters/memory\<close>, \<^verbatim>\<open>src/adapters/sqlite\<close>): the interface
    \<^verbatim>\<open>IChunkRepository\<close> is the locale \<open>chunk_repository\<close>, interpreted by both implementations; the tables with keys,
    cascades, triggers and transactions keep the full-text table a mirror of the chunks; search expressions are
    well-formed whatever is typed, hits are stored chunks.
  \<^item> \<open>Sqlite_Calls\<close> (the helpers of the three SQLite adapters): which result codes become exceptions; a loop that checks the
    last code delivers all rows or fails, the others return what came before a failure.
  \<^item> \<open>Vector_Index\<close>, \<open>Vector_File\<close> (\<^verbatim>\<open>src/adapters/vector\<close>): the locales \<open>vector_store\<close> and \<open>exact_index\<close>, refined by the
    brute-force index with its swap-with-last erase; the file format round-trips, detects truncation and is
    replaced atomically.
  \<^item> \<open>Embedder\<close>, \<open>Reranker\<close>, \<open>Chat_Template\<close>, \<open>Utf8_Stream\<close>, \<open>Generator\<close> (\<^verbatim>\<open>src/adapters/llama\<close>): texts
    are packed in order into batches and each gets the normalised vector of its own sequence, ratings order the candidates, formatted prompts are complete, the token stream
    is the repaired UTF-8 of the texts of the generated tokens however it is cut, generations return.
  \<^item> \<open>Chat_Session\<close>, \<open>Prompt_Builder\<close>, \<open>Generation_Queue\<close>, \<open>Context_Budget\<close>, \<open>Ask_Service\<close>, \<open>Retrieval\<close>,
    \<open>Index_Service\<close> (\<^verbatim>\<open>src/application\<close>): the state machine of a session; most recent messages kept; the queue
    in all interleavings of submitters, stoppers and worker; prompts within budget; answers cite stored chunks; fusion
    respects dominance (locale \<open>ranked_retriever\<close>); an update keeps database and vector file consistent at
    every point of failure it notices and synchronises them with the scan when it succeeds. The failures are those of the
    start, of each query (\<open>read_outcome\<close>: complete, refused, or cut short after some rows, which the code takes for the
    end), of each call on files, and of each call that writes to a database.
  \<^item> \<open>Update_Runs\<close> (\<^verbatim>\<open>index_service.cpp\<close> again, one effect at a time): the steps of an update are the functions
    \<open>update\<close> is composed of; updates that do not overlap keep the index consistent in every interleaving with crashes, two that
    overlap, which the code allows, do not, and neither does one whose reading of the active generation is cut short.
  \<^item> \<open>Hnsw_Index\<close>, \<open>Index_Snapshot\<close> (\<^verbatim>\<open>hnsw_index.cpp\<close>, the end of \<^verbatim>\<open>index_service.cpp\<close>): over any library that keeps the
    contract \<open>library_ok\<close> the approximate index is a map of bounded capacity and survives saving and loading, and what each failure of
    a save leaves is stated; a successful
    update publishes an index of the configured kind for exactly the stored chunks.
  \<^item> \<open>Symbol_Repository\<close> (\<^verbatim>\<open>sqlite_symbol_repository.cpp\<close>), \<open>Symbol_Visitor\<close>, \<open>Clang_Parser\<close> (\<^verbatim>\<open>src/adapters/clang\<close>): replacing the
    symbols of a file is all or nothing; the visitor with its stack and pending edges computes a reference recursion over
    the syntax tree; what a parse returns is accepted by the repository.
  \<^item> \<open>Configuration\<close> (\<^verbatim>\<open>src/support/config.cpp\<close>), \<open>Http_Server\<close> (\<^verbatim>\<open>src/adapters/http\<close>): loading succeeds exactly
    on valid documents, with the documented defaults for what is missing; what each status of a completion means and the
    shape of event streams.

  \<^item> \<open>Model_Loading\<close> (the constructor of \<^verbatim>\<open>LlamaGenerator\<close>, \<^verbatim>\<open>llama_runtime.cpp\<close>, \<^verbatim>\<open>logging.cpp\<close>), \<open>Evaluation\<close>
    (\<^verbatim>\<open>src/domain/evaluation.cpp\<close>): checks at start-up, one logger; percentiles and ranking metrics computed in double precision.

  The programs:
  \<^item> \<open>Server\<close> (\<^verbatim>\<open>apps/server/main.cpp\<close>): the callbacks of the HTTP server over the state an update leaves; searches return the
    chunks of their hits, answers cite stored chunks.
  \<^item> \<open>Command_Line\<close> (\<^verbatim>\<open>apps/cli/main.cpp\<close>): the commands with their exit codes; answers cite ranges of lines of scanned files, chat
    turns are parsed without loss, a chat ends in the state of its session.
  \<^item> \<open>Command_Arguments\<close> (both \<^verbatim>\<open>main\<close> functions): the options, their defaults and checks, and the text that is printed; what is
    accepted is in range, so that the generator's own checks of whole numbers never fail.
  \<^item> \<open>Interrupts\<close> (\<^verbatim>\<open>apps/cli/main.cpp\<close>): the bridge thread between the signal handler and the stop of a generation, in all
    interleavings.
  \<^item> \<open>Server_Startup\<close> (\<^verbatim>\<open>apps/server/main.cpp\<close>): the adapters in the order of their construction, the first update, the exit
    code; a server that listens has an index.
  \<^item> \<open>Benchmarks\<close> (\<^verbatim>\<open>benchmarks\<close>): the three programs; the recall that is measured is that of the metric, percentiles are never
    read out of range, the peak of the memory is always printed as zero.

  \<^bold>\<open>Conventions.\<close> A class is a \<open>record\<close>, a method a function from the state to the new state and a result; an
  exception is \<open>Inl\<close>. Words keep the width of the source's integers where overflow is possible; \<open>size_t\<close> values that
  only count elements in memory are \<open>nat\<close>. Strings are lists of bytes. Concurrency is modelled where
  threads meet: in \<open>Generation_Queue\<close> as steps over critical sections, in \<open>Update_Runs\<close> as the effects of updates that requests
  start, in \<open>Interrupts\<close> as single accesses; other classes are called under a lock or from one thread. Sorting
  and hash maps whose iteration order is visible take the order as an argument. Code outside the repository
  (llama.cpp, SQLite's full-text engine, the JSON parser, cpp-httplib, the file system, clocks) is an argument, with what
  is relied on as a named hypothesis; SQL statements are read by their documented semantics.

  \<^bold>\<open>Bounds and termination.\<close> Loops are structural or terminate by a measure. The prefill loop, which would not
  end for a batch size of zero, is a partial function, proved to return for positive sizes (which
  \<open>Configuration\<close> enforces). The search for parent directories in \<open>File_Scanner\<close> takes fuel equal to the length of the path,
  which every parent shortens.

  \<^bold>\<open>Not modelled.\<close> How the command line is split into options (the library CLI11), the socket of the server, its answer to
  signals, the lines written to the log, the release of handles and the tests. A step of \<open>Update_Runs\<close> reads all it reads, or
  writes one file, at once; the failures within are those of \<open>Vector_File\<close> and \<open>Index_Service\<close>. A statement of a call that writes
  to the chunk database fails by itself only for a duplicate key; its other failures are those of the call as a whole, which
  the transaction around it undoes. Queries of the chunk database outside an update are taken to be complete. The approximate search of hnswlib has no
  exact specification: of its quality nothing is claimed, only that its hits are live, distinct and ordered. The server's
  answer callback is modelled with a stop that is requested before or not at all; stops while tokens are produced are
  modelled in \<open>Generator\<close> and \<open>Http_Server\<close> separately.
\<close>

end
